(* ===== verification/Prelude.thy ===== *)
theory Prelude
  imports Complex_Main "HOL-Library.Multiset" "HOL-Library.Sublist"
begin

text \<open>
  What the component theories share: the Python behaviours the source relies on
  (exceptions as values, rounding, integer conversion, ASCII string operations, decimal
  printing and parsing, insertion-ordered dictionaries), and generic lemmas on them.

  Conventions of the whole development.
  \<^item> A Python \<^verbatim>\<open>int\<close> is an \<open>int\<close> (or a \<open>nat\<close> where the code can only produce
    counts). A Python \<^verbatim>\<open>float\<close> is a \<open>real\<close>: the arithmetic is exact, the binary64
    rounding of intermediate results is not modelled. Decimal constants are exact.
  \<^item> A Python exception is the \<open>Inl\<close> of a sum, a value its \<open>Inr\<close>.
  \<^item> A \<^verbatim>\<open>str\<close> is a \<open>string\<close>; case conversion and digit tests are those of ASCII.
  \<^item> A \<^verbatim>\<open>dict\<close> is an association list in insertion order without repeated keys, read
    with \<open>map_of\<close>.
\<close>

named_theorems py_simps \<open>equations of the Python helpers, for evaluating closed terms\<close>

section \<open>Exceptions\<close>

datatype py_error =
    TypeError | KeyError | ValueError | ZeroDivisionError | IndexError
  | AttributeError | RuntimeError | AssertionError | UnboundLocalError | IntegrityError | OverflowError
  | HTTPException int string

definition py_bind :: "'e + 'a \<Rightarrow> ('a \<Rightarrow> 'e + 'b) \<Rightarrow> 'e + 'b" where
  "py_bind m f = (case m of Inl e \<Rightarrow> Inl e | Inr x \<Rightarrow> f x)"

lemma py_bind_simps [simp, py_simps]:
  "py_bind (Inl e) f = Inl e" "py_bind (Inr x) f = f x"
  by (simp_all add: py_bind_def)

lemma py_bind_Inr_iff: "py_bind m f = Inr y \<longleftrightarrow> (\<exists>x. m = Inr x \<and> f x = Inr y)"
  by (cases m) auto

lemma py_bind_Inl_iff:
  "py_bind m f = Inl e \<longleftrightarrow> m = Inl e \<or> (\<exists>x. m = Inr x \<and> f x = Inl e)"
  by (cases m) auto

section \<open>Numbers\<close>

text \<open>\<^verbatim>\<open>round(x)\<close>: to the nearest integer, ties to the even one.\<close>

definition py_round :: "real \<Rightarrow> int" where
  "py_round x =
     (let f = \<lfloor>x\<rfloor>; d = x - of_int f
      in if d < 1 / 2 then f
         else if 1 / 2 < d then f + 1
         else if even f then f else f + 1)"

text \<open>\<^verbatim>\<open>int(x)\<close> of a float: truncation towards zero.\<close>

definition py_int :: "real \<Rightarrow> int" where
  "py_int x = (if 0 \<le> x then \<lfloor>x\<rfloor> else \<lceil>x\<rceil>)"

lemma py_round_of_int [simp]: "py_round (of_int n) = n"
  by (simp add: py_round_def)

lemma py_round_numeral [simp]:
  "py_round 0 = 0" "py_round 1 = 1" "py_round (numeral k) = numeral k"
  by (simp_all add: py_round_def)

lemma py_round_near: "\<bar>of_int (py_round x) - x\<bar> \<le> 1 / 2"
proof -
  have "of_int \<lfloor>x\<rfloor> \<le> x" "x < of_int \<lfloor>x\<rfloor> + 1" by linarith+
  then show ?thesis by (auto simp: py_round_def Let_def)
qed

lemma py_round_mono: "x \<le> y \<Longrightarrow> py_round x \<le> py_round y"
proof (rule ccontr)
  assume xy: "x \<le> y" and "\<not> py_round x \<le> py_round y"
  then have lt: "py_round y + 1 \<le> py_round x" by simp
  then have "of_int (py_round y) + 1 \<le> (of_int (py_round x) :: real)"
    by (metis of_int_1 of_int_add of_int_le_iff)
  with py_round_near [of x] py_round_near [of y] xy
  have eq: "x = y" by (auto simp: abs_le_iff)
  with lt show False by simp
qed

lemma py_round_nonneg: "0 \<le> x \<Longrightarrow> 0 \<le> py_round x"
  using py_round_mono [of 0 x] by simp

lemma py_round_le_of_int: "x \<le> of_int n \<Longrightarrow> py_round x \<le> n"
  using py_round_mono [of x "of_int n"] by simp

lemma py_round_ge_of_int: "of_int n \<le> x \<Longrightarrow> n \<le> py_round x"
  using py_round_mono [of "of_int n" x] by simp

lemma py_int_of_int [simp]: "py_int (of_int n) = n"
  by (simp add: py_int_def)

lemma py_int_nonneg: "0 \<le> x \<Longrightarrow> 0 \<le> py_int x"
  by (simp add: py_int_def)

lemma py_int_le: "0 \<le> x \<Longrightarrow> of_int (py_int x) \<le> x"
  by (simp add: py_int_def)

section \<open>Strings\<close>

definition digit_char :: "nat \<Rightarrow> char" where
  "digit_char d = char_of (48 + d)"

definition is_digit :: "char \<Rightarrow> bool" where
  "is_digit c \<longleftrightarrow> 48 \<le> (of_char c :: nat) \<and> (of_char c :: nat) \<le> 57"

definition digit_val :: "char \<Rightarrow> nat" where
  "digit_val c = of_char c - 48"

definition upper_char :: "char \<Rightarrow> char" where
  "upper_char c = (if 97 \<le> (of_char c :: nat) \<and> (of_char c :: nat) \<le> 122
                   then char_of (of_char c - (32 :: nat)) else c)"

definition lower_char :: "char \<Rightarrow> char" where
  "lower_char c = (if 65 \<le> (of_char c :: nat) \<and> (of_char c :: nat) \<le> 90
                   then char_of (of_char c + (32 :: nat)) else c)"

definition str_upper :: "string \<Rightarrow> string" where
  "str_upper s = map upper_char s"

definition str_lower :: "string \<Rightarrow> string" where
  "str_lower s = map lower_char s"

definition str_isdigit :: "string \<Rightarrow> bool" where
  "str_isdigit s \<longleftrightarrow> s \<noteq> [] \<and> list_all is_digit s"

text \<open>\<^verbatim>\<open>hmac.compare_digest\<close> (also \<^verbatim>\<open>secrets.compare_digest\<close>) takes strings of ASCII characters only and raises on others.\<close>

definition is_ascii :: "string \<Rightarrow> bool" where
  "is_ascii s \<longleftrightarrow> list_all (\<lambda>c. (of_char c :: nat) < 128) s"

definition compare_digest :: "string \<Rightarrow> string \<Rightarrow> py_error + bool" where
  "compare_digest a b = (if is_ascii a \<and> is_ascii b then Inr (a = b) else Inl TypeError)"

text \<open>\<^verbatim>\<open>s.strip()\<close>, for strings of Latin-1 characters.\<close>

definition is_space :: "char \<Rightarrow> bool" where
  "is_space c \<longleftrightarrow> (let n = (of_char c :: nat) in 9 \<le> n \<and> n \<le> 13 \<or> 28 \<le> n \<and> n \<le> 32 \<or> n = 133 \<or> n = 160)"

definition str_strip :: "string \<Rightarrow> string" where
  "str_strip s = rev (dropWhile is_space (rev (dropWhile is_space s)))"

lemma dropWhile_idem: "dropWhile P (dropWhile P xs) = dropWhile P xs"
  by (induction xs) auto

lemma strip_strip [simp]: "str_strip (str_strip s) = str_strip s"
proof -
  have keep: "dropWhile is_space (rev (dropWhile is_space (rev (dropWhile is_space t)))) = rev (dropWhile is_space (rev (dropWhile is_space t)))" for t
  proof (cases "dropWhile is_space t")
    case (Cons c cs)
    then have "\<not> is_space c" by (metis hd_dropWhile list.distinct(1) list.sel(1))
    then have "dropWhile is_space (rev cs @ [c]) = dropWhile is_space (rev cs) @ [c]"
      by (induction "rev cs") (auto simp: dropWhile_append)
    then show ?thesis using \<open>\<not> is_space c\<close> by (simp add: Cons)
  next
    case Nil
    show ?thesis unfolding Nil by simp
  qed
  show ?thesis by (simp add: str_strip_def keep dropWhile_idem)
qed

lemma dropWhile_Cons_space: "dropWhile P xs = xs \<longleftrightarrow> xs = [] \<or> \<not> P (hd xs)"
  by (cases xs) (use length_dropWhile_le[of P "tl xs"] in auto)

lemma str_strip_id_iff: "str_strip s = s \<longleftrightarrow> s = [] \<or> \<not> is_space (hd s) \<and> \<not> is_space (last s)"
proof (cases "s = []")
  case False
  show ?thesis
  proof (cases "is_space (hd s)")
    case True
    have "length (str_strip s) < length s"
    proof -
      obtain c cs where s: "s = c # cs" using False by (cases s) auto
      have "length (str_strip s) \<le> length (dropWhile is_space s)"
        by (simp add: str_strip_def length_dropWhile_le[of is_space "rev (dropWhile is_space s)", simplified])
      also have "\<dots> < length s" using True s length_dropWhile_le[of is_space cs] by simp
      finally show ?thesis .
    qed
    then show ?thesis using True False by auto
  next
    case front: False
    then have "dropWhile is_space s = s" by (simp add: dropWhile_Cons_space)
    then have "str_strip s = s \<longleftrightarrow> dropWhile is_space (rev s) = rev s" by (metis rev_rev_ident str_strip_def)
    then show ?thesis using front False by (simp add: dropWhile_Cons_space hd_rev)
  qed
qed (simp add: str_strip_def)

text \<open>\<^verbatim>\<open>s.split(c)\<close> for a one-character separator.\<close>

fun str_split :: "char \<Rightarrow> string \<Rightarrow> string list" where
  "str_split c [] = [[]]"
| "str_split c (x # xs) =
     (if x = c then [] # str_split c xs
      else case str_split c xs of [] \<Rightarrow> [[x]] | p # ps \<Rightarrow> (x # p) # ps)"

text \<open>\<^verbatim>\<open>c.join(parts)\<close>.\<close>

fun str_join :: "char \<Rightarrow> string list \<Rightarrow> string" where
  "str_join c [] = []"
| "str_join c [p] = p"
| "str_join c (p # q # ps) = p @ c # str_join c (q # ps)"

lemma str_split_no_sep: "c \<notin> set s \<Longrightarrow> str_split c s = [s]"
  by (induction s) auto

lemma str_split_not_Nil: "str_split c s \<noteq> []"
  by (induction s) (auto split: list.split)

lemma str_split_sep: "c \<notin> set s \<Longrightarrow> str_split c (s @ c # t) = s # str_split c t"
  by (induction s) auto

lemma str_split_join:
  "ps \<noteq> [] \<Longrightarrow> list_all (\<lambda>p. c \<notin> set p) ps \<Longrightarrow> str_split c (str_join c ps) = ps"
  by (induction c ps rule: str_join.induct) (auto simp: str_split_no_sep str_split_sep)

text \<open>\<^verbatim>\<open>sub in s\<close>.\<close>

fun str_contains :: "string \<Rightarrow> string \<Rightarrow> bool" where
  "str_contains sub [] = (sub = [])"
| "str_contains sub (c # cs) = (prefix sub (c # cs) \<or> str_contains sub cs)"

lemma str_contains_iff: "str_contains sub s \<longleftrightarrow> sublist sub s"
  by (induction s) (auto simp: sublist_Cons_right)

text \<open>Decimal printing of a natural number and its inverse.\<close>

fun nat_str :: "nat \<Rightarrow> string" where
  "nat_str n = (if n < 10 then [digit_char n] else nat_str (n div 10) @ [digit_char (n mod 10)])"

declare nat_str.simps [simp del]

definition int_str :: "int \<Rightarrow> string" where
  "int_str i = (if i < 0 then CHR ''-'' # nat_str (nat (- i)) else nat_str (nat i))"

definition digits_val :: "string \<Rightarrow> nat" where
  "digits_val s = foldl (\<lambda>a c. 10 * a + digit_val c) 0 s"

text \<open>\<^verbatim>\<open>int(s)\<close> on a string of ASCII digits with an optional sign; anything else
  raises ValueError. Surrounding blanks and underscores, which Python also accepts, do not
  occur in the strings the code parses.\<close>

definition parse_int :: "string \<Rightarrow> py_error + int" where
  "parse_int s =
     (case s of
        [] \<Rightarrow> Inl ValueError
      | c # cs \<Rightarrow>
          if c = CHR ''-'' then (if str_isdigit cs then Inr (- int (digits_val cs)) else Inl ValueError)
          else if c = CHR ''+'' then (if str_isdigit cs then Inr (int (digits_val cs)) else Inl ValueError)
          else if str_isdigit s then Inr (int (digits_val s)) else Inl ValueError)"

lemma of_char_digit_char: "d < 10 \<Longrightarrow> (of_char (digit_char d) :: nat) = 48 + d"
  by (simp add: digit_char_def)

lemma digit_char_props:
  assumes "d < 10"
  shows "is_digit (digit_char d)" "digit_val (digit_char d) = d"
  using of_char_digit_char [OF assms] assms by (simp_all add: is_digit_def digit_val_def)

lemma nat_str_isdigit: "str_isdigit (nat_str n)"
proof (induction n rule: nat_str.induct)
  case (1 n)
  then show ?case
    by (subst nat_str.simps) (auto simp: str_isdigit_def digit_char_props)
qed

lemma digits_val_snoc: "digits_val (s @ [c]) = 10 * digits_val s + digit_val c"
  by (simp add: digits_val_def)

lemma digits_val_nat_str [simp]: "digits_val (nat_str n) = n"
proof (induction n rule: nat_str.induct)
  case (1 n)
  show ?case
  proof (cases "n < 10")
    case True
    then show ?thesis
      by (subst nat_str.simps) (simp add: digits_val_def digit_char_props)
  next
    case False
    with 1 show ?thesis
      by (subst nat_str.simps) (simp add: digits_val_snoc digit_char_props)
  qed
qed

lemma is_digit_not_sign: "is_digit c \<Longrightarrow> c \<noteq> CHR ''-'' \<and> c \<noteq> CHR ''+''"
  by (auto simp: is_digit_def)

lemma parse_int_digits: "str_isdigit s \<Longrightarrow> parse_int s = Inr (int (digits_val s))"
  by (cases s) (auto simp: parse_int_def str_isdigit_def dest: is_digit_not_sign)

lemma parse_nat_str [simp]: "parse_int (nat_str n) = Inr (int n)"
  by (simp add: parse_int_digits nat_str_isdigit)

lemma parse_int_str [simp]: "parse_int (int_str i) = Inr i"
proof (cases "i < 0")
  case True
  then show ?thesis by (simp add: int_str_def parse_int_def nat_str_isdigit)
qed (simp add: int_str_def)

lemma nat_str_inj: "nat_str m = nat_str n \<longleftrightarrow> m = n"
  by (metis digits_val_nat_str)

lemma int_str_inj: "int_str i = int_str j \<longleftrightarrow> i = j"
  by (metis parse_int_str sum.inject(2))

text \<open>A separator splits a string in one way when it does not occur before it.\<close>

lemma append_sep_eq:
  "c \<notin> set a \<Longrightarrow> c \<notin> set a' \<Longrightarrow> a @ c # b = a' @ c # b' \<longleftrightarrow> a = a' \<and> b = b'"
proof (induction a arbitrary: a')
  case Nil
  then show ?case by (cases a') auto
next
  case (Cons x a)
  then show ?case by (cases a') auto
qed

text \<open>\<^verbatim>\<open>s.split(c, 1)[1]\<close>, for a string in which the separator occurs.\<close>

definition split_after :: "char \<Rightarrow> string \<Rightarrow> string" where
  "split_after c s = tl (dropWhile (\<lambda>x. x \<noteq> c) s)"

lemma split_after_sep: "c \<notin> set a \<Longrightarrow> split_after c (a @ c # b) = b"
  by (induction a) (auto simp: split_after_def)

section \<open>Dictionaries and lists\<close>

text \<open>\<^verbatim>\<open>d[k] = v\<close>: an existing key keeps its place, a new one goes to the end.\<close>

fun dict_set :: "('k \<times> 'v) list \<Rightarrow> 'k \<Rightarrow> 'v \<Rightarrow> ('k \<times> 'v) list" where
  "dict_set [] k v = [(k, v)]"
| "dict_set ((k', v') # d) k v = (if k' = k then (k, v) # d else (k', v') # dict_set d k v)"

lemma map_of_key_ex: "k \<in> fst ` set d \<Longrightarrow> \<exists>v. map_of d k = Some v \<and> (k, v) \<in> set d"
  by (cases "map_of d k") (auto simp: map_of_eq_None_iff dest: map_of_SomeD)

text \<open>\<^verbatim>\<open>d.update(e)\<close>.\<close>

definition dict_update :: "('k \<times> 'v) list \<Rightarrow> ('k \<times> 'v) list \<Rightarrow> ('k \<times> 'v) list" where
  "dict_update d e = foldl (\<lambda>acc (k, v). dict_set acc k v) d e"

definition dict_get :: "('k \<times> 'v) list \<Rightarrow> 'k \<Rightarrow> 'v \<Rightarrow> 'v" where
  "dict_get d k dflt = (case map_of d k of None \<Rightarrow> dflt | Some v \<Rightarrow> v)"

lemma map_of_dict_set [simp]: "map_of (dict_set d k v) = (map_of d)(k \<mapsto> v)"
  by (induction d k v rule: dict_set.induct) auto

lemma keys_dict_set: "fst ` set (dict_set d k v) = insert k (fst ` set d)"
  by (induction d k v rule: dict_set.induct) auto

lemma distinct_dict_set: "distinct (map fst d) \<Longrightarrow> distinct (map fst (dict_set d k v))"
  by (induction d k v rule: dict_set.induct) (auto simp: keys_dict_set)

lemma dict_update_Nil [simp]: "dict_update d [] = d"
  by (simp add: dict_update_def)

lemma dict_update_Cons [simp]: "dict_update d ((k, v) # e) = dict_update (dict_set d k v) e"
  by (simp add: dict_update_def)

lemma map_of_dict_update:
  "distinct (map fst e) \<Longrightarrow> map_of (dict_update d e) = map_of d ++ map_of e"
proof (induction e arbitrary: d)
  case Nil
  then show ?case by simp
next
  case (Cons kv e)
  obtain k v where kv: "kv = (k, v)" by (cases kv)
  with Cons.prems have "k \<notin> dom (map_of e)" by (auto simp: dom_map_of_conv_image_fst)
  then have "(map_of d)(k \<mapsto> v) ++ map_of e = (map_of d ++ map_of e)(k \<mapsto> v)"
    by (simp add: map_add_upd_left)
  with Cons kv show ?case by (simp del: fun_upd_apply)
qed

lemma distinct_dict_update:
  "distinct (map fst d) \<Longrightarrow> distinct (map fst (dict_update d e))"
  by (induction e arbitrary: d) (auto simp: distinct_dict_set)

lemma filter_remove1: "filter P (remove1 x xs) = (if P x then remove1 x (filter P xs) else filter P xs)"
  by (induction xs) auto

lemma find_SomeD: "find P xs = Some x \<Longrightarrow> x \<in> set xs \<and> P x"
  by (induction xs) (auto split: if_splits)

text \<open>\<^verbatim>\<open>list(dict.fromkeys(xs))\<close>: the first occurrences, in order.\<close>

fun uniq_first :: "'a list \<Rightarrow> 'a list" where
  "uniq_first [] = []"
| "uniq_first (x # xs) = x # filter (\<lambda>y. y \<noteq> x) (uniq_first xs)"

lemma set_uniq_first [simp]: "set (uniq_first xs) = set xs"
  by (induction xs) auto

lemma distinct_uniq_first [simp]: "distinct (uniq_first xs)"
  by (induction xs) auto

lemma uniq_first_id: "distinct xs \<Longrightarrow> uniq_first xs = xs"
  by (induction xs) (auto simp: filter_id_conv)

section \<open>Changing the first row that matches\<close>

fun update_first :: "('a \<Rightarrow> bool) \<Rightarrow> ('a \<Rightarrow> 'a) \<Rightarrow> 'a list \<Rightarrow> 'a list" where
  "update_first P f [] = []"
| "update_first P f (x # xs) = (if P x then f x # xs else x # update_first P f xs)"

lemma filter_update_first: "(\<And>x. Q x \<Longrightarrow> \<not> R x) \<Longrightarrow> (\<And>x. Q x \<Longrightarrow> \<not> R (f x)) \<Longrightarrow> filter R (update_first Q f xs) = filter R xs"
  by (induction xs) auto

lemma find_update_first: "find P xs \<noteq> None \<Longrightarrow> P y \<Longrightarrow> find P (update_first P (\<lambda>_. y) xs) = Some y"
  by (induction xs) auto

lemma update_first_same: "find P xs = Some y \<Longrightarrow> update_first P (\<lambda>_. y) xs = xs"
  by (induction xs) (auto split: if_splits)

lemma update_first_const: "find P xs = Some y \<Longrightarrow> update_first P (\<lambda>_. f y) xs = update_first P f xs"
  by (induction xs) (auto split: if_splits)

lemma update_first_set: "x \<in> set (update_first P f xs) \<Longrightarrow> x \<in> set xs \<or> (\<exists>y \<in> set xs. P y \<and> x = f y)"
  by (induction xs) (auto split: if_splits)

lemma filter_update_first_hd:
  "(\<And>x. P (f x) = P x) \<Longrightarrow> filter P (update_first P f xs) = (case filter P xs of [] \<Rightarrow> [] | y # ys \<Rightarrow> f y # ys)"
  by (induction xs) auto

lemma sum_update_first:
  "find P xs \<noteq> None \<Longrightarrow> (\<And>x. P x \<Longrightarrow> Q (f x) = Q x) \<Longrightarrow> (\<And>x. P x \<Longrightarrow> Q x = q) \<Longrightarrow> (\<And>x. P x \<Longrightarrow> g (f x) = g x + (1::int)) \<Longrightarrow>
   sum_list (map g (filter Q (update_first P f xs))) = sum_list (map g (filter Q xs)) + (if q then 1 else 0)"
  by (induction xs) auto

lemma update_first_there: "find P xs \<noteq> None \<Longrightarrow> y \<in> set (update_first P (\<lambda>_. y) xs)"
  by (induction xs) auto

end
