(* ===== verification/GameModes.thy ===== *)
theory GameModes
  imports Prelude
begin

text \<open>
  Game modes, ranks, hit results and the submission record of
  \<^verbatim>\<open>src/app/models/score.py\<close>, with the part of \<^verbatim>\<open>src/app/config.py\<close> and the
  \<^verbatim>\<open>APIMod\<close> / \<^verbatim>\<open>Mod\<close> dictionaries of \<^verbatim>\<open>src/app/models/mods.py\<close> they use.
  The mod table \<^verbatim>\<open>API_MODS\<close> (read from a JSON file at start-up) and the ruleset
  version hashes are arguments of the definitions that use them.
\<close>

section \<open>Settings and API mods\<close>

datatype scoring_mode = STANDARDISED | CLASSIC

record config =
  enable_rx :: bool
  enable_ap :: bool
  server_authoritative_total_score :: bool
  enable_all_beatmap_leaderboard :: bool
  enable_all_beatmap_pp :: bool
  scoring_mode :: scoring_mode
  check_ruleset_version :: bool

text \<open>A value of a mod's settings: \<^verbatim>\<open>bool | float | str | int\<close>, and JSON's null, which
  several readers of the settings guard against.\<close>

datatype setting = SBool bool | SInt int | SFloat real | SStr string | SNull

type_synonym mod_settings = "(string \<times> setting) list"

text \<open>\<^verbatim>\<open>APIMod\<close>: the \<^verbatim>\<open>settings\<close> key is optional.\<close>

record api_mod =
  acronym :: string
  msettings :: "mod_settings option"

text \<open>\<^verbatim>\<open>mod.get("settings", {})\<close>, and \<^verbatim>\<open>mod.get("settings") or {}\<close>.\<close>

definition settings_of :: "api_mod \<Rightarrow> mod_settings" where
  "settings_of m = (case msettings m of None \<Rightarrow> [] | Some s \<Rightarrow> s)"

text \<open>\<^verbatim>\<open>isinstance(v, (int, float))\<close> and the number it stands for; a Python bool is an int.\<close>

definition setting_num :: "setting \<Rightarrow> real option" where
  "setting_num v = (case v of
      SBool b \<Rightarrow> Some (if b then 1 else 0)
    | SInt i \<Rightarrow> Some (of_int i)
    | SFloat r \<Rightarrow> Some r
    | SStr _ \<Rightarrow> None
    | SNull \<Rightarrow> None)"

text \<open>\<^verbatim>\<open>bool(v)\<close>.\<close>

definition setting_truthy :: "setting \<Rightarrow> bool" where
  "setting_truthy v = (case v of
      SBool b \<Rightarrow> b
    | SInt i \<Rightarrow> i \<noteq> 0
    | SFloat r \<Rightarrow> r \<noteq> 0
    | SStr s \<Rightarrow> s \<noteq> []
    | SNull \<Rightarrow> False)"

text \<open>An entry of the mod table (\<^verbatim>\<open>class Mod\<close>), with the fields the code reads.\<close>

record mod_def =
  mod_type :: string
  IncompatibleMods :: "string list"
  UserPlayable :: bool

type_synonym ruleset_mods = "(string \<times> mod_def) list"
type_synonym api_mod_table = "int \<Rightarrow> ruleset_mods option"

section \<open>GameMode\<close>

datatype game_mode =
    OSU | TAIKO | FRUITS | MANIA
  | OSURX | OSUAP | TAIKORX | FRUITSRX
  | SENTAKKI | TAU | RUSH | HISHIGATA | SOYOKAZE

text \<open>The enum's values (\<^verbatim>\<open>__str__\<close>) and member names.\<close>

fun mode_value :: "game_mode \<Rightarrow> string" where
  "mode_value OSU = ''osu''"
| "mode_value TAIKO = ''taiko''"
| "mode_value FRUITS = ''fruits''"
| "mode_value MANIA = ''mania''"
| "mode_value OSURX = ''osurx''"
| "mode_value OSUAP = ''osuap''"
| "mode_value TAIKORX = ''taikorx''"
| "mode_value FRUITSRX = ''fruitsrx''"
| "mode_value SENTAKKI = ''Sentakki''"
| "mode_value TAU = ''tau''"
| "mode_value RUSH = ''rush''"
| "mode_value HISHIGATA = ''hishigata''"
| "mode_value SOYOKAZE = ''soyokaze''"

definition mode_members :: "(string \<times> game_mode) list" where
  "mode_members =
     [(''OSU'', OSU), (''TAIKO'', TAIKO), (''FRUITS'', FRUITS), (''MANIA'', MANIA),
      (''OSURX'', OSURX), (''OSUAP'', OSUAP), (''TAIKORX'', TAIKORX), (''FRUITSRX'', FRUITSRX),
      (''SENTAKKI'', SENTAKKI), (''TAU'', TAU), (''RUSH'', RUSH), (''HISHIGATA'', HISHIGATA),
      (''SOYOKAZE'', SOYOKAZE)]"

fun mode_int :: "game_mode \<Rightarrow> int" where
  "mode_int OSU = 0"
| "mode_int TAIKO = 1"
| "mode_int FRUITS = 2"
| "mode_int MANIA = 3"
| "mode_int OSURX = 0"
| "mode_int OSUAP = 0"
| "mode_int TAIKORX = 1"
| "mode_int FRUITSRX = 2"
| "mode_int SENTAKKI = 10"
| "mode_int TAU = 11"
| "mode_int RUSH = 12"
| "mode_int HISHIGATA = 13"
| "mode_int SOYOKAZE = 14"

definition from_int :: "int \<Rightarrow> py_error + game_mode" where
  "from_int v =
     (case map_of [(0, OSU), (1, TAIKO), (2, FRUITS), (3, MANIA), (10, SENTAKKI), (11, TAU),
                   (12, RUSH), (13, HISHIGATA), (14, SOYOKAZE)] v of
        None \<Rightarrow> Inl KeyError
      | Some m \<Rightarrow> Inr m)"

definition from_int_extra :: "int \<Rightarrow> py_error + game_mode" where
  "from_int_extra v =
     (case map_of [(4, OSURX), (5, OSUAP), (6, TAIKORX), (7, FRUITSRX)] v of
        None \<Rightarrow> from_int v
      | Some m \<Rightarrow> Inr m)"

fun readable :: "game_mode \<Rightarrow> string" where
  "readable OSU = ''osu!''"
| "readable TAIKO = ''osu!taiko''"
| "readable FRUITS = ''osu!catch''"
| "readable MANIA = ''osu!mania''"
| "readable OSURX = ''osu!relax''"
| "readable OSUAP = ''osu!autopilot''"
| "readable TAIKORX = ''taiko relax''"
| "readable FRUITSRX = ''catch relax''"
| "readable SENTAKKI = ''sentakki''"
| "readable TAU = ''tau''"
| "readable RUSH = ''Rush!''"
| "readable HISHIGATA = ''hishigata''"
| "readable SOYOKAZE = ''soyokaze!''"

definition is_official :: "game_mode \<Rightarrow> bool" where
  "is_official m \<longleftrightarrow> m \<in> {OSU, TAIKO, FRUITS, MANIA, OSURX, TAIKORX, FRUITSRX}"

definition is_custom_ruleset :: "game_mode \<Rightarrow> bool" where
  "is_custom_ruleset m \<longleftrightarrow> \<not> is_official m"

definition to_base_ruleset :: "game_mode \<Rightarrow> game_mode" where
  "to_base_ruleset m =
     (case map_of [(OSURX, OSU), (OSUAP, OSU), (TAIKORX, TAIKO), (FRUITSRX, FRUITS)] m of
        None \<Rightarrow> m
      | Some b \<Rightarrow> b)"

text \<open>\<^verbatim>\<open>to_special_mode\<close> on a list of acronyms, which the method also extracts from a
  list of mod dictionaries. The lookup after the \<^verbatim>\<open>"RX"\<close> test cannot miss, because of
  the first guard.\<close>

definition to_special_mode :: "config \<Rightarrow> game_mode \<Rightarrow> string list \<Rightarrow> game_mode" where
  "to_special_mode cfg m mods =
     (if m \<notin> {OSU, TAIKO, FRUITS} then m
      else if \<not> enable_rx cfg \<and> \<not> enable_ap cfg then m
      else if ''AP'' \<in> set mods \<and> enable_ap cfg then OSUAP
      else if ''RX'' \<in> set mods \<and> enable_rx cfg then
        (case m of OSU \<Rightarrow> OSURX | TAIKO \<Rightarrow> TAIKORX | _ \<Rightarrow> FRUITSRX)
      else m)"

text \<open>\<^verbatim>\<open>GameMode.parse\<close>: the subscript \<^verbatim>\<open>cls[v]\<close> raises KeyError for an unknown member
  name, and the handler catches ValueError only.\<close>

definition mode_getitem :: "string \<Rightarrow> py_error + game_mode" where
  "mode_getitem name = (case map_of mode_members name of None \<Rightarrow> Inl KeyError | Some m \<Rightarrow> Inr m)"

definition mode_parse_int :: "int \<Rightarrow> py_error + game_mode option" where
  "mode_parse_int v = py_bind (from_int_extra v) (\<lambda>m. Inr (Some m))"

definition mode_parse :: "string \<Rightarrow> py_error + game_mode option" where
  "mode_parse v =
     (if str_isdigit v then mode_parse_int (int (digits_val v))
      else (case mode_getitem (str_upper v) of
              Inr m \<Rightarrow> Inr (Some m)
            | Inl ValueError \<Rightarrow> Inr None
            | Inl e \<Rightarrow> Inl e))"

text \<open>The ruleset version check.\<close>

record ruleset_check =
  is_current :: bool
  latest_version :: string
  current_version :: "string option"
  download_url :: "string option"

record version_entry =
  latest :: string
  versions :: "(string \<times> string) list"

definition ruleset_ok :: ruleset_check where
  "ruleset_ok = \<lparr>is_current = True, latest_version = '''', current_version = None, download_url = None\<rparr>"

definition check_version :: "config \<Rightarrow> (game_mode \<Rightarrow> version_entry option) \<Rightarrow> game_mode \<Rightarrow> string \<Rightarrow> ruleset_check" where
  "check_version cfg hashes m h =
     (if \<not> check_ruleset_version cfg \<or> is_official m then ruleset_ok
      else case hashes m of
        None \<Rightarrow> ruleset_ok
      | Some entry \<Rightarrow>
          let cur = map_option fst (find (\<lambda>(_, vh). vh = h) (versions entry));
              ok = (cur = Some (latest entry))
          in \<lparr>is_current = ok, latest_version = latest entry, current_version = cur,
              download_url = (if ok then None
                else Some (''https://github.com/GooGuTeam/custom-rulesets/releases/tag/'' @ latest entry))\<rparr>)"

definition error_msg :: "ruleset_check \<Rightarrow> string option" where
  "error_msg r =
     (if is_current r then None
      else Some (''Ruleset is outdated. Latest version: '' @ latest_version r @ ''.'' @
        (case current_version r of
           Some v \<Rightarrow> (if v \<noteq> [] then '' Current version: '' @ v @ ''.'' else [])
         | None \<Rightarrow> []) @
        (case download_url r of
           Some u \<Rightarrow> (if u \<noteq> [] then '' Download at: '' @ u else [])
         | None \<Rightarrow> [])))"

section \<open>Rank and HitResult\<close>

datatype rank = Rank_X | Rank_XH | Rank_S | Rank_SH | Rank_A | Rank_B | Rank_C | Rank_D | Rank_F

definition in_statistics :: "rank \<Rightarrow> bool" where
  "in_statistics r \<longleftrightarrow> r \<in> {Rank_X, Rank_XH, Rank_S, Rank_SH, Rank_A}"

fun rank_value :: "rank \<Rightarrow> string" where
  "rank_value Rank_X = ''X''"
| "rank_value Rank_XH = ''XH''"
| "rank_value Rank_S = ''S''"
| "rank_value Rank_SH = ''SH''"
| "rank_value Rank_A = ''A''"
| "rank_value Rank_B = ''B''"
| "rank_value Rank_C = ''C''"
| "rank_value Rank_D = ''D''"
| "rank_value Rank_F = ''F''"

datatype hit_result =
    Hit_NONE | Hit_MISS | Hit_MEH | Hit_OK | Hit_GOOD | Hit_GREAT | Hit_PERFECT
  | SMALL_TICK_MISS | SMALL_TICK_HIT | LARGE_TICK_MISS | LARGE_TICK_HIT
  | SMALL_BONUS | LARGE_BONUS | IGNORE_MISS | IGNORE_HIT | COMBO_BREAK
  | SLIDER_TAIL_HIT | LEGACY_COMBO_INCREASE

definition hit_result_members :: "(string \<times> hit_result) list" where
  "hit_result_members =
     [(''none'', Hit_NONE),
      (''miss'', Hit_MISS), (''meh'', Hit_MEH), (''ok'', Hit_OK), (''good'', Hit_GOOD),
      (''great'', Hit_GREAT), (''perfect'', Hit_PERFECT),
      (''small_tick_miss'', SMALL_TICK_MISS), (''small_tick_hit'', SMALL_TICK_HIT),
      (''large_tick_miss'', LARGE_TICK_MISS), (''large_tick_hit'', LARGE_TICK_HIT),
      (''small_bonus'', SMALL_BONUS), (''large_bonus'', LARGE_BONUS),
      (''ignore_miss'', IGNORE_MISS), (''ignore_hit'', IGNORE_HIT),
      (''combo_break'', COMBO_BREAK),
      (''slider_tail_hit'', SLIDER_TAIL_HIT),
      (''legacy_combo_increase'', LEGACY_COMBO_INCREASE)]"

text \<open>\<^verbatim>\<open>HitResult(s)\<close> and \<^verbatim>\<open>r.value\<close>.\<close>

definition hit_result_of :: "string \<Rightarrow> py_error + hit_result" where
  "hit_result_of s = (case map_of hit_result_members s of None \<Rightarrow> Inl ValueError | Some r \<Rightarrow> Inr r)"

definition hit_result_value :: "hit_result \<Rightarrow> string" where
  "hit_result_value r = (case find (\<lambda>(_, r'). r' = r) hit_result_members of
      Some (s, _) \<Rightarrow> s | None \<Rightarrow> [])"

definition is_hit :: "hit_result \<Rightarrow> bool" where
  "is_hit r \<longleftrightarrow> r \<notin> {Hit_NONE, IGNORE_MISS, COMBO_BREAK, LARGE_TICK_MISS, SMALL_TICK_MISS, Hit_MISS}"

definition is_scorable :: "hit_result \<Rightarrow> bool" where
  "is_scorable r \<longleftrightarrow> r \<notin> {Hit_NONE, IGNORE_HIT, IGNORE_MISS}"

definition is_basic :: "hit_result \<Rightarrow> bool" where
  "is_basic r \<longleftrightarrow>
     (if r \<in> {LEGACY_COMBO_INCREASE, COMBO_BREAK} then False
      else let is_tick = (r \<in> {LARGE_TICK_HIT, LARGE_TICK_MISS, SMALL_TICK_HIT, SMALL_TICK_MISS, SLIDER_TAIL_HIT});
               is_bonus = (r \<in> {SMALL_BONUS, LARGE_BONUS})
           in is_scorable r \<and> \<not> is_tick \<and> \<not> is_bonus)"

type_synonym statistics = "(hit_result \<times> int) list"

text \<open>The validator and the serializer of a statistics column: string keys that are no
  hit result are dropped; enum keys become their values.\<close>

definition validate_maximum_statistics :: "((hit_result + string) \<times> int) list \<Rightarrow> statistics" where
  "validate_maximum_statistics v =
     foldl (\<lambda>conv (key, value).
        case key of
          Inl r \<Rightarrow> dict_set conv r value
        | Inr s \<Rightarrow> (case hit_result_of s of Inr r \<Rightarrow> dict_set conv r value | Inl _ \<Rightarrow> conv)) [] v"

definition serialize_statistics :: "((hit_result + string) \<times> int) list \<Rightarrow> (string \<times> int) list" where
  "serialize_statistics v =
     foldl (\<lambda>ser (key, value).
        case key of
          Inl r \<Rightarrow> dict_set ser (hit_result_value r) value
        | Inr s \<Rightarrow> dict_set ser s value) [] v"

section \<open>Score submission\<close>

text \<open>\<^verbatim>\<open>SoloScoreSubmissionInfo\<close>, with the constraints its fields declare.\<close>

record submission =
  sub_rank :: rank
  sub_total_score :: int
  sub_total_score_without_mods :: int
  sub_accuracy :: real
  sub_pp :: real
  sub_max_combo :: int
  sub_ruleset_id :: int
  sub_passed :: bool
  sub_mods :: "api_mod list"
  sub_statistics :: statistics
  sub_maximum_statistics :: statistics
  sub_pauses :: "int list"

definition submission_fields_ok :: "submission \<Rightarrow> bool" where
  "submission_fields_ok s \<longleftrightarrow>
     0 \<le> sub_total_score s \<and> sub_total_score s \<le> 2 ^ 31 - 1 \<and>
     0 \<le> sub_total_score_without_mods s \<and> sub_total_score_without_mods s \<le> 2 ^ 31 - 1 \<and>
     0 \<le> sub_accuracy s \<and> sub_accuracy s \<le> 1 \<and>
     0 \<le> sub_pp s \<and> sub_pp s \<le> 2 ^ 31 - 1"

text \<open>The validator of the \<^verbatim>\<open>mods\<close> field: a loop over the submitted mods that collects
  the acronyms the earlier ones exclude. The table lookup is inside the loop, so an
  unknown ruleset with no mods passes, and one with mods raises KeyError. A table entry is
  a non-empty dictionary, so \<^verbatim>\<open>not setting_mods\<close> is a missing entry.\<close>

fun validate_mods_loop :: "api_mod_table \<Rightarrow> int \<Rightarrow> string list \<Rightarrow> api_mod list \<Rightarrow> py_error + unit" where
  "validate_mods_loop tbl rs incompat [] = Inr ()"
| "validate_mods_loop tbl rs incompat (m # ms) =
     (if acronym m \<in> set incompat then Inl ValueError
      else case tbl rs of
        None \<Rightarrow> Inl KeyError
      | Some mods \<Rightarrow>
          (case map_of mods (acronym m) of
             None \<Rightarrow> Inl ValueError
           | Some d \<Rightarrow> validate_mods_loop tbl rs (incompat @ IncompatibleMods d) ms))"

definition validate_mods :: "api_mod_table \<Rightarrow> int \<Rightarrow> api_mod list \<Rightarrow> py_error + api_mod list" where
  "validate_mods tbl rs mods = py_bind (validate_mods_loop tbl rs [] mods) (\<lambda>_. Inr mods)"

section \<open>Properties\<close>

lemma mode_int_from_int: "from_int v = Inr m \<Longrightarrow> mode_int m = v"
  by (auto simp: from_int_def split: option.splits if_splits)

lemma from_int_extra_cases:
  "from_int_extra v = Inr m \<Longrightarrow> mode_int (to_base_ruleset m) = mode_int m \<and> mode_int m \<in> {0, 1, 2, 3, 10, 11, 12, 13, 14}"
  by (auto simp: from_int_extra_def from_int_def to_base_ruleset_def split: option.splits if_splits)

lemma to_base_ruleset_simps [simp]:
  "to_base_ruleset OSU = OSU" "to_base_ruleset TAIKO = TAIKO" "to_base_ruleset FRUITS = FRUITS"
  "to_base_ruleset MANIA = MANIA" "to_base_ruleset OSURX = OSU" "to_base_ruleset OSUAP = OSU"
  "to_base_ruleset TAIKORX = TAIKO" "to_base_ruleset FRUITSRX = FRUITS"
  "to_base_ruleset SENTAKKI = SENTAKKI" "to_base_ruleset TAU = TAU" "to_base_ruleset RUSH = RUSH"
  "to_base_ruleset HISHIGATA = HISHIGATA" "to_base_ruleset SOYOKAZE = SOYOKAZE"
  by (simp_all add: to_base_ruleset_def)

lemma to_special_mode_base:
  "\<not> (m = TAIKO \<and> ''AP'' \<in> set mods) \<Longrightarrow> \<not> (m = FRUITS \<and> ''AP'' \<in> set mods) \<Longrightarrow>
   to_base_ruleset (to_special_mode cfg m mods) = to_base_ruleset m"
  by (cases m) (auto simp: to_special_mode_def)

text \<open>The validator's loop, against its declarative reading.\<close>

definition allows :: "ruleset_mods \<Rightarrow> api_mod \<Rightarrow> api_mod \<Rightarrow> bool" where
  "allows t x y \<longleftrightarrow> (case map_of t (acronym x) of None \<Rightarrow> True | Some d \<Rightarrow> acronym y \<notin> set (IncompatibleMods d))"

definition mods_acceptable :: "ruleset_mods \<Rightarrow> string list \<Rightarrow> api_mod list \<Rightarrow> bool" where
  "mods_acceptable t seen mods \<longleftrightarrow>
     (\<forall>m \<in> set mods. map_of t (acronym m) \<noteq> None \<and> acronym m \<notin> set seen) \<and>
     sorted_wrt (allows t) mods"

lemma mods_acceptable_Cons:
  "mods_acceptable t seen (m # ms) \<longleftrightarrow>
     (\<exists>d. map_of t (acronym m) = Some d \<and> acronym m \<notin> set seen \<and>
          mods_acceptable t (seen @ IncompatibleMods d) ms)"
  by (auto simp: mods_acceptable_def allows_def)

lemma validate_mods_loop_iff:
  "tbl rs = Some t \<Longrightarrow> validate_mods_loop tbl rs seen mods = Inr () \<longleftrightarrow> mods_acceptable t seen mods"
proof (induction mods arbitrary: seen)
  case Nil
  then show ?case by (simp add: mods_acceptable_def)
next
  case (Cons m ms)
  then show ?case by (auto simp: mods_acceptable_Cons split: option.splits)
qed

lemma validate_mods_iff:
  "tbl rs = Some t \<Longrightarrow> validate_mods tbl rs mods = Inr mods \<longleftrightarrow> mods_acceptable t [] mods"
  using validate_mods_loop_iff [of tbl rs t "[]" mods]
  by (cases "validate_mods_loop tbl rs [] mods") (auto simp: validate_mods_def)

text \<open>The mods validator accepts a submission exactly when every mod is in the ruleset's
  table and no mod is excluded by one submitted before it; anything else about a known
  ruleset is a validation error, and a non-empty list for an unknown ruleset escapes as
  KeyError.\<close>

theorem validate_mods_spec:
  "validate_mods tbl rs mods =
     (case tbl rs of
        None \<Rightarrow> (if mods = [] then Inr [] else Inl KeyError)
      | Some t \<Rightarrow>
          if list_all (\<lambda>m. map_of t (acronym m) \<noteq> None) mods \<and> sorted_wrt (allows t) mods
          then Inr mods else Inl ValueError)"
proof (cases "tbl rs")
  case None
  then show ?thesis by (cases mods) (simp_all add: validate_mods_def)
next
  case (Some t)
  have "validate_mods_loop tbl rs seen ms \<in> {Inr (), Inl ValueError}" for seen ms
    using Some by (induction ms arbitrary: seen) (auto split: option.splits)
  then have "validate_mods_loop tbl rs [] mods \<in> {Inr (), Inl ValueError}" .
  then have "validate_mods tbl rs mods \<in> {Inr mods, Inl ValueError}"
    by (elim insertE emptyE) (simp_all add: validate_mods_def)
  with validate_mods_iff [of tbl rs t mods] Some show ?thesis
    by (auto simp: mods_acceptable_def list_all_iff)
qed

text \<open>Parsing a mode name never gives None. A string of digits is looked up by id, any
  other string is the member of that name or a KeyError, which the handler for ValueError
  does not catch.\<close>

theorem mode_parse_never_None: "mode_parse v \<noteq> Inr None"
  by (auto simp: mode_parse_def mode_parse_int_def mode_getitem_def py_bind_Inr_iff
      split: if_splits option.splits sum.splits py_error.splits)

text \<open>The ruleset version check lets a client pass exactly when checking is off, the
  mode is official, the ruleset has no entry, or the first version listed with the
  client's hash is the latest; only a failed check carries an error message.\<close>

theorem check_version_spec:
  "(is_current (check_version cfg hashes m h) \<longleftrightarrow>
     (if check_ruleset_version cfg \<and> is_custom_ruleset m then
        (case hashes m of
           None \<Rightarrow> True
         | Some e \<Rightarrow> map_option fst (find (\<lambda>(_, vh). vh = h) (versions e)) = Some (latest e))
      else True)) \<and>
   (error_msg (check_version cfg hashes m h) = None \<longleftrightarrow> is_current (check_version cfg hashes m h))"
  by (auto simp: check_version_def ruleset_ok_def is_custom_ruleset_def error_msg_def Let_def
      split: option.splits)

text \<open>The statistics column: what the serializer writes, the validator reads back.\<close>

lemma hit_result_roundtrip: "hit_result_of (hit_result_value r) = Inr r"
  by (cases r) (simp_all add: hit_result_of_def hit_result_value_def hit_result_members_def)

lemma hit_result_value_inj: "hit_result_value r = hit_result_value r' \<longleftrightarrow> r = r'"
  by (metis hit_result_roundtrip sum.inject(2))

lemma dict_set_map_key:
  "inj f \<Longrightarrow> dict_set (map (\<lambda>(k, v). (f k, v)) d) (f k) v = map (\<lambda>(k, v). (f k, v)) (dict_set d k v)"
  by (induction d k v rule: dict_set.induct) (auto dest: injD)

lemma dict_update_new: "distinct (map fst (d @ e)) \<Longrightarrow> dict_update d e = d @ e"
proof (induction e arbitrary: d)
  case (Cons kv e)
  obtain k v where kv: "kv = (k, v)" by (cases kv)
  have "k \<notin> fst ` set d \<Longrightarrow> dict_set d k v = d @ [(k, v)]"
    by (induction d k v rule: dict_set.induct) auto
  with Cons kv show ?case by auto
qed simp

lemma serialize_statistics_enum:
  assumes "distinct (map fst st)"
  shows "serialize_statistics (map (\<lambda>(r, n). (Inl r, n)) st) = map (\<lambda>(r, n). (hit_result_value r, n)) st"
proof -
  have "foldl (\<lambda>ser (key, value). case key of Inl r \<Rightarrow> dict_set ser (hit_result_value r) value
          | Inr s \<Rightarrow> dict_set ser s value) d (map (\<lambda>(r, n). (Inl r, n)) st) =
        dict_update d (map (\<lambda>(r, n). (hit_result_value r, n)) st)" for d
    by (induction st arbitrary: d) auto
  moreover have "distinct (map fst (map (\<lambda>(r, n). (hit_result_value r, n)) st))"
    using assms by (force simp: distinct_map inj_on_def hit_result_value_inj)
  ultimately show ?thesis
    by (simp add: serialize_statistics_def dict_update_new del: map_map)
qed

text \<open>Reading back a serialised statistics dictionary gives the dictionary it was made
  from, entry by entry and in order.\<close>

theorem statistics_roundtrip:
  assumes "distinct (map fst st)"
  shows "validate_maximum_statistics
           (map (\<lambda>(s, n). (Inr s, n)) (serialize_statistics (map (\<lambda>(r, n). (Inl r, n)) st))) = st"
proof -
  have "foldl (\<lambda>conv (key, value). case key of Inl r \<Rightarrow> dict_set conv r value
          | Inr s \<Rightarrow> (case hit_result_of s of Inr r \<Rightarrow> dict_set conv r value | Inl _ \<Rightarrow> conv)) d
          (map (\<lambda>(r, n). (Inr (hit_result_value r), n)) st) = dict_update d st" for d
    by (induction st arbitrary: d) (auto simp: hit_result_roundtrip)
  from this [of "[]"] show ?thesis
    unfolding serialize_statistics_enum [OF assms] validate_maximum_statistics_def
    using assms by (simp add: dict_update_new case_prod_unfold o_def)
qed

theorem statistics_roundtrip_witness:
  "validate_maximum_statistics
     (map (\<lambda>(s, n). (Inr s, n))
        (serialize_statistics (map (\<lambda>(r, n). (Inl r, n)) [(Hit_GREAT, 300), (Hit_MISS, 2)]))) =
   [(Hit_GREAT, 300), (Hit_MISS, 2)]"
  by (rule statistics_roundtrip) simp

end
