(* ===== verification/Mods.thy ===== *)
theory Mods
  imports GameModes "HOL-Library.List_Lexorder" "HOL-Library.Char_ord"
begin

unbundle bit_operations_syntax

text \<open>
  Mod lists: \<^verbatim>\<open>src/app/models/mods.py\<close>. The conversion between mod lists and the
  legacy bit field, the table of ranked mods and the check that decides whether a play may
  earn pp, the save format of a mod set, the clock rate and the mods a room may offer.

  The validator class that \<^verbatim>\<open>check_settings\<close> builds with pydantic's
  \<^verbatim>\<open>create_model\<close> is third-party code: the model keeps the field list the code hands to
  it (\<open>field_spec\<close>), and the validation itself is the parameter \<open>validate\<close>.
\<close>

section \<open>Legacy bit field\<close>

definition legacy_bits :: "(string \<times> int) list" where
  "legacy_bits =
     [(''NF'', push_bit 0 1), (''EZ'', push_bit 1 1), (''TD'', push_bit 2 1), (''HD'', push_bit 3 1),
      (''HR'', push_bit 4 1), (''SD'', push_bit 5 1), (''DT'', push_bit 6 1), (''RX'', push_bit 7 1),
      (''HT'', push_bit 8 1), (''NC'', push_bit 9 1), (''FL'', push_bit 10 1), (''AT'', push_bit 11 1),
      (''SO'', push_bit 12 1), (''AP'', push_bit 13 1), (''PF'', push_bit 14 1), (''4K'', push_bit 15 1),
      (''5K'', push_bit 16 1), (''6K'', push_bit 17 1), (''7K'', push_bit 18 1), (''8K'', push_bit 19 1),
      (''FI'', push_bit 20 1), (''RD'', push_bit 21 1), (''CN'', push_bit 22 1), (''TP'', push_bit 23 1),
      (''9K'', push_bit 24 1), (''CO'', push_bit 25 1), (''1K'', push_bit 26 1), (''3K'', push_bit 27 1),
      (''2K'', push_bit 28 1), (''SV2'', push_bit 29 1), (''MR'', push_bit 30 1)]"

text \<open>The reverse dictionary is built before the two entries below are widened.\<close>

definition LEGACY_MOD_TO_API_MOD :: "(int \<times> api_mod) list" where
  "LEGACY_MOD_TO_API_MOD =
     foldl (\<lambda>d (k, v). dict_set d v \<lparr>acronym = k, msettings = Some []\<rparr>) [] legacy_bits"

definition API_MOD_TO_LEGACY :: "(string \<times> int) list" where
  "API_MOD_TO_LEGACY =
     (let d0 = legacy_bits;
          d1 = dict_set d0 ''NC'' (dict_get d0 ''NC'' 0 OR dict_get d0 ''DT'' 0)
      in dict_set d1 ''PF'' (dict_get d1 ''PF'' 0 OR dict_get d1 ''SD'' 0))"

text \<open>\<^verbatim>\<open>xs.remove(x)\<close>.\<close>

definition list_remove :: "'a \<Rightarrow> 'a list \<Rightarrow> py_error + 'a list" where
  "list_remove x xs = (if x \<in> set xs then Inr (remove1 x xs) else Inl ValueError)"

definition legacy_mod :: "nat \<Rightarrow> api_mod" where
  "legacy_mod k = the (map_of LEGACY_MOD_TO_API_MOD (push_bit k 1))"

definition int_to_mods :: "int \<Rightarrow> py_error + api_mod list" where
  "int_to_mods mods =
     (let l = map legacy_mod (filter (\<lambda>k. mods AND push_bit k 1 \<noteq> 0) [0..<31])
      in py_bind (if mods AND push_bit 14 1 \<noteq> 0 then list_remove (legacy_mod 5) l else Inr l)
           (\<lambda>l. if mods AND push_bit 9 1 \<noteq> 0 then list_remove (legacy_mod 6) l else Inr l))"

definition mods_to_int :: "api_mod list \<Rightarrow> int" where
  "mods_to_int mods = foldl (\<lambda>s m. s OR dict_get API_MOD_TO_LEGACY (acronym m) 0) 0 mods"

section \<open>The mod table\<close>

text \<open>\<^verbatim>\<open>init_mods\<close> on the parsed JSON file: a later entry of the same acronym, or of the
  same ruleset, replaces an earlier one.\<close>

definition init_mods :: "(int \<times> (string \<times> mod_def) list) list \<Rightarrow> api_mod_table" where
  "init_mods raw =
     map_of (foldl (\<lambda>d (rs, ms). dict_set d rs (foldl (\<lambda>e (a, m). dict_set e a m) [] ms)) [] raw)"

section \<open>Ranked mods\<close>

text \<open>One setting's validation rule: the entries \<^verbatim>\<open>type\<close>, \<^verbatim>\<open>check\<close> (\<open>False\<close> only for
  the literal False), \<^verbatim>\<open>eq\<close>, \<^verbatim>\<open>in\<close> (\<open>Inl\<close> for a value that is no list) and the
  constraint keywords that are left.\<close>

record vrule =
  rtype :: "string option"
  rcheck :: bool
  req :: "setting option"
  rin :: "(unit + setting list) option"
  rextra :: mod_settings

abbreviation unpinned :: "string \<Rightarrow> vrule" where
  "unpinned ty \<equiv> \<lparr>rtype = Some ty, rcheck = False, req = None, rin = None, rextra = []\<rparr>"

abbreviation pinned :: "string \<Rightarrow> setting \<Rightarrow> vrule" where
  "pinned ty v \<equiv> \<lparr>rtype = Some ty, rcheck = True, req = Some v, rin = None, rextra = []\<rparr>"

abbreviation bounded :: "string \<Rightarrow> mod_settings \<Rightarrow> vrule" where
  "bounded ty c \<equiv> \<lparr>rtype = Some ty, rcheck = True, req = None, rin = None, rextra = c\<rparr>"

type_synonym ruleset_ranked = "(string \<times> (string \<times> vrule) list) list"
type_synonym ranked_mods = "(int \<times> ruleset_ranked) list"

definition default_ranked_osu :: ruleset_ranked where
  "default_ranked_osu =
    [(''EZ'', [(''retries'', pinned ''number'' (SInt 2))]),
     (''NF'', []),
     (''HT'', [(''speed_change'', pinned ''number'' (SFloat (3 / 4))), (''adjust_pitch'', unpinned ''boolean'')]),
     (''DC'', [(''speed_change'', pinned ''number'' (SFloat (3 / 4)))]),
     (''HR'', []),
     (''SD'', [(''fail_on_slider_tail'', unpinned ''boolean''), (''restart'', unpinned ''boolean'')]),
     (''PF'', [(''restart'', unpinned ''boolean'')]),
     (''HD'', [(''only_fade_approach_circles'', pinned ''boolean'' (SBool False))]),
     (''DT'', [(''speed_change'', pinned ''number'' (SFloat (3 / 2))), (''adjust_pitch'', unpinned ''boolean'')]),
     (''NC'', [(''speed_change'', pinned ''number'' (SFloat (3 / 2)))]),
     (''FL'', [(''follow_delay'', pinned ''number'' (SFloat 1)), (''size_multiplier'', pinned ''number'' (SFloat 1)), (''combo_based_size'', pinned ''boolean'' (SBool True))]),
     (''ST'', []),
     (''CL'', [(''no_slider_head_accuracy'', unpinned ''boolean''), (''classic_note_lock'', unpinned ''boolean''), (''always_play_tail_sample'', unpinned ''boolean''), (''fade_hit_circle_early'', unpinned ''boolean''), (''classic_health'', unpinned ''boolean'')]),
     (''DA'', [(''circle_size'', unpinned ''number''), (''approach_rate'', unpinned ''number''), (''drain_rate'', unpinned ''number''), (''overall_difficulty'', unpinned ''number''), (''extended_limits'', unpinned ''boolean'')]),
     (''AC'', [(''minimum_accuracy'', unpinned ''number''), (''accuracy_judge_mode'', unpinned ''string''), (''restart'', unpinned ''boolean'')]),
     (''MU'', [(''inverse_muting'', unpinned ''boolean''), (''enable_metronome'', unpinned ''boolean''), (''mute_combo_count'', unpinned ''number''), (''affects_hit_sounds'', unpinned ''boolean'')]),
     (''PA'', [(''pitch_shift'', unpinned ''number''), (''extended_limits'', unpinned ''boolean'')]),
     (''HS'', [(''bank'', unpinned ''string''), (''use_note_samples'', unpinned ''boolean'')]),
     (''TD'', []),
     (''BL'', []),
     (''NS'', [(''hidden_combo_count'', unpinned ''number'')]),
     (''SO'', []),
     (''TC'', []),
     (''AL'', []),
     (''SG'', [])]"

definition default_ranked_taiko :: ruleset_ranked where
  "default_ranked_taiko =
    [(''EZ'', []),
     (''NF'', []),
     (''HT'', [(''speed_change'', pinned ''number'' (SFloat (3 / 4))), (''adjust_pitch'', unpinned ''boolean'')]),
     (''DC'', [(''speed_change'', pinned ''number'' (SFloat (3 / 4)))]),
     (''HR'', []),
     (''SD'', [(''restart'', unpinned ''boolean'')]),
     (''PF'', [(''restart'', unpinned ''boolean'')]),
     (''HD'', []),
     (''DT'', [(''speed_change'', pinned ''number'' (SFloat (3 / 2))), (''adjust_pitch'', unpinned ''boolean'')]),
     (''NC'', [(''speed_change'', pinned ''number'' (SFloat (3 / 2)))]),
     (''FL'', [(''size_multiplier'', pinned ''number'' (SFloat 1)), (''combo_based_size'', pinned ''boolean'' (SBool True))]),
     (''CL'', []),
     (''CS'', []),
     (''DA'', [(''drain_rate'', unpinned ''number''), (''overall_difficulty'', unpinned ''number''), (''extended_limits'', unpinned ''boolean'')]),
     (''RD'', [(''seed'', unpinned ''number'')]),
     (''SR'', []),
     (''AS'', [(''initial_rate'', unpinned ''number''), (''adjust_pitch'', unpinned ''boolean'')]),
     (''WD'', [(''initial_rate'', unpinned ''number''), (''final_rate'', unpinned ''number''), (''adjust_pitch'', unpinned ''boolean'')]),
     (''WU'', [(''initial_rate'', unpinned ''number''), (''final_rate'', unpinned ''number''), (''adjust_pitch'', unpinned ''boolean'')]),
     (''AC'', [(''minimum_accuracy'', unpinned ''number''), (''accuracy_judge_mode'', unpinned ''string''), (''restart'', unpinned ''boolean'')]),
     (''MU'', [(''inverse_muting'', unpinned ''boolean''), (''enable_metronome'', unpinned ''boolean''), (''mute_combo_count'', unpinned ''number''), (''affects_hit_sounds'', unpinned ''boolean'')]),
     (''PA'', [(''pitch_shift'', unpinned ''number''), (''extended_limits'', unpinned ''boolean'')]),
     (''SG'', []),
     (''SW'', [])]"

definition default_ranked_catch :: ruleset_ranked where
  "default_ranked_catch =
    [(''EZ'', [(''retries'', pinned ''number'' (SInt 2))]),
     (''NF'', []),
     (''HT'', [(''speed_change'', pinned ''number'' (SFloat (3 / 4))), (''adjust_pitch'', unpinned ''boolean'')]),
     (''DC'', [(''speed_change'', pinned ''number'' (SFloat (3 / 4)))]),
     (''HR'', []),
     (''SD'', [(''restart'', unpinned ''boolean'')]),
     (''PF'', [(''restart'', unpinned ''boolean'')]),
     (''HD'', []),
     (''DT'', [(''speed_change'', pinned ''number'' (SFloat (3 / 2))), (''adjust_pitch'', unpinned ''boolean'')]),
     (''NC'', [(''speed_change'', pinned ''number'' (SFloat (3 / 2)))]),
     (''FL'', [(''size_multiplier'', pinned ''number'' (SFloat 1)), (''combo_based_size'', pinned ''boolean'' (SBool True))]),
     (''CL'', []),
     (''DA'', [(''circle_size'', unpinned ''number''), (''approach_rate'', unpinned ''number''), (''drain_rate'', unpinned ''number''), (''overall_difficulty'', unpinned ''number''), (''extended_limits'', unpinned ''boolean'')]),
     (''MR'', []),
     (''FF'', []),
     (''MF'', []),
     (''WD'', [(''initial_rate'', unpinned ''number''), (''final_rate'', unpinned ''number''), (''adjust_pitch'', unpinned ''boolean'')]),
     (''WU'', [(''initial_rate'', unpinned ''number''), (''final_rate'', unpinned ''number''), (''adjust_pitch'', unpinned ''boolean'')]),
     (''AC'', [(''minimum_accuracy'', unpinned ''number''), (''accuracy_judge_mode'', unpinned ''string''), (''restart'', unpinned ''boolean'')]),
     (''MU'', [(''inverse_muting'', unpinned ''boolean''), (''enable_metronome'', unpinned ''boolean''), (''mute_combo_count'', unpinned ''number''), (''affects_hit_sounds'', unpinned ''boolean'')]),
     (''PA'', [(''pitch_shift'', unpinned ''number''), (''extended_limits'', unpinned ''boolean'')]),
     (''NS'', [(''hidden_combo_count'', unpinned ''number'')])]"

definition default_ranked_mania :: ruleset_ranked where
  "default_ranked_mania =
    [(''EZ'', [(''retries'', pinned ''number'' (SInt 2))]),
     (''NF'', []),
     (''DA'', [(''overall_difficulty'', bounded ''number'' [(''gt'', SInt 6)]), (''drain_rate'', unpinned ''number''), (''extended_limits'', unpinned ''boolean'')]),
     (''HT'', [(''speed_change'', pinned ''number'' (SFloat (3 / 4))), (''adjust_pitch'', unpinned ''boolean'')]),
     (''DC'', [(''speed_change'', pinned ''number'' (SFloat (3 / 4)))]),
     (''NR'', []),
     (''HR'', []),
     (''SD'', [(''restart'', unpinned ''boolean'')]),
     (''PF'', [(''require_perfect_hits'', unpinned ''boolean''), (''restart'', unpinned ''boolean'')]),
     (''HD'', []),
     (''FI'', []),
     (''CO'', []),
     (''DT'', [(''speed_change'', pinned ''number'' (SFloat (3 / 2))), (''adjust_pitch'', unpinned ''boolean'')]),
     (''NC'', [(''speed_change'', pinned ''number'' (SFloat (3 / 2)))]),
     (''FL'', [(''size_multiplier'', pinned ''number'' (SFloat 1)), (''combo_based_size'', pinned ''boolean'' (SBool False))]),
     (''CL'', []),
     (''CS'', []),
     (''DS'', []),
     (''HO'', []),
     (''RD'', [(''seed'', unpinned ''number'')]),
     (''AS'', [(''initial_rate'', unpinned ''number''), (''adjust_pitch'', unpinned ''boolean'')]),
     (''WD'', [(''initial_rate'', unpinned ''number''), (''final_rate'', unpinned ''number''), (''adjust_pitch'', unpinned ''boolean'')]),
     (''WU'', [(''initial_rate'', unpinned ''number''), (''final_rate'', unpinned ''number''), (''adjust_pitch'', unpinned ''boolean'')]),
     (''AC'', [(''minimum_accuracy'', unpinned ''number''), (''accuracy_judge_mode'', unpinned ''string''), (''restart'', unpinned ''boolean'')]),
     (''MU'', [(''inverse_muting'', unpinned ''boolean''), (''enable_metronome'', unpinned ''boolean''), (''mute_combo_count'', unpinned ''number''), (''affects_hit_sounds'', unpinned ''boolean'')]),
     (''PA'', [(''pitch_shift'', unpinned ''number''), (''extended_limits'', unpinned ''boolean'')]),
     (''MR'', []),
     (''4K'', []),
     (''5K'', []),
     (''6K'', []),
     (''7K'', []),
     (''8K'', []),
     (''9K'', []),
     (''1K'', []),
     (''2K'', []),
     (''3K'', []),
     (''10K'', [])]"

definition DEFAULT_RANKED_MODS :: ranked_mods where
  "DEFAULT_RANKED_MODS =
     [(0, default_ranked_osu), (1, default_ranked_taiko), (2, default_ranked_catch), (3, default_ranked_mania)]"

text \<open>The fields handed to \<^verbatim>\<open>create_model\<close>: any value, one of some literals with a
  default, or a type with constraints and default None.\<close>

datatype py_type = PyNumber | PyBool | PyStr

datatype field_spec =
    FAny
  | FLiteral "setting list" setting
  | FTyped py_type mod_settings

definition TYPE_TO_PY :: "(string \<times> py_type) list" where
  "TYPE_TO_PY = [(''number'', PyNumber), (''boolean'', PyBool), (''string'', PyStr)]"

definition field_of_rule :: "vrule \<Rightarrow> py_error + field_spec" where
  "field_of_rule r =
     (case rtype r of
        None \<Rightarrow> Inl ValueError
      | Some ty \<Rightarrow>
          (case map_of TYPE_TO_PY ty of
             None \<Rightarrow> Inl ValueError
           | Some py \<Rightarrow>
               if \<not> rcheck r then Inr FAny
               else (case req r of
                   Some v \<Rightarrow> Inr (FLiteral [v] v)
                 | None \<Rightarrow>
                     (case rin r of
                        Some (Inl _) \<Rightarrow> Inl ValueError
                      | Some (Inr []) \<Rightarrow> Inl ValueError
                      | Some (Inr (v # vs)) \<Rightarrow> Inr (FLiteral (v # vs) v)
                      | None \<Rightarrow> Inr (FTyped py (rextra r))))))"

fun fields_of_rules :: "(string \<times> vrule) list \<Rightarrow> py_error + (string \<times> field_spec) list" where
  "fields_of_rules [] = Inr []"
| "fields_of_rules ((name, r) # rs) =
     py_bind (field_of_rule r) (\<lambda>f. py_bind (fields_of_rules rs) (\<lambda>fs. Inr ((name, f) # fs)))"

definition generate_model :: "(string \<times> vrule) list \<Rightarrow> py_error + (string \<times> field_spec) list" where
  "generate_model rules =
     py_bind (fields_of_rules rules) (\<lambda>fs. if fs = [] then Inl ValueError else Inr fs)"

type_synonym validator = "(string \<times> field_spec) list \<Rightarrow> mod_settings \<Rightarrow> bool"

text \<open>The model is generated before the \<^verbatim>\<open>try\<close> that guards the validation, so a
  malformed rule is an error of the caller.\<close>

definition check_settings :: "validator \<Rightarrow> api_mod \<Rightarrow> ruleset_ranked \<Rightarrow> py_error + bool" where
  "check_settings validate m ranked =
     (case map_of ranked (acronym m) of
        None \<Rightarrow> Inr False
      | Some rules \<Rightarrow>
          if rules = [] then Inr True
          else py_bind (generate_model rules) (\<lambda>model. Inr (validate model (settings_of m))))"

definition STD_ALWAYS_UNRANKED_MODS :: "string set" where
  "STD_ALWAYS_UNRANKED_MODS = {''MG''}"

definition ALWAYS_ALLOW_CUSTOM_SETTINGS_MODS :: "string set" where
  "ALWAYS_ALLOW_CUSTOM_SETTINGS_MODS = {''DC'', ''DT'', ''EZ'', ''HT'', ''NC''}"

text \<open>One iteration of the loop of \<^verbatim>\<open>_mods_can_get_pp\<close>: \<open>False\<close> returns False,
  \<open>True\<close> goes on to the next mod.\<close>

definition mod_can_get_pp :: "config \<Rightarrow> validator \<Rightarrow> int \<Rightarrow> ranked_mods \<Rightarrow> api_mod \<Rightarrow> py_error + bool" where
  "mod_can_get_pp cfg validate rs ranked m =
     (let a = acronym m in
      if rs = 0 \<and> a \<in> STD_ALWAYS_UNRANKED_MODS then Inr False
      else if rs = 3 \<and> a = ''DA'' \<and>
           (case map_of (settings_of m) ''overall_difficulty'' of
              None \<Rightarrow> False
            | Some v \<Rightarrow> (case setting_num v of None \<Rightarrow> False | Some od \<Rightarrow> od \<le> 6)) then Inr False
      else if rs = 3 \<and> a = ''IN'' then Inr False
      else if a = ''BM'' then Inr False
      else if a = ''WD'' then Inr False
      else if a = ''AS'' then Inr False
      else if rs \<in> {1, 3} \<and> a = ''CS'' then Inr False
      else if enable_rx cfg \<and> a = ''RX'' \<and> rs \<in> {0, 1, 2} then Inr True
      else if enable_ap cfg \<and> a = ''AP'' \<and> rs = 0 then Inr True
      else if a \<in> ALWAYS_ALLOW_CUSTOM_SETTINGS_MODS then Inr True
      else check_settings validate m (dict_get ranked rs []))"

fun mods_can_get_pp_in :: "config \<Rightarrow> validator \<Rightarrow> int \<Rightarrow> ranked_mods \<Rightarrow> api_mod list \<Rightarrow> py_error + bool" where
  "mods_can_get_pp_in cfg validate rs ranked [] = Inr True"
| "mods_can_get_pp_in cfg validate rs ranked (m # ms) =
     py_bind (mod_can_get_pp cfg validate rs ranked m)
       (\<lambda>ok. if ok then mods_can_get_pp_in cfg validate rs ranked ms else Inr False)"

definition mods_can_get_pp_vanilla :: "config \<Rightarrow> validator \<Rightarrow> int \<Rightarrow> api_mod list \<Rightarrow> py_error + bool" where
  "mods_can_get_pp_vanilla cfg validate rs mods = mods_can_get_pp_in cfg validate rs DEFAULT_RANKED_MODS mods"

text \<open>\<^verbatim>\<open>mods_can_get_pp\<close> reads the table \<^verbatim>\<open>RANKED_MODS\<close> loaded at start-up.\<close>

definition mods_can_get_pp :: "config \<Rightarrow> validator \<Rightarrow> ranked_mods \<Rightarrow> int \<Rightarrow> api_mod list \<Rightarrow> py_error + bool" where
  "mods_can_get_pp cfg validate ranked rs mods = mods_can_get_pp_in cfg validate rs ranked mods"

text \<open>The configuration file \<^verbatim>\<open>ranked_mods.json\<close>: the checksum of the mod file it was made
  for, and the table, whose JSON keys are the decimal strings of the ruleset ids.\<close>

type_synonym ranked_file = "string option \<times> (string \<times> ruleset_ranked) list"

definition generate_ranked_mod_settings ::
  "bool \<Rightarrow> string \<Rightarrow> (int \<times> ruleset_mods) list \<Rightarrow> bool \<Rightarrow> ranked_file" where
  "generate_ranked_mod_settings legacy_all checksum api_mods enable_all =
     (let result = (if \<not> legacy_all \<and> \<not> enable_all then DEFAULT_RANKED_MODS
                    else map (\<lambda>(rs, ms). (rs, map (\<lambda>(a, _). (a, [])) ms)) api_mods)
      in (Some checksum, map (\<lambda>(rs, t). (int_str rs, t)) result))"

fun load_ranked :: "ranked_mods \<Rightarrow> (string \<times> ruleset_ranked) list \<Rightarrow> py_error + ranked_mods" where
  "load_ranked acc [] = Inr acc"
| "load_ranked acc ((k, t) # kvs) = py_bind (parse_int k) (\<lambda>rs. load_ranked (dict_set acc rs t) kvs)"

definition load_ranked_file :: "string \<Rightarrow> ranked_file \<Rightarrow> py_error + ranked_mods" where
  "load_ranked_file checksum file =
     (case fst file of
        Some c \<Rightarrow> if c \<noteq> checksum then Inl RuntimeError else load_ranked [] (snd file)
      | None \<Rightarrow> load_ranked [] (snd file))"

text \<open>A missing file is written first and then read: the file after the call, and the table
  or the error.\<close>

definition init_ranked_mods ::
  "bool \<Rightarrow> string \<Rightarrow> (int \<times> ruleset_mods) list \<Rightarrow> ranked_file option \<Rightarrow>
   ranked_file \<times> (py_error + ranked_mods)" where
  "init_ranked_mods legacy_all checksum api_mods disk =
     (case disk of
        Some file \<Rightarrow> (file, load_ranked_file checksum file)
      | None \<Rightarrow>
          let file = generate_ranked_mod_settings legacy_all checksum api_mods False
          in (file, load_ranked_file checksum file))"

section \<open>Mod sets\<close>

definition mod_to_save :: "api_mod list \<Rightarrow> string list" where
  "mod_to_save mods = sort (remdups (map acronym mods))"

definition rate_mods :: "string set" where
  "rate_mods = {''DT'', ''NC'', ''HT'', ''DC''}"

text \<open>A setting that is no number makes the multiplication raise TypeError.\<close>

fun speed_rate_from :: "real \<Rightarrow> api_mod list \<Rightarrow> py_error + real" where
  "speed_rate_from rate [] = Inr rate"
| "speed_rate_from rate (m # ms) =
     (if acronym m \<in> rate_mods then
        (case setting_num (dict_get (settings_of m) ''speed_change'' (SFloat 1)) of
           None \<Rightarrow> Inl TypeError
         | Some f \<Rightarrow> speed_rate_from (rate * f) ms)
      else speed_rate_from rate ms)"

definition get_speed_rate :: "api_mod list \<Rightarrow> py_error + real" where
  "get_speed_rate mods = speed_rate_from 1 mods"

definition get_available_mods :: "api_mod_table \<Rightarrow> int \<Rightarrow> api_mod list \<Rightarrow> api_mod list" where
  "get_available_mods tbl rs required =
     (case tbl rs of
        None \<Rightarrow> []
      | Some t \<Rightarrow>
          let req = map acronym required;
              incompatible = concat (map (\<lambda>a. case map_of t a of None \<Rightarrow> [] | Some d \<Rightarrow> IncompatibleMods d) req);
              available = filter (\<lambda>(a, d).
                 a \<notin> set req \<and> a \<notin> set incompatible \<and>
                 \<not> list_ex (\<lambda>r. r \<in> set (IncompatibleMods d)) req \<and> UserPlayable d) t
          in map (\<lambda>(a, _). \<lparr>acronym = a, msettings = None\<rparr>) available)"

section \<open>Legacy bit field: properties\<close>

lemma legacy_values:
  "map (\<lambda>k. dict_get API_MOD_TO_LEGACY (acronym (legacy_mod k)) 0) [0..<31] =
   map (\<lambda>k. push_bit k 1 OR (if k = 9 then push_bit 6 1 else if k = 14 then push_bit 5 1 else 0)) [0..<31]"
  by code_simp

lemma legacy_distinct: "distinct (map legacy_mod [0..<31])"
  by code_simp

lemma legacy_value:
  assumes "k < 31"
  shows "dict_get API_MOD_TO_LEGACY (acronym (legacy_mod k)) 0 =
         push_bit k 1 OR (if k = 9 then push_bit 6 1 else if k = 14 then push_bit 5 1 else 0)"
  using arg_cong [OF legacy_values, of "\<lambda>xs. xs ! k"] assms by simp

lemma legacy_mod_inj: "i < 31 \<Longrightarrow> j < 31 \<Longrightarrow> legacy_mod i = legacy_mod j \<longleftrightarrow> i = j"
  using nth_eq_iff_index_eq [OF legacy_distinct, of i j] by simp

lemma bit_legacy_value:
  "k < 31 \<Longrightarrow> bit (dict_get API_MOD_TO_LEGACY (acronym (legacy_mod k)) 0) n \<longleftrightarrow>
     n = k \<or> k = 9 \<and> n = 6 \<or> k = 14 \<and> n = 5"
proof -
  have one: "bit (push_bit j 1 :: int) n \<longleftrightarrow> n = j" for j
    by (auto simp: bit_push_bit_iff_int bit_1_iff simp del: push_bit_of_1)
  assume "k < 31"
  then show ?thesis
    by (simp only: legacy_value bit_or_iff one) (auto simp: one simp del: push_bit_of_1)
qed

lemma bit_mods_to_int:
  "bit (mods_to_int ms) n \<longleftrightarrow> (\<exists>m \<in> set ms. bit (dict_get API_MOD_TO_LEGACY (acronym m) 0) n)"
proof -
  have "bit (foldl (\<lambda>s m. s OR dict_get API_MOD_TO_LEGACY (acronym m) 0) a ms) n \<longleftrightarrow>
        bit a n \<or> (\<exists>m \<in> set ms. bit (dict_get API_MOD_TO_LEGACY (acronym m) 0) n)" for a
    by (induction ms arbitrary: a) (auto simp: bit_or_iff)
  then show ?thesis by (simp add: mods_to_int_def)
qed

lemma and_push_bit_iff: "m AND push_bit k 1 \<noteq> (0::int) \<longleftrightarrow> bit m k"
  by (simp add: bit_iff_and_push_bit_not_eq_0)

definition legacy_flags_ok :: "int \<Rightarrow> bool" where
  "legacy_flags_ok m \<longleftrightarrow> (bit m 14 \<longrightarrow> bit m 5) \<and> (bit m 9 \<longrightarrow> bit m 6)"

definition kept_bits :: "int \<Rightarrow> nat list" where
  "kept_bits m = filter (\<lambda>k. bit m k \<and> \<not> (k = 5 \<and> bit m 14) \<and> \<not> (k = 6 \<and> bit m 9)) [0..<31]"

lemma remove_legacy:
  assumes "k < 31" "\<forall>x \<in> set xs. x < 31" "distinct xs"
  shows "list_remove (legacy_mod k) (map legacy_mod xs) =
    (if k \<in> set xs then Inr (map legacy_mod (filter (\<lambda>x. x \<noteq> k) xs)) else Inl ValueError)"
proof -
  have eq: "legacy_mod x = legacy_mod k \<longleftrightarrow> x = k" if "x < 31" for x
    using legacy_mod_inj that assms(1) by blast
  have mem: "legacy_mod k \<in> set (map legacy_mod xs) \<longleftrightarrow> k \<in> set xs"
    using assms(2) eq by auto (metis eq)
  have rem: "remove1 (legacy_mod k) (map legacy_mod xs) = map legacy_mod (remove1 k xs)"
    using assms(2)
  proof (induction xs)
    case (Cons a xs)
    then have "legacy_mod a = legacy_mod k \<longleftrightarrow> a = k" by (intro eq) simp
    with Cons show ?case by auto
  qed simp
  have "remove1 k xs = filter (\<lambda>x. x \<noteq> k) xs"
    using assms(3) by (auto simp: distinct_remove1_removeAll removeAll_filter_not_eq intro!: filter_cong)
  with mem rem show ?thesis by (simp add: list_remove_def)
qed

lemma int_to_mods_eq:
  "int_to_mods m = (if legacy_flags_ok m then Inr (map legacy_mod (kept_bits m)) else Inl ValueError)"
proof -
  let ?xs = "filter (bit m) [0..<31]"
  let ?ys = "if bit m 14 then filter (\<lambda>k. k \<noteq> 5) ?xs else ?xs"
  have xs: "\<forall>x \<in> set ?xs. x < 31" "distinct ?xs" by auto
  have ys: "\<forall>x \<in> set ?ys. x < 31" "distinct ?ys" by auto
  have r1: "bit m 14 \<Longrightarrow> list_remove (legacy_mod 5) (map legacy_mod ?xs) =
      (if bit m 5 then Inr (map legacy_mod ?ys) else Inl ValueError)"
    using remove_legacy [OF _ xs, of 5] by auto
  have r2: "list_remove (legacy_mod 6) (map legacy_mod ?ys) =
      (if bit m 6 then Inr (map legacy_mod (filter (\<lambda>k. k \<noteq> 6) ?ys)) else Inl ValueError)"
    using remove_legacy [OF _ ys, of 6] by auto
  have kept: "legacy_flags_ok m \<Longrightarrow> (if bit m 9 then filter (\<lambda>k. k \<noteq> 6) ?ys else ?ys) = kept_bits m"
    unfolding kept_bits_def by (auto simp: filter_filter intro!: filter_cong)
  show ?thesis
  proof (cases "legacy_flags_ok m")
    case True
    then show ?thesis
      using r1 r2 kept unfolding int_to_mods_def Let_def and_push_bit_iff legacy_flags_ok_def
      by (cases "bit m 14"; cases "bit m 9") simp_all
  next
    case False
    then show ?thesis
      using r1 r2 unfolding int_to_mods_def Let_def and_push_bit_iff legacy_flags_ok_def
      by (cases "bit m 14"; cases "bit m 9"; cases "bit m 5") simp_all
  qed
qed

lemma bit_mods_to_int_kept:
  "bit (mods_to_int (map legacy_mod (kept_bits m))) n \<longleftrightarrow>
     n < 31 \<and> (bit m n \<or> bit m 14 \<and> n = 5 \<or> bit m 9 \<and> n = 6)"
proof -
  have "bit (mods_to_int (map legacy_mod (kept_bits m))) n \<longleftrightarrow>
      (\<exists>k \<in> set (kept_bits m). n = k \<or> k = 9 \<and> n = 6 \<or> k = 14 \<and> n = 5)"
    using bit_legacy_value by (auto simp: bit_mods_to_int kept_bits_def)
  also have "\<dots> \<longleftrightarrow> n \<in> set (kept_bits m) \<or> 9 \<in> set (kept_bits m) \<and> n = 6 \<or> 14 \<in> set (kept_bits m) \<and> n = 5"
    by auto
  finally show ?thesis by (auto simp: kept_bits_def)
qed

lemma kept_bits_roundtrip:
  "legacy_flags_ok m \<Longrightarrow> mods_to_int (map legacy_mod (kept_bits m)) = take_bit 31 m"
  by (intro bit_eqI) (auto simp: bit_mods_to_int_kept bit_take_bit_iff legacy_flags_ok_def)

text \<open>C38: reading a legacy bit field fails with ValueError exactly when it has the Perfect
  bit without Sudden Death or the Nightcore bit without Double Time; otherwise writing
  the mods back gives the field's low 31 bits.\<close>

theorem legacy_roundtrip:
  "case int_to_mods m of
     Inl e \<Rightarrow> e = ValueError \<and> \<not> legacy_flags_ok m
   | Inr ms \<Rightarrow> legacy_flags_ok m \<and> mods_to_int ms = m mod 2 ^ 31"
  using kept_bits_roundtrip [of m] by (simp add: int_to_mods_eq take_bit_eq_mod)

definition legacy_value_ok :: "int \<Rightarrow> bool" where
  "legacy_value_ok v \<longleftrightarrow> legacy_flags_ok v \<and> take_bit 31 v = v"

lemma legacy_table_ok: "list_all (\<lambda>(a, v). legacy_value_ok v) API_MOD_TO_LEGACY"
  by code_simp

lemma legacy_get_ok: "legacy_value_ok (dict_get API_MOD_TO_LEGACY a 0)"
proof (cases "map_of API_MOD_TO_LEGACY a")
  case None
  then show ?thesis by (simp add: dict_get_def legacy_value_ok_def legacy_flags_ok_def)
next
  case (Some v)
  with legacy_table_ok have "legacy_value_ok v" by (fastforce simp only: list_all_iff dest: map_of_SomeD)
  with Some show ?thesis by (simp add: dict_get_def)
qed

lemma mods_to_int_ok: "legacy_value_ok (mods_to_int ms)"
proof -
  have "legacy_value_ok (foldl (\<lambda>s m. s OR dict_get API_MOD_TO_LEGACY (acronym m) 0) a ms)"
    if "legacy_value_ok a" for a
    using that
  proof (induction ms arbitrary: a)
    case (Cons m ms)
    have "legacy_value_ok (a OR dict_get API_MOD_TO_LEGACY (acronym m) 0)"
      using Cons.prems legacy_get_ok [of "acronym m"]
      by (auto simp: legacy_value_ok_def legacy_flags_ok_def bit_or_iff)
    with Cons.IH show ?case by simp
  qed simp
  then show ?thesis by (simp add: mods_to_int_def legacy_value_ok_def legacy_flags_ok_def)
qed

text \<open>The bit field of any mod list can be read back (it never has one of the two
  inconsistent combinations), and reading it back and writing it again is the identity.\<close>

theorem legacy_mods_roundtrip:
  "\<exists>ms'. int_to_mods (mods_to_int ms) = Inr ms' \<and> mods_to_int ms' = mods_to_int ms"
  using mods_to_int_ok [of ms] kept_bits_roundtrip [of "mods_to_int ms"]
  by (simp add: int_to_mods_eq legacy_value_ok_def)

section \<open>The pp check: properties\<close>

lemma mods_can_get_pp_in_iff:
  "mods_can_get_pp_in cfg validate rs ranked mods = Inr True \<longleftrightarrow>
   (\<forall>m \<in> set mods. mod_can_get_pp cfg validate rs ranked m = Inr True)"
  by (induction mods) (auto simp: py_bind_Inr_iff split: if_splits)

lemma mods_can_get_pp_in_total:
  "\<forall>m \<in> set mods. \<not> isl (mod_can_get_pp cfg validate rs ranked m) \<Longrightarrow>
   \<not> isl (mods_can_get_pp_in cfg validate rs ranked mods)"
  by (induction mods) (auto simp: py_bind_def split: sum.splits)

definition never_ranked :: "int \<Rightarrow> api_mod \<Rightarrow> bool" where
  "never_ranked rs m \<longleftrightarrow>
     acronym m \<in> {''BM'', ''WD'', ''AS''} \<or>
     rs = 0 \<and> acronym m = ''MG'' \<or>
     rs = 3 \<and> acronym m = ''IN'' \<or>
     rs \<in> {1, 3} \<and> acronym m = ''CS'' \<or>
     rs = 3 \<and> acronym m = ''DA'' \<and>
       (case map_of (settings_of m) ''overall_difficulty'' of
          None \<Rightarrow> False
        | Some v \<Rightarrow> (case setting_num v of None \<Rightarrow> False | Some od \<Rightarrow> od \<le> 6))"

lemma never_ranked_refused: "never_ranked rs m \<Longrightarrow> mod_can_get_pp cfg validate rs ranked m = Inr False"
  unfolding never_ranked_def
  by (elim disjE conjE insertE emptyE; simp add: mod_can_get_pp_def STD_ALWAYS_UNRANKED_MODS_def Let_def)

text \<open>A mod list that contains a mod whose pp the server refuses outright (Bloom, Wind
  Down, Adaptive Speed anywhere; Magnetised on osu!; Invert, or Difficulty Adjust with an
  overall difficulty of at most 6, on mania; Constant Speed on taiko and mania) never
  passes the pp check, whatever table of ranked mods is loaded and whatever the settings
  validator answers.\<close>

theorem unranked_mods_never_get_pp:
  assumes "mods_can_get_pp cfg validate ranked rs mods = Inr True" and "m \<in> set mods"
  shows "\<not> never_ranked rs m"
proof
  assume "never_ranked rs m"
  then have "mod_can_get_pp cfg validate rs ranked m = Inr False" by (rule never_ranked_refused)
  with assms show False by (simp add: mods_can_get_pp_def mods_can_get_pp_in_iff)
qed

theorem unranked_mods_never_get_pp_witness:
  "\<not> never_ranked 3 \<lparr>acronym = ''DT'', msettings = Some [(''speed_change'', SFloat 2)]\<rparr>"
  by (rule unranked_mods_never_get_pp
        [where cfg = "\<lparr>enable_rx = True, enable_ap = True, server_authoritative_total_score = True,
           enable_all_beatmap_leaderboard = False, enable_all_beatmap_pp = False,
           scoring_mode = STANDARDISED, check_ruleset_version = False\<rparr>"
         and validate = "\<lambda>_ _. False" and ranked = DEFAULT_RANKED_MODS
         and mods = "[\<lparr>acronym = ''DT'', msettings = Some [(''speed_change'', SFloat 2)]\<rparr>]"])
     (simp_all add: mods_can_get_pp_def mod_can_get_pp_def STD_ALWAYS_UNRANKED_MODS_def
        ALWAYS_ALLOW_CUSTOM_SETTINGS_MODS_def)

definition rules_generate :: "(string \<times> vrule) list \<Rightarrow> bool" where
  "rules_generate rules \<longleftrightarrow> rules = [] \<or> \<not> isl (generate_model rules)"

lemma default_rules_generate:
  "list_all (\<lambda>(rs, t). list_all (\<lambda>(a, rules). rules_generate rules) t) DEFAULT_RANKED_MODS"
  by code_simp

lemma check_settings_total:
  assumes "list_all (\<lambda>(a, rules). rules_generate rules) ranked"
  shows "\<not> isl (check_settings validate m ranked)"
proof (cases "map_of ranked (acronym m)")
  case (Some rules)
  with assms have "rules_generate rules" by (auto simp: list_all_iff dest: map_of_SomeD)
  with Some show ?thesis
    by (cases "generate_model rules") (auto simp: check_settings_def rules_generate_def)
qed (simp add: check_settings_def)

lemma dict_get_in_set: "dict_get d k dflt = dflt \<or> (k, dict_get d k dflt) \<in> set d"
  by (auto simp: dict_get_def split: option.splits dest: map_of_SomeD)

lemma default_check_total: "\<not> isl (check_settings validate m (dict_get DEFAULT_RANKED_MODS rs []))"
proof (rule check_settings_total)
  from dict_get_in_set [of DEFAULT_RANKED_MODS rs "[]"] default_rules_generate
  show "list_all (\<lambda>(a, rules). rules_generate rules) (dict_get DEFAULT_RANKED_MODS rs [])"
    by (force simp: list_all_iff)
qed

lemma not_isl_if: "\<not> isl a \<Longrightarrow> \<not> isl b \<Longrightarrow> \<not> isl (if c then a else b)"
  by simp

lemma mod_can_get_pp_total:
  "\<not> isl (check_settings validate m (dict_get ranked rs [])) \<Longrightarrow>
   \<not> isl (mod_can_get_pp cfg validate rs ranked m)"
  unfolding mod_can_get_pp_def Let_def by (intro not_isl_if; simp only: sum.disc not_False_eq_True)

text \<open>C40: With the built-in table the pp check never raises: every rule of the four ruleset
  tables generates a validator, so the answer is a boolean for every ruleset id and mod
  list.\<close>

theorem vanilla_pp_check_total: "\<not> isl (mods_can_get_pp_vanilla cfg validate rs mods)"
  unfolding mods_can_get_pp_vanilla_def
  by (intro mods_can_get_pp_in_total ballI mod_can_get_pp_total default_check_total)

lemma generated_rules_generate:
  "list_all (\<lambda>(a, rules). rules_generate rules) (map (\<lambda>(a, _). (a, [])) ms)"
  by (auto simp: list_all_iff rules_generate_def)

lemma mod_to_save_set: "set (mod_to_save mods) = acronym ` set mods"
  by (simp add: mod_to_save_def)

lemma mod_to_save_sorted: "sorted (mod_to_save mods) \<and> distinct (mod_to_save mods)"
  by (simp add: mod_to_save_def)

lemma mod_to_save_eq_iff: "mod_to_save a = mod_to_save b \<longleftrightarrow> acronym ` set a = acronym ` set b"
proof
  assume "acronym ` set a = acronym ` set b"
  then have "set (mod_to_save a) = set (mod_to_save b)" by (simp add: mod_to_save_set)
  then show "mod_to_save a = mod_to_save b"
    using mod_to_save_sorted [of a] mod_to_save_sorted [of b] by (blast intro: sorted_distinct_set_unique)
qed (metis mod_to_save_set)

lemma get_available_mods_iff:
  assumes "tbl rs = Some t" and "distinct (map fst t)"
  shows "a \<in> acronym ` set (get_available_mods tbl rs required) \<longleftrightarrow>
    (\<exists>d. map_of t a = Some d \<and> UserPlayable d \<and> a \<notin> acronym ` set required \<and>
      (\<forall>r \<in> acronym ` set required. r \<notin> set (IncompatibleMods d) \<and>
         (\<forall>e. map_of t r = Some e \<longrightarrow> a \<notin> set (IncompatibleMods e))))"
proof -
  have mem: "map_of t a = Some d \<longleftrightarrow> (a, d) \<in> set t" for d
    using assms(2) by (simp add: map_of_eq_Some_iff)
  have inc: "a \<in> set (concat (map (\<lambda>a. case map_of t a of None \<Rightarrow> [] | Some d \<Rightarrow> IncompatibleMods d) (map acronym required)))
     \<longleftrightarrow> (\<exists>r \<in> acronym ` set required. \<exists>e. map_of t r = Some e \<and> a \<in> set (IncompatibleMods e))"
    by (force split: option.splits)
  show ?thesis
    unfolding mem get_available_mods_def assms(1) option.case Let_def
    using inc by (auto simp: image_iff list_ex_iff split_beta) 
qed

lemma get_available_mods_unknown: "tbl rs = None \<Longrightarrow> get_available_mods tbl rs required = []"
  by (simp add: get_available_mods_def)

definition mod_rate :: "api_mod \<Rightarrow> real option" where
  "mod_rate m = (if acronym m \<in> rate_mods then setting_num (dict_get (settings_of m) ''speed_change'' (SFloat 1)) else Some 1)"

lemma speed_rate_from_eq:
  "speed_rate_from r mods = (if \<forall>m \<in> set mods. mod_rate m \<noteq> None
     then Inr (r * prod_list (map (\<lambda>m. the (mod_rate m)) mods)) else Inl TypeError)"
  by (induction mods arbitrary: r) (auto simp: mod_rate_def split: option.splits)

text \<open>The saved form of a mod set (the sorted acronyms) is canonical: two mod lists are
  saved alike exactly when they have the same acronyms, and the saved list is strictly
  ascending.\<close>

theorem mod_to_save_canonical:
  "(mod_to_save a = mod_to_save b \<longleftrightarrow> acronym ` set a = acronym ` set b) \<and>
   sorted_wrt (<) (mod_to_save a)"
  using mod_to_save_eq_iff mod_to_save_sorted [of a] by (simp add: strict_sorted_iff)

text \<open>The mods offered beside the required mods of a room are compatible with them: a
  required list the submission validator accepts stays accepted with an offered mod
  inserted at any place.\<close>

theorem available_mods_validate:
  assumes tbl: "tbl rs = Some t" and dist: "distinct (map fst t)"
    and ok: "validate_mods tbl rs required = Inr required"
    and m: "m \<in> set (get_available_mods tbl rs required)"
  shows "validate_mods tbl rs (take i required @ m # drop i required) =
         Inr (take i required @ m # drop i required)"
proof -
  from get_available_mods_iff [of tbl rs t "acronym m" required] tbl dist m
  obtain d where d: "map_of t (acronym m) = Some d"
    and c: "\<forall>r \<in> acronym ` set required. r \<notin> set (IncompatibleMods d) \<and>
         (\<forall>e. map_of t r = Some e \<longrightarrow> acronym m \<notin> set (IncompatibleMods e))" by blast
  have acc: "mods_acceptable t [] (take i required @ drop i required)"
    using ok validate_mods_iff [of tbl rs t required] tbl by simp
  have all: "allows t m r \<and> allows t r m" if "r \<in> set required" for r
    using c d that by (auto simp: allows_def split: option.splits)
  from acc all d have "mods_acceptable t [] (take i required @ m # drop i required)"
    unfolding mods_acceptable_def sorted_wrt_append
    by (auto dest: in_set_takeD in_set_dropD)
  with tbl show ?thesis using validate_mods_iff [of tbl rs t] by simp
qed

theorem available_mods_validate_witness:
  "validate_mods (\<lambda>_. Some [(''DT'', \<lparr>mod_type = [], IncompatibleMods = [''NC''], UserPlayable = True\<rparr>),
                            (''HR'', \<lparr>mod_type = [], IncompatibleMods = [], UserPlayable = True\<rparr>)]) 0
     [\<lparr>acronym = ''HR'', msettings = None\<rparr>, \<lparr>acronym = ''DT'', msettings = None\<rparr>] =
   Inr [\<lparr>acronym = ''HR'', msettings = None\<rparr>, \<lparr>acronym = ''DT'', msettings = None\<rparr>]"
  using available_mods_validate
    [where tbl = "\<lambda>_. Some [(''DT'', \<lparr>mod_type = [], IncompatibleMods = [''NC''], UserPlayable = True\<rparr>),
                            (''HR'', \<lparr>mod_type = [], IncompatibleMods = [], UserPlayable = True\<rparr>)]"
      and rs = 0 and required = "[\<lparr>acronym = ''DT'', msettings = None\<rparr>]"
      and m = "\<lparr>acronym = ''HR'', msettings = None\<rparr>" and i = 0, OF refl]
  by (simp add: validate_mods_def get_available_mods_def)

lemma load_ranked_printed: "load_ranked acc (map (\<lambda>(rs, t). (int_str rs, t)) l) = Inr (dict_update acc l)"
  by (induction l arbitrary: acc) auto

lemma default_tables_distinct: "distinct (map fst DEFAULT_RANKED_MODS)"
  by (simp add: DEFAULT_RANKED_MODS_def)

text \<open>On a first start the configuration file is written with the built-in table and
  that table is loaded; every later start, with either value of the old switch, loads the
  same table from the file and leaves it alone, unless the mod file has changed, which is
  refused with RuntimeError.\<close>

theorem ranked_file_roundtrip:
  "\<exists>file. init_ranked_mods False c am None = (file, Inr DEFAULT_RANKED_MODS) \<and>
     (\<forall>all c' am'. init_ranked_mods all c' am' (Some file) =
        (file, if c' = c then Inr DEFAULT_RANKED_MODS else Inl RuntimeError))"
  using default_tables_distinct
  by (simp add: init_ranked_mods_def generate_ranked_mod_settings_def load_ranked_file_def
      load_ranked_printed dict_update_new Let_def)

text \<open>The clock rate of a mod list is the product of the rates its rate mods set (1.0
  when a rate mod sets none), so it does not depend on their order; a rate that is no
  number makes the computation raise TypeError.\<close>

theorem get_speed_rate_product:
  "get_speed_rate mods =
     (if list_all (\<lambda>m. mod_rate m \<noteq> None) mods
      then Inr (\<Prod>m \<in># mset mods. the (mod_rate m)) else Inl TypeError)"
  by (simp add: get_speed_rate_def speed_rate_from_eq prod_mset_prod_list list_all_iff flip: mset_map)

end
