(* ===== verification/Multiplier.thy ===== *)
theory Multiplier
  imports Mods
begin

text \<open>
  The server-side score multiplier: \<^verbatim>\<open>src/app/calculators/score_multiplier.py\<close>.
  Each ruleset has a table of single-mod multipliers, osu! also a list of mod combinations
  that are priced together; \<open>evaluate\<close> is the generic evaluator. Arithmetic on a setting
  that is no number raises TypeError, as it does in Python.
\<close>

section \<open>Settings\<close>

definition clampf :: "real \<Rightarrow> real \<Rightarrow> real \<Rightarrow> real" where
  "clampf v lo hi = max lo (min hi v)"

text \<open>\<^verbatim>\<open>_setting\<close>: a missing key and a null value give the default.\<close>

definition mod_setting :: "api_mod \<Rightarrow> string \<Rightarrow> setting \<Rightarrow> setting" where
  "mod_setting m key dflt =
     (let v = dict_get (settings_of m) key dflt in if v = SNull then dflt else v)"

definition num_setting :: "api_mod \<Rightarrow> string \<Rightarrow> real \<Rightarrow> py_error + real" where
  "num_setting m key dflt =
     (case setting_num (mod_setting m key (SFloat dflt)) of None \<Rightarrow> Inl TypeError | Some x \<Rightarrow> Inr x)"

definition flag_setting :: "api_mod \<Rightarrow> string \<Rightarrow> bool \<Rightarrow> bool" where
  "flag_setting m key dflt = setting_truthy (mod_setting m key (SBool dflt))"

definition uses_default_config :: "api_mod \<Rightarrow> bool" where
  "uses_default_config m \<longleftrightarrow> settings_of m = []"

section \<open>osu!\<close>

definition osu_double_time :: "real \<Rightarrow> real" where
  "osu_double_time speed =
     (let v = of_int (py_int (speed * 10)) / 10;
          penalty = (if v \<noteq> 3 / 2 \<and> v \<noteq> 1 then 1 / 100 else 0)
      in (v - 1) * (46 / 100) + 1 - penalty)"

definition osu_half_time :: "real \<Rightarrow> real" where
  "osu_half_time speed = of_int (py_int (speed * 20)) / 20 * (14 / 10) - 1 / 2"

definition osu_hidden :: "api_mod \<Rightarrow> bool \<Rightarrow> real" where
  "osu_hidden m timing =
     104 / 100 - (if flag_setting m ''only_fade_approach_circles'' False then 2 / 100 else 0)
       - (if timing then 2 / 100 else 0)"

definition osu_flashlight :: "api_mod \<Rightarrow> py_error + real" where
  "osu_flashlight m =
     py_bind (num_setting m ''size_multiplier'' 1) (\<lambda>size.
       let v = max (102 / 100) (min (12 / 10) (12 / 10 - 2 / 10 * (size - 1)))
       in Inr (if \<not> flag_setting m ''combo_based_size'' True then 1 + (v - 1) / 5 else v))"

definition osu_easy :: "api_mod \<Rightarrow> py_error + real" where
  "osu_easy m =
     py_bind (num_setting m ''retries'' 2) (\<lambda>r.
       Inr (max (4 / 10) (8 / 10 - max 0 (1 / 10 * (r - 2)))))"

definition osu_deflate :: "api_mod \<Rightarrow> py_error + real" where
  "osu_deflate m =
     py_bind (num_setting m ''start_scale'' 2) (\<lambda>s. Inr (1 - max 0 (2 / 100 * (s - 2))))"

definition osu_magnetised :: "api_mod \<Rightarrow> py_error + real" where
  "osu_magnetised m =
     py_bind (num_setting m ''attraction_strength'' (1 / 2)) (\<lambda>a. Inr (7 / 10 - a * (6 / 10)))"

definition osu_time_ramp :: "real \<Rightarrow> api_mod \<Rightarrow> py_error + real" where
  "osu_time_ramp default_final m =
     py_bind (num_setting m ''initial_rate'' 1) (\<lambda>initial.
     py_bind (num_setting m ''final_rate'' default_final) (\<lambda>final.
       let lo = min initial final;
           hi = max initial final;
           lo_m = (if lo < 1 then osu_half_time lo else osu_double_time lo);
           hi_m = (if hi < 1 then osu_half_time hi else osu_double_time hi)
       in Inr (8 / 10 * lo_m + 2 / 10 * hi_m)))"

definition osu_classic :: "api_mod \<Rightarrow> real" where
  "osu_classic m = (if flag_setting m ''classic_note_lock'' True then 985 / 1000 else 96 / 100)"

definition osu_difficulty_adjust :: "real \<Rightarrow> real \<Rightarrow> api_mod \<Rightarrow> py_error + real" where
  "osu_difficulty_adjust base_cs base_od m =
     py_bind (num_setting m ''circle_size'' base_cs) (\<lambda>cs.
     py_bind (num_setting m ''overall_difficulty'' base_od) (\<lambda>od.
       let cs_mult = (if cs < base_cs then clampf (cs / 4) (2 / 10) 1 else 1);
           od_mult = (if od < base_od then clampf (od / 5) (2 / 10) 1 else 1)
       in Inr (max (1 / 10) (cs_mult * od_mult))))"

section \<open>taiko, catch, mania\<close>

definition rate_adjust :: "real \<Rightarrow> real" where
  "rate_adjust speed =
     (let v = of_int (py_int (speed * 10)) / 10 - 1
      in if 1 \<le> speed then 1 + v / 5 else 6 / 10 + v)"

definition default_cfg_mult :: "real \<Rightarrow> api_mod \<Rightarrow> real" where
  "default_cfg_mult v m = (if uses_default_config m then v else 1)"

section \<open>Tables\<close>

text \<open>An entry of a table is the function it applies to the mod; a number is the constant
  function.\<close>

type_synonym single = "api_mod \<Rightarrow> py_error + real"
type_synonym combination = "string list \<times> ((string \<times> api_mod) list \<Rightarrow> py_error + real)"

abbreviation const_mult :: "real \<Rightarrow> single" where
  "const_mult r \<equiv> (\<lambda>_. Inr r)"

definition rate_single :: "(real \<Rightarrow> real) \<Rightarrow> real \<Rightarrow> single" where
  "rate_single f dflt m = py_bind (num_setting m ''speed_change'' dflt) (\<lambda>s. Inr (f s))"

text \<open>\<^verbatim>\<open>by["HD"]\<close>.\<close>

definition getitem :: "(string \<times> 'a) list \<Rightarrow> string \<Rightarrow> py_error + 'a" where
  "getitem d k = (case map_of d k of None \<Rightarrow> Inl KeyError | Some v \<Rightarrow> Inr v)"

definition osu_singles :: "real \<Rightarrow> real \<Rightarrow> (string \<times> single) list" where
  "osu_singles base_cs base_od =
     [(''EZ'', osu_easy),
      (''NF'', const_mult (1 / 2)),
      (''HT'', rate_single osu_half_time (3 / 4)),
      (''DC'', rate_single osu_half_time (3 / 4)),
      (''HR'', const_mult (109 / 100)),
      (''DT'', rate_single osu_double_time (3 / 2)),
      (''NC'', rate_single osu_double_time (3 / 2)),
      (''HD'', \<lambda>m. Inr (osu_hidden m False)),
      (''TC'', const_mult (102 / 100)),
      (''FL'', osu_flashlight),
      (''BL'', const_mult (124 / 100)),
      (''TP'', const_mult (1 / 100)),
      (''DA'', osu_difficulty_adjust base_cs base_od),
      (''CL'', \<lambda>m. Inr (osu_classic m)),
      (''RD'', const_mult (7 / 10)),
      (''RX'', const_mult (1 / 10)),
      (''AP'', const_mult (1 / 10)),
      (''SO'', const_mult (95 / 100)),
      (''DF'', osu_deflate),
      (''WU'', osu_time_ramp (3 / 2)),
      (''WD'', osu_time_ramp (3 / 4)),
      (''AD'', const_mult (7 / 10)),
      (''MG'', osu_magnetised),
      (''AS'', const_mult (1 / 10)),
      (''SY'', const_mult (99 / 100))]"

abbreviation hidden_with_timing :: "(string \<times> api_mod) list \<Rightarrow> py_error + real" where
  "hidden_with_timing by \<equiv> py_bind (getitem by ''HD'') (\<lambda>m. Inr (osu_hidden m True))"

definition osu_combinations :: "combination list" where
  "osu_combinations =
     [([''HD'', ''BL''], \<lambda>by. Inr (124 / 100)),
      ([''HD'', ''WG''], hidden_with_timing),
      ([''HD'', ''GR''], hidden_with_timing),
      ([''HD'', ''DF''], \<lambda>by. py_bind (hidden_with_timing by) (\<lambda>h.
          py_bind (getitem by ''DF'') (\<lambda>m. py_bind (osu_deflate m) (\<lambda>d. Inr (h * d))))),
      ([''HD'', ''RP''], hidden_with_timing),
      ([''HD'', ''DP''], hidden_with_timing),
      ([''TC'', ''BL''], \<lambda>by. Inr (124 / 100)),
      ([''FL'', ''FR''], \<lambda>by. py_bind (getitem by ''FL'') (\<lambda>m.
          py_bind (osu_flashlight m) (\<lambda>v. Inr (1 + (v - 1) / 2))))]"

definition taiko_singles :: "(string \<times> single) list" where
  "taiko_singles =
     [(''EZ'', const_mult (1 / 2)),
      (''NF'', const_mult (1 / 2)),
      (''HT'', rate_single rate_adjust (3 / 4)),
      (''DC'', rate_single rate_adjust (3 / 4)),
      (''SR'', const_mult (6 / 10)),
      (''HR'', \<lambda>m. Inr (default_cfg_mult (106 / 100) m)),
      (''DT'', rate_single rate_adjust (3 / 2)),
      (''NC'', rate_single rate_adjust (3 / 2)),
      (''HD'', \<lambda>m. Inr (default_cfg_mult (106 / 100) m)),
      (''FL'', \<lambda>m. Inr (default_cfg_mult (112 / 100) m)),
      (''DA'', const_mult (1 / 2)),
      (''CL'', const_mult 1),
      (''CS'', const_mult (9 / 10)),
      (''RX'', const_mult (1 / 10)),
      (''WU'', const_mult (1 / 2)),
      (''WD'', const_mult (1 / 2)),
      (''AS'', const_mult (1 / 2))]"

definition catch_singles :: "(string \<times> single) list" where
  "catch_singles =
     [(''EZ'', const_mult (1 / 2)),
      (''NF'', const_mult (1 / 2)),
      (''HT'', rate_single rate_adjust (3 / 4)),
      (''DC'', rate_single rate_adjust (3 / 4)),
      (''HR'', \<lambda>m. Inr (default_cfg_mult (112 / 100) m)),
      (''DT'', rate_single rate_adjust (3 / 2)),
      (''NC'', rate_single rate_adjust (3 / 2)),
      (''HD'', \<lambda>m. Inr (default_cfg_mult (106 / 100) m)),
      (''FL'', \<lambda>m. Inr (default_cfg_mult (112 / 100) m)),
      (''DA'', const_mult (1 / 2)),
      (''CL'', const_mult 1),
      (''RX'', const_mult (1 / 10)),
      (''WU'', const_mult (1 / 2)),
      (''WD'', const_mult (1 / 2))]"

text \<open>The key mods are added by a loop over 1 to 10.\<close>

definition mania_singles :: "(string \<times> single) list" where
  "mania_singles =
     foldl (\<lambda>d k. dict_set d (nat_str k @ ''K'') (const_mult (9 / 10)))
     [(''EZ'', const_mult (1 / 2)),
      (''NF'', const_mult (1 / 2)),
      (''HT'', rate_single rate_adjust (3 / 4)),
      (''DC'', rate_single rate_adjust (3 / 4)),
      (''NR'', const_mult (9 / 10)),
      (''DA'', const_mult (1 / 2)),
      (''CL'', const_mult 1),
      (''CS'', const_mult (9 / 10)),
      (''HO'', const_mult (9 / 10)),
      (''WU'', const_mult (1 / 2)),
      (''WD'', const_mult (1 / 2)),
      (''AS'', const_mult (1 / 2))] [1..<11]"

section \<open>Evaluation\<close>

text \<open>\<^verbatim>\<open>by_acr\<close>: the mods by acronym; of two mods with one acronym the later one is kept,
  at the place of the first.\<close>

definition by_acronym :: "api_mod list \<Rightarrow> (string \<times> api_mod) list" where
  "by_acronym mods = foldl (\<lambda>d m. dict_set d (acronym m) m) [] mods"

text \<open>The combinations, in order; a matched combination uses up its acronyms.\<close>

fun eval_combinations ::
  "(string \<times> api_mod) list \<Rightarrow> combination list \<Rightarrow> string list \<Rightarrow> real \<Rightarrow> py_error + string list \<times> real" where
  "eval_combinations by [] remaining result = Inr (remaining, result)"
| "eval_combinations by ((acrs, fn) # cs) remaining result =
     (if set acrs \<subseteq> set remaining then
        py_bind (fn by) (\<lambda>f. eval_combinations by cs (filter (\<lambda>a. a \<notin> set acrs) remaining) (result * f))
      else eval_combinations by cs remaining result)"

fun eval_singles ::
  "(string \<times> api_mod) list \<Rightarrow> (string \<times> single) list \<Rightarrow> string list \<Rightarrow> real \<Rightarrow> py_error + real" where
  "eval_singles by singles [] result = Inr result"
| "eval_singles by singles (a # as) result =
     (case map_of singles a of
        None \<Rightarrow> eval_singles by singles as result
      | Some fn \<Rightarrow> py_bind (getitem by a) (\<lambda>m. py_bind (fn m) (\<lambda>f. eval_singles by singles as (result * f))))"

text \<open>The set \<^verbatim>\<open>remaining\<close> is a list without repetitions; its iteration order, which Python
  leaves open, does not matter for the exact product.\<close>

definition evaluate :: "api_mod list \<Rightarrow> (string \<times> single) list \<Rightarrow> combination list \<Rightarrow> py_error + real" where
  "evaluate mods singles combinations =
     (let by = by_acronym mods in
      if by = [] then Inr 1
      else py_bind (if 1 < length by then eval_combinations by combinations (map fst by) 1
                    else Inr (map fst by, 1))
             (\<lambda>(remaining, result). eval_singles by singles remaining result))"

definition score_multiplier :: "int \<Rightarrow> api_mod list \<Rightarrow> real \<Rightarrow> real \<Rightarrow> py_error + real" where
  "score_multiplier rs mods base_cs base_od =
     (if rs = 0 then evaluate mods (osu_singles base_cs base_od) osu_combinations
      else if rs = 1 then evaluate mods taiko_singles []
      else if rs = 2 then evaluate mods catch_singles []
      else if rs = 3 then evaluate mods mania_singles []
      else Inr 1)"

definition recompute_total_score :: "int \<Rightarrow> api_mod list \<Rightarrow> int \<Rightarrow> real \<Rightarrow> real \<Rightarrow> py_error + int" where
  "recompute_total_score rs mods raw base_cs base_od =
     py_bind (score_multiplier rs mods base_cs base_od) (\<lambda>mult. Inr (py_round (of_int raw * mult)))"

section \<open>Properties\<close>

text \<open>A computation that fails with TypeError only.\<close>

definition type_fallible :: "py_error + 'a \<Rightarrow> bool" where
  "type_fallible r \<longleftrightarrow> (case r of Inl e \<Rightarrow> e = TypeError | Inr _ \<Rightarrow> True)"

lemma type_fallible_simps [simp]:
  "type_fallible (Inr x)" "type_fallible (Inl e) = (e = TypeError)"
  by (simp_all add: type_fallible_def)

lemma type_fallible_bind [intro]:
  "type_fallible m \<Longrightarrow> (\<And>x. m = Inr x \<Longrightarrow> type_fallible (f x)) \<Longrightarrow> type_fallible (py_bind m f)"
  by (cases m) auto

lemma type_fallible_num [simp]: "type_fallible (num_setting m k d)"
  by (simp add: num_setting_def split: option.splits)

lemma type_fallible_fns [simp]:
  "type_fallible (rate_single f d m)" "type_fallible (osu_easy m)" "type_fallible (osu_flashlight m)"
  "type_fallible (osu_difficulty_adjust cs od m)" "type_fallible (osu_deflate m)"
  "type_fallible (osu_time_ramp d m)" "type_fallible (osu_magnetised m)"
  by (auto simp: rate_single_def osu_easy_def osu_flashlight_def osu_difficulty_adjust_def
      osu_deflate_def osu_time_ramp_def osu_magnetised_def Let_def intro!: type_fallible_bind)

lemma list_all_dict_set: "list_all P d \<Longrightarrow> P (k, v) \<Longrightarrow> list_all P (dict_set d k v)"
  by (induction d k v rule: dict_set.induct) auto

lemma list_all_dict_sets:
  "list_all P d \<Longrightarrow> (\<And>x. x \<in> set xs \<Longrightarrow> P (f x, g x)) \<Longrightarrow>
   list_all P (foldl (\<lambda>d x. dict_set d (f x) (g x)) d xs)"
  by (induction xs arbitrary: d) (auto intro: list_all_dict_set)

lemma type_fallible_single:
  "list_all (\<lambda>(a, fn). \<forall>m. type_fallible (fn m)) (osu_singles cs od)"
  "list_all (\<lambda>(a, fn). \<forall>m. type_fallible (fn m)) taiko_singles"
  "list_all (\<lambda>(a, fn). \<forall>m. type_fallible (fn m)) catch_singles"
  "list_all (\<lambda>(a, fn). \<forall>m. type_fallible (fn m)) mania_singles"
  unfolding osu_singles_def taiko_singles_def catch_singles_def mania_singles_def
  by (simp_all add: list_all_dict_sets)

lemma by_acronym_distinct:
  assumes "distinct (map acronym mods)"
  shows "by_acronym mods = map (\<lambda>m. (acronym m, m)) mods"
proof -
  have "foldl (\<lambda>d m. dict_set d (acronym m) m) d mods = dict_update d (map (\<lambda>m. (acronym m, m)) mods)" for d
    by (induction mods arbitrary: d) auto
  then show ?thesis using assms by (simp add: by_acronym_def dict_update_new o_def)
qed

text \<open>The evaluator's two loops as products.\<close>

definition factor :: "(string \<times> api_mod) list \<Rightarrow> (string \<times> single) list \<Rightarrow> string \<Rightarrow> py_error + real" where
  "factor by singles a =
     (case map_of singles a of None \<Rightarrow> Inr 1 | Some fn \<Rightarrow> py_bind (getitem by a) fn)"

lemma eval_singles_eq:
  "\<forall>a \<in> set as. type_fallible (factor by singles a) \<Longrightarrow>
   eval_singles by singles as r =
     (if \<forall>a \<in> set as. \<not> isl (factor by singles a)
      then Inr (r * (\<Prod>a \<in># mset as. projr (factor by singles a))) else Inl TypeError)"
proof (induction as arbitrary: r)
  case (Cons a as)
  then show ?case
    by (cases "factor by singles a")
      (auto simp: factor_def mult.assoc py_bind_def split: option.splits sum.splits)
qed simp

lemma eval_combinations_cong:
  assumes "map_of by = map_of by'"
    and fn: "list_all (\<lambda>(acrs, fn). fn by = fn by') cs"
    and "set rem = set rem'" "distinct rem" "distinct rem'"
  shows "rel_sum (=) (rel_prod (\<lambda>x y. mset x = mset y) (=))
     (eval_combinations by cs rem r) (eval_combinations by' cs rem' r)"
  using assms(2-)
proof (induction cs arbitrary: rem rem' r)
  case Nil
  then show ?case by (simp add: set_eq_iff_mset_eq_distinct)
next
  case (Cons c cs)
  obtain acrs fn where c: "c = (acrs, fn)" by (cases c)
  show ?case
  proof (cases "fn by")
    case (Inl e)
    with Cons c have "fn by' = Inl e" by simp
    with Inl Cons c show ?thesis by auto
  next
    case (Inr f)
    have "set (filter (\<lambda>a. a \<notin> set acrs) rem) = set (filter (\<lambda>a. a \<notin> set acrs) rem')"
      using Cons.prems by auto
    moreover from Cons.prems(1) c Inr have "fn by' = Inr f" by simp
    ultimately show ?thesis using Cons c Inr by auto
  qed
qed

lemma osu_combinations_cong:
  "map_of by = map_of by' \<Longrightarrow> list_all (\<lambda>(acrs, fn). fn by = fn by') osu_combinations"
  by (simp add: osu_combinations_def getitem_def)

lemma factor_cong: "map_of by = map_of by' \<Longrightarrow> factor by singles a = factor by' singles a"
  by (simp add: factor_def getitem_def split: option.splits)

lemma map_of_perm:
  assumes "mset mods = mset mods'" "distinct (map acronym mods)"
  shows "map_of (by_acronym mods) = map_of (by_acronym mods')"
    and "distinct (map acronym mods')"
proof -
  have "mset (map acronym mods) = mset (map acronym mods')" using assms(1) by simp
  with assms(2) show d: "distinct (map acronym mods')" by (metis mset_eq_imp_distinct_iff)
  with assms have "map_of (map (\<lambda>m. (acronym m, m)) mods) = map_of (map (\<lambda>m. (acronym m, m)) mods')"
    by (subst map_of_inject_set) (auto simp: o_def dest: mset_eq_setD)
  then show "map_of (by_acronym mods) = map_of (by_acronym mods')"
    using assms(2) d by (simp add: by_acronym_distinct)
qed

lemma eval_combinations_subset:
  "eval_combinations by cs rem r = Inr (rem', r') \<Longrightarrow> set rem' \<subseteq> set rem"
  by (induction cs arbitrary: rem r) (fastforce simp: py_bind_Inr_iff split: if_splits)+

lemma factor_fallible:
  assumes "list_all (\<lambda>(a, fn). \<forall>m. type_fallible (fn m)) singles" and "a \<in> fst ` set by"
  shows "type_fallible (factor by singles a)"
proof -
  from assms(2) obtain m where "map_of by a = Some m"
    using map_of_key_ex [OF assms(2)] by blast
  with assms(1) show ?thesis
    by (auto simp: factor_def getitem_def list_all_iff split: option.splits dest: map_of_SomeD)
qed

lemma eval_singles_cong:
  assumes fall: "list_all (\<lambda>(a, fn). \<forall>m. type_fallible (fn m)) singles"
    and "map_of by = map_of by'" "mset as = mset as'" "set as \<subseteq> fst ` set by"
  shows "eval_singles by singles as r = eval_singles by' singles as' r"
proof -
  have keys: "fst ` set by = fst ` set by'"
    using assms(2) by (metis dom_map_of_conv_image_fst)
  have set: "set as = set as'" using assms(3) by (metis mset_eq_setD)
  have f: "factor by singles a = factor by' singles a" for a
    using assms(2) by (rule factor_cong)
  have "\<forall>a \<in> set as. type_fallible (factor by singles a)"
    using assms(4) factor_fallible [OF fall] by blast
  moreover from this have "\<forall>a \<in> set as'. type_fallible (factor by' singles a)"
    using set f by simp
  ultimately show ?thesis
    using set f assms(3) by (simp add: eval_singles_eq)
qed

lemma rel_sum_InlD: "rel_sum (=) S (Inl e) y \<Longrightarrow> y = Inl e"
  by (cases y) auto

lemma rel_sum_InrD: "rel_sum R S (Inr x) y \<Longrightarrow> \<exists>x'. y = Inr x' \<and> S x x'"
  by (cases y) auto

lemma evaluate_perm:
  assumes fall: "list_all (\<lambda>(a, fn). \<forall>m. type_fallible (fn m)) singles"
    and combos: "\<And>by by'. map_of by = map_of by' \<Longrightarrow> list_all (\<lambda>(acrs, fn). fn by = fn by') cs"
    and perm: "mset mods = mset mods'" "distinct (map acronym mods)"
  shows "evaluate mods singles cs = evaluate mods' singles cs"
proof -
  let ?by = "by_acronym mods" and ?by' = "by_acronym mods'"
  note m = map_of_perm [OF perm]
  have byq: "?by = map (\<lambda>m. (acronym m, m)) mods" "?by' = map (\<lambda>m. (acronym m, m)) mods'"
    using perm(2) m(2) by (simp_all add: by_acronym_distinct)
  have len: "length ?by = length ?by'" using byq mset_eq_length [OF perm(1)] by simp
  have msk: "mset (map fst ?by) = mset (map fst ?by')" using byq perm(1) by (simp add: o_def)
  have dist: "distinct (map fst ?by)" "distinct (map fst ?by')"
    using byq perm(2) m(2) by (simp_all add: o_def)
  let ?step = "\<lambda>by. if 1 < length by then eval_combinations by cs (map fst by) 1 else Inr (map fst by, 1)"
  have rel: "rel_sum (=) (rel_prod (\<lambda>x y. mset x = mset y) (=)) (?step ?by) (?step ?by')"
  proof (cases "1 < length ?by")
    case True
    have "set (map fst ?by) = set (map fst ?by')" using msk by (rule mset_eq_setD)
    from eval_combinations_cong [OF m(1) combos [OF m(1)] this dist, of 1] True len show ?thesis by simp
  next
    case False
    with len msk show ?thesis by simp
  qed
  have sub: "set rem \<subseteq> fst ` set ?by" if "?step ?by = Inr (rem, r)" for rem r
    using that by (auto split: if_splits dest!: eval_combinations_subset)
  have ev: "evaluate ms singles cs = (if by_acronym ms = [] then Inr 1
      else py_bind (?step (by_acronym ms)) (\<lambda>(rem, r). eval_singles (by_acronym ms) singles rem r))" for ms
    unfolding evaluate_def Let_def ..
  have nil: "?by = [] \<longleftrightarrow> ?by' = []" using len by (metis length_0_conv)
  show ?thesis
  proof (cases "?step ?by")
    case (Inl e)
    with rel have inl': "?step ?by' = Inl e" by (simp only: rel_sum_InlD)
    show ?thesis unfolding ev Inl inl' nil py_bind_simps ..
  next
    case (Inr p)
    obtain rem r where p: "p = (rem, r)" by (cases p)
    from rel have "\<exists>x'. ?step ?by' = Inr x' \<and> rel_prod (\<lambda>x y. mset x = mset y) (=) (rem, r) x'"
      unfolding Inr p by (rule rel_sum_InrD)
    then obtain rem' where r': "?step ?by' = Inr (rem', r)" "mset rem = mset rem'" by auto
    have eq: "eval_singles ?by singles rem r = eval_singles ?by' singles rem' r"
      by (rule eval_singles_cong [OF fall m(1) r'(2) sub]) (use Inr p in simp)
    show ?thesis unfolding ev Inr p r'(1) nil py_bind_simps prod.case eq ..
  qed
qed

text \<open>C37: the multiplier of a set of distinct mods does not depend on the order the client
  sends them in, combinations and errors included.\<close>

theorem score_multiplier_perm:
  assumes "mset mods = mset mods'" and "distinct (map acronym mods)"
  shows "score_multiplier rs mods cs od = score_multiplier rs mods' cs od"
  using evaluate_perm [OF type_fallible_single(1) osu_combinations_cong assms]
    evaluate_perm [OF type_fallible_single(2) _ assms] evaluate_perm [OF type_fallible_single(3) _ assms]
    evaluate_perm [OF type_fallible_single(4) _ assms]
  by (simp add: score_multiplier_def)

theorem score_multiplier_perm_witness:
  "score_multiplier 0 [\<lparr>acronym = ''HD'', msettings = None\<rparr>, \<lparr>acronym = ''BL'', msettings = None\<rparr>] 4 8 =
   score_multiplier 0 [\<lparr>acronym = ''BL'', msettings = None\<rparr>, \<lparr>acronym = ''HD'', msettings = None\<rparr>] 4 8"
  by (rule score_multiplier_perm) simp_all

definition key_in :: "api_mod \<Rightarrow> string \<Rightarrow> real \<Rightarrow> real \<Rightarrow> bool" where
  "key_in m key lo hi \<longleftrightarrow>
     (case map_of (settings_of m) key of
        None \<Rightarrow> True
      | Some v \<Rightarrow> v = SNull \<or> (case setting_num v of None \<Rightarrow> False | Some x \<Rightarrow> lo \<le> x \<and> x \<le> hi))"

definition key_number :: "api_mod \<Rightarrow> string \<Rightarrow> bool" where
  "key_number m key \<longleftrightarrow>
     (case map_of (settings_of m) key of
        None \<Rightarrow> True
      | Some v \<Rightarrow> v = SNull \<or> setting_num v \<noteq> None)"

text \<open>The slider ranges of the client.\<close>

definition client_legal :: "api_mod \<Rightarrow> bool" where
  "client_legal m \<longleftrightarrow>
     key_in m ''speed_change'' (1 / 2) 2 \<and> key_in m ''initial_rate'' (1 / 2) 2 \<and>
     key_in m ''final_rate'' (1 / 2) 2 \<and> key_in m ''start_scale'' 1 25 \<and>
     key_in m ''attraction_strength'' (1 / 20) 1 \<and>
     key_number m ''size_multiplier'' \<and> key_number m ''retries'' \<and>
     key_number m ''circle_size'' \<and> key_number m ''overall_difficulty''"

lemma num_setting_in:
  assumes "key_in m key lo hi" "lo \<le> d" "d \<le> hi"
  shows "\<exists>x. num_setting m key d = Inr x \<and> lo \<le> x \<and> x \<le> hi"
  using assms
  by (auto simp: key_in_def num_setting_def mod_setting_def dict_get_def Let_def setting_num_def
      split: option.splits setting.splits)

lemma num_setting_number:
  assumes "key_number m key"
  shows "\<exists>x. num_setting m key d = Inr x"
  using assms
  by (auto simp: key_number_def num_setting_def mod_setting_def dict_get_def Let_def setting_num_def
      split: option.splits setting.splits)

lemma py_int_bounds: "of_int a \<le> x \<Longrightarrow> x \<le> of_int b \<Longrightarrow> 0 \<le> a \<Longrightarrow> a \<le> py_int x \<and> py_int x \<le> b"
  unfolding py_int_def by (simp; linarith)

lemma osu_double_time_range:
  assumes "1 / 2 \<le> s" "s \<le> 2"
  shows "76 / 100 \<le> osu_double_time s \<and> osu_double_time s \<le> 146 / 100"
proof -
  have "5 \<le> py_int (s * 10) \<and> py_int (s * 10) \<le> 20"
    using assms by (intro py_int_bounds) auto
  then have "(5::real) \<le> of_int (py_int (s * 10))" "of_int (py_int (s * 10)) \<le> (20::real)"
    by linarith+
  then show ?thesis by (auto simp: osu_double_time_def Let_def field_simps)
qed

lemma osu_half_time_range:
  assumes "1 / 2 \<le> s" "s \<le> 2"
  shows "2 / 10 \<le> osu_half_time s \<and> osu_half_time s \<le> 23 / 10"
proof -
  have "10 \<le> py_int (s * 20) \<and> py_int (s * 20) \<le> 40"
    using assms by (intro py_int_bounds) auto
  then have "(10::real) \<le> of_int (py_int (s * 20))" "of_int (py_int (s * 20)) \<le> (40::real)"
    by linarith+
  then show ?thesis by (auto simp: osu_half_time_def field_simps)
qed

lemma rate_adjust_range:
  assumes "1 / 2 \<le> s" "s \<le> 2"
  shows "1 / 10 \<le> rate_adjust s \<and> rate_adjust s \<le> 12 / 10"
proof -
  have b: "5 \<le> py_int (s * 10) \<and> py_int (s * 10) \<le> 20"
    using assms by (intro py_int_bounds) auto
  then have "(5::real) \<le> of_int (py_int (s * 10))" "of_int (py_int (s * 10)) \<le> (20::real)"
    by linarith+
  moreover have "1 \<le> s \<Longrightarrow> (10::real) \<le> of_int (py_int (s * 10))"
    using py_int_bounds [of 10 "s * 10" 20] assms by simp
  moreover have "s < 1 \<Longrightarrow> of_int (py_int (s * 10)) \<le> (10::real)"
    using py_int_bounds [of 5 "s * 10" 10] assms by simp
  ultimately show ?thesis by (auto simp: rate_adjust_def Let_def field_simps)
qed

definition positive :: "py_error + real \<Rightarrow> bool" where
  "positive r \<longleftrightarrow> (case r of Inl _ \<Rightarrow> False | Inr x \<Rightarrow> 0 < x)"

lemma positive_Inr [simp]: "positive (Inr x) \<longleftrightarrow> 0 < x"
  by (simp add: positive_def)

lemma positiveE: "positive r \<Longrightarrow> (\<And>x. r = Inr x \<Longrightarrow> 0 < x \<Longrightarrow> P) \<Longrightarrow> P"
  by (auto simp: positive_def split: sum.splits)

lemma rate_single_pos:
  assumes "\<And>s. 1 / 2 \<le> s \<Longrightarrow> s \<le> 2 \<Longrightarrow> 0 < f s" "client_legal m" "1 / 2 \<le> d" "d \<le> 2"
  shows "positive (rate_single f d m)"
proof -
  have "key_in m ''speed_change'' (1 / 2) 2" using assms(2) by (simp add: client_legal_def)
  from num_setting_in [OF this assms(3,4)] assms(1) show ?thesis by (auto simp: rate_single_def)
qed

lemma osu_rate_pos:
  "1 / 2 \<le> s \<Longrightarrow> s \<le> 2 \<Longrightarrow> 0 < osu_half_time s"
  "1 / 2 \<le> s \<Longrightarrow> s \<le> 2 \<Longrightarrow> 0 < osu_double_time s"
  "1 / 2 \<le> s \<Longrightarrow> s \<le> 2 \<Longrightarrow> 0 < rate_adjust s"
  using osu_half_time_range [of s] osu_double_time_range [of s] rate_adjust_range [of s] by linarith+

lemma osu_fn_pos:
  assumes "client_legal m"
  shows "positive (osu_easy m)" "positive (osu_flashlight m)" "positive (osu_difficulty_adjust cs od m)"
    "positive (osu_deflate m)" "positive (osu_magnetised m)"
    "1 / 2 \<le> d \<Longrightarrow> d \<le> 2 \<Longrightarrow> positive (osu_time_ramp d m)" "0 < osu_hidden m b" "0 < osu_classic m"
proof -
  note legal = assms [unfolded client_legal_def]
  show "positive (osu_easy m)"
    using num_setting_number [of m "''retries''" 2] legal by (auto simp: osu_easy_def)
  show "positive (osu_flashlight m)"
  proof -
    obtain x where "num_setting m ''size_multiplier'' 1 = Inr x" using legal by (metis num_setting_number)
    moreover have "1 < max (102 / 100) (min (12 / 10) (12 / 10 - 2 / 10 * (x - 1)) :: real)" by linarith
    ultimately show ?thesis by (auto simp: osu_flashlight_def Let_def intro: add_pos_pos)
  qed
  obtain x y where "num_setting m ''circle_size'' cs = Inr x" "num_setting m ''overall_difficulty'' od = Inr y"
    using legal by (metis num_setting_number)
  then show "positive (osu_difficulty_adjust cs od m)" by (simp add: osu_difficulty_adjust_def)
  show "positive (osu_deflate m)"
    using num_setting_in [of m "''start_scale''" 1 25 2] legal by (auto simp: osu_deflate_def)
  show "positive (osu_magnetised m)"
    using num_setting_in [of m "''attraction_strength''" "1 / 20" 1 "1 / 2"] legal
    by (auto simp: osu_magnetised_def)
  show "0 < osu_hidden m b" "0 < osu_classic m" by (simp_all add: osu_hidden_def osu_classic_def)
  assume d: "1 / 2 \<le> d" "d \<le> 2"
  obtain x y where xy: "num_setting m ''initial_rate'' 1 = Inr x" "1 / 2 \<le> x" "x \<le> 2"
      "num_setting m ''final_rate'' d = Inr y" "1 / 2 \<le> y" "y \<le> 2"
    using num_setting_in [of m "''initial_rate''" "1 / 2" 2 1] num_setting_in [of m "''final_rate''" "1 / 2" 2 d]
      legal d by auto
  then show "positive (osu_time_ramp d m)"
    using osu_rate_pos(1,2) [of "min x y"] osu_rate_pos(1,2) [of "max x y"]
    by (auto simp: osu_time_ramp_def Let_def intro!: add_pos_pos)
qed

lemma singles_positive:
  assumes "client_legal m"
  shows "list_all (\<lambda>(a, fn). positive (fn m)) (osu_singles cs od)"
    "list_all (\<lambda>(a, fn). positive (fn m)) taiko_singles"
    "list_all (\<lambda>(a, fn). positive (fn m)) catch_singles"
    "list_all (\<lambda>(a, fn). positive (fn m)) mania_singles"
  unfolding osu_singles_def taiko_singles_def catch_singles_def mania_singles_def
  by (simp_all add: list_all_dict_sets assms osu_fn_pos rate_single_pos osu_rate_pos default_cfg_mult_def)


lemma eval_singles_positive:
  assumes "\<forall>a \<in> set as. positive (factor by singles a)" and "0 < r"
  shows "positive (eval_singles by singles as r)"
  using assms
proof (induction as arbitrary: r)
  case (Cons a as)
  from Cons.prems obtain f where f: "factor by singles a = Inr f" "0 < f"
    by (auto elim: positiveE)
  with Cons.prems have "positive (eval_singles by singles as (r * f))"
    by (intro Cons.IH) auto
  moreover have "eval_singles by singles (a # as) r = eval_singles by singles as (r * f)"
    using f(1) by (auto simp: factor_def py_bind_Inr_iff split: option.splits)
  ultimately show ?case by simp
qed simp

lemma by_acronym_set: "(a, m) \<in> set (by_acronym mods) \<Longrightarrow> m \<in> set mods"
proof -
  have "set (dict_set d k v) \<subseteq> insert (k, v) (set d)" for d :: "(string \<times> api_mod) list" and k v
    by (induction d k v rule: dict_set.induct) auto
  then have "(a, m) \<in> set (foldl (\<lambda>d m. dict_set d (acronym m) m) d mods) \<Longrightarrow> m \<in> set mods \<or> (a, m) \<in> set d" for d
  proof (induction mods arbitrary: d)
    case (Cons x mods)
    then show ?case by fastforce
  qed simp
  from this [of "[]"] show "(a, m) \<in> set (by_acronym mods) \<Longrightarrow> m \<in> set mods"
    by (simp add: by_acronym_def)
qed

lemma factor_positive:
  assumes "\<And>m. client_legal m \<Longrightarrow> list_all (\<lambda>(a, fn). positive (fn m)) singles"
    and "\<forall>m \<in> set mods. client_legal m" and "a \<in> fst ` set (by_acronym mods)"
  shows "positive (factor (by_acronym mods) singles a)"
proof -
  obtain m where m: "map_of (by_acronym mods) a = Some m"
    using map_of_key_ex [OF assms(3)] by blast
  then have "client_legal m" using assms(2) by (auto dest: map_of_SomeD by_acronym_set)
  from assms(1) [OF this] m show ?thesis
    by (auto simp: factor_def getitem_def list_all_iff split: option.splits dest!: map_of_SomeD)
qed

lemma eval_combinations_positive:
  assumes "list_all (\<lambda>(acrs, fn). set acrs \<subseteq> fst ` set by \<longrightarrow> positive (fn by)) cs"
    and "set rem \<subseteq> fst ` set by" and "0 < r"
  shows "\<exists>rem' r'. eval_combinations by cs rem r = Inr (rem', r') \<and> set rem' \<subseteq> fst ` set by \<and> 0 < r'"
  using assms
proof (induction cs arbitrary: rem r)
  case (Cons c cs)
  obtain acrs fn where c: "c = (acrs, fn)" by (cases c)
  show ?case
  proof (cases "set acrs \<subseteq> set rem")
    case True
    with Cons.prems c obtain f where f: "fn by = Inr f" "0 < f" by (auto elim: positiveE)
    have "set (filter (\<lambda>a. a \<notin> set acrs) rem) \<subseteq> fst ` set by" using Cons.prems by auto
    with Cons c f True show ?thesis by auto
  next
    case False
    with Cons c show ?thesis by auto
  qed
qed simp

lemma osu_combinations_positive:
  assumes "\<forall>m \<in> set mods. client_legal m"
  shows "list_all (\<lambda>(acrs, fn). set acrs \<subseteq> fst ` set (by_acronym mods) \<longrightarrow> positive (fn (by_acronym mods))) osu_combinations"
proof -
  let ?by = "by_acronym mods"
  have get: "\<exists>m. getitem ?by a = Inr m \<and> client_legal m" if "a \<in> fst ` set ?by" for a
  proof -
    obtain m where m: "map_of ?by a = Some m" using map_of_key_ex [OF \<open>a \<in> fst ` set ?by\<close>] by blast
    with assms show ?thesis by (auto simp: getitem_def dest: map_of_SomeD by_acronym_set)
  qed
  have hd: "\<exists>h>0. hidden_with_timing ?by = Inr h" if "''HD'' \<in> fst ` set ?by"
  proof -
    obtain m where "getitem ?by ''HD'' = Inr m" "client_legal m"
      using get [OF \<open>''HD'' \<in> fst ` set ?by\<close>] by auto
    moreover from this(2) have "0 < osu_hidden m True" by (rule osu_fn_pos)
    ultimately show ?thesis by auto
  qed
  have df: "\<exists>d>0. py_bind (getitem ?by ''DF'') osu_deflate = Inr d" if "''DF'' \<in> fst ` set ?by"
  proof -
    obtain m where "getitem ?by ''DF'' = Inr m" "client_legal m"
      using get [OF \<open>''DF'' \<in> fst ` set ?by\<close>] by auto
    moreover from this(2) have "positive (osu_deflate m)" by (rule osu_fn_pos)
    ultimately show ?thesis by (auto elim: positiveE)
  qed
  have fl: "\<exists>d>0. py_bind (getitem ?by ''FL'') osu_flashlight = Inr d" if "''FL'' \<in> fst ` set ?by"
  proof -
    obtain m where "getitem ?by ''FL'' = Inr m" "client_legal m"
      using get [OF \<open>''FL'' \<in> fst ` set ?by\<close>] by auto
    moreover from this(2) have "positive (osu_flashlight m)" by (rule osu_fn_pos)
    ultimately show ?thesis by (auto elim: positiveE)
  qed
  show ?thesis
    unfolding osu_combinations_def list.pred_inject prod.case
  proof (intro conjI impI)
    assume k: "set [''HD'', ''DF''] \<subseteq> fst ` set ?by"
    obtain h d where "hidden_with_timing ?by = Inr h" "0 < h" "py_bind (getitem ?by ''DF'') osu_deflate = Inr d" "0 < d"
      using hd df k by auto
    then show "positive (py_bind (hidden_with_timing ?by) (\<lambda>h. py_bind (getitem ?by ''DF'') (\<lambda>m. py_bind (osu_deflate m) (\<lambda>d. Inr (h * d)))))"
      by (auto simp: py_bind_Inr_iff)
  next
    assume k: "set [''FL'', ''FR''] \<subseteq> fst ` set ?by"
    obtain v where "py_bind (getitem ?by ''FL'') osu_flashlight = Inr v" "0 < v" using fl k by auto
    moreover from \<open>0 < v\<close> have "0 < 1 + (v - 1) / 2" by (simp add: field_simps)
    ultimately show "positive (py_bind (getitem ?by ''FL'') (\<lambda>m. py_bind (osu_flashlight m) (\<lambda>v. Inr (1 + (v - 1) / 2))))"
      by (auto simp: py_bind_Inr_iff)
  qed (use hd in \<open>auto simp: positive_def\<close>)
qed

lemma evaluate_positive:
  assumes singles: "\<And>m. client_legal m \<Longrightarrow> list_all (\<lambda>(a, fn). positive (fn m)) singles"
    and legal: "\<forall>m \<in> set mods. client_legal m"
    and cs: "list_all (\<lambda>(acrs, fn). set acrs \<subseteq> fst ` set (by_acronym mods) \<longrightarrow> positive (fn (by_acronym mods))) cs"
  shows "positive (evaluate mods singles cs)"
proof -
  let ?by = "by_acronym mods"
  have fin: "positive (eval_singles ?by singles rem r)" if "set rem \<subseteq> fst ` set ?by" "0 < r" for rem r
    using that factor_positive [OF singles legal] by (intro eval_singles_positive) auto
  show ?thesis
    using eval_combinations_positive [OF cs, of "map fst ?by" 1] fin
    by (auto simp: evaluate_def Let_def)
qed

lemma score_multiplier_positive:
  assumes "\<forall>m \<in> set mods. client_legal m"
  shows "\<exists>mult > 0. score_multiplier rs mods cs od = Inr mult"
proof -
  have "positive (score_multiplier rs mods cs od)"
    using evaluate_positive [OF singles_positive(1) assms osu_combinations_positive [OF assms]]
      evaluate_positive [OF singles_positive(2) assms] evaluate_positive [OF singles_positive(3) assms]
      evaluate_positive [OF singles_positive(4) assms]
    by (simp add: score_multiplier_def)
  then show ?thesis by (auto elim: positiveE)
qed

text \<open>C36: with every setting in its client range the multiplier exists and is positive, and
  the recomputed total is the nearest integer to raw score times multiplier: within one
  half of it, never negative and monotone in the raw score.\<close>

theorem recompute_total_score_spec:
  assumes "\<forall>m \<in> set mods. client_legal m" and "0 \<le> raw" and "raw \<le> raw'"
  shows "\<exists>mult t t'. 0 < mult \<and> score_multiplier rs mods cs od = Inr mult \<and>
     recompute_total_score rs mods raw cs od = Inr t \<and>
     recompute_total_score rs mods raw' cs od = Inr t' \<and>
     0 \<le> t \<and> t \<le> t' \<and> \<bar>of_int t - of_int raw * mult\<bar> \<le> 1 / 2"
proof -
  obtain mult where m: "0 < mult" "score_multiplier rs mods cs od = Inr mult"
    using score_multiplier_positive [OF assms(1)] by blast
  have "(0::real) \<le> of_int raw * mult" "of_int raw * mult \<le> of_int raw' * mult"
    using m(1) assms(2,3) by (simp_all add: mult_right_mono)
  with m show ?thesis
    using py_round_near [of "of_int raw * mult"] py_round_nonneg py_round_mono
    by (simp add: recompute_total_score_def)
qed

theorem recompute_total_score_spec_witness:
  "\<exists>mult t t'. 0 < mult \<and>
     score_multiplier 0 [\<lparr>acronym = ''DT'', msettings = Some [(''speed_change'', SFloat (6 / 5))]\<rparr>] 4 8 = Inr mult \<and>
     recompute_total_score 0 [\<lparr>acronym = ''DT'', msettings = Some [(''speed_change'', SFloat (6 / 5))]\<rparr>] 1000 4 8 = Inr t \<and>
     recompute_total_score 0 [\<lparr>acronym = ''DT'', msettings = Some [(''speed_change'', SFloat (6 / 5))]\<rparr>] 2000 4 8 = Inr t' \<and>
     0 \<le> t \<and> t \<le> t' \<and> \<bar>of_int t - of_int 1000 * mult\<bar> \<le> 1 / 2"
  by (rule recompute_total_score_spec)
    (simp_all add: client_legal_def key_in_def key_number_def settings_of_def setting_num_def)

definition rate_mod :: "string \<Rightarrow> real \<Rightarrow> api_mod" where
  "rate_mod a s = \<lparr>acronym = a, msettings = Some [(''speed_change'', SFloat s)]\<rparr>"

text \<open>Outside the client's range nothing bounds the recomputed total. A Double Time play
  whose reported speed is large enough exceeds any given total from a raw score of one
  million, a Half Time play reported at a tenth of the speed gets a negative total, and
  the pp check accepts both mods at every speed.\<close>

theorem custom_speed_unbounded:
  "(\<exists>s t. recompute_total_score 0 [rate_mod ''DT'' s] 1000000 cs od = Inr t \<and> bound < t) \<and>
   recompute_total_score 0 [rate_mod ''HT'' (1 / 10)] 1000000 cs od = Inr (- 360000) \<and>
   mods_can_get_pp cfg validate ranked 0 [rate_mod ''DT'' s] = Inr True \<and>
   mods_can_get_pp cfg validate ranked 0 [rate_mod ''HT'' s] = Inr True"
proof (intro conjI)
  define n where "n = max 2 bound"
  have sp: "of_int n * 10 = (of_int (n * 10) :: real)" by simp
  have v: "of_int (py_int (of_int n * 10)) / 10 = (of_int n :: real)"
    unfolding sp py_int_of_int by simp
  have n2: "(2::real) \<le> of_int n" by (simp add: n_def)
  then have dt: "osu_double_time (of_int n) = (of_int n - 1) * (46 / 100) + 99 / 100"
    unfolding osu_double_time_def v Let_def by auto
  have prod: "of_int 1000000 * osu_double_time (of_int n) = of_int (460000 * n + 530000)"
    by (simp add: dt field_simps)
  have "recompute_total_score 0 [rate_mod ''DT'' (of_int n)] 1000000 cs od = Inr (460000 * n + 530000)"
    using prod by (simp add: recompute_total_score_def score_multiplier_def evaluate_def by_acronym_def
        osu_singles_def rate_single_def num_setting_def mod_setting_def rate_mod_def getitem_def
        settings_of_def setting_num_def dict_get_def flip: of_int_mult of_int_add)
  moreover have "bound < 460000 * n + 530000" by (simp add: n_def max_def)
  ultimately show "\<exists>s t. recompute_total_score 0 [rate_mod ''DT'' s] 1000000 cs od = Inr t \<and> bound < t"
    by blast
  have "osu_half_time (1 / 10) = - (36 / 100)"
    by (simp add: osu_half_time_def py_int_def)
  moreover have "py_round (- 360000) = - 360000" using py_round_of_int [of "- 360000"] by simp
  ultimately show "recompute_total_score 0 [rate_mod ''HT'' (1 / 10)] 1000000 cs od = Inr (- 360000)"
    by (simp add: recompute_total_score_def score_multiplier_def evaluate_def by_acronym_def
        osu_singles_def rate_single_def num_setting_def mod_setting_def rate_mod_def getitem_def
        settings_of_def setting_num_def dict_get_def)
qed (simp_all add: mods_can_get_pp_def mod_can_get_pp_def rate_mod_def STD_ALWAYS_UNRANKED_MODS_def
      ALWAYS_ALLOW_CUSTOM_SETTINGS_MODS_def)

end
