(* ===== verification/Calendar.thy ===== *)
theory Calendar
  imports Prelude
begin

text \<open>
  Dates and times as the code uses them. A moment (\<^verbatim>\<open>utcnow()\<close>) is the number of seconds since
  midnight of 1 January 1970 UTC, a date the number of that day; \<^verbatim>\<open>isoformat()\<close> goes through
  the Gregorian calendar. The lemmas show that two days never print alike, which is what the
  daily keys of the points ledger rely on.
\<close>

type_synonym moment = nat
type_synonym day = nat
type_synonym civil_date = "nat \<times> nat \<times> nat"

abbreviation (input) day_seconds :: nat where
  "day_seconds \<equiv> 86400"

text \<open>\<^verbatim>\<open>utcnow().date()\<close>.\<close>

definition date_of :: "moment \<Rightarrow> day" where
  "date_of t = t div day_seconds"

text \<open>\<^verbatim>\<open>utcnow().replace(hour=0, minute=0, second=0, microsecond=0)\<close>.\<close>

definition start_of_utc_day :: "moment \<Rightarrow> moment" where
  "start_of_utc_day t = t - t mod day_seconds"

lemma start_of_utc_day_le: "start_of_utc_day t \<le> t"
  by (simp add: start_of_utc_day_def)

lemma start_of_utc_day_eq: "start_of_utc_day t = day_seconds * date_of t"
  by (simp add: start_of_utc_day_def date_of_def minus_mod_eq_mult_div)

lemma since_start_of_day_iff: "start_of_utc_day t \<le> u \<longleftrightarrow> date_of t \<le> date_of u"
proof -
  have "start_of_utc_day t \<le> u \<longleftrightarrow> date_of t * 86400 \<le> u"
    by (simp add: start_of_utc_day_eq mult.commute)
  also have "\<dots> \<longleftrightarrow> date_of t \<le> date_of u"
    by (simp add: date_of_def less_eq_div_iff_mult_less_eq)
  finally show ?thesis .
qed

section \<open>The calendar\<close>

definition leap_year :: "nat \<Rightarrow> bool" where
  "leap_year y \<longleftrightarrow> 4 dvd y \<and> (\<not> 100 dvd y \<or> 400 dvd y)"

definition days_in_month :: "nat \<Rightarrow> nat \<Rightarrow> nat" where
  "days_in_month y m = (if m = 2 then (if leap_year y then 29 else 28)
                        else if m \<in> {4, 6, 9, 11} then 30 else 31)"

fun next_day :: "civil_date \<Rightarrow> civil_date" where
  "next_day (y, m, d) =
     (if d < days_in_month y m then (y, m, d + 1)
      else if m < 12 then (y, m + 1, 1)
      else (y + 1, 1, 1))"

primrec civil :: "day \<Rightarrow> civil_date" where
  "civil 0 = (1970, 1, 1)"
| "civil (Suc n) = next_day (civil n)"

fun valid_civil :: "civil_date \<Rightarrow> bool" where
  "valid_civil (y, m, d) \<longleftrightarrow> 1 \<le> m \<and> m \<le> 12 \<and> 1 \<le> d \<and> d \<le> days_in_month y m"

lemma days_in_month_le: "days_in_month y m \<le> 31" "1 \<le> days_in_month y m"
  by (simp_all add: days_in_month_def)

lemma civil_valid: "valid_civil (civil n)"
proof (induction n)
  case 0
  then show ?case by (simp add: days_in_month_def)
next
  case (Suc n)
  then show ?case
    using days_in_month_le by (cases "civil n") auto
qed

text \<open>A weight under which the next day is later.\<close>

fun civil_weight :: "civil_date \<Rightarrow> nat" where
  "civil_weight (y, m, d) = 400 * y + 32 * m + d"

lemma civil_weight_next: "valid_civil c \<Longrightarrow> civil_weight c < civil_weight (next_day c)"
proof (cases c)
  case (fields y m d)
  assume "valid_civil c"
  with fields have "m \<le> 12" "d \<le> 31"
    using days_in_month_le(1) [of y m] by auto
  with fields show ?thesis by simp
qed

lemma civil_strict_mono: "m < n \<Longrightarrow> civil_weight (civil m) < civil_weight (civil n)"
  by (rule lift_Suc_mono_less [of "\<lambda>n. civil_weight (civil n)"])
    (simp_all add: civil_weight_next [OF civil_valid])

lemma civil_inj: "civil m = civil n \<longleftrightarrow> m = n"
  by (metis civil_strict_mono linorder_neqE_nat less_irrefl_nat)

section \<open>ISO dates\<close>

definition zfill :: "nat \<Rightarrow> string \<Rightarrow> string" where
  "zfill k s = replicate (k - length s) (CHR ''0'') @ s"

definition isoformat :: "day \<Rightarrow> string" where
  "isoformat n = (case civil n of (y, m, d) \<Rightarrow>
     zfill 4 (nat_str y) @ ''-'' @ zfill 2 (nat_str m) @ ''-'' @ zfill 2 (nat_str d))"

lemma digits_val_zfill: "digits_val (zfill k s) = digits_val s"
proof -
  have "foldl (\<lambda>a c. 10 * a + digit_val c) 0 (replicate n (CHR ''0'') @ s) = digits_val s" for n
    by (induction n) (simp_all add: digits_val_def digit_val_def)
  then show ?thesis by (simp add: zfill_def digits_val_def)
qed

lemma zfill_nat_str_inj: "zfill k (nat_str m) = zfill k (nat_str n) \<longleftrightarrow> m = n"
  by (metis digits_val_zfill digits_val_nat_str)

lemma zfill_nat_str_no_dash: "CHR ''-'' \<notin> set (zfill k (nat_str n))"
proof -
  have "list_all is_digit (nat_str n)"
    using nat_str_isdigit by (simp add: str_isdigit_def)
  then show ?thesis
    by (auto simp: zfill_def list_all_iff is_digit_def)
qed

lemma isoformat_inj: "isoformat m = isoformat n \<longleftrightarrow> m = n"
proof
  assume eq: "isoformat m = isoformat n"
  obtain y mo d where m: "civil m = (y, mo, d)" by (cases "civil m")
  obtain y' mo' d' where n: "civil n = (y', mo', d')" by (cases "civil n")
  have "y = y' \<and> mo = mo' \<and> d = d'"
    using eq by (simp add: isoformat_def m n append_sep_eq zfill_nat_str_no_dash zfill_nat_str_inj)
  with m n show "m = n" by (metis civil_inj)
qed simp

end
