(* ===== verification/Tables.thy ===== *)
theory Tables
  imports GameModes Calendar
begin

text \<open>
  The database rows several components read and write, with the columns the modelled code
  uses. A table is the list of its rows in insertion order; a query that takes
  \<^verbatim>\<open>.first()\<close> without an order takes the first matching row of that list.
\<close>

text \<open>\<^verbatim>\<open>BestScore\<close> (\<^verbatim>\<open>src/app/database/best_scores.py\<close>).\<close>

record best_score =
  bs_user :: int
  bs_score :: int
  bs_beatmap :: int
  bs_mode :: game_mode
  bs_pp :: real
  bs_acc :: real

text \<open>\<^verbatim>\<open>TotalScoreBestScore\<close> (\<^verbatim>\<open>src/app/database/total_score_best_scores.py\<close>).\<close>

record total_best =
  tb_user :: int
  tb_score :: int
  tb_beatmap :: int
  tb_mode :: game_mode
  tb_total :: int
  tb_mods :: "string list"
  tb_rank :: rank

text \<open>\<^verbatim>\<open>UserStatistics\<close> (\<^verbatim>\<open>src/app/database/statistics.py\<close>).\<close>

record user_statistics =
  us_user :: int
  us_mode :: game_mode
  us_pp :: real
  hit_accuracy :: real
  ranked_score :: int
  us_total_score :: int
  level_current :: real
  us_total_hits :: int
  maximum_combo :: int
  play_count :: int
  play_time :: int
  count_300 :: int
  count_100 :: int
  count_50 :: int
  count_miss :: int
  grade_ss :: int
  grade_ssh :: int
  grade_s :: int
  grade_sh :: int
  grade_a :: int
  last_played :: "moment option"

text \<open>\<^verbatim>\<open>Score\<close> (\<^verbatim>\<open>src/app/database/score.py\<close>). \<^verbatim>\<open>sc_pause_count\<close> and the hit counts are the
  columns the submission pipeline fills in.\<close>

record score_row =
  sc_id :: int
  sc_user :: int
  sc_beatmap :: int
  sc_mode :: game_mode
  sc_mods :: "api_mod list"
  sc_accuracy :: real
  sc_max_combo :: int
  sc_passed :: bool
  sc_rank :: rank
  sc_total_score :: int
  sc_total_score_without_mods :: int
  sc_pp :: real
  sc_ranked :: bool
  sc_preserve :: bool
  sc_processed :: bool
  sc_pause_count :: nat
  sc_started_at :: moment
  sc_ended_at :: moment
  n300 :: int
  n100 :: int
  n50 :: int
  nmiss :: int
  ngeki :: int
  nkatu :: int
  nlarge_tick_miss :: "int option"
  nlarge_tick_hit :: "int option"
  nslider_tail_hit :: "int option"
  nsmall_tick_hit :: "int option"
  nlarge_bonus :: "int option"
  nsmall_bonus :: "int option"
  sc_maximum_statistics :: statistics
  sc_account_pp_delta :: "real option"
  sc_room_id :: "int option"
  sc_playlist_item_id :: "int option"

text \<open>\<^verbatim>\<open>x or 0\<close> of a nullable integer or float column.\<close>

definition or_zero :: "'a::zero option \<Rightarrow> 'a" where
  "or_zero x = (case x of None \<Rightarrow> 0 | Some v \<Rightarrow> v)"

lemma or_zero_simps [simp]: "or_zero None = 0" "or_zero (Some v) = v"
  by (simp_all add: or_zero_def)

end
