(* ===== verification/Points.thy ===== *)
theory Points
  imports Tables
begin

text \<open>
  The points economy: \<^verbatim>\<open>src/app/models/torii_points.py\<close> (constants, gates and the top-play
  award), \<^verbatim>\<open>src/app/service/points_service.py\<close> (every operation on balances and the ledger)
  and the ledger row of \<^verbatim>\<open>src/app/database/torii_points.py\<close>.

  The state is the cached balance of every user and the ledger in insertion order. Each
  operation is the whole function of the service run within one transaction: the user row
  lock serialises the operations of a user, so they are atomic steps here. The clock is an
  argument of the operations that read it.
\<close>

section \<open>Values and gates\<close>

datatype point_reason =
    TOP_PLAY | DAILY_PLAY | DAILY_CHALLENGE | MEDAL | MILESTONE | ACCESS_CODE | GIFT
  | STORE_PURCHASE | ADMIN_ADJUST

fun reason_value :: "point_reason \<Rightarrow> string" where
  "reason_value TOP_PLAY = ''top_play''"
| "reason_value DAILY_PLAY = ''daily_play''"
| "reason_value DAILY_CHALLENGE = ''daily_challenge''"
| "reason_value MEDAL = ''medal''"
| "reason_value MILESTONE = ''milestone''"
| "reason_value ACCESS_CODE = ''access_code''"
| "reason_value GIFT = ''gift''"
| "reason_value STORE_PURCHASE = ''store_purchase''"
| "reason_value ADMIN_ADJUST = ''admin_adjust''"

definition POINTS_DAILY_PLAY :: int where "POINTS_DAILY_PLAY = 15"

definition POINTS_DAILY_STREAK_STEP :: int where "POINTS_DAILY_STREAK_STEP = 5"

definition POINTS_DAILY_STREAK_MAX :: int where "POINTS_DAILY_STREAK_MAX = 30"

definition TOP_PLAY_DAILY_POINTS_CAP :: int where "TOP_PLAY_DAILY_POINTS_CAP = 500"

definition TOP_PLAY_DAILY_HARD_CAP :: int where "TOP_PLAY_DAILY_HARD_CAP = 800"

definition TOP_PLAY_MIN_TOPS :: int where "TOP_PLAY_MIN_TOPS = 50"

definition TOP_PLAY_MIN_ACCOUNT_PP_FOR_BASE :: int where "TOP_PLAY_MIN_ACCOUNT_PP_FOR_BASE = 1"

definition REDUCED_EARN_MODE_VALUES :: "string list" where
  "REDUCED_EARN_MODE_VALUES = [''osurx'', ''osuap'', ''taikorx'', ''fruitsrx'']"

definition REDUCED_EARN_MULTIPLIER :: real where "REDUCED_EARN_MULTIPLIER = 4 / 10"

definition SECONDARY_MODE_MULTIPLIER :: real where "SECONDARY_MODE_MULTIPLIER = 6 / 10"

definition PP_MILESTONES :: "(int \<times> int) list" where
  "PP_MILESTONES = [(5000, 250), (7500, 400), (10000, 600), (15000, 1000), (20000, 1500)]"

text \<open>The mode argument of the earn functions: a GameMode, or None, whose \<^verbatim>\<open>str\<close> is no
  reduced mode.\<close>

definition gamemode_str :: "game_mode option \<Rightarrow> string" where
  "gamemode_str g = str_lower (case g of None \<Rightarrow> ''None'' | Some m \<Rightarrow> mode_value m)"

definition earn_multiplier :: "game_mode option \<Rightarrow> real" where
  "earn_multiplier g =
     (if gamemode_str g \<in> set REDUCED_EARN_MODE_VALUES then REDUCED_EARN_MULTIPLIER else 1)"

definition top_play_award :: "int \<Rightarrow> int \<Rightarrow> int \<Rightarrow> int \<times> int" where
  "top_play_award rank existing_top_plays account_pp_delta =
     (let delta = max 0 account_pp_delta in
      if existing_top_plays < TOP_PLAY_MIN_TOPS then
        (if rank \<le> 5 then (8, 0) else if rank \<le> 25 then (5, 0) else if rank \<le> 50 then (3, 0) else (0, 0))
      else
        let developing = existing_top_plays < 500;
            base = (if rank = 1 then (if developing then 120 else 250)
                    else if rank \<le> 5 then (if developing then 60 else 120)
                    else if rank \<le> 25 then (if developing then 25 else 45)
                    else if rank \<le> 50 then (if developing then 12 else 20)
                    else if rank \<le> 100 then (if developing then 5 else 8)
                    else 0);
            base = (if delta < TOP_PLAY_MIN_ACCOUNT_PP_FOR_BASE then 0 else base)
        in if base \<le> 0 then (0, 0)
           else let pp_cap = (if developing then 60 else 150) in (base, min delta pp_cap))"

section \<open>Ledger and operations\<close>

text \<open>\<^verbatim>\<open>ToriiPointTransaction\<close>; the optional columns are \<^verbatim>\<open>ref\<close> and \<^verbatim>\<open>idempotency_key\<close>.\<close>

record point_tx =
  tx_user :: int
  tx_amount :: int
  tx_reason :: string
  tx_ref :: "string option"
  tx_key :: "string option"
  tx_balance_after :: int
  tx_created_at :: moment

record points_db =
  balances :: "int \<Rightarrow> int option"
  ledger :: "point_tx list"

text \<open>\<^verbatim>\<open>_lock_user\<close>: the user row, or None.\<close>

definition lock_user :: "points_db \<Rightarrow> int \<Rightarrow> int option" where
  "lock_user db uid = balances db uid"

definition get_balance :: "points_db \<Rightarrow> int \<Rightarrow> int" where
  "get_balance db uid = (case balances db uid of None \<Rightarrow> 0 | Some p \<Rightarrow> p)"

definition seen_key :: "points_db \<Rightarrow> string \<Rightarrow> bool" where
  "seen_key db k \<longleftrightarrow> find (\<lambda>t. tx_key t = Some k) (ledger db) \<noteq> None"

text \<open>What \<^verbatim>\<open>award\<close> and \<^verbatim>\<open>spend\<close> share: write the balance and append the ledger line.\<close>

definition post :: "moment \<Rightarrow> int \<Rightarrow> int \<Rightarrow> string \<Rightarrow> string option \<Rightarrow> string option \<Rightarrow> int \<Rightarrow> points_db \<Rightarrow> points_db" where
  "post now uid amount reason ref key new_balance db =
     db\<lparr>balances := (balances db)(uid \<mapsto> new_balance),
        ledger := ledger db @ [\<lparr>tx_user = uid, tx_amount = amount, tx_reason = reason, tx_ref = ref,
                               tx_key = key, tx_balance_after = new_balance, tx_created_at = now\<rparr>]\<rparr>"

definition award ::
  "moment \<Rightarrow> int \<Rightarrow> int \<Rightarrow> string \<Rightarrow> string option \<Rightarrow> string option \<Rightarrow> points_db \<Rightarrow> bool \<times> points_db" where
  "award now uid amount reason ref key db =
     (if amount \<le> 0 then (False, db)
      else case lock_user db uid of
        None \<Rightarrow> (False, db)
      | Some points \<Rightarrow>
          if (case key of None \<Rightarrow> False | Some k \<Rightarrow> seen_key db k) then (False, db)
          else (True, post now uid amount reason ref key (points + amount) db))"

definition spend ::
  "moment \<Rightarrow> int \<Rightarrow> int \<Rightarrow> string \<Rightarrow> string option \<Rightarrow> points_db \<Rightarrow> bool \<times> points_db" where
  "spend now uid amount reason ref db =
     (if amount \<le> 0 then (False, db)
      else case lock_user db uid of
        None \<Rightarrow> (False, db)
      | Some points \<Rightarrow>
          if points < amount then (False, db)
          else (True, post now uid (- amount) reason ref None (points - amount) db))"

definition top_play_key :: "int \<Rightarrow> string" where
  "top_play_key sid = ''top_play:'' @ int_str sid"

definition reversal_key :: "int \<Rightarrow> string" where
  "reversal_key sid = ''top_play_reversal:'' @ int_str sid"

definition reverse_score_points :: "moment \<Rightarrow> int \<Rightarrow> points_db \<Rightarrow> points_db" where
  "reverse_score_points now sid db =
     (case find (\<lambda>t. tx_key t = Some (top_play_key sid) \<and> 0 < tx_amount t) (ledger db) of
        None \<Rightarrow> db
      | Some granted \<Rightarrow>
          if seen_key db (reversal_key sid) then db
          else case lock_user db (tx_user granted) of
            None \<Rightarrow> db
          | Some points \<Rightarrow>
              let decrement = min (tx_amount granted) points in
              if decrement \<le> 0 then db
              else post now (tx_user granted) (- decrement) ''refund'' (Some (''reverse:score:'' @ int_str sid))
                     (Some (reversal_key sid)) (points - decrement) db)"

definition awarded_today :: "moment \<Rightarrow> int \<Rightarrow> string \<Rightarrow> point_tx \<Rightarrow> bool" where
  "awarded_today now uid reason t \<longleftrightarrow>
     tx_user t = uid \<and> tx_reason t = reason \<and> 0 < tx_amount t \<and> start_of_utc_day now \<le> tx_created_at t"

definition count_today_awards :: "moment \<Rightarrow> int \<Rightarrow> string \<Rightarrow> points_db \<Rightarrow> int" where
  "count_today_awards now uid reason db = int (length (filter (awarded_today now uid reason) (ledger db)))"

definition sum_today_awards :: "moment \<Rightarrow> int \<Rightarrow> string \<Rightarrow> points_db \<Rightarrow> int" where
  "sum_today_awards now uid reason db =
     sum_list (map tx_amount (filter (awarded_today now uid reason) (ledger db)))"

text \<open>\<^verbatim>\<open>is_main_mode\<close>: \<^verbatim>\<open>coalesce(max(pp), 0.0)\<close> over the user's other modes.\<close>

definition is_main_mode :: "user_statistics list \<Rightarrow> int \<Rightarrow> game_mode \<Rightarrow> real \<Rightarrow> bool" where
  "is_main_mode stats uid mode current_pp =
     (let others = map us_pp (filter (\<lambda>s. us_user s = uid \<and> us_mode s \<noteq> mode) stats);
          max_other = (case others of [] \<Rightarrow> 0 | p # ps \<Rightarrow> foldl max p ps)
      in max_other \<le> current_pp)"

definition award_top_play ::
  "moment \<Rightarrow> int \<Rightarrow> int \<Rightarrow> int \<Rightarrow> int \<Rightarrow> int \<Rightarrow> game_mode option \<Rightarrow> bool \<Rightarrow> points_db \<Rightarrow> bool \<times> points_db" where
  "award_top_play now uid rank existing_top_plays account_pp_delta sid gamemode main_mode db =
     (if lock_user db uid = None then (False, db)
      else
        let today = sum_today_awards now uid (reason_value TOP_PLAY) db in
        if today \<ge> TOP_PLAY_DAILY_HARD_CAP then (False, db)
        else
          let (base, pp_bonus) = top_play_award rank existing_top_plays account_pp_delta;
              rx_mult = earn_multiplier gamemode;
              alt_mult = (if main_mode then 1 else SECONDARY_MODE_MULTIPLIER);
              mult = rx_mult * alt_mult;
              base = py_round (of_int base * mult);
              pp_bonus = py_round (of_int pp_bonus * mult);
              capped = (today \<ge> TOP_PLAY_DAILY_POINTS_CAP);
              base = (if capped then 0 else base);
              total = (if capped then pp_bonus else base + pp_bonus);
              total = min total (TOP_PLAY_DAILY_HARD_CAP - today)
          in if total \<le> 0 then (False, db)
             else
               let ref = ''score:'' @ int_str sid @ ''|rank:'' @ int_str rank @ ''|b:'' @ int_str base
                         @ ''|pp:'' @ int_str pp_bonus
                         @ (if rx_mult < 1 then ''|rx:'' @ int_str (py_round (rx_mult * 100)) else [])
                         @ (if alt_mult < 1 then ''|alt:'' @ int_str (py_round (alt_mult * 100)) else [])
                         @ (if capped then ''|capped:1'' else [])
               in award now uid total (reason_value TOP_PLAY) (Some ref) (Some (top_play_key sid)) db)"

definition milestone_key :: "int \<Rightarrow> int \<Rightarrow> string" where
  "milestone_key uid thr = ''pp_milestone:'' @ int_str uid @ '':'' @ int_str thr"

fun award_milestones_loop :: "moment \<Rightarrow> int \<Rightarrow> real \<Rightarrow> (int \<times> int) list \<Rightarrow> points_db \<Rightarrow> points_db" where
  "award_milestones_loop now uid mul [] db = db"
| "award_milestones_loop now uid mul ((thr, pts) # crossed) db =
     award_milestones_loop now uid mul crossed
       (snd (award now uid (max 1 (py_round (of_int pts * mul))) (reason_value MILESTONE)
               (Some (''pp:'' @ int_str thr)) (Some (milestone_key uid thr)) db))"

definition crossed_milestones :: "real \<Rightarrow> real \<Rightarrow> (int \<times> int) list" where
  "crossed_milestones previous_pp total_pp =
     filter (\<lambda>(thr, _). previous_pp < of_int thr \<and> of_int thr \<le> total_pp) PP_MILESTONES"

definition award_pp_milestones ::
  "moment \<Rightarrow> best_score list \<Rightarrow> int \<Rightarrow> game_mode \<Rightarrow> real \<Rightarrow> real \<Rightarrow> points_db \<Rightarrow> points_db" where
  "award_pp_milestones now best uid mode previous_pp total_pp db =
     (let crossed = crossed_milestones previous_pp total_pp in
      if crossed = [] then db
      else if int (length (filter (\<lambda>b. bs_user b = uid \<and> bs_mode b = mode) best)) < 500 then db
      else award_milestones_loop now uid (earn_multiplier (Some mode)) crossed db)"

definition daily_key :: "int \<Rightarrow> day \<Rightarrow> string" where
  "daily_key uid d = reason_value DAILY_PLAY @ '':'' @ int_str uid @ '':'' @ isoformat d"

definition streak_ref :: "int \<Rightarrow> string" where
  "streak_ref n = ''streak:'' @ int_str n"

text \<open>The streak that yesterday's ledger line continues.\<close>

definition next_streak :: "string option \<Rightarrow> int" where
  "next_streak yest_ref =
     (case yest_ref of
        None \<Rightarrow> 1
      | Some r \<Rightarrow>
          if prefix ''streak:'' r then
            (case parse_int (split_after (CHR '':'') r) of Inr n \<Rightarrow> n + 1 | Inl _ \<Rightarrow> 1)
          else 1)"

definition award_daily_play :: "moment \<Rightarrow> int \<Rightarrow> game_mode option \<Rightarrow> points_db \<Rightarrow> bool \<times> points_db" where
  "award_daily_play now uid gamemode db =
     (let today = date_of now; today_key = daily_key uid today in
      if seen_key db today_key then (False, db)
      else
        let yest_ref = Option.bind (find (\<lambda>t. tx_key t = Some (daily_key uid (today - 1))) (ledger db)) tx_ref;
            streak = next_streak yest_ref;
            bonus = min ((streak - 1) * POINTS_DAILY_STREAK_STEP) POINTS_DAILY_STREAK_MAX;
            amount = max 1 (py_round (of_int (POINTS_DAILY_PLAY + bonus) * earn_multiplier gamemode))
        in award now uid amount (reason_value DAILY_PLAY) (Some (streak_ref streak)) (Some today_key) db)"

section \<open>The ledger invariant\<close>

text \<open>The points a list of ledger lines gives a user, and whether the running balances the
  lines carry are the ones they should.\<close>

definition user_sum :: "int \<Rightarrow> point_tx list \<Rightarrow> int" where
  "user_sum uid l = sum_list (map tx_amount (filter (\<lambda>t. tx_user t = uid) l))"

fun trail_ok :: "(int \<Rightarrow> int) \<Rightarrow> point_tx list \<Rightarrow> bool" where
  "trail_ok b [] = True"
| "trail_ok b (t # ts) \<longleftrightarrow>
     (tx_balance_after t = b (tx_user t) + tx_amount t \<and> 0 \<le> tx_balance_after t \<and>
      trail_ok (b(tx_user t := tx_balance_after t)) ts)"

definition tx_keys :: "point_tx list \<Rightarrow> string list" where
  "tx_keys l = List.map_filter tx_key l"

definition ledger_ok :: "points_db \<Rightarrow> bool" where
  "ledger_ok db \<longleftrightarrow>
     (\<forall>uid p. balances db uid = Some p \<longrightarrow> p = user_sum uid (ledger db) \<and> 0 \<le> p) \<and>
     (\<forall>t \<in> set (ledger db). balances db (tx_user t) \<noteq> None) \<and>
     trail_ok (\<lambda>_. 0) (ledger db) \<and> distinct (tx_keys (ledger db))"

lemma user_sum_simps [simp]:
  "user_sum uid [] = 0"
  "user_sum uid (t # l) = (if tx_user t = uid then tx_amount t else 0) + user_sum uid l"
  "user_sum uid (l @ l') = user_sum uid l + user_sum uid l'"
  by (simp_all add: user_sum_def)

lemma tx_keys_simps [simp]:
  "tx_keys [] = []" "tx_keys (l @ l') = tx_keys l @ tx_keys l'"
  "tx_keys (t # l) = (case tx_key t of None \<Rightarrow> tx_keys l | Some k \<Rightarrow> k # tx_keys l)"
  by (simp_all add: tx_keys_def map_filter_def split: option.split)

lemma seen_key_iff: "seen_key db k \<longleftrightarrow> k \<in> set (tx_keys (ledger db))"
proof -
  have "set (tx_keys l) = {k. \<exists>t \<in> set l. tx_key t = Some k}" for l
    by (induction l) (auto split: option.splits)
  then show ?thesis by (auto simp: seen_key_def find_None_iff)
qed

lemma trail_ok_snoc:
  "trail_ok b (l @ [t]) \<longleftrightarrow>
     trail_ok b l \<and> 0 \<le> tx_balance_after t \<and>
     tx_balance_after t = b (tx_user t) + user_sum (tx_user t) l + tx_amount t"
proof (induction l arbitrary: b)
  case (Cons a l)
  have "(b(tx_user a := tx_balance_after a)) (tx_user t) + user_sum (tx_user t) l =
        b (tx_user t) + user_sum (tx_user t) (a # l)"
    if "tx_balance_after a = b (tx_user a) + tx_amount a"
    using that by simp
  then show ?case
    by (simp only: append_Cons trail_ok.simps Cons.IH) (metis (no_types, lifting))
qed auto

text \<open>Every operation ends in \<open>post\<close>, so this is the one step the invariant needs.\<close>

lemma post_sel [simp]:
  "balances (post now uid a r ref key nb db) = (balances db)(uid \<mapsto> nb)"
  "ledger (post now uid a r ref key nb db) =
     ledger db @ [\<lparr>tx_user = uid, tx_amount = a, tx_reason = r, tx_ref = ref,
                   tx_key = key, tx_balance_after = nb, tx_created_at = now\<rparr>]"
  by (simp_all add: post_def)

lemma post_ok:
  assumes "ledger_ok db" and "balances db uid = Some p" and "nb = p + a" and "0 \<le> nb"
    and "case key of None \<Rightarrow> True | Some k \<Rightarrow> \<not> seen_key db k"
  shows "ledger_ok (post now uid a r ref key nb db)"
proof -
  have p: "p = user_sum uid (ledger db)"
    using assms(1,2) by (simp add: ledger_ok_def)
  have keys: "distinct (tx_keys (ledger (post now uid a r ref key nb db)))"
    using assms(1,5) by (cases key) (simp_all add: ledger_ok_def seen_key_iff)
  have trail: "trail_ok (\<lambda>_. 0) (ledger (post now uid a r ref key nb db))"
    using assms(1,3,4) p by (simp add: trail_ok_snoc ledger_ok_def)
  have bal: "q = user_sum u (ledger (post now uid a r ref key nb db)) \<and> 0 \<le> q"
    if "balances (post now uid a r ref key nb db) u = Some q" for u q
    using that assms(1,3,4) p by (cases "u = uid") (simp_all add: ledger_ok_def)
  have users: "balances (post now uid a r ref key nb db) (tx_user t) \<noteq> None"
    if "t \<in> set (ledger (post now uid a r ref key nb db))" for t
    using that assms(1,2) by (cases "tx_user t = uid") (auto simp: ledger_ok_def)
  show ?thesis
    unfolding ledger_ok_def using keys trail bal users by blast
qed

lemma ledger_ok_user:
  "ledger_ok db \<Longrightarrow> balances db uid = Some p \<Longrightarrow> p = user_sum uid (ledger db) \<and> 0 \<le> p"
  by (simp add: ledger_ok_def)

lemma ledger_ok_keys: "ledger_ok db \<Longrightarrow> distinct (tx_keys (ledger db))"
  by (simp add: ledger_ok_def)

section \<open>What the operations promise\<close>

text \<open>The contract between the ledger and the code that runs operations on it: an operation
  (with its call's arguments as a parameter) keeps the invariant, only appends to the ledger
  and creates no users.\<close>

locale ledger_operation =
  fixes run :: "'a \<Rightarrow> points_db \<Rightarrow> points_db"
  assumes keeps: "ledger_ok db \<Longrightarrow> ledger_ok (run x db)"
    and appends: "prefix (ledger db) (ledger (run x db))"
    and same_users: "dom (balances (run x db)) = dom (balances db)"
begin

lemma keeps_all: "ledger_ok db \<Longrightarrow> ledger_ok (fold run xs db)"
  by (induction xs arbitrary: db) (auto intro: keeps)

lemma appends_all: "prefix (ledger db) (ledger (fold run xs db))"
proof (induction xs arbitrary: db)
  case (Cons x xs)
  have "prefix (ledger db) (ledger (run x db))" by (rule appends)
  also have "prefix \<dots> (ledger (fold run xs (run x db)))" by (rule Cons.IH)
  finally show ?case by simp
qed simp

lemma same_users_all: "dom (balances (fold run xs db)) = dom (balances db)"
  by (induction xs arbitrary: db) (simp_all add: same_users)

end

text \<open>An operation whose effect is marked by a key: it does nothing once the key is in the
  ledger, and leaves the key there when it does something. It then takes effect at most
  once, whatever runs in between.\<close>

locale keyed_operation = ledger_operation run
  for run :: "'a \<Rightarrow> points_db \<Rightarrow> points_db" +
  fixes key :: string
  assumes skips: "seen_key db key \<Longrightarrow> run x db = db"
    and marks: "run x db \<noteq> db \<Longrightarrow> seen_key (run x db) key"
begin

lemma at_most_once:
  assumes "run x db \<noteq> db" and "prefix (ledger (run x db)) (ledger db')"
  shows "run y db' = db'"
proof (rule skips)
  have "key \<in> set (tx_keys (ledger (run x db)))"
    using marks [OF assms(1)] by (simp add: seen_key_iff)
  with assms(2) show "seen_key db' key"
    by (auto simp: seen_key_iff prefix_def)
qed

lemma idempotent: "run x (run x db) = run x db"
  using at_most_once [of x db "run x db" x] by (cases "run x db = db") simp_all

end

subsection \<open>Each operation keeps the contract\<close>

lemmas op_defs = award_def spend_def reverse_score_points_def award_top_play_def award_daily_play_def

text \<open>Every operation either leaves the database alone or posts one line.\<close>

lemma award_cases:
  obtains "award now uid a r ref key db = (False, db)"
  | p where "0 < a" "balances db uid = Some p" "case key of None \<Rightarrow> True | Some k \<Rightarrow> \<not> seen_key db k"
      "award now uid a r ref key db = (True, post now uid a r ref key (p + a) db)"
  by (fastforce simp: award_def lock_user_def split: option.splits if_splits)

lemma spend_cases:
  obtains "spend now uid a r ref db = (False, db)"
  | p where "0 < a" "balances db uid = Some p" "a \<le> p"
      "spend now uid a r ref db = (True, post now uid (- a) r ref None (p - a) db)"
  by (fastforce simp: spend_def lock_user_def split: option.splits if_splits)

lemma reverse_cases:
  obtains (none) "reverse_score_points now sid db = db"
  | (posted) t p d where "t \<in> set (ledger db)" "tx_key t = Some (top_play_key sid)" "0 < tx_amount t"
      "balances db (tx_user t) = Some p" "d = min (tx_amount t) p" "0 < d"
      "\<not> seen_key db (reversal_key sid)"
      "reverse_score_points now sid db =
         post now (tx_user t) (- d) ''refund'' (Some (''reverse:score:'' @ int_str sid))
           (Some (reversal_key sid)) (p - d) db"
proof (cases "reverse_score_points now sid db = db")
  case False
  then obtain t where t: "find (\<lambda>t. tx_key t = Some (top_play_key sid) \<and> 0 < tx_amount t) (ledger db) = Some t"
    by (auto simp: reverse_score_points_def split: option.splits)
  with False have unseen: "\<not> seen_key db (reversal_key sid)"
    by (auto simp: reverse_score_points_def)
  with False t obtain p where p: "balances db (tx_user t) = Some p"
    by (cases "balances db (tx_user t)") (simp_all add: reverse_score_points_def lock_user_def)
  with False t unseen have pos: "0 < min (tx_amount t) p"
    by (simp add: reverse_score_points_def lock_user_def Let_def min_le_iff_disj split: if_splits)
  have "t \<in> set (ledger db) \<and> tx_key t = Some (top_play_key sid) \<and> 0 < tx_amount t"
    using t by (auto simp: find_Some_iff)
  with t unseen p pos show thesis
    by (intro posted [of t p "min (tx_amount t) p"])
      (auto simp: reverse_score_points_def lock_user_def Let_def)
qed

lemma award_keeps: "ledger_ok db \<Longrightarrow> ledger_ok (snd (award now uid a r ref key db))"
proof (cases rule: award_cases [of now uid a r ref key db])
  case (2 p)
  assume ok: "ledger_ok db"
  with 2 have "0 \<le> p" by (blast dest: ledger_ok_user)
  with 2 post_ok [OF ok 2(2), of "p + a" a key now r ref] show ?thesis by simp
qed simp

lemma spend_keeps: "ledger_ok db \<Longrightarrow> ledger_ok (snd (spend now uid a r ref db))"
proof (cases rule: spend_cases [of now uid a r ref db])
  case (2 p)
  assume ok: "ledger_ok db"
  from 2 post_ok [OF ok 2(2), of "p - a" "- a" None now r ref] show ?thesis by simp
qed simp

lemma reverse_keeps: "ledger_ok db \<Longrightarrow> ledger_ok (reverse_score_points now sid db)"
proof (cases rule: reverse_cases [of now sid db])
  case (posted t p d)
  assume ok: "ledger_ok db"
  from posted post_ok [OF ok posted(4), of "p - d" "- d" "Some (reversal_key sid)" now "''refund''"
      "Some (''reverse:score:'' @ int_str sid)"]
  show ?thesis by simp
qed simp

interpretation award_op: ledger_operation
  "\<lambda>(now, uid, a, r, ref, key) db. snd (award now uid a r ref key db)"
proof (unfold_locales, goal_cases)
  case (1 db x)
  obtain now uid a r ref key where x: "x = (now, uid, a, r, ref, key)" by (cases x)
  from 1 show ?case by (simp add: x award_keeps)
next
  case (2 db x)
  obtain now uid a r ref key where x: "x = (now, uid, a, r, ref, key)" by (cases x)
  show ?case by (cases rule: award_cases [of now uid a r ref key db]) (simp_all add: x)
next
  case (3 x db)
  obtain now uid a r ref key where x: "x = (now, uid, a, r, ref, key)" by (cases x)
  show ?case by (cases rule: award_cases [of now uid a r ref key db]) (auto simp: x)
qed

interpretation spend_op: ledger_operation
  "\<lambda>(now, uid, a, r, ref) db. snd (spend now uid a r ref db)"
proof (unfold_locales, goal_cases)
  case (1 db x)
  obtain now uid a r ref where x: "x = (now, uid, a, r, ref)" by (cases x)
  from 1 show ?case by (simp add: x spend_keeps)
next
  case (2 db x)
  obtain now uid a r ref where x: "x = (now, uid, a, r, ref)" by (cases x)
  show ?case by (cases rule: spend_cases [of now uid a r ref db]) (simp_all add: x)
next
  case (3 x db)
  obtain now uid a r ref where x: "x = (now, uid, a, r, ref)" by (cases x)
  show ?case by (cases rule: spend_cases [of now uid a r ref db]) (auto simp: x)
qed

text \<open>The keyed operations: the award with a key, the reversal of a score, the award of a
  top play, and the daily play of one day.\<close>

interpretation reversal: keyed_operation "\<lambda>now. reverse_score_points now sid" "reversal_key sid" for sid
proof (unfold_locales, goal_cases)
  case (1 db now)
  then show ?case by (rule reverse_keeps)
next
  case (2 db now)
  then show ?case by (cases rule: reverse_cases [of now sid db]) simp_all
next
  case (3 now db)
  then show ?case by (cases rule: reverse_cases [of now sid db]) auto
next
  case (4 db now)
  then show ?case by (cases rule: reverse_cases [of now sid db]) simp_all
next
  case (5 now db)
  then show ?case by (cases rule: reverse_cases [of now sid db]) (simp_all add: seen_key_iff)
qed

text \<open>A top play either pays nothing or is one award under its score's key, and never brings
  the day over the hard cap.\<close>

lemma top_play_cases:
  obtains (none) "award_top_play now uid rank tops delta sid g main db = (False, db)"
  | (paid) a ref where "0 < a" "a \<le> TOP_PLAY_DAILY_HARD_CAP - sum_today_awards now uid (reason_value TOP_PLAY) db"
      "award_top_play now uid rank tops delta sid g main db =
         award now uid a (reason_value TOP_PLAY) (Some ref) (Some (top_play_key sid)) db"
proof -
  let ?today = "sum_today_awards now uid (reason_value TOP_PLAY) db"
  obtain base pp where award: "top_play_award rank tops delta = (base, pp)"
    by (cases "top_play_award rank tops delta")
  define m where "m = earn_multiplier g * (if main then 1 else SECONDARY_MODE_MULTIPLIER)"
  define total where "total = min
      (if ?today \<ge> TOP_PLAY_DAILY_POINTS_CAP then py_round (of_int pp * m)
       else (if ?today \<ge> TOP_PLAY_DAILY_POINTS_CAP then 0 else py_round (of_int base * m)) + py_round (of_int pp * m))
      (TOP_PLAY_DAILY_HARD_CAP - ?today)"
  consider "lock_user db uid = None \<or> ?today \<ge> TOP_PLAY_DAILY_HARD_CAP \<or> total \<le> 0"
    | "lock_user db uid \<noteq> None" "\<not> ?today \<ge> TOP_PLAY_DAILY_HARD_CAP" "0 < total" by linarith
  then show thesis
  proof cases
    case 1
    then show thesis
      by (intro none) (auto simp: award_top_play_def award Let_def total_def m_def)
  next
    case 2
    have "total \<le> TOP_PLAY_DAILY_HARD_CAP - ?today" by (simp add: total_def)
    from paid [OF 2(3) this] 2 show thesis
      unfolding award_top_play_def award Let_def prod.case m_def [symmetric] total_def [symmetric] by simp
  qed
qed

lemma daily_cases:
  obtains "award_daily_play now uid g db = (False, db)"
  | a n where "\<not> seen_key db (daily_key uid (date_of now))" "1 \<le> a"
      "n = next_streak (Option.bind (find (\<lambda>t. tx_key t = Some (daily_key uid (date_of now - 1))) (ledger db)) tx_ref)"
      "award_daily_play now uid g db =
         award now uid a (reason_value DAILY_PLAY) (Some (streak_ref n)) (Some (daily_key uid (date_of now))) db"
proof (cases "seen_key db (daily_key uid (date_of now))")
  case True
  then show thesis by (intro that(1)) (simp add: award_daily_play_def)
next
  case False
  then show thesis
    by (intro that(2) [OF False _ refl]) (simp_all add: award_daily_play_def Let_def)
qed

lemma award_keyed:
  assumes "snd (award now uid a r ref (Some k) db) \<noteq> db"
  shows "seen_key (snd (award now uid a r ref (Some k) db)) k"
  using assms by (cases rule: award_cases [of now uid a r ref "Some k" db]) (simp_all add: seen_key_iff)

lemma award_seen: "seen_key db k \<Longrightarrow> award now uid a r ref (Some k) db = (False, db)"
  by (auto simp: award_def split: option.splits)

lemmas award_contract =
  award_op.keeps [of _ "(now, uid, a, r, ref, key)" for now uid a r ref key, simplified]
  award_op.appends [of _ "(now, uid, a, r, ref, key)" for now uid a r ref key, simplified]
  award_op.same_users [of "(now, uid, a, r, ref, key)" for now uid a r ref key, simplified]

interpretation top_play: keyed_operation
  "\<lambda>(now, uid, rank, tops, delta, g, main) db. snd (award_top_play now uid rank tops delta sid g main db)"
  "top_play_key sid" for sid
proof (unfold_locales, goal_cases)
  case (1 db x)
  obtain now uid rank tops delta g main where x: "x = (now, uid, rank, tops, delta, g, main)" by (cases x)
  from 1 show ?case
    by (cases rule: top_play_cases [of now uid rank tops delta sid g main db]) (simp_all add: x award_contract)
next
  case (2 db x)
  obtain now uid rank tops delta g main where x: "x = (now, uid, rank, tops, delta, g, main)" by (cases x)
  show ?case
    by (cases rule: top_play_cases [of now uid rank tops delta sid g main db]) (simp_all add: x award_contract)
next
  case (3 x db)
  obtain now uid rank tops delta g main where x: "x = (now, uid, rank, tops, delta, g, main)" by (cases x)
  show ?case
    by (cases rule: top_play_cases [of now uid rank tops delta sid g main db]) (simp_all add: x award_contract)
next
  case (4 db x)
  obtain now uid rank tops delta g main where x: "x = (now, uid, rank, tops, delta, g, main)" by (cases x)
  from 4 show ?case
    by (cases rule: top_play_cases [of now uid rank tops delta sid g main db]) (simp_all add: x award_seen)
next
  case (5 x db)
  obtain now uid rank tops delta g main where x: "x = (now, uid, rank, tops, delta, g, main)" by (cases x)
  from 5 show ?case
    by (cases rule: top_play_cases [of now uid rank tops delta sid g main db]) (simp_all add: x award_keyed)
qed

text \<open>The daily play of one day, and the milestones.\<close>

interpretation daily: keyed_operation
  "\<lambda>(now, g) db. if date_of now = d then snd (award_daily_play now uid g db) else db"
  "daily_key uid d" for uid d
proof (unfold_locales, goal_cases)
  case (1 db x)
  obtain now g where x: "x = (now, g)" by (cases x)
  from 1 show ?case by (cases rule: daily_cases [of now uid g db]) (simp_all add: x award_contract)
next
  case (2 db x)
  obtain now g where x: "x = (now, g)" by (cases x)
  show ?case by (cases rule: daily_cases [of now uid g db]) (simp_all add: x award_contract)
next
  case (3 x db)
  obtain now g where x: "x = (now, g)" by (cases x)
  show ?case by (cases rule: daily_cases [of now uid g db]) (simp_all add: x award_contract)
next
  case (4 db x)
  then show ?case by (auto simp: award_daily_play_def split: prod.splits)
next
  case (5 x db)
  obtain now g where x: "x = (now, g)" by (cases x)
  from 5 show ?case by (cases rule: daily_cases [of now uid g db]) (auto simp: x award_keyed split: if_splits)
qed

lemma milestones_fold:
  "award_milestones_loop now uid m crossed db =
     fold (\<lambda>(now, uid, a, r, ref, key) db. snd (award now uid a r ref key db))
       (map (\<lambda>(thr, pts). (now, uid, max 1 (py_round (of_int pts * m)), reason_value MILESTONE,
               Some (''pp:'' @ int_str thr), Some (milestone_key uid thr))) crossed) db"
  by (induction crossed arbitrary: db) auto

interpretation milestones: ledger_operation
  "\<lambda>(now, best, uid, mode, prev, tot) db. award_pp_milestones now best uid mode prev tot db"
proof (unfold_locales, goal_cases)
  case (1 db x)
  obtain now best uid mode prev tot where x: "x = (now, best, uid, mode, prev, tot)" by (cases x)
  from 1 show ?case by (simp add: x award_pp_milestones_def Let_def milestones_fold award_op.keeps_all)
next
  case (2 db x)
  obtain now best uid mode prev tot where x: "x = (now, best, uid, mode, prev, tot)" by (cases x)
  show ?case by (simp add: x award_pp_milestones_def Let_def milestones_fold award_op.appends_all)
next
  case (3 x db)
  obtain now best uid mode prev tot where x: "x = (now, best, uid, mode, prev, tot)" by (cases x)
  show ?case by (simp add: x award_pp_milestones_def Let_def milestones_fold award_op.same_users_all)
qed

section \<open>Runs of the points service\<close>

text \<open>One step of the economy: a new account, or one call of a service function. A direct
  award carries any reason but the top plays' own, which only \<^verbatim>\<open>award_top_play\<close> writes.\<close>

inductive points_step :: "points_db \<Rightarrow> points_db \<Rightarrow> bool" where
  registered: "balances db uid = None \<Longrightarrow>
    points_step db (db\<lparr>balances := (balances db)(uid \<mapsto> 0)\<rparr>)"
| awarded: "r \<noteq> reason_value TOP_PLAY \<Longrightarrow> points_step db (snd (award now uid a r ref key db))"
| spent: "points_step db (snd (spend now uid a r ref db))"
| reversed: "points_step db (reverse_score_points now sid db)"
| top_played: "points_step db (snd (award_top_play now uid rank tops delta sid g main db))"
| milestone: "points_step db (award_pp_milestones now best uid mode prev tot db)"
| daily_played: "points_step db (snd (award_daily_play now uid g db))"

inductive_cases points_stepE: "points_step db db'"

definition empty_points :: points_db where
  "empty_points = \<lparr>balances = (\<lambda>_. None), ledger = []\<rparr>"

text \<open>The top-play points a user was given on a day.\<close>

definition top_points :: "int \<Rightarrow> day \<Rightarrow> point_tx list \<Rightarrow> int" where
  "top_points uid d l =
     sum_list (map tx_amount (filter (\<lambda>t. tx_user t = uid \<and> tx_reason t = reason_value TOP_PLAY \<and>
       0 < tx_amount t \<and> date_of (tx_created_at t) = d) l))"

definition points_inv :: "points_db \<Rightarrow> bool" where
  "points_inv db \<longleftrightarrow> ledger_ok db \<and> (\<forall>uid d. top_points uid d (ledger db) \<le> TOP_PLAY_DAILY_HARD_CAP)"

lemma top_points_simps [simp]:
  "top_points uid d [] = 0"
  "top_points uid d (l @ l') = top_points uid d l + top_points uid d l'"
  "top_points uid d [t] =
     (if tx_user t = uid \<and> tx_reason t = reason_value TOP_PLAY \<and> 0 < tx_amount t \<and> date_of (tx_created_at t) = d
      then tx_amount t else 0)"
  by (simp_all add: top_points_def)

text \<open>The sum the gate reads covers every award of the day.\<close>

lemma top_points_le_today:
  "top_points uid (date_of now) (ledger db) \<le> sum_today_awards now uid (reason_value TOP_PLAY) db"
proof -
  have "top_points uid (date_of now) l \<le>
        sum_list (map tx_amount (filter (awarded_today now uid (reason_value TOP_PLAY)) l))" for l
    by (induction l) (auto simp: top_points_def awarded_today_def since_start_of_day_iff)
  then show ?thesis by (simp add: sum_today_awards_def)
qed

lemma other_award_top_points:
  "r \<noteq> reason_value TOP_PLAY \<Longrightarrow>
   top_points u d (ledger (snd (award now uid a r ref key db))) = top_points u d (ledger db)"
  by (cases rule: award_cases [of now uid a r ref key db]) simp_all

lemma milestones_top_points:
  "top_points u d (ledger (award_milestones_loop now uid m crossed db)) = top_points u d (ledger db)"
  by (induction crossed arbitrary: db) (auto simp: other_award_top_points)

lemma top_play_top_points:
  assumes "points_inv db"
  shows "top_points u d (ledger (snd (award_top_play now uid rank tops delta sid g main db))) \<le> TOP_PLAY_DAILY_HARD_CAP"
proof (cases rule: top_play_cases [of now uid rank tops delta sid g main db])
  case none
  with assms show ?thesis by (simp add: points_inv_def)
next
  case (paid a ref)
  have inv: "top_points u d (ledger db) \<le> TOP_PLAY_DAILY_HARD_CAP" for u d
    using assms by (simp add: points_inv_def)
  have "top_points uid (date_of now) (ledger db) + a \<le> TOP_PLAY_DAILY_HARD_CAP"
    using top_points_le_today [of uid now db] paid(2) by linarith
  with inv [of u d] paid show ?thesis
    by (cases rule: award_cases [of now uid a "reason_value TOP_PLAY" "Some ref" "Some (top_play_key sid)" db]) auto
qed

lemma step_inv:
  assumes "points_step db db'" and inv: "points_inv db"
  shows "points_inv db'"
proof -
  have ok: "ledger_ok db" and cap: "\<And>u d. top_points u d (ledger db) \<le> TOP_PLAY_DAILY_HARD_CAP"
    using inv by (simp_all add: points_inv_def)
  from assms(1) show ?thesis
  proof cases
    case (registered uid)
    have "user_sum uid (ledger db) = 0"
    proof -
      have "\<forall>t \<in> set (ledger db). tx_user t \<noteq> uid"
        using ok registered by (auto simp: ledger_ok_def)
      then show ?thesis by (simp add: user_sum_def filter_False)
    qed
    with registered ok cap show ?thesis
      by (auto simp: points_inv_def ledger_ok_def)
  next
    case (awarded r now uid a ref key)
    with ok cap show ?thesis by (simp add: points_inv_def award_keeps other_award_top_points)
  next
    case (spent now uid a r ref)
    with cap have "top_points u d (ledger db') \<le> TOP_PLAY_DAILY_HARD_CAP" for u d
      by (cases rule: spend_cases [of now uid a r ref db]) simp_all
    with spent ok show ?thesis by (simp add: points_inv_def spend_keeps)
  next
    case (reversed now sid)
    with cap have "top_points u d (ledger db') \<le> TOP_PLAY_DAILY_HARD_CAP" for u d
      by (cases rule: reverse_cases [of now sid db]) simp_all
    with reversed ok show ?thesis by (simp add: points_inv_def reverse_keeps)
  next
    case (top_played now uid rank tops delta sid g main)
    with ok top_play.keeps [of db sid "(now, uid, rank, tops, delta, g, main)"]
    show ?thesis by (simp add: points_inv_def top_play_top_points [OF inv])
  next
    case (milestone now best uid mode prev tot)
    with ok cap milestones.keeps [of db "(now, best, uid, mode, prev, tot)"]
    show ?thesis by (simp add: points_inv_def award_pp_milestones_def Let_def milestones_top_points)
  next
    case (daily_played now uid g)
    then have "ledger_ok db'"
      using ok daily.keeps [of db "date_of now" uid "(now, g)"] by simp
    moreover have "top_points u d (ledger db') = top_points u d (ledger db)" for u d
      using daily_played
      by (cases rule: daily_cases [of now uid g db]) (simp_all add: other_award_top_points)
    ultimately show ?thesis using cap by (simp add: points_inv_def)
  qed
qed

lemma reachable_inv: "points_step\<^sup>*\<^sup>* empty_points db \<Longrightarrow> points_inv db"
proof (induction rule: rtranclp_induct)
  case base
  then show ?case
    by (simp add: points_inv_def ledger_ok_def empty_points_def TOP_PLAY_DAILY_HARD_CAP_def)
next
  case (step db db')
  then show ?case by (blast intro: step_inv)
qed

lemma step_appends:
  assumes "points_step db db'"
  shows "prefix (ledger db) (ledger db')"
  using assms
proof cases
  case (awarded r now uid a ref key)
  then show ?thesis by (simp add: award_contract)
next
  case (spent now uid a r ref)
  then show ?thesis using spend_op.appends [of db "(now, uid, a, r, ref)"] by simp
next
  case (reversed now sid)
  then show ?thesis using reversal.appends by simp
next
  case (top_played now uid rank tops delta sid g main)
  then show ?thesis using top_play.appends [of db sid "(now, uid, rank, tops, delta, g, main)"] by simp
next
  case (milestone now best uid mode prev tot)
  then show ?thesis using milestones.appends [of db "(now, best, uid, mode, prev, tot)"] by simp
next
  case (daily_played now uid g)
  then show ?thesis using daily.appends [of db "date_of now" uid "(now, g)"] by simp
qed simp

lemma steps_append: "points_step\<^sup>*\<^sup>* db db' \<Longrightarrow> prefix (ledger db) (ledger db')"
  by (induction rule: rtranclp_induct) (auto dest: step_appends intro: prefix_order.trans)

section \<open>Properties\<close>

text \<open>C1: in every reachable state the cached balance of a user is the sum of the user's
  ledger lines and is not negative, the running balance on every line is the sum up to that
  line, and no idempotency key occurs twice.\<close>

theorem ledger_is_source_of_truth:
  assumes "points_step\<^sup>*\<^sup>* empty_points db"
  shows "get_balance db uid = user_sum uid (ledger db) \<and> 0 \<le> get_balance db uid \<and>
         trail_ok (\<lambda>_. 0) (ledger db) \<and> distinct (tx_keys (ledger db))"
proof -
  have ok: "ledger_ok db"
    using reachable_inv [OF assms] by (simp add: points_inv_def)
  show ?thesis
  proof (cases "balances db uid")
    case None
    then have "\<forall>t \<in> set (ledger db). tx_user t \<noteq> uid"
      using ok by (auto simp: ledger_ok_def)
    then have "user_sum uid (ledger db) = 0"
      by (simp add: user_sum_def filter_False)
    with None ok show ?thesis by (simp add: get_balance_def ledger_ok_def)
  next
    case (Some p)
    with ok ledger_ok_user [OF ok Some] show ?thesis by (simp add: get_balance_def ledger_ok_def)
  qed
qed

text \<open>A short run to evaluate the properties on: an account that plays on two days in a row,
  lands a top play on a 200-play history and spends.\<close>

definition run1 :: points_db where
  "run1 = snd (award_daily_play 100 7 (Some OSU) (empty_points\<lparr>balances := [7 \<mapsto> 0]\<rparr>))"

definition run2 :: points_db where
  "run2 = snd (award_top_play 200 7 1 200 30 55 (Some OSU) True run1)"

definition run3 :: points_db where
  "run3 = snd (spend 300 7 40 (reason_value STORE_PURCHASE) (Some ''item'') run2)"

lemma runs_reachable:
  "points_step\<^sup>*\<^sup>* empty_points run1" "points_step\<^sup>*\<^sup>* run1 run2" "points_step\<^sup>*\<^sup>* run2 run3"
  "points_step\<^sup>*\<^sup>* empty_points run3"
proof -
  have "points_step empty_points (empty_points\<lparr>balances := [7 \<mapsto> 0]\<rparr>)"
    using registered [of empty_points 7] by (simp add: empty_points_def)
  then show 1: "points_step\<^sup>*\<^sup>* empty_points run1"
    unfolding run1_def by (blast intro: daily_played rtranclp.rtrancl_into_rtrancl)
  show 2: "points_step\<^sup>*\<^sup>* run1 run2" unfolding run2_def by (blast intro: top_played)
  show 3: "points_step\<^sup>*\<^sup>* run2 run3" unfolding run3_def by (blast intro: spent)
  from 1 2 3 show "points_step\<^sup>*\<^sup>* empty_points run3" by (metis rtranclp_trans)
qed

lemma ledger_is_source_of_truth_witness:
  "get_balance run3 7 = user_sum 7 (ledger run3) \<and> 0 \<le> get_balance run3 7 \<and>
   trail_ok (\<lambda>_. 0) (ledger run3) \<and> distinct (tx_keys (ledger run3))"
  by (rule ledger_is_source_of_truth [OF runs_reachable(4)])

text \<open>C11: whatever order top plays, other awards, purchases and reversals come in, and
  whatever the clock does, the top-play points a user is given on one UTC day never exceed
  the hard cap of 800.\<close>

theorem top_play_daily_cap:
  assumes "points_step\<^sup>*\<^sup>* empty_points db"
  shows "top_points uid d (ledger db) \<le> 800"
  using reachable_inv [OF assms] by (simp add: points_inv_def TOP_PLAY_DAILY_HARD_CAP_def)

lemma top_play_daily_cap_witness: "top_points 7 0 (ledger run3) \<le> 800"
  by (rule top_play_daily_cap [OF runs_reachable(4)])

text \<open>C12: a score's top play is paid at most once. After the first payment no later call for
  the same score pays again, with any arguments and after any steps in between, the
  reversal of that score included.\<close>

theorem top_play_paid_once:
  assumes "award_top_play now uid rank tops delta sid g main db = (True, db1)"
    and "points_step\<^sup>*\<^sup>* db1 db2"
  shows "award_top_play now' uid' rank' tops' delta' sid g' main' db2 = (False, db2)"
proof -
  have "award_top_play now uid rank tops delta sid g main db \<noteq> (False, db)"
    using assms(1) by simp
  then have "seen_key db1 (top_play_key sid)"
  proof (cases rule: top_play_cases [of now uid rank tops delta sid g main db])
    case (paid a ref)
    with assms(1) show ?thesis
      by (cases rule: award_cases [of now uid a "reason_value TOP_PLAY" "Some ref" "Some (top_play_key sid)" db])
        (auto simp: seen_key_iff)
  qed simp
  then have seen: "seen_key db2 (top_play_key sid)"
    using steps_append [OF assms(2)] by (auto simp: seen_key_iff prefix_def)
  then show ?thesis
    by (cases rule: top_play_cases [of now' uid' rank' tops' delta' sid g' main' db2]) (simp_all add: award_seen)
qed

lemma run1_ledger:
  "balances run1 = [7 \<mapsto> 15]"
  "\<exists>t. ledger run1 = [t] \<and> tx_key t = Some (daily_key 7 0) \<and> tx_reason t = ''daily_play''"
  by (simp_all add: run1_def empty_points_def award_daily_play_def award_def lock_user_def seen_key_def
      next_streak_def earn_multiplier_def gamemode_str_def str_lower_def lower_char_def date_of_def Let_def
      REDUCED_EARN_MODE_VALUES_def POINTS_DAILY_PLAY_def POINTS_DAILY_STREAK_MAX_def)

lemma run2_paid: "award_top_play 200 7 1 200 30 55 (Some OSU) True run1 = (True, run2)"
proof -
  obtain t where t: "ledger run1 = [t]" "tx_key t = Some (daily_key 7 0)" "tx_reason t = ''daily_play''"
    using run1_ledger(2) by blast
  have "daily_key 7 0 \<noteq> top_play_key 55"
    by (simp add: daily_key_def top_play_key_def)
  with t have "fst (award_top_play 200 7 1 200 30 55 (Some OSU) True run1)"
    by (simp add: award_top_play_def sum_today_awards_def awarded_today_def run1_ledger(1) lock_user_def
        top_play_award_def TOP_PLAY_MIN_TOPS_def TOP_PLAY_DAILY_HARD_CAP_def TOP_PLAY_DAILY_POINTS_CAP_def
        TOP_PLAY_MIN_ACCOUNT_PP_FOR_BASE_def earn_multiplier_def gamemode_str_def str_lower_def lower_char_def
        REDUCED_EARN_MODE_VALUES_def award_def seen_key_def)
  then show ?thesis by (simp add: run2_def prod_eq_iff)
qed

lemma top_play_paid_once_witness:
  "award_top_play 86500 7 1 900 200 55 (Some OSU) True run3 = (False, run3)"
  by (rule top_play_paid_once [OF run2_paid runs_reachable(3)])

text \<open>The streak a day's ledger line records, 0 when there is none.\<close>

definition streak_on :: "points_db \<Rightarrow> int \<Rightarrow> day \<Rightarrow> int" where
  "streak_on db uid d =
     (case find (\<lambda>t. tx_key t = Some (daily_key uid d)) (ledger db) of
        None \<Rightarrow> 0
      | Some t \<Rightarrow> next_streak (tx_ref t) - 1)"

lemma next_streak_None: "next_streak None = 1"
  by (simp add: next_streak_def)

lemma next_streak_ref [simp]: "next_streak (Some (streak_ref n)) = n + 1"
proof -
  have "split_after (CHR '':'') (streak_ref n) = int_str n"
    using split_after_sep [of "CHR '':''" "''streak''" "int_str n"] by (simp add: streak_ref_def)
  then show ?thesis
    by (simp add: next_streak_def streak_ref_def del: append.simps)
qed

lemma find_append_Some: "find P l = Some x \<Longrightarrow> find P (l @ l') = Some x"
  by (induction l) (auto split: if_splits)

lemma find_append_None: "find P l = None \<Longrightarrow> find P (l @ l') = find P l'"
  by (induction l) (auto split: if_splits)

lemma streak_kept:
  assumes "points_step\<^sup>*\<^sup>* db db'" and "seen_key db (daily_key uid d)"
  shows "streak_on db' uid d = streak_on db uid d"
proof -
  obtain l where "ledger db' = ledger db @ l"
    using steps_append [OF assms(1)] by (auto simp: prefix_def)
  with assms(2) show ?thesis
    by (auto simp: seen_key_def streak_on_def find_append_Some split: option.splits)
qed

lemma daily_key_days: "daily_key uid d = daily_key uid d' \<longleftrightarrow> d = d'"
  by (simp add: daily_key_def isoformat_inj)

lemma daily_play_effect:
  assumes "award_daily_play now uid g db = (True, db')"
  shows "seen_key db' (daily_key uid (date_of now)) \<and>
     streak_on db' uid (date_of now) = streak_on db uid (date_of now - 1) + 1 \<and>
     get_balance db' uid = get_balance db uid +
       max 1 (py_round (of_int (15 + min (5 * streak_on db uid (date_of now - 1)) 30) * earn_multiplier g))"
proof -
  define today where "today = daily_key uid (date_of now)"
  define yest where "yest = find (\<lambda>t. tx_key t = Some (daily_key uid (date_of now - 1))) (ledger db)"
  define n where "n = next_streak (Option.bind yest tx_ref)"
  have n: "streak_on db uid (date_of now - 1) = n - 1"
    unfolding streak_on_def n_def yest_def [symmetric]
    by (cases yest) (simp_all add: next_streak_None)
  have unseen: "\<not> seen_key db today"
    using assms by (auto simp: award_daily_play_def today_def)
  define a where "a = max 1 (py_round (of_int (15 + min ((n - 1) * 5) 30) * earn_multiplier g))"
  have "award now uid a (reason_value DAILY_PLAY) (Some (streak_ref n)) (Some today) db = (True, db')"
    using assms unseen unfolding award_daily_play_def Let_def a_def n_def yest_def today_def
      POINTS_DAILY_PLAY_def POINTS_DAILY_STREAK_STEP_def POINTS_DAILY_STREAK_MAX_def
    by (simp only: if_False)
  then obtain p where p: "balances db uid = Some p"
    and db': "db' = post now uid a (reason_value DAILY_PLAY) (Some (streak_ref n)) (Some today) (p + a) db"
    by (cases rule: award_cases [of now uid a "reason_value DAILY_PLAY" "Some (streak_ref n)" "Some today" db])
      simp_all
  have "find (\<lambda>t. tx_key t = Some today) (ledger db) = None"
    using unseen by (simp add: seen_key_def)
  then have "streak_on db' uid (date_of now) = n"
    by (simp add: streak_on_def db' find_append_None today_def [symmetric])
  moreover have "seen_key db' today"
    by (simp add: seen_key_iff db')
  moreover have "get_balance db' uid = get_balance db uid + a"
    by (simp add: get_balance_def p db')
  ultimately show ?thesis
    unfolding n a_def today_def [symmetric] by (simp add: mult.commute)
qed

text \<open>Daily plays on consecutive days count up. When the play of day d + i was paid for
  every i up to n, whatever happened in between and with no play recorded on day d - 1, the
  last of them records a streak of n + 1 and pays 15 points plus 5 per streak day before it
  (at most 30), times the multiplier of the mode it was played in.\<close>

theorem daily_streak_counts:
  assumes paid: "\<And>i. i \<le> n \<Longrightarrow> award_daily_play (now i) uid (g i) (before i) = (True, after i)"
    and between: "\<And>i. i < n \<Longrightarrow> points_step\<^sup>*\<^sup>* (after i) (before (Suc i))"
    and days: "\<And>i. i \<le> n \<Longrightarrow> date_of (now i) = d + i"
    and fresh: "streak_on (before 0) uid (d - 1) = 0"
  shows "streak_on (after n) uid (d + n) = int n + 1 \<and>
    get_balance (after n) uid = get_balance (before n) uid +
      max 1 (py_round (of_int (15 + min (5 * int n) 30) * earn_multiplier (g n)))"
proof -
  have streak: "streak_on (after i) uid (d + i) = int i + 1 \<and> streak_on (before i) uid (d + i - 1) = int i"
    if "i \<le> n" for i
    using that
  proof (induction i)
    case 0
    then show ?case using daily_play_effect [OF paid [of 0]] days [of 0] fresh by simp
  next
    case (Suc i)
    then have "points_step\<^sup>*\<^sup>* (after i) (before (Suc i))" by (intro between) simp
    moreover have "seen_key (after i) (daily_key uid (d + i))"
      using daily_play_effect [OF paid [of i]] days [of i] Suc.prems by simp
    ultimately have "streak_on (before (Suc i)) uid (d + i) = streak_on (after i) uid (d + i)"
      by (rule streak_kept)
    with Suc have b: "streak_on (before (Suc i)) uid (d + i) = int (Suc i)" by simp
    with daily_play_effect [OF paid [OF Suc.prems]] days [OF Suc.prems] show ?case by simp
  qed
  show ?thesis
    using daily_play_effect [OF paid [OF order.refl]] days [of n] streak [of n] by simp
qed

text \<open>Two days: the run above, then the next day's play.\<close>

definition run4 :: points_db where
  "run4 = snd (award_daily_play 86500 7 (Some OSURX) run3)"

lemma daily_play_pays_iff:
  "fst (award_daily_play now uid g db) \<longleftrightarrow>
     balances db uid \<noteq> None \<and> \<not> seen_key db (daily_key uid (date_of now))"
  by (cases rule: daily_cases [of now uid g db])
    (auto simp: award_def lock_user_def award_daily_play_def Let_def split: option.splits)

lemma top_play_keys:
  "set (tx_keys (ledger (snd (award_top_play now uid rank tops delta sid g main db))))
     \<subseteq> insert (top_play_key sid) (set (tx_keys (ledger db)))"
proof (cases rule: top_play_cases [of now uid rank tops delta sid g main db])
  case (paid a ref)
  then show ?thesis
    by (cases rule: award_cases [of now uid a "reason_value TOP_PLAY" "Some ref" "Some (top_play_key sid)" db]) auto
qed auto

lemma spend_keys: "tx_keys (ledger (snd (spend now uid a r ref db))) = tx_keys (ledger db)"
  by (cases rule: spend_cases [of now uid a r ref db]) simp_all

lemma run4_paid: "award_daily_play 86500 7 (Some OSURX) run3 = (True, run4)"
proof -
  have "set (tx_keys (ledger run3)) \<subseteq> {daily_key 7 0, top_play_key 55}"
    using run1_ledger(2) top_play_keys [of 200 7 1 200 30 55 "Some OSU" True run1]
    by (auto simp: run3_def run2_def spend_keys)
  moreover have "daily_key 7 1 \<notin> {daily_key 7 0, top_play_key 55}"
    by (simp add: daily_key_days) (simp add: daily_key_def top_play_key_def)
  ultimately have "\<not> seen_key run3 (daily_key 7 1)" by (auto simp: seen_key_iff)
  moreover have "balances run3 7 \<noteq> None"
  proof -
    have "dom (balances run3) = dom (balances run1)"
      using spend_op.same_users [of "(300, 7, 40, reason_value STORE_PURCHASE, Some ''item'')" run2]
        top_play.same_users [of 55 "(200, 7, 1, 200, 30, Some OSU, True)" run1]
      by (simp add: run3_def run2_def)
    then show ?thesis using run1_ledger(1) by (auto simp: dom_def set_eq_iff)
  qed
  ultimately have "fst (award_daily_play 86500 7 (Some OSURX) run3)"
    by (simp add: daily_play_pays_iff date_of_def)
  then show ?thesis by (simp add: run4_def prod_eq_iff)
qed

lemma run1_paid:
  "award_daily_play 100 7 (Some OSU) (empty_points\<lparr>balances := [7 \<mapsto> 0]\<rparr>) = (True, run1)"
proof -
  have "fst (award_daily_play 100 7 (Some OSU) (empty_points\<lparr>balances := [7 \<mapsto> 0]\<rparr>))"
    by (simp add: daily_play_pays_iff seen_key_iff empty_points_def)
  then show ?thesis by (simp add: run1_def prod_eq_iff)
qed

lemma daily_streak_counts_witness:
  "streak_on run4 7 1 = 2 \<and>
   get_balance run4 7 = get_balance run3 7 + max 1 (py_round (of_int 20 * earn_multiplier (Some OSURX)))"
proof -
  let ?at = "\<lambda>x y i. if i = (0 :: nat) then x else y"
  let ?now = "?at 100 86500" and ?g = "?at (Some OSU) (Some OSURX)"
  let ?before = "?at (empty_points\<lparr>balances := [7 \<mapsto> 0]\<rparr>) run3" and ?after = "?at run1 run4"
  have run13: "points_step\<^sup>*\<^sup>* run1 run3" using runs_reachable(2,3) by (rule rtranclp_trans)
  have "streak_on (?after 1) 7 (0 + 1) = int 1 + 1 \<and>
    get_balance (?after 1) 7 = get_balance (?before 1) 7 +
      max 1 (py_round (of_int (15 + min (5 * int 1) 30) * earn_multiplier (?g 1)))"
  proof (rule daily_streak_counts [of 1 ?now 7 ?g ?before ?after 0])
    show "award_daily_play (?now i) 7 (?g i) (?before i) = (True, ?after i)" for i
      using run1_paid run4_paid by simp
    show "points_step\<^sup>*\<^sup>* (?after i) (?before (Suc i))" if "i < 1" for i
      using run13 that by simp
    show "date_of (?now i) = 0 + i" if "i \<le> 1" for i
      using that by (auto simp: date_of_def le_Suc_eq)
    show "streak_on (?before 0) 7 (0 - 1) = 0"
      by (simp add: streak_on_def empty_points_def)
  qed
  then show ?thesis by simp
qed

lemma top_play_paidE:
  assumes "award_top_play now uid rank tops delta sid g main db = (True, db')"
  obtains a p ref where "0 < a" "balances db uid = Some p"
    "db' = post now uid a (reason_value TOP_PLAY) (Some ref) (Some (top_play_key sid)) (p + a) db"
proof (cases rule: top_play_cases [of now uid rank tops delta sid g main db])
  case (paid a ref)
  with assms that show thesis
    by (cases rule: award_cases [of now uid a "reason_value TOP_PLAY" "Some ref" "Some (top_play_key sid)" db]) auto
qed (use assms in simp)

text \<open>With distinct keys the line of a key is the one a search for it finds.\<close>

lemma find_by_key:
  assumes "distinct (tx_keys l)" and "t \<in> set l" and "tx_key t = Some k" and "P t"
  shows "find (\<lambda>x. tx_key x = Some k \<and> P x) l = Some t"
  using assms
proof (induction l)
  case (Cons x l)
  have k: "k \<in> set (tx_keys l)" if "t \<in> set l"
    using that Cons.prems(3) by (induction l) (auto split: option.split)
  show ?case
  proof (cases "x = t")
    case False
    with Cons.prems k have "tx_key x \<noteq> Some k" "t \<in> set l" by auto
    with Cons show ?thesis by (simp split: option.splits)
  qed (use Cons.prems in simp)
qed simp

text \<open>When a score is deleted, the points its top play was paid are taken back from the
  user who got them, as far as the balance reaches: the balance drops by the amount paid
  and stops at zero, and no other balance changes.\<close>

theorem reversal_claws_back:
  assumes start: "points_step\<^sup>*\<^sup>* empty_points db"
    and paid: "award_top_play now uid rank tops delta sid g main db = (True, db1)"
    and later: "points_step\<^sup>*\<^sup>* db1 db2"
    and first: "\<not> seen_key db2 (reversal_key sid)" and other: "uid' \<noteq> uid"
  shows "get_balance (reverse_score_points now' sid db2) uid =
      max 0 (get_balance db2 uid - (get_balance db1 uid - get_balance db uid)) \<and>
    get_balance (reverse_score_points now' sid db2) uid' = get_balance db2 uid'"
proof -
  obtain a p ref where a: "0 < a" "balances db uid = Some p"
    and db1: "db1 = post now uid a (reason_value TOP_PLAY) (Some ref) (Some (top_play_key sid)) (p + a) db"
    by (rule top_play_paidE [OF paid])
  define t where "t = \<lparr>tx_user = uid, tx_amount = a, tx_reason = reason_value TOP_PLAY, tx_ref = Some ref,
    tx_key = Some (top_play_key sid), tx_balance_after = p + a, tx_created_at = now\<rparr>"
  have "points_step db db1"
    using top_played [of db now uid rank tops delta sid g main] paid by simp
  with start later have reach: "points_step\<^sup>*\<^sup>* empty_points db2"
    by (meson rtranclp.rtrancl_into_rtrancl rtranclp_trans)
  then have ok: "ledger_ok db2" using reachable_inv by (auto simp: points_inv_def)
  have "t \<in> set (ledger db2)"
    using steps_append [OF later] by (auto simp: db1 t_def prefix_def)
  then have found: "find (\<lambda>t. tx_key t = Some (top_play_key sid) \<and> 0 < tx_amount t) (ledger db2) = Some t"
    using ledger_ok_keys [OF ok] a(1) by (intro find_by_key) (simp_all add: t_def)
  obtain q where q: "balances db2 uid = Some q" "0 \<le> q"
    using ok \<open>t \<in> set (ledger db2)\<close> by (fastforce simp: ledger_ok_def t_def)
  have "reverse_score_points now' sid db2 =
      (if min a q \<le> 0 then db2
       else post now' uid (- min a q) ''refund'' (Some (''reverse:score:'' @ int_str sid))
              (Some (reversal_key sid)) (q - min a q) db2)"
    unfolding reverse_score_points_def found Let_def
    using first q by (simp add: lock_user_def t_def)
  moreover have "get_balance db1 uid - get_balance db uid = a"
    by (simp add: db1 get_balance_def a(2))
  ultimately show ?thesis
    using q a(1) other by (auto simp: get_balance_def min_def max_def)
qed

lemma reversal_claws_back_witness:
  "get_balance (reverse_score_points 400 55 run3) 7 =
     max 0 (get_balance run3 7 - (get_balance run2 7 - get_balance run1 7)) \<and>
   get_balance (reverse_score_points 400 55 run3) 8 = get_balance run3 8"
proof (rule reversal_claws_back [OF runs_reachable(1) run2_paid runs_reachable(3)])
  have "set (tx_keys (ledger run3)) \<subseteq> {daily_key 7 0, top_play_key 55}"
    using run1_ledger(2) top_play_keys [of 200 7 1 200 30 55 "Some OSU" True run1]
    by (auto simp: run3_def run2_def spend_keys)
  moreover have "reversal_key 55 \<notin> {daily_key 7 0, top_play_key 55}"
    by (simp add: reversal_key_def daily_key_def top_play_key_def)
  ultimately show "\<not> seen_key run3 (reversal_key 55)" by (auto simp: seen_key_iff)
qed simp

text \<open>What a top play is worth. Base and bonus are bounded by 250 and 150, the bonus by
  the pp the play added; a better rank, more added pp, or (with a history of at least 50
  top plays) a longer history never pays less. A play that adds no pp and lands on such a
  history pays nothing, but on a shorter one it is still paid by its rank.\<close>

theorem top_play_award_bounds:
  assumes "1 \<le> rank" and "rank \<le> rank'" and "delta' \<le> delta"
  shows "0 \<le> fst (top_play_award rank tops delta) \<and> fst (top_play_award rank tops delta) \<le> 250 \<and>
    0 \<le> snd (top_play_award rank tops delta) \<and> snd (top_play_award rank tops delta) \<le> min 150 (max 0 delta) \<and>
    fst (top_play_award rank' tops delta') \<le> fst (top_play_award rank tops delta) \<and>
    snd (top_play_award rank' tops delta') \<le> snd (top_play_award rank tops delta) \<and>
    (50 \<le> tops \<and> tops \<le> tops' \<longrightarrow>
       fst (top_play_award rank tops delta) \<le> fst (top_play_award rank tops' delta) \<and>
       snd (top_play_award rank tops delta) \<le> snd (top_play_award rank tops' delta)) \<and>
    (delta \<le> 0 \<longrightarrow> top_play_award rank tops delta =
       (if 50 \<le> tops then (0, 0)
        else if rank \<le> 5 then (8, 0) else if rank \<le> 25 then (5, 0) else if rank \<le> 50 then (3, 0) else (0, 0)))"
proof (intro conjI)
  note defs = top_play_award_def Let_def TOP_PLAY_MIN_TOPS_def TOP_PLAY_MIN_ACCOUNT_PP_FOR_BASE_def
  show "0 \<le> fst (top_play_award rank tops delta)" "fst (top_play_award rank tops delta) \<le> 250"
    "0 \<le> snd (top_play_award rank tops delta)"
    "snd (top_play_award rank tops delta) \<le> min 150 (max 0 delta)"
    by (auto simp: defs min_def)
  show "fst (top_play_award rank' tops delta') \<le> fst (top_play_award rank tops delta)"
    using assms by (simp add: defs)
  show "snd (top_play_award rank' tops delta') \<le> snd (top_play_award rank tops delta)"
    using assms by (auto simp: defs min_def)
  show "50 \<le> tops \<and> tops \<le> tops' \<longrightarrow>
       fst (top_play_award rank tops delta) \<le> fst (top_play_award rank tops' delta) \<and>
       snd (top_play_award rank tops delta) \<le> snd (top_play_award rank tops' delta)"
    by (auto simp: defs min_def)
  show "delta \<le> 0 \<longrightarrow> top_play_award rank tops delta =
       (if 50 \<le> tops then (0, 0)
        else if rank \<le> 5 then (8, 0) else if rank \<le> 25 then (5, 0) else if rank \<le> 50 then (3, 0) else (0, 0))"
    by (simp add: defs)
qed

lemma top_play_award_bounds_witness:
  "fst (top_play_award 7 80 2) \<le> fst (top_play_award 3 80 40)"
  using top_play_award_bounds [of 3 7 2 40 80 80] by simp

end
