(* ===== verification/BeatmapModels.thy ===== *)
theory BeatmapModels
  imports GameModes
begin

text \<open>
  The rank status of a beatmap and the parsers of the search query
  (\<^verbatim>\<open>src/app/models/beatmap.py\<close>). The validators receive any JSON or query value, which
  \<open>py_value\<close> stands for; a validator that returns its argument unchanged returns it as
  \<open>Inl\<close>, a list it built as \<open>Inr\<close>.
\<close>

section \<open>Rank status\<close>

datatype beatmap_status = GRAVEYARD | WIP | PENDING | RANKED | APPROVED | QUALIFIED | LOVED

fun status_value :: "beatmap_status \<Rightarrow> int" where
  "status_value GRAVEYARD = -2"
| "status_value WIP = -1"
| "status_value PENDING = 0"
| "status_value RANKED = 1"
| "status_value APPROVED = 2"
| "status_value QUALIFIED = 3"
| "status_value LOVED = 4"

definition has_leaderboard :: "beatmap_status \<Rightarrow> bool" where
  "has_leaderboard s \<longleftrightarrow> s \<in> {RANKED, APPROVED, QUALIFIED, LOVED}"

definition has_pp :: "beatmap_status \<Rightarrow> bool" where
  "has_pp s \<longleftrightarrow> s \<in> {RANKED, APPROVED}"

definition status_ranked :: "beatmap_status \<Rightarrow> bool" where
  "status_ranked s \<longleftrightarrow> s \<in> {RANKED, APPROVED, LOVED}"

definition effective_rank_status :: "config \<Rightarrow> beatmap_status \<Rightarrow> beatmap_status" where
  "effective_rank_status cfg s =
     (if (enable_all_beatmap_leaderboard cfg \<or> enable_all_beatmap_pp cfg) \<and>
         s \<in> {GRAVEYARD, WIP, PENDING, QUALIFIED, LOVED}
      then APPROVED else s)"

section \<open>Search query values\<close>

datatype py_value =
    VNone | VBool bool | VInt int | VFloat real | VStr string | VList "py_value list"

definition clean_parts :: "string \<Rightarrow> string list" where
  "clean_parts s = filter (\<lambda>p. p \<noteq> []) (map str_strip (str_split (CHR ''.'') s))"

fun parse_list_item :: "py_value \<Rightarrow> py_value list" where
  "parse_list_item (VStr s) = (if CHR ''.'' \<in> set s then map VStr (clean_parts s) else [VStr s])"
| "parse_list_item v = [v]"

fun parse_list :: "py_value \<Rightarrow> py_value" where
  "parse_list (VStr s) = VList (map VStr (clean_parts s))"
| "parse_list (VList vs) = VList (concat (map parse_list_item vs))"
| "parse_list v = v"

definition RANK_ALIAS :: "(string \<times> string) list" where
  "RANK_ALIAS = [(''SS'', ''X''), (''SSH'', ''XH'')]"

definition clean_ranks :: "string \<Rightarrow> string list" where
  "clean_ranks s = map (\<lambda>r. dict_get RANK_ALIAS r r)
     (filter (\<lambda>r. r \<noteq> []) (map (\<lambda>p. str_upper (str_strip p)) (str_split (CHR ''.'') s)))"

text \<open>A list item without a dot is looked up in cleaned form but kept as it came; the
  \<^verbatim>\<open>str\<close> of a non-string item is an argument.\<close>

fun parse_rank_item :: "(py_value \<Rightarrow> string) \<Rightarrow> py_value \<Rightarrow> py_value list" where
  "parse_rank_item str_of (VStr s) =
     (if CHR ''.'' \<in> set s then map VStr (clean_ranks s)
      else [case map_of RANK_ALIAS (str_upper (str_strip s)) of Some r \<Rightarrow> VStr r | None \<Rightarrow> VStr s])"
| "parse_rank_item str_of v =
     [case map_of RANK_ALIAS (str_upper (str_strip (str_of v))) of Some r \<Rightarrow> VStr r | None \<Rightarrow> v]"

fun parse_ranks :: "(py_value \<Rightarrow> string) \<Rightarrow> py_value \<Rightarrow> py_value" where
  "parse_ranks str_of (VStr s) = VList (map VStr (clean_ranks s))"
| "parse_ranks str_of (VList vs) = VList (concat (map (parse_rank_item str_of) vs))"
| "parse_ranks str_of v = v"

fun parse_played :: "py_value \<Rightarrow> py_value" where
  "parse_played VNone = VBool False"
| "parse_played (VBool b) = VBool b"
| "parse_played (VInt i) = VBool (i \<noteq> 0)"
| "parse_played (VFloat r) = VBool (r \<noteq> 0)"
| "parse_played (VStr s) =
     (let c = str_lower (str_strip s) in
      if c \<in> {''played'', ''true'', ''1''} then VStr ''played''
      else if c = ''unplayed'' then VStr ''unplayed''
      else VBool False)"
| "parse_played (VList _) = VBool False"

definition LANGUAGE_INT_TO_NAME :: "(int \<times> string) list" where
  "LANGUAGE_INT_TO_NAME =
     [(0, ''any''), (1, ''unspecified''), (2, ''english''), (3, ''japanese''), (4, ''chinese''),
      (5, ''instrumental''), (6, ''korean''), (7, ''french''), (8, ''german''), (9, ''swedish''),
      (10, ''spanish''), (11, ''italian''), (12, ''russian''), (13, ''polish''), (14, ''other'')]"

text \<open>The members of \<^verbatim>\<open>class Language(IntEnum)\<close>.\<close>

definition Language :: "(string \<times> int) list" where
  "Language =
     [(''ANY'', 0), (''UNSPECIFIED'', 1), (''ENGLISH'', 2), (''JAPANESE'', 3), (''CHINESE'', 4),
      (''INSTRUMENTAL'', 5), (''KOREAN'', 6), (''FRENCH'', 7), (''GERMAN'', 8), (''SWEDISH'', 9),
      (''ITALIAN'', 10), (''SPANISH'', 11), (''RUSSIAN'', 12), (''POLISH'', 13), (''OTHER'', 14)]"

fun parse_language :: "py_value \<Rightarrow> string" where
  "parse_language (VInt i) = dict_get LANGUAGE_INT_TO_NAME i ''any''"
| "parse_language (VBool b) = dict_get LANGUAGE_INT_TO_NAME (if b then 1 else 0) ''any''"
| "parse_language (VStr s) =
     (let c = str_lower (str_strip s) in
      if str_isdigit c then dict_get LANGUAGE_INT_TO_NAME (int (digits_val c)) ''any''
      else if c \<in> set (map snd LANGUAGE_INT_TO_NAME) then c
      else ''any'')"
| "parse_language _ = ''any''"

text \<open>\<^verbatim>\<open>_parse_genre\<close>: a failed \<^verbatim>\<open>int(v)\<close> gives None. \<^verbatim>\<open>0.0\<close> and \<^verbatim>\<open>False\<close> equal 0.\<close>

fun parse_genre :: "py_value \<Rightarrow> int option" where
  "parse_genre VNone = None"
| "parse_genre (VBool b) = (if b then Some 1 else None)"
| "parse_genre (VInt i) = (if i = 0 then None else Some i)"
| "parse_genre (VFloat r) = (if r = 0 \<or> py_int r = 0 then None else Some (py_int r))"
| "parse_genre (VStr s) =
     (if s = [] \<or> s = ''0'' then None
      else case parse_int (str_strip s) of Inl _ \<Rightarrow> None | Inr n \<Rightarrow> if n = 0 then None else Some n)"
| "parse_genre (VList _) = None"

section \<open>Lemmas\<close>

lemma effective_status_has_all:
  "enable_all_beatmap_pp cfg \<Longrightarrow> has_pp (effective_rank_status cfg s) \<and>
     has_leaderboard (effective_rank_status cfg s) \<and> status_ranked (effective_rank_status cfg s)"
  by (cases s) (simp_all add: effective_rank_status_def has_pp_def has_leaderboard_def status_ranked_def)

definition clean_part :: "string \<Rightarrow> bool" where
  "clean_part p \<longleftrightarrow> p \<noteq> [] \<and> CHR ''.'' \<notin> set p \<and> \<not> is_space (hd p) \<and> \<not> is_space (last p)"

lemma str_strip_clean: "clean_part p \<Longrightarrow> str_strip p = p"
  by (simp add: clean_part_def str_strip_id_iff)

text \<open>A list query parameter survives its own serialisation: joining clean values with
  dots and parsing the result gives the values back, and so does parsing the list itself.\<close>

theorem search_list_roundtrip:
  assumes "list_all clean_part ps" and "ps \<noteq> []"
  shows "parse_list (VStr (str_join (CHR ''.'') ps)) = VList (map VStr ps) \<and>
         parse_list (VList (map VStr ps)) = VList (map VStr ps)"
proof -
  have "list_all (\<lambda>p. CHR ''.'' \<notin> set p) ps"
    using assms(1) by (auto simp: list_all_iff clean_part_def)
  then have "str_split (CHR ''.'') (str_join (CHR ''.'') ps) = ps"
    using assms(2) by (simp add: str_split_join)
  moreover have "map str_strip ps = ps"
    using assms(1) by (induction ps) (auto simp: str_strip_clean)
  moreover have "filter (\<lambda>p. p \<noteq> []) ps = ps"
    using assms(1) by (auto simp: filter_id_conv list_all_iff clean_part_def)
  moreover have "concat (map parse_list_item (map VStr ps)) = map VStr ps"
    using assms(1) by (induction ps) (auto simp: clean_part_def)
  ultimately show ?thesis
    by (simp add: clean_parts_def)
qed

lemma search_list_roundtrip_witness:
  "parse_list (VStr ''follows.spotlights'') = VList [VStr ''follows'', VStr ''spotlights'']"
  using search_list_roundtrip [of "[''follows'', ''spotlights'']"]
  by (simp add: clean_part_def is_space_def)

text \<open>The language names a numeric query gives swap two members of the stored enum: a search
  for the stored Italian (10) is read as spanish and one for the stored Spanish (11) as
  italian.\<close>

lemma language_table_swaps:
  "parse_language (VInt 10) = ''spanish'' \<and> parse_language (VInt 11) = ''italian'' \<and>
   map_of Language ''ITALIAN'' = Some 10 \<and> map_of Language ''SPANISH'' = Some 11"
  by code_simp

end
