(* ===== verification/Calculator.thy ===== *)
theory Calculator
  imports BeatmapModels Mods Tables
begin

text \<open>
  The arithmetic of \<^verbatim>\<open>src/app/calculator.py\<close>, \<^verbatim>\<open>src/app/calculators/low_stat_pp.py\<close> and
  \<^verbatim>\<open>src/app/calculators/performance/sunny_mania.py\<close>: display scores, levels, weights, the
  rules applied to a calculator's pp, and the suspicious-map test. What the performance
  calculator, the beatmap parser and the database answer are arguments.
\<close>

section \<open>Display score\<close>

definition clamp :: "'a::linorder \<Rightarrow> 'a \<Rightarrow> 'a \<Rightarrow> 'a" where
  "clamp n lo hi = (if n < lo then lo else if hi < n then hi else n)"

definition MAX_SCORE :: int where "MAX_SCORE = 1000000"

definition convert_standardised_to_classic :: "int \<Rightarrow> int \<Rightarrow> int \<Rightarrow> int" where
  "convert_standardised_to_classic ruleset_id standardised n =
     (if ruleset_id = 0 then
        py_round ((of_int n ^ 2 * 32.57 + 100000) * of_int standardised / of_int MAX_SCORE)
      else if ruleset_id = 1 then
        py_round ((of_int n * 1109 + 100000) * of_int standardised / of_int MAX_SCORE)
      else if ruleset_id = 2 then
        py_round ((of_int standardised / of_int MAX_SCORE * of_int n) ^ 2 * 21.62 + of_int standardised / 10)
      else standardised)"

definition max_basic_judgements :: "statistics \<Rightarrow> int" where
  "max_basic_judgements st = sum_list (map snd (filter (\<lambda>(r, _). is_basic r) st))"

definition get_display_score :: "int \<Rightarrow> int \<Rightarrow> scoring_mode \<Rightarrow> statistics \<Rightarrow> int" where
  "get_display_score ruleset_id total_score mode st =
     (if mode = STANDARDISED then total_score
      else convert_standardised_to_classic ruleset_id total_score (max_basic_judgements st))"

text \<open>\<^verbatim>\<open>Score.get_display_score\<close>, in the configured mode.\<close>

definition display_score :: "config \<Rightarrow> score_row \<Rightarrow> int" where
  "display_score cfg s =
     get_display_score (mode_int (sc_mode s)) (sc_total_score s) (scoring_mode cfg) (sc_maximum_statistics s)"

section \<open>Levels\<close>

definition calculate_level_to_score :: "int \<Rightarrow> real" where
  "calculate_level_to_score n =
     (if n \<le> 100 then 5000 / 3 * (4 * of_int n ^ 3 - 3 * of_int n ^ 2 - of_int n) + 1.25 * 1.8 powr (of_int n - 60)
      else 26931190827 + 99999999999 * (of_int n - 100))"

definition TO_NEXT_LEVEL :: "int list" where
  "TO_NEXT_LEVEL =
     [30000, 100000, 210000, 360000, 550000, 780000, 1050000, 1360000, 1710000, 2100000,
      2530000, 3000000, 3510000, 4060000, 4650000, 5280000, 5950000, 6660000, 7410000, 8200000,
      9030000, 9900000, 10810000, 11760000, 12750000, 13780000, 14850000, 15960000, 17110000,
      18300000, 19530000, 20800000, 22110000, 23460000, 24850000, 26280000, 27750000, 29260000,
      30810000, 32400000, 34030000, 35700000, 37410000, 39160000, 40950000, 42780000, 44650000,
      46560000, 48510000, 50500000, 52530000, 54600000, 56710000, 58860000, 61050000, 63280000,
      65550000, 67860000, 70210001, 72600001, 75030002, 77500003, 80010006, 82560010, 85150019,
      87780034, 90450061, 93160110, 95910198, 98700357, 101530643, 104401157, 107312082,
      110263748, 113256747, 116292144, 119371859, 122499346, 125680824, 128927482, 132259468,
      135713043, 139353477, 143298259, 147758866, 153115959, 160054726, 169808506, 184597311,
      208417160, 248460887, 317675597, 439366075, 655480935, 1041527682, 1733419828,
      2975801691, 5209033044, 9225761479, 99999999999, 99999999999, 99999999999, 99999999999,
      99999999999, 99999999999, 99999999999, 99999999999, 99999999999, 99999999999,
      99999999999, 99999999999, 99999999999, 99999999999, 99999999999, 99999999999]"

definition next_level_requirement :: "nat \<Rightarrow> int" where
  "next_level_requirement i = TO_NEXT_LEVEL ! min (length TO_NEXT_LEVEL - 1) i"

lemma TO_NEXT_LEVEL_pos: "list_all (\<lambda>r. 0 < r) TO_NEXT_LEVEL" "TO_NEXT_LEVEL \<noteq> []"
  by (simp_all add: TO_NEXT_LEVEL_def)

lemma next_level_requirement_pos: "0 < next_level_requirement i"
  using TO_NEXT_LEVEL_pos
  by (auto simp: next_level_requirement_def list_all_length min_def)

function level_loop :: "int \<Rightarrow> real \<Rightarrow> real" where
  "level_loop remaining level =
     (if 0 < remaining then
        let req = next_level_requirement (nat (py_round level)) in
        level_loop (remaining - req) (level + min 1 (of_int remaining / of_int req))
      else level)"
  by pat_completeness auto

termination
  by (relation "measure (\<lambda>(r, _). nat r)") (use next_level_requirement_pos in \<open>auto simp: nat_less_iff\<close>)

declare level_loop.simps [simp del]

definition calculate_score_to_level :: "int \<Rightarrow> real" where
  "calculate_score_to_level total_score = level_loop total_score 0 + 1"

section \<open>Weights\<close>

definition calculate_pp_weight :: "nat \<Rightarrow> real" where
  "calculate_pp_weight i = (95 / 100) ^ i"

definition calculate_weighted_pp :: "real \<Rightarrow> nat \<Rightarrow> real" where
  "calculate_weighted_pp pp i = (if 0 < pp then calculate_pp_weight i * pp else 0)"

definition calculate_weighted_acc :: "real \<Rightarrow> nat \<Rightarrow> real" where
  "calculate_weighted_acc acc i = (if 0 < acc then calculate_pp_weight i * acc else 0)"

section \<open>The pp of a score\<close>

definition calculate_pp_for_no_calculator :: "int \<Rightarrow> real \<Rightarrow> real" where
  "calculate_pp_for_no_calculator total_score star =
     (let k = 4;
          pmax = 1.4 * star powr 2.8;
          b = 0.95 - 0.33 * ((clamp star 1 8 - 1) / 7);
          x = of_int total_score / 1000000
      in if x < b then pmax * x
         else let x = (x - b) / (1 - b);
                  exp_part = (exp (k * x) - 1) / (exp k - 1)
              in pmax * (b + (1 - b) * exp_part))"

text \<open>\<^verbatim>\<open>low_stat_pp.py\<close>. A Difficulty Adjust value of another type than a number makes the
  division raise TypeError; JSON null counts as unset.\<close>

definition stat_clamp :: "real \<Rightarrow> real \<Rightarrow> real \<Rightarrow> real" where
  "stat_clamp v lo hi = max lo (min hi v)"

definition stat_factor :: "real \<Rightarrow> real \<Rightarrow> real \<Rightarrow> real" where
  "stat_factor v threshold bottom = bottom + (1 - bottom) * stat_clamp (v / threshold) 0 1"

definition da_value :: "mod_settings \<Rightarrow> string \<Rightarrow> real \<Rightarrow> py_error + real" where
  "da_value s key dflt =
     (case map_of s key of
        None \<Rightarrow> Inr dflt
      | Some SNull \<Rightarrow> Inr dflt
      | Some v \<Rightarrow> (case setting_num v of Some x \<Rightarrow> Inr x | None \<Rightarrow> Inl TypeError))"

text \<open>\<^verbatim>\<open>{mod["acronym"]: mod for mod in mods}\<close> keeps the last mod of an acronym.\<close>

definition last_mod :: "string \<Rightarrow> api_mod list \<Rightarrow> api_mod option" where
  "last_mod a mods = find (\<lambda>m. acronym m = a) (rev mods)"

definition effective_cs_od :: "api_mod list \<Rightarrow> real \<Rightarrow> real \<Rightarrow> py_error + (real \<times> real)" where
  "effective_cs_od mods base_cs base_od =
     (let (cs, od) = (if last_mod ''HR'' mods \<noteq> None then (min 10 (base_cs * 1.3), min 10 (base_od * 1.4))
                      else (base_cs, base_od))
      in case last_mod ''DA'' mods of
           None \<Rightarrow> Inr (cs, od)
         | Some da \<Rightarrow>
             py_bind (da_value (settings_of da) ''circle_size'' cs) (\<lambda>cs.
             py_bind (da_value (settings_of da) ''overall_difficulty'' od) (\<lambda>od. Inr (cs, od))))"

definition low_cs_od_pp_factor :: "int \<Rightarrow> api_mod list \<Rightarrow> real \<Rightarrow> real \<Rightarrow> bool \<Rightarrow> py_error + real" where
  "low_cs_od_pp_factor base_ruleset_id mods base_cs base_od is_relax =
     (if base_ruleset_id \<noteq> 0 then Inr 1
      else if list_ex (\<lambda>m. acronym m = ''EZ'') mods then Inr 1
      else py_bind (effective_cs_od mods base_cs base_od) (\<lambda>(cs, od).
        let cs_threshold = (if is_relax then 4 else 2.5);
            od_threshold = (if is_relax then 6 else 4);
            floor = (if is_relax then 0.45 else 0.524)
        in Inr (stat_factor cs cs_threshold floor * stat_factor od od_threshold floor)))"

text \<open>\<^verbatim>\<open>sunny_mania.py\<close>; the attributes a build of the calculator may lack are options.\<close>

record sunny_attrs =
  variety :: "real option"
  acc_scalar :: "real option"
  total_notes :: "real option"

definition has_mod :: "api_mod list \<Rightarrow> string \<Rightarrow> bool" where
  "has_mod mods a \<longleftrightarrow> list_ex (\<lambda>m. str_upper (acronym m) = str_upper a) mods"

definition mania_total_hits :: "score_row \<Rightarrow> int" where
  "mania_total_hits s =
     max (ngeki s) 0 + max (n300 s) 0 + max (nkatu s) 0 + max (n100 s) 0 + max (n50 s) 0 + max (nmiss s) 0"

definition mania_custom_accuracy :: "score_row \<Rightarrow> real" where
  "mania_custom_accuracy s =
     (if mania_total_hits s \<le> 0 then 0
      else of_int (max (ngeki s) 0 * 305 + max (n300 s) 0 * 300 + max (nkatu s) 0 * 200 + max (n100 s) 0 * 100
                   + max (n50 s) 0 * 50) / (of_int (mania_total_hits s) * 305))"

definition performance_proportion :: "real \<Rightarrow> real" where
  "performance_proportion acc =
     (if 0.8 < acc then 4.5 * (acc - 0.8) / (100 * (1 - acc) + 0.9 ^ 20) powr 0.05 else 0)"

definition variety_multiplier :: "real \<Rightarrow> real" where
  "variety_multiplier v =
     (let floor = 0.945; cap = 1.055; span = cap - floor in floor + span / (1 + exp (- 3 * (v - 3.25))))"

definition acc_multiplier :: "real \<Rightarrow> real \<Rightarrow> real" where
  "acc_multiplier acc scalar =
     (let sigmoid_scaler = 0.87 + 0.26 / (1 + exp (- 20 * (scalar - 1))); pow_acc = acc ^ 20
      in sigmoid_scaler * (2 * pow_acc - 1) + 2 - 2 * pow_acc)"

definition length_multiplier :: "real \<Rightarrow> real \<Rightarrow> real" where
  "length_multiplier notes star = 1.1 / (1 + sqrt (star / (2 * max notes 1)))"

text \<open>\<^verbatim>\<open>float(getattr(attrs, name, d) or d)\<close>: zero counts as missing.\<close>

definition attr_or :: "real option \<Rightarrow> real \<Rightarrow> real" where
  "attr_or x d = (case x of None \<Rightarrow> d | Some v \<Rightarrow> if v = 0 then d else v)"

definition calculate_sunny_mania_pp :: "real \<Rightarrow> score_row \<Rightarrow> sunny_attrs option \<Rightarrow> real" where
  "calculate_sunny_mania_pp star s attrs =
     (if mania_total_hits s \<le> 0 then 0
      else
        let acc = mania_custom_accuracy s;
            difficulty_value = 9.8 * max (star - 0.15) 0.05 powr 2.2 * performance_proportion acc;
            multiplier = (if has_mod (sc_mods s) ''NF'' then 0.75 else 1) * (if has_mod (sc_mods s) ''EZ'' then 0.9 else 1);
            v = attr_or (Option.bind attrs variety) 3.25;
            a = attr_or (Option.bind attrs acc_scalar) 1;
            notes = (case Option.bind attrs total_notes of Some n \<Rightarrow> n | None \<Rightarrow> of_int (mania_total_hits s))
        in max 0 (difficulty_value * multiplier * variety_multiplier v * acc_multiplier acc a
                  * length_multiplier notes star))"

text \<open>The row of the beatmap table and the settings that \<^verbatim>\<open>calculate_pp\<close> reads, and what
  the calls it makes answer: the ban table, the suspicious-map test (or the exception it
  raised, which is logged and ignored), the two calculators and the raw map's CS and OD.\<close>

record db_beatmap =
  bm_local :: bool
  bm_status :: beatmap_status
  bm_difficulty_rating :: real

record pp_settings =
  suspicious_score_check :: bool
  sunny_wip :: bool
  fallback_no_calculator_pp :: bool

record pp_answers =
  banned :: bool
  suspicious :: "py_error + bool"
  can_performance :: bool
  performance_pp :: real
  can_difficulty :: bool
  difficulty_stars :: real
  mania_difficulty :: "(real \<times> sunny_attrs) option"
  score_beatmap_stars :: real
  raw_cs_od :: "real \<times> real"

definition map_stars :: "db_beatmap option \<Rightarrow> pp_answers \<Rightarrow> real" where
  "map_stars bm q = (case bm of Some b \<Rightarrow> bm_difficulty_rating b | None \<Rightarrow> score_beatmap_stars q)"

text \<open>The value before Torii's own rules.\<close>

definition calculator_pp :: "pp_settings \<Rightarrow> pp_answers \<Rightarrow> db_beatmap option \<Rightarrow> score_row \<Rightarrow> real" where
  "calculator_pp cfg q bm s =
     (if sunny_wip cfg \<and> to_base_ruleset (sc_mode s) = MANIA then
        (let star = (case mania_difficulty q of Some (st, _) \<Rightarrow> st | None \<Rightarrow> -1);
             star = (if star < 0 then map_stars bm q else star)
         in calculate_sunny_mania_pp star s (map_option snd (mania_difficulty q)))
      else if \<not> can_performance q then
        (if \<not> fallback_no_calculator_pp cfg then 0
         else
           let star = (if can_difficulty q then difficulty_stars q else -1);
               star = (if star < 0 then score_beatmap_stars q else star)
           in calculate_pp_for_no_calculator (sc_total_score s) star)
      else performance_pp q)"

definition low_stat_rule :: "pp_answers \<Rightarrow> score_row \<Rightarrow> real \<Rightarrow> py_error + real" where
  "low_stat_rule q s pp =
     (if to_base_ruleset (sc_mode s) = OSU \<and> 0 < pp then
        py_bind (low_cs_od_pp_factor 0 (sc_mods s) (fst (raw_cs_od q)) (snd (raw_cs_od q)) (sc_mode s = OSURX))
          (\<lambda>factor. Inr (pp * factor))
      else Inr pp)"

definition no_release_rule :: "score_row \<Rightarrow> real \<Rightarrow> real" where
  "no_release_rule s pp =
     (if to_base_ruleset (sc_mode s) = MANIA \<and> 0 < pp \<and> list_ex (\<lambda>m. str_upper (acronym m) = ''NR'') (sc_mods s)
      then pp * 0.85 else pp)"

definition pause_rule :: "score_row \<Rightarrow> real \<Rightarrow> real" where
  "pause_rule s pp = (if 0 < pp \<and> 0 < sc_pause_count s then pp * 0.93 ^ sc_pause_count s else pp)"

text \<open>The result: the pp, and whether the map is added to the ban table.\<close>

definition calculate_pp ::
  "pp_settings \<Rightarrow> pp_answers \<Rightarrow> db_beatmap option \<Rightarrow> score_row \<Rightarrow> py_error + (real \<times> bool)" where
  "calculate_pp cfg q bm s =
     (let is_local = (case bm of Some b \<Rightarrow> bm_local b | None \<Rightarrow> False) in
      if sc_mode s = OSUAP \<and> (case bm of Some b \<Rightarrow> \<not> has_pp (bm_status b) | None \<Rightarrow> True) then Inr (0, False)
      else if suspicious_score_check cfg \<and> \<not> is_local \<and> banned q then Inr (0, False)
      else if suspicious_score_check cfg \<and> \<not> is_local \<and> suspicious q = Inr True then Inr (0, True)
      else py_bind (low_stat_rule q s (calculator_pp cfg q bm s)) (\<lambda>pp.
        let pp = pause_rule s (no_release_rule s pp) in
        if suspicious_score_check cfg \<and> \<not> is_local \<and> 3000 < pp then Inr (0, False)
        else Inr (pp, False)))"

section \<open>Suspicious maps\<close>

text \<open>What the beatmap parser returns, as far as the test reads it; a slider has its repeat
  count, position and control points.\<close>

record hit_object =
  start_time :: int
  slider :: "(nat \<times> (real \<times> real) \<times> (real \<times> real) list) option"

record osu_file =
  of_mode :: int
  of_cs :: real
  hit_objects :: "hit_object list"

definition too_dense_at :: "hit_object list \<Rightarrow> nat \<Rightarrow> nat \<Rightarrow> nat \<Rightarrow> bool" where
  "too_dense_at hs p1 p10 i =
     (if length hs > i + p1 then start_time (hs ! (i + p1)) - start_time (hs ! i) < 1000
      else length hs > i + p10 \<and> start_time (hs ! (i + p10)) - start_time (hs ! i) < 10000)"

definition too_dense :: "hit_object list \<Rightarrow> nat \<Rightarrow> nat \<Rightarrow> bool" where
  "too_dense hs per_1s per_10s = list_ex (too_dense_at hs (max 1 per_1s) (max 1 per_10s)) [0..<length hs]"

definition off_field :: "real \<times> real \<Rightarrow> bool" where
  "off_field p \<longleftrightarrow> fst p > 512 \<or> fst p < 0 \<or> snd p > 384 \<or> snd p < 0"

definition slider_is_sus :: "hit_object list \<Rightarrow> bool" where
  "slider_is_sus hs = list_ex (\<lambda>h. case slider h of
       None \<Rightarrow> False
     | Some (repeats, pos, points) \<Rightarrow> off_field pos \<or> list_ex off_field points \<or> repeats > 5000) hs"

text \<open>\<^verbatim>\<open>hit_objects[i] == hit_objects[i + 1].start_time\<close> compares an object with a number;
  the comparison is the parser library's.\<close>

definition is_2b :: "(hit_object \<Rightarrow> int \<Rightarrow> bool) \<Rightarrow> hit_object list \<Rightarrow> bool" where
  "is_2b obj_eq hs = list_ex (\<lambda>i. obj_eq (hs ! i) (start_time (hs ! (i + 1)))) [0..<length hs - 1]"

text \<open>\<^verbatim>\<open>case int(GameMode.OSU)\<close> is a class pattern: it matches an int that equals the enum
  member, and the member is a string (\<^verbatim>\<open>class GameMode(str, Enum)\<close>), which no int equals.\<close>

fun py_eq :: "py_value \<Rightarrow> py_value \<Rightarrow> bool" where
  "py_eq (VStr s) (VStr t) = (s = t)"
| "py_eq (VInt i) (VInt j) = (i = j)"
| "py_eq _ _ = False"

definition matches_int_pattern :: "int \<Rightarrow> game_mode \<Rightarrow> bool" where
  "matches_int_pattern subject m = py_eq (VInt subject) (VStr (mode_value m))"

text \<open>The argument is None when the map could not be parsed, even with normalised colours.\<close>

definition is_suspicious_beatmap :: "(hit_object \<Rightarrow> int \<Rightarrow> bool) \<Rightarrow> osu_file option \<Rightarrow> py_error + bool" where
  "is_suspicious_beatmap obj_eq parsed =
     (case parsed of
        None \<Rightarrow> Inr False
      | Some f \<Rightarrow>
          let hs = hit_objects f in
          if hs = [] then Inl IndexError
          else if start_time (last hs) - start_time (hd hs) > 24 * 60 * 60 * 1000 then Inr True
          else if of_mode f = mode_int TAIKO \<and> length hs > 30000 then Inr True
          else if of_mode f \<noteq> mode_int TAIKO \<and> length hs > 500000 then Inr True
          else if matches_int_pattern (of_mode f) OSU then
            Inr (too_dense hs 200 500 \<or> slider_is_sus hs \<or> is_2b obj_eq hs)
          else if matches_int_pattern (of_mode f) TAIKO then
            Inr (too_dense hs (200 * 2) (500 * 2) \<or> is_2b obj_eq hs)
          else if matches_int_pattern (of_mode f) FRUITS then
            Inr (slider_is_sus hs \<or> is_2b obj_eq hs)
          else if matches_int_pattern (of_mode f) MANIA then
            (let keys_per_hand = nat (max 1 (py_int (of_cs f / 2)))
             in Inr (too_dense hs (200 * keys_per_hand) (500 * keys_per_hand)))
          else Inr False)"

section \<open>Display score: monotone\<close>

lemma convert_mono:
  assumes "0 \<le> t" "t \<le> t'" "0 \<le> n"
  shows "convert_standardised_to_classic rs t n \<le> convert_standardised_to_classic rs t' n"
proof -
  have tt: "(of_int t :: real) \<le> of_int t'" "0 \<le> (of_int t :: real)" "0 \<le> (of_int n :: real)"
    using assms by simp_all
  have lin: "py_round (c * of_int t / of_int MAX_SCORE) \<le> py_round (c * of_int t' / of_int MAX_SCORE)"
    if "0 \<le> c" for c :: real
    using that tt by (intro py_round_mono divide_right_mono mult_left_mono) (simp_all add: MAX_SCORE_def)
  have "(of_int t / of_int MAX_SCORE * of_int n :: real) ^ 2 \<le> (of_int t' / of_int MAX_SCORE * of_int n) ^ 2"
    using tt by (intro power_mono mult_right_mono divide_right_mono) (simp_all add: MAX_SCORE_def)
  then have "py_round ((of_int t / of_int MAX_SCORE * of_int n) ^ 2 * 21.62 + of_int t / 10)
      \<le> py_round ((of_int t' / of_int MAX_SCORE * of_int n) ^ 2 * 21.62 + of_int t' / 10)"
    using tt by (intro py_round_mono add_mono mult_right_mono) simp_all
  then show ?thesis
    using assms tt unfolding convert_standardised_to_classic_def by (auto intro!: lin)
qed

lemma convert_zero [simp]: "convert_standardised_to_classic rs 0 n = 0"
  by (simp add: convert_standardised_to_classic_def)

definition nonneg_statistics :: "statistics \<Rightarrow> bool" where
  "nonneg_statistics st \<longleftrightarrow> list_all (\<lambda>(_, n). 0 \<le> n) st"

lemma max_basic_nonneg: "nonneg_statistics st \<Longrightarrow> 0 \<le> max_basic_judgements st"
  by (induction st) (auto simp: max_basic_judgements_def nonneg_statistics_def)

lemma display_score_mono:
  assumes "nonneg_statistics st" "0 \<le> t" "t \<le> t'"
  shows "get_display_score rs t mode st \<le> get_display_score rs t' mode st"
    and "0 \<le> get_display_score rs t mode st"
proof -
  have mono: "get_display_score rs t mode st \<le> get_display_score rs t' mode st" if "0 \<le> t" "t \<le> t'" for t t'
    using that assms(1) by (simp add: get_display_score_def convert_mono max_basic_nonneg)
  from mono [of 0 t] mono [of t t'] assms
  show "get_display_score rs t mode st \<le> get_display_score rs t' mode st" "0 \<le> get_display_score rs t mode st"
    by (simp_all add: get_display_score_def split: if_splits)
qed

section \<open>Levels\<close>

text \<open>The loop reads the table at the level reached, which is a whole number until the last
  round.\<close>

lemma level_loop_step:
  "level_loop r (of_nat n) =
     (if r \<le> 0 then of_nat n
      else if next_level_requirement n \<le> r then level_loop (r - next_level_requirement n) (of_nat (Suc n))
      else of_nat n + of_int r / of_int (next_level_requirement n))"
proof -
  have round: "py_round (of_nat n) = int n"
    using py_round_of_int [of "int n"] by simp
  have pos: "0 < next_level_requirement n" by (rule next_level_requirement_pos)
  consider "r \<le> 0" | "0 < r" "next_level_requirement n \<le> r" | "0 < r" "r < next_level_requirement n" by linarith
  then show ?thesis
  proof cases
    case 2
    then have "min 1 (of_int r / of_int (next_level_requirement n)) = (1 :: real)"
      using pos by (simp add: min_def field_simps)
    with 2 show ?thesis
      by (subst level_loop.simps) (simp add: round Let_def add.commute)
  next
    case 3
    then have "min 1 (of_int r / of_int (next_level_requirement n)) = (of_int r / of_int (next_level_requirement n) :: real)"
      using pos by (simp add: min_def field_simps)
    with 3 show ?thesis
      by (subst level_loop.simps, subst level_loop.simps) (simp add: round Let_def)
  qed (subst level_loop.simps, simp)
qed

fun cumulated_requirement :: "nat \<Rightarrow> int" where
  "cumulated_requirement 0 = 0"
| "cumulated_requirement (Suc n) = cumulated_requirement n + next_level_requirement n"

lemma cumulated_requirement_nonneg: "0 \<le> cumulated_requirement n"
  using next_level_requirement_pos by (induction n) (auto intro: add_nonneg_nonneg less_imp_le)

lemma level_loop_cumulated:
  "0 \<le> r \<Longrightarrow> level_loop (cumulated_requirement n + r) 0 = level_loop r (of_nat n)"
proof (induction n arbitrary: r)
  case (Suc n)
  have pos: "0 < next_level_requirement n" by (rule next_level_requirement_pos)
  have "level_loop (cumulated_requirement (Suc n) + r) 0 =
        level_loop (cumulated_requirement n + (next_level_requirement n + r)) 0"
    by (simp add: add.assoc)
  also have "\<dots> = level_loop (next_level_requirement n + r) (of_nat n)"
    using Suc pos by simp
  also have "\<dots> = level_loop r (of_nat (Suc n))"
    using pos Suc.prems by (subst level_loop_step) simp
  finally show ?case .
qed simp

lemma level_at:
  assumes "0 \<le> r" "r \<le> next_level_requirement n"
  shows "calculate_score_to_level (cumulated_requirement n + r) =
         of_nat n + 1 + of_int r / of_int (next_level_requirement n)"
proof -
  have pos: "0 < next_level_requirement n" by (rule next_level_requirement_pos)
  have zero: "level_loop 0 (of_nat m) = of_nat m" for m
    by (subst level_loop.simps) simp
  have "level_loop r (of_nat n) = of_nat n + of_int r / of_int (next_level_requirement n)"
    using assms pos zero [of "Suc n"] by (subst level_loop_step) (auto simp: add.commute)
  then show ?thesis
    by (simp add: calculate_score_to_level_def level_loop_cumulated [OF assms(1)])
qed

lemma level_loop_ge: "of_nat n \<le> level_loop r (of_nat n)"
proof (induction "nat r" arbitrary: n r rule: less_induct)
  case less
  have pos: "0 < next_level_requirement n" by (rule next_level_requirement_pos)
  show ?case
  proof (cases "0 < r \<and> next_level_requirement n \<le> r")
    case True
    then have "of_nat (Suc n) \<le> level_loop (r - next_level_requirement n) (of_nat (Suc n))"
      using pos by (intro less) simp
    with True show ?thesis by (subst level_loop_step) simp
  next
    case False
    with pos show ?thesis by (subst level_loop_step) auto
  qed
qed

lemma level_loop_mono: "r \<le> r' \<Longrightarrow> level_loop r (of_nat n) \<le> level_loop r' (of_nat n)"
proof (induction "nat r'" arbitrary: n r r' rule: less_induct)
  case less
  let ?q = "next_level_requirement n"
  have pos: "0 < ?q" by (rule next_level_requirement_pos)
  consider "r \<le> 0" | "0 < r" "?q \<le> r" | "0 < r" "r < ?q" "?q \<le> r'" | "0 < r" "r' < ?q"
    by linarith
  then show ?case
  proof cases
    case 1
    then show ?thesis using level_loop_ge [of n r'] by (subst level_loop_step) simp
  next
    case 2
    with less.prems pos have "level_loop (r - ?q) (of_nat (Suc n)) \<le> level_loop (r' - ?q) (of_nat (Suc n))"
      by (intro less.hyps) simp_all
    with 2 less.prems show ?thesis
      by (subst (1 2) level_loop_step) simp
  next
    case 3
    have "of_int r / of_int ?q \<le> (1 :: real)" using 3 pos by simp
    moreover have "of_nat (Suc n) \<le> level_loop (r' - ?q) (of_nat (Suc n))" by (rule level_loop_ge)
    ultimately have "of_nat n + of_int r / of_int ?q \<le> level_loop (r' - ?q) (of_nat (Suc n))" by simp
    with 3 show ?thesis by (subst (1 2) level_loop_step) simp
  next
    case 4
    with less.prems pos show ?thesis
      by (subst (1 2) level_loop_step) (simp add: divide_right_mono)
  qed
qed

text \<open>Levels are exact and monotone. Every total of the form "the requirements of the
  first n levels plus r", with r at most the next requirement, is level n + 1 plus the
  fraction r of that requirement; a total of zero or less is level 1; and more score never
  gives a lower level.\<close>

theorem score_to_level_spec:
  assumes "0 \<le> r" and "r \<le> next_level_requirement n" and "t \<le> t'"
  shows "calculate_score_to_level (cumulated_requirement n + r) =
           of_nat n + 1 + of_int r / of_int (next_level_requirement n) \<and>
         calculate_score_to_level t \<le> calculate_score_to_level t' \<and>
         calculate_score_to_level (min t 0) = 1"
  using level_at [OF assms(1,2)] level_loop_mono [OF assms(3), of 0]
  by (simp add: calculate_score_to_level_def level_loop.simps [of "min t 0"])

lemma score_to_level_spec_witness:
  "calculate_score_to_level (130000 + 105000) = 3 + 1 / 2"
proof -
  have "calculate_score_to_level (cumulated_requirement 2 + 105000) =
      of_nat 2 + 1 + of_int 105000 / of_int (next_level_requirement 2)"
    using score_to_level_spec [of 105000 2 0 0] by (simp add: next_level_requirement_def TO_NEXT_LEVEL_def)
  then show ?thesis
    by (simp add: next_level_requirement_def TO_NEXT_LEVEL_def numeral_eq_Suc)
qed

section \<open>Weights\<close>

lemma calculate_pp_weight_bounds: "0 < calculate_pp_weight i" "calculate_pp_weight i \<le> 1"
  by (simp_all add: calculate_pp_weight_def power_le_one)

lemma calculate_pp_weight_antimono: "i \<le> j \<Longrightarrow> calculate_pp_weight j \<le> calculate_pp_weight i"
  by (simp add: calculate_pp_weight_def power_decreasing)

lemma weighted_pp_mono:
  "x \<le> y \<Longrightarrow> calculate_weighted_pp x i \<le> calculate_weighted_pp y i" "0 \<le> calculate_weighted_pp x i"
  using calculate_pp_weight_bounds(1) [of i]
  by (auto simp: calculate_weighted_pp_def mult_left_mono)

lemma weighted_acc_bounds:
  "0 \<le> calculate_weighted_acc a i" "0 \<le> a \<Longrightarrow> a \<le> 1 \<Longrightarrow> calculate_weighted_acc a i \<le> calculate_pp_weight i"
  using calculate_pp_weight_bounds(1) [of i]
  by (auto simp: calculate_weighted_acc_def mult_left_le)

section \<open>The low CS/OD factor\<close>

lemma stat_factor_bounds:
  assumes "0 \<le> b" "b \<le> 1"
  shows "b \<le> stat_factor v th b" "stat_factor v th b \<le> 1"
proof -
  have "0 \<le> stat_clamp (v / th) 0 1" "stat_clamp (v / th) 0 1 \<le> 1"
    by (simp_all add: stat_clamp_def)
  then have "0 \<le> (1 - b) * stat_clamp (v / th) 0 1" "(1 - b) * stat_clamp (v / th) 0 1 \<le> (1 - b) * 1"
    using assms by (simp_all only: mult_nonneg_nonneg mult_left_mono diff_ge_0_iff_ge)
  then show "b \<le> stat_factor v th b" "stat_factor v th b \<le> 1" by (simp_all add: stat_factor_def)
qed

lemma stat_factor_one: "0 < th \<Longrightarrow> th \<le> v \<Longrightarrow> stat_factor v th b = 1"
  by (simp add: stat_factor_def stat_clamp_def min_def)

lemma stat_factor_mono:
  assumes "b \<le> 1" "0 < th" "v \<le> v'"
  shows "stat_factor v th b \<le> stat_factor v' th b"
proof -
  have "v / th \<le> v' / th" using assms by (simp add: divide_right_mono)
  then have "stat_clamp (v / th) 0 1 \<le> stat_clamp (v' / th) 0 1"
    by (auto simp: stat_clamp_def)
  then show ?thesis using assms(1) by (simp add: stat_factor_def mult_left_mono)
qed

text \<open>Difficulty Adjust values the client can send: numbers, or unset.\<close>

definition da_number :: "mod_settings \<Rightarrow> string \<Rightarrow> bool" where
  "da_number s k \<longleftrightarrow>
     (case map_of s k of None \<Rightarrow> True | Some v \<Rightarrow> v = SNull \<or> setting_num v \<noteq> None)"

definition da_numeric :: "api_mod \<Rightarrow> bool" where
  "da_numeric m \<longleftrightarrow> da_number (settings_of m) ''circle_size'' \<and> da_number (settings_of m) ''overall_difficulty''"

lemma da_value_total: "da_number s k \<Longrightarrow> \<exists>x. da_value s k d = Inr x"
  by (auto simp: da_number_def da_value_def setting_num_def split: option.splits setting.splits)

lemma effective_cs_od_total:
  assumes "\<And>m. m \<in> set mods \<Longrightarrow> acronym m = ''DA'' \<Longrightarrow> da_numeric m"
  shows "\<exists>cs od. effective_cs_od mods base_cs base_od = Inr (cs, od)"
proof (cases "last_mod ''DA'' mods")
  case None
  then show ?thesis by (simp add: effective_cs_od_def case_prod_beta)
next
  case (Some da)
  then have "da \<in> set mods" "acronym da = ''DA''"
    by (auto simp: last_mod_def dest: find_SomeD)
  then have "da_numeric da" by (rule assms)
  then have "\<exists>x. da_value (settings_of da) ''circle_size'' c = Inr x"
    "\<exists>x. da_value (settings_of da) ''overall_difficulty'' d = Inr x" for c d
    by (simp_all add: da_numeric_def da_value_total)
  then show ?thesis
    unfolding effective_cs_od_def Let_def case_prod_beta Some by (simp add: py_bind_Inr_iff)
qed

lemma low_cs_od_factor_exists:
  assumes "\<And>m. m \<in> set mods \<Longrightarrow> acronym m = ''DA'' \<Longrightarrow> da_numeric m"
  shows "\<exists>f. low_cs_od_pp_factor rs mods cs od relax = Inr f \<and>
    (if relax then 0.45 else 0.524) ^ 2 \<le> f \<and> f \<le> 1 \<and>
    (rs \<noteq> 0 \<or> list_ex (\<lambda>m. acronym m = ''EZ'') mods \<longrightarrow> f = 1) \<and>
    (last_mod ''DA'' mods = None \<and> (if relax then 4 else 2.5) \<le> cs \<and> cs \<le> 10 \<and>
       (if relax then 6 else 4) \<le> od \<and> od \<le> 10 \<longrightarrow> f = 1)"
proof -
  define b :: real where "b = (if relax then 0.45 else 0.524)"
  define ct :: real where "ct = (if relax then 4 else 2.5)"
  define dt :: real where "dt = (if relax then 6 else 4)"
  have b: "0 \<le> b" "b \<le> 1" "b ^ 2 \<le> 1" and ct: "0 < ct" "ct \<le> 10" and dt: "0 < dt" "dt \<le> 10"
    by (simp_all add: b_def ct_def dt_def power2_eq_square)
  obtain c d where cd: "effective_cs_od mods cs od = Inr (c, d)"
    using effective_cs_od_total [of mods] assms by blast
  let ?f = "stat_factor c ct b * stat_factor d dt b"
  have f: "b ^ 2 \<le> ?f" "?f \<le> 1"
    using stat_factor_bounds [OF b(1,2)] b
    by (auto simp: power2_eq_square intro!: mult_mono mult_le_one intro: order.trans)
  have one: "?f = 1" if "last_mod ''DA'' mods = None" "ct \<le> cs" "cs \<le> 10" "dt \<le> od" "od \<le> 10"
  proof -
    have "ct \<le> c \<and> dt \<le> d"
      using cd that ct dt by (auto simp: effective_cs_od_def min_def split: if_splits)
    then show ?thesis using ct dt by (simp add: stat_factor_one)
  qed
  show ?thesis
  proof (cases "rs \<noteq> 0 \<or> list_ex (\<lambda>m. acronym m = ''EZ'') mods")
    case True
    then show ?thesis using b by (auto simp: low_cs_od_pp_factor_def b_def)
  next
    case False
    then have "low_cs_od_pp_factor rs mods cs od relax = Inr ?f"
      using cd by (simp add: low_cs_od_pp_factor_def b_def ct_def dt_def Let_def)
    with False f one show ?thesis by (auto simp: b_def ct_def dt_def)
  qed
qed

text \<open>The low CS/OD factor of a play with numeric Difficulty Adjust values always exists
  and lies between the square of the mode's floor (0.524, or 0.45 on relax) and 1; without
  Difficulty Adjust it is exactly 1 on a map whose stats reach the thresholds, and it is 1
  on Easy plays and outside osu!.\<close>

theorem low_cs_od_factor_bounds:
  assumes "\<And>m. m \<in> set mods \<Longrightarrow> acronym m = ''DA'' \<Longrightarrow> da_numeric m"
  shows "\<exists>f. low_cs_od_pp_factor rs mods cs od relax = Inr f \<and>
    (if relax then 0.45 else 0.524) ^ 2 \<le> f \<and> f \<le> 1 \<and>
    (rs \<noteq> 0 \<or> list_ex (\<lambda>m. acronym m = ''EZ'') mods \<longrightarrow> f = 1) \<and>
    (last_mod ''DA'' mods = None \<and> (if relax then 4 else 2.5) \<le> cs \<and> cs \<le> 10 \<and>
       (if relax then 6 else 4) \<le> od \<and> od \<le> 10 \<longrightarrow> f = 1)"
  by (rule low_cs_od_factor_exists [OF assms])

lemma low_cs_od_factor_bounds_witness:
  "\<exists>f. low_cs_od_pp_factor 0 [\<lparr>acronym = ''DA'', msettings = Some [(''circle_size'', SInt 0)]\<rparr>] 4 9 True = Inr f \<and>
     0.45 ^ 2 \<le> f \<and> f \<le> 1"
  using low_cs_od_factor_bounds
    [of "[\<lparr>acronym = ''DA'', msettings = Some [(''circle_size'', SInt 0)]\<rparr>]" 0 4 9 True]
  by (auto simp: da_numeric_def da_number_def settings_of_def setting_num_def)

section \<open>Torii's rules on a calculator's pp\<close>

lemma no_release_rule_bounds:
  "0 \<le> pp \<Longrightarrow> 0 \<le> no_release_rule s pp \<and> no_release_rule s pp \<le> pp"
  by (simp add: no_release_rule_def)

lemma pause_rule_bounds: "0 \<le> pp \<Longrightarrow> 0 \<le> pause_rule s pp \<and> pause_rule s pp \<le> pp"
  by (simp add: pause_rule_def mult_left_le power_le_one)

lemma low_stat_rule_bounds:
  assumes "\<And>m. m \<in> set (sc_mods s) \<Longrightarrow> acronym m = ''DA'' \<Longrightarrow> da_numeric m" and "0 \<le> pp"
  obtains pp' where "low_stat_rule q s pp = Inr pp'" "0 \<le> pp'" "pp' \<le> pp"
proof -
  obtain f where f: "low_cs_od_pp_factor 0 (sc_mods s) (fst (raw_cs_od q)) (snd (raw_cs_od q)) (sc_mode s = OSURX) = Inr f"
    "(if sc_mode s = OSURX then 0.45 else 0.524) ^ 2 \<le> f" "f \<le> 1"
    using low_cs_od_factor_exists [OF assms(1)] by blast
  have "0 \<le> f" using f(2) by (rule order.trans [rotated]) simp
  then have "0 \<le> pp * f" "pp * f \<le> pp"
    using assms(2) f(3) by (simp_all add: mult_left_le)
  then show thesis
    using that [of pp] that [of "pp * f"] assms(2) f(1)
    by (cases "to_base_ruleset (sc_mode s) = OSU \<and> 0 < pp") (simp_all add: low_stat_rule_def)
qed

text \<open>What the rules after the calculator can do to a score with numeric Difficulty Adjust
  values and a nonnegative calculator pp. They never raise and never add pp; each pause of
  the play costs at least 7 percent of it; an autopilot score on a map that is not known to
  be ranked or approved gets nothing; and with the suspicious-score check on, no map but a
  locally submitted one gives more than 3000.\<close>

theorem calculate_pp_bounds:
  assumes "\<And>m. m \<in> set (sc_mods s) \<Longrightarrow> acronym m = ''DA'' \<Longrightarrow> da_numeric m"
    and "0 \<le> calculator_pp cfg q bm s"
  shows "\<exists>pp ban. calculate_pp cfg q bm s = Inr (pp, ban) \<and>
    0 \<le> pp \<and> pp \<le> calculator_pp cfg q bm s * 0.93 ^ sc_pause_count s \<and>
    (ban \<longrightarrow> pp = 0) \<and>
    (sc_mode s = OSUAP \<and> (case bm of Some b \<Rightarrow> \<not> has_pp (bm_status b) | None \<Rightarrow> True) \<longrightarrow> pp = 0) \<and>
    (suspicious_score_check cfg \<and> (case bm of Some b \<Rightarrow> \<not> bm_local b | None \<Rightarrow> True) \<longrightarrow> pp \<le> 3000)"
proof -
  define loc where "loc = (case bm of Some b \<Rightarrow> bm_local b | None \<Rightarrow> False)"
  have loc: "(case bm of Some b \<Rightarrow> \<not> bm_local b | None \<Rightarrow> True) \<longleftrightarrow> \<not> loc"
    by (simp add: loc_def split: option.splits)
  define unranked where
    "unranked \<longleftrightarrow> sc_mode s = OSUAP \<and> (case bm of Some b \<Rightarrow> \<not> has_pp (bm_status b) | None \<Rightarrow> True)"
  let ?raw = "calculator_pp cfg q bm s"
  have power: "(0 :: real) \<le> ?raw * 0.93 ^ sc_pause_count s" using assms(2) by simp
  obtain p where p: "low_stat_rule q s ?raw = Inr p" "0 \<le> p" "p \<le> ?raw"
    using low_stat_rule_bounds [OF assms] by blast
  define r where "r = pause_rule s (no_release_rule s p)"
  have n: "0 \<le> no_release_rule s p" "no_release_rule s p \<le> ?raw"
    using no_release_rule_bounds [OF p(2), of s] p(3) by simp_all
  have r: "0 \<le> r" using pause_rule_bounds [OF n(1)] by (simp add: r_def)
  have "r = no_release_rule s p * 0.93 ^ sc_pause_count s"
    using n(1) by (auto simp: r_def pause_rule_def)
  then have rle: "r \<le> ?raw * 0.93 ^ sc_pause_count s"
    using n(2) by (simp add: mult_right_mono)
  have eq: "calculate_pp cfg q bm s =
      (if unranked then Inr (0, False)
       else if suspicious_score_check cfg \<and> \<not> loc \<and> banned q then Inr (0, False)
       else if suspicious_score_check cfg \<and> \<not> loc \<and> suspicious q = Inr True then Inr (0, True)
       else if suspicious_score_check cfg \<and> \<not> loc \<and> 3000 < r then Inr (0, False)
       else Inr (r, False))"
    unfolding calculate_pp_def Let_def loc_def [symmetric] unranked_def [symmetric] p(1) py_bind_simps r_def [symmetric]
    by simp
  define chk where "chk \<longleftrightarrow> suspicious_score_check cfg \<and> \<not> loc"
  have "\<exists>pp ban. calculate_pp cfg q bm s = Inr (pp, ban) \<and>
      (pp = 0 \<or> pp = r \<and> \<not> ban \<and> \<not> unranked \<and> (chk \<longrightarrow> pp \<le> 3000))"
    unfolding eq by (cases unranked; cases chk; cases "banned q"; cases "suspicious q = Inr True"; cases "3000 < r";
        simp add: chk_def; blast)
  then obtain pp ban where pp: "calculate_pp cfg q bm s = Inr (pp, ban)"
    "pp = 0 \<or> pp = r \<and> \<not> ban \<and> \<not> unranked \<and> (chk \<longrightarrow> pp \<le> 3000)"
    by blast
  show ?thesis
    unfolding loc unranked_def [symmetric]
    by (intro exI [of _ pp] exI [of _ ban]) (use pp power r rle in \<open>fastforce simp: chk_def\<close>)
qed

definition sample_score :: score_row where
  "sample_score =
     \<lparr>sc_id = 1, sc_user = 7, sc_beatmap = 42, sc_mode = OSU, sc_mods = [], sc_accuracy = 0.98, sc_max_combo = 500,
      sc_passed = True, sc_rank = Rank_A, sc_total_score = 900000, sc_total_score_without_mods = 900000, sc_pp = 0,
      sc_ranked = True, sc_preserve = True, sc_processed = False, sc_pause_count = 2, sc_started_at = 0,
      sc_ended_at = 200, n300 = 400, n100 = 10, n50 = 0, nmiss = 2, ngeki = 0, nkatu = 0, nlarge_tick_miss = None,
      nlarge_tick_hit = None, nslider_tail_hit = None, nsmall_tick_hit = None, nlarge_bonus = None,
      nsmall_bonus = None, sc_maximum_statistics = [(Hit_GREAT, 412)], sc_account_pp_delta = None,
      sc_room_id = None, sc_playlist_item_id = None\<rparr>"

lemma calculate_pp_bounds_witness:
  "\<exists>pp ban. calculate_pp \<lparr>suspicious_score_check = True, sunny_wip = False, fallback_no_calculator_pp = False\<rparr>
     \<lparr>banned = False, suspicious = Inr False, can_performance = True, performance_pp = 250, can_difficulty = True,
      difficulty_stars = 6, mania_difficulty = None, score_beatmap_stars = 6, raw_cs_od = (4, 9)\<rparr>
     None sample_score = Inr (pp, ban) \<and> pp \<le> 250 * 0.93 ^ 2"
  using calculate_pp_bounds
    [of sample_score "\<lparr>suspicious_score_check = True, sunny_wip = False, fallback_no_calculator_pp = False\<rparr>"
       "\<lparr>banned = False, suspicious = Inr False, can_performance = True, performance_pp = 250, can_difficulty = True,
         difficulty_stars = 6, mania_difficulty = None, score_beatmap_stars = 6, raw_cs_od = (4, 9)\<rparr>" None]
  by (auto simp: sample_score_def calculator_pp_def)

section \<open>Suspicious maps: properties\<close>

text \<open>With the windows the callers pass, the ten-second window is never looked at: its test
  needs a later object than the one-second test that was already out of range.\<close>

lemma too_dense_at_1s:
  "p \<le> p' \<Longrightarrow> too_dense_at hs p p' i \<longleftrightarrow>
     i + p < length hs \<and> start_time (hs ! (i + p)) - start_time (hs ! i) < 1000"
  by (auto simp: too_dense_at_def)

lemma too_dense_ignores_10s:
  "p1 \<le> p10 \<Longrightarrow> p1 \<le> p10' \<Longrightarrow> too_dense hs p1 p10 = too_dense hs p1 p10'"
  by (simp add: too_dense_def too_dense_at_1s max.coboundedI2 cong: list_ex_cong)

text \<open>The suspicious-map test never looks at density, sliders or overlapping objects: for
  every ruleset its class patterns fail, so a parsed map with objects is suspicious exactly
  when it is longer than a day or has more objects than the mode's limit. A map without
  objects makes the test raise IndexError, which the callers log and ignore.\<close>

theorem suspicious_checks_unreachable:
  "is_suspicious_beatmap obj_eq (Some f) =
     (if hit_objects f = [] then Inl IndexError
      else Inr (start_time (last (hit_objects f)) - start_time (hd (hit_objects f)) > 86400000 \<or>
                length (hit_objects f) > (if of_mode f = 1 then 30000 else 500000)))"
  by (simp add: is_suspicious_beatmap_def matches_int_pattern_def Let_def)

text \<open>A thousand objects in one second, a slider off the field: not suspicious.\<close>

lemma dense_map_not_suspicious:
  "is_suspicious_beatmap obj_eq
     (Some \<lparr>of_mode = 0, of_cs = 4,
            hit_objects = replicate 1000 \<lparr>start_time = 500, slider = Some (9999, (-5, 900), [])\<rparr>\<rparr>) = Inr False"
  by (simp add: is_suspicious_beatmap_def matches_int_pattern_def)

section \<open>Sunny mania pp\<close>

lemma mania_accuracy_bounds: "0 \<le> mania_custom_accuracy s" "mania_custom_accuracy s \<le> 1"
  by (auto simp: mania_custom_accuracy_def mania_total_hits_def divide_le_eq)

lemma sunny_low_accuracy: "mania_custom_accuracy s \<le> 0.8 \<Longrightarrow> calculate_sunny_mania_pp star s attrs = 0"
  by (simp add: calculate_sunny_mania_pp_def performance_proportion_def Let_def)

end
