(* ===== verification/KeepBest.thy ===== *)
theory KeepBest
  imports Tables
begin

text \<open>
  The contract of the tables that keep one row per key and replace it by a better one, and
  what follows from it for any sequence of submissions. The pp table
  (\<open>PlayerPP\<close>), the table of best totals (\<open>Leaderboard\<close>), its rebuilt form
  (\<open>Recalculate\<close>) and the playlist table (\<open>PlaylistScores\<close>) are its
  instances.
\<close>

locale keep_best =
  fixes rows_of :: "'k \<Rightarrow> 't \<Rightarrow> 'r list"
    and val :: "'r \<Rightarrow> 'v::linorder"
    and key :: "'s \<Rightarrow> 'k"
    and sval :: "'s \<Rightarrow> 'v"
    and submit :: "'s \<Rightarrow> 't \<Rightarrow> 't"
  assumes other: "k \<noteq> key s \<Longrightarrow> rows_of k (submit s t) = rows_of k t"
    and first: "rows_of (key s) t = [] \<Longrightarrow> map val (rows_of (key s) (submit s t)) = [sval s]"
    and again: "rows_of (key s) t = [r] \<Longrightarrow> map val (rows_of (key s) (submit s t)) = [max (val r) (sval s)]"
begin

lemma one_row_step:
  "length (rows_of k t) \<le> 1 \<Longrightarrow> length (rows_of k (submit s t)) \<le> 1"
proof (cases "k = key s")
  case True
  assume "length (rows_of k t) \<le> 1"
  then consider "rows_of k t = []" | r where "rows_of k t = [r]"
    by (cases "rows_of k t") auto
  then show ?thesis
  proof cases
    case 1
    then have "map val (rows_of k (submit s t)) = [sval s]" using True first by simp
    then show ?thesis by (metis length_map length_Cons list.size(3) One_nat_def order.refl)
  next
    case 2
    then have "map val (rows_of k (submit s t)) = [max (val r) (sval s)]" using True again by simp
    then show ?thesis by (metis length_map length_Cons list.size(3) One_nat_def order.refl)
  qed
qed (simp add: other)

lemma one_row: "length (rows_of k t) \<le> 1 \<Longrightarrow> length (rows_of k (fold submit ss t)) \<le> 1"
  by (induction ss arbitrary: t) (auto simp del: One_nat_def intro: one_row_step)

text \<open>The values kept after some submissions: the greatest submitted under the key.\<close>

lemma keeps_maximum_from:
  "map val (rows_of k t) = [v] \<Longrightarrow>
   map val (rows_of k (fold submit ss t)) = [foldl max v (map sval (filter (\<lambda>s. key s = k) ss))]"
proof (induction ss arbitrary: t v)
  case (Cons s ss)
  show ?case
  proof (cases "key s = k")
    case True
    from Cons.prems obtain r where "rows_of k t = [r]" "val r = v" by auto
    with True have "map val (rows_of k (submit s t)) = [max v (sval s)]" using again by auto
    from Cons.IH [OF this] True show ?thesis by simp
  next
    case False
    then have "rows_of k (submit s t) = rows_of k t" by (simp add: other)
    with Cons False show ?thesis by simp
  qed
qed simp

lemma keeps_maximum:
  "rows_of k t = [] \<Longrightarrow>
   map val (rows_of k (fold submit ss t)) =
     (case map sval (filter (\<lambda>s. key s = k) ss) of [] \<Rightarrow> [] | v # vs \<Rightarrow> [foldl max v vs])"
proof (induction ss arbitrary: t)
  case (Cons s ss)
  show ?case
  proof (cases "key s = k")
    case True
    with Cons.prems have "map val (rows_of k (submit s t)) = [sval s]" using first by auto
    from keeps_maximum_from [OF this] True show ?thesis by simp
  next
    case False
    then have "rows_of k (submit s t) = []" using Cons.prems by (simp add: other)
    from Cons.IH [OF this] False show ?thesis by simp
  qed
qed simp

end

lemma foldl_max_Max: "foldl max v vs = Max (set (v # vs))"
  by (simp only: foldl_conv_fold Max.set_eq_fold max.commute)

end
