(* ===== verification/PlayerPP.thy ===== *)
theory PlayerPP
  imports Calculator KeepBest "HOL-Library.Product_Lexorder"
begin

text \<open>
  The pp of a score and of a player (\<^verbatim>\<open>src/app/database/score.py\<close>,
  \<^verbatim>\<open>src/app/database/best_scores.py\<close>): the gates of \<^verbatim>\<open>_process_score_pp\<close>, the table of best
  scores by pp it maintains, and the weighted sums of \<^verbatim>\<open>calculate_user_pp\<close>. Rows of equal
  pp keep their insertion order in the sorted query.
\<close>

section \<open>Queries\<close>

definition get_user_best_pp_in_beatmap ::
  "best_score list \<Rightarrow> int \<Rightarrow> int \<Rightarrow> game_mode \<Rightarrow> best_score option" where
  "get_user_best_pp_in_beatmap best beatmap user mode =
     find (\<lambda>b. bs_beatmap b = beatmap \<and> bs_user b = user \<and> bs_mode b = mode) best"

definition get_user_best_pp :: "best_score list \<Rightarrow> int \<Rightarrow> game_mode \<Rightarrow> nat \<Rightarrow> best_score list" where
  "get_user_best_pp best user mode limit =
     take limit (sort_key (\<lambda>b. - bs_pp b) (filter (\<lambda>b. bs_user b = user \<and> bs_mode b = mode) best))"

fun weighted_sum :: "(real \<Rightarrow> nat \<Rightarrow> real) \<Rightarrow> nat \<Rightarrow> real list \<Rightarrow> real" where
  "weighted_sum w i [] = 0"
| "weighted_sum w i (x # xs) = w x i + weighted_sum w (Suc i) xs"

definition calculate_user_pp :: "best_score list \<Rightarrow> int \<Rightarrow> game_mode \<Rightarrow> real \<times> real" where
  "calculate_user_pp best user mode =
     (let bps = get_user_best_pp best user mode 1000;
          pp_sum = weighted_sum calculate_weighted_pp 0 (map bs_pp bps);
          acc_sum = weighted_sum calculate_weighted_acc 0 (map bs_acc bps);
          acc_sum = (if bps = [] then acc_sum else acc_sum * (100 / (20 * (1 - (95 / 100) ^ length bps))))
      in (pp_sum, clamp acc_sum 0 100))"

section \<open>The best-score table\<close>

definition best_of_score :: "score_row \<Rightarrow> best_score" where
  "best_of_score s =
     \<lparr>bs_user = sc_user s, bs_score = sc_id s, bs_beatmap = sc_beatmap s, bs_mode = sc_mode s,
      bs_pp = sc_pp s, bs_acc = sc_accuracy s\<rparr>"

definition record_best_pp :: "score_row \<Rightarrow> best_score list \<Rightarrow> best_score list" where
  "record_best_pp s best =
     (case get_user_best_pp_in_beatmap best (sc_beatmap s) (sc_user s) (sc_mode s) of
        None \<Rightarrow> best @ [best_of_score s]
      | Some prev \<Rightarrow> if sc_pp s > bs_pp prev then remove1 prev (best @ [best_of_score s]) else best)"

text \<open>\<^verbatim>\<open>BestScore.delete\<close>: the row goes, and the first statistics row of its user and mode
  gets the pp and accuracy recomputed without it.\<close>

definition best_score_delete ::
  "best_score \<Rightarrow> best_score list \<times> user_statistics list \<Rightarrow> best_score list \<times> user_statistics list" where
  "best_score_delete b = (\<lambda>(best, stats).
     let best = remove1 b best in
     (best,
      update_first (\<lambda>s. us_user s = bs_user b \<and> us_mode s = bs_mode b)
        (\<lambda>s. let (pp, acc) = calculate_user_pp best (us_user s) (bs_mode b)
             in s\<lparr>us_pp := pp, hit_accuracy := acc\<rparr>) stats))"

section \<open>Processing the pp of a score\<close>

definition RELAX_AP_MODES :: "game_mode set" where
  "RELAX_AP_MODES = {OSURX, TAIKORX, FRUITSRX, OSUAP}"

definition OSU_STANDARD_MODES :: "game_mode set" where
  "OSU_STANDARD_MODES = {OSU, OSURX, OSUAP}"

text \<open>\<^verbatim>\<open>_compute_effective_od_cs\<close> and \<^verbatim>\<open>_get_effective_od_cs\<close>; a bool is a number here too.\<close>

definition first_da_settings :: "api_mod list \<Rightarrow> mod_settings" where
  "first_da_settings mods =
     (case find (\<lambda>m. acronym m = ''DA'') mods of None \<Rightarrow> [] | Some m \<Rightarrow> settings_of m)"

definition stat_override :: "api_mod list \<Rightarrow> string \<Rightarrow> real option" where
  "stat_override mods k = Option.bind (map_of (first_da_settings mods) k) setting_num"

definition stat_with_hr_ez :: "api_mod list \<Rightarrow> real \<Rightarrow> real \<Rightarrow> real" where
  "stat_with_hr_ez mods factor base =
     (case find (\<lambda>m. acronym m = ''HR'' \<or> acronym m = ''EZ'') mods of
        None \<Rightarrow> base
      | Some m \<Rightarrow> if acronym m = ''HR'' then min 10 (base * factor) else base * 0.5)"

definition compute_effective_od_cs :: "api_mod list \<Rightarrow> real \<Rightarrow> real \<Rightarrow> real \<times> real" where
  "compute_effective_od_cs mods base_od base_cs =
     ((case stat_override mods ''overall_difficulty'' of Some v \<Rightarrow> v | None \<Rightarrow> stat_with_hr_ez mods 1.4 base_od),
      (case stat_override mods ''circle_size'' of Some v \<Rightarrow> v | None \<Rightarrow> stat_with_hr_ez mods 1.3 base_cs))"

definition get_effective_od_cs :: "(int \<Rightarrow> (real \<times> real) option) \<Rightarrow> score_row \<Rightarrow> (real \<times> real) option" where
  "get_effective_od_cs beatmap_od_cs s =
     (if stat_override (sc_mods s) ''overall_difficulty'' \<noteq> None \<and> stat_override (sc_mods s) ''circle_size'' \<noteq> None
      then Some (compute_effective_od_cs (sc_mods s) 0 0)
      else case beatmap_od_cs (sc_beatmap s) of
        None \<Rightarrow> None
      | Some (od, cs) \<Rightarrow> Some (compute_effective_od_cs (sc_mods s) od cs))"

text \<open>The Flashlight settings test: a numeric setting away from 1, or a combo flag that is
  not the constant True.\<close>

definition fl_off_default :: "setting option \<Rightarrow> py_error + bool" where
  "fl_off_default v =
     (case v of
        None \<Rightarrow> Inr False
      | Some SNull \<Rightarrow> Inr False
      | Some x \<Rightarrow> (case setting_num x of None \<Rightarrow> Inl TypeError | Some r \<Rightarrow> Inr (\<bar>r - 1\<bar> > 0.001)))"

definition fl_non_vanilla :: "mod_settings \<Rightarrow> py_error + bool" where
  "fl_non_vanilla s =
     py_bind (fl_off_default (map_of s ''size_multiplier'')) (\<lambda>a.
       if a then Inr True
       else py_bind (fl_off_default (map_of s ''follow_delay'')) (\<lambda>b.
         if b then Inr True
         else Inr (case map_of s ''combo_based_size'' of
                     None \<Rightarrow> False | Some SNull \<Rightarrow> False | Some v \<Rightarrow> v \<noteq> SBool True)))"

datatype pp_skip = FL_non_vanilla | RX_acc_too_low

text \<open>What \<^verbatim>\<open>_process_score_pp\<close> does: the reason it returns, the score and best table after
  it, and whether the score was queued for recalculation. The pp calculation's answer is
  an argument.\<close>

record pp_result =
  skip_reason :: "pp_skip option"
  pp_score :: score_row
  pp_best :: "best_score list"
  pp_requeued :: bool

definition pp_unchanged :: "score_row \<Rightarrow> best_score list \<Rightarrow> pp_result" where
  "pp_unchanged s best = \<lparr>skip_reason = None, pp_score = s, pp_best = best, pp_requeued = False\<rparr>"

definition fl_gate :: "score_row \<Rightarrow> py_error + bool" where
  "fl_gate s =
     (if sc_mode s \<in> OSU_STANDARD_MODES then
        (case find (\<lambda>m. acronym m = ''FL'') (sc_mods s) of
           None \<Rightarrow> Inr False
         | Some m \<Rightarrow> fl_non_vanilla (settings_of m))
      else Inr False)"

definition can_get_pp :: "config \<Rightarrow> validator \<Rightarrow> ranked_mods \<Rightarrow> score_row \<Rightarrow> py_error + bool" where
  "can_get_pp cfg validate ranked s =
     (if sc_passed s \<and> sc_ranked s
      then mods_can_get_pp cfg validate ranked (mode_int (sc_mode s)) (sc_mods s)
      else Inr False)"

definition process_score_pp ::
  "config \<Rightarrow> validator \<Rightarrow> ranked_mods \<Rightarrow> real \<times> bool \<Rightarrow> score_row \<Rightarrow> best_score list \<Rightarrow> py_error + pp_result" where
  "process_score_pp cfg validate ranked calculated s best =
     (if sc_pp s \<noteq> 0 then Inr (pp_unchanged s best)
      else
        py_bind (fl_gate s) (\<lambda>fl.
          if fl then Inr ((pp_unchanged s best)\<lparr>skip_reason := Some FL_non_vanilla\<rparr>)
          else py_bind (can_get_pp cfg validate ranked s) (\<lambda>can.
            if \<not> can then Inr (pp_unchanged s best)
            else if sc_mode s \<in> RELAX_AP_MODES \<and> sc_accuracy s < 0.75 then
              Inr ((pp_unchanged s best)\<lparr>skip_reason := Some RX_acc_too_low\<rparr>)
            else
              let (pp, successed) = calculated in
              if \<not> successed then Inr ((pp_unchanged s best)\<lparr>pp_requeued := True\<rparr>)
              else
                let s = s\<lparr>sc_pp := pp\<rparr> in
                Inr (pp_unchanged s (record_best_pp s best)))))"

section \<open>The table keeps one best row per user, map and mode\<close>

type_synonym best_key = "int \<times> int \<times> game_mode"

definition best_key :: "best_score \<Rightarrow> best_key" where
  "best_key b = (bs_user b, bs_beatmap b, bs_mode b)"

definition best_rows :: "best_key \<Rightarrow> best_score list \<Rightarrow> best_score list" where
  "best_rows k best = filter (\<lambda>b. best_key b = k) best"

definition score_key :: "score_row \<Rightarrow> best_key" where
  "score_key s = (sc_user s, sc_beatmap s, sc_mode s)"

lemma find_hd_filter: "find P xs = (case filter P xs of [] \<Rightarrow> None | x # _ \<Rightarrow> Some x)"
  by (induction xs) auto

lemma previous_best_rows:
  "get_user_best_pp_in_beatmap best (sc_beatmap s) (sc_user s) (sc_mode s) =
     (case best_rows (score_key s) best of [] \<Rightarrow> None | b # _ \<Rightarrow> Some b)"
proof -
  have "(\<lambda>b. bs_beatmap b = sc_beatmap s \<and> bs_user b = sc_user s \<and> bs_mode b = sc_mode s) =
        (\<lambda>b. best_key b = score_key s)"
    by (auto simp: best_key_def score_key_def)
  then show ?thesis
    by (simp add: get_user_best_pp_in_beatmap_def find_hd_filter best_rows_def)
qed

lemma best_rows_key: "b \<in> set (best_rows k best) \<Longrightarrow> best_key b = k"
  by (simp add: best_rows_def)

lemma best_rows_replace:
  "best_rows k (remove1 b (best @ [best_of_score s])) =
     (let rows = best_rows k best @ (if k = score_key s then [best_of_score s] else [])
      in if best_key b = k then remove1 b rows else rows)"
  by (auto simp: best_rows_def filter_remove1 best_key_def best_of_score_def score_key_def)

interpretation pp_table: keep_best best_rows bs_pp score_key sc_pp record_best_pp
proof (unfold_locales, goal_cases)
  case (1 k s t)
  show ?case
  proof (cases "best_rows (score_key s) t")
    case Nil
    with 1 show ?thesis
      by (simp add: record_best_pp_def previous_best_rows best_rows_def best_of_score_def best_key_def score_key_def)
  next
    case (Cons b bs)
    then have "best_key b = score_key s" by (intro best_rows_key [of b _ t]) simp
    with Cons 1 show ?thesis
      by (simp add: record_best_pp_def previous_best_rows best_rows_replace)
  qed
next
  case (2 s t)
  then show ?case
    by (simp add: record_best_pp_def previous_best_rows)
      (simp add: best_rows_def best_of_score_def best_key_def score_key_def)
next
  case (3 s t r)
  then have "best_key r = score_key s" by (intro best_rows_key [of r _ t]) simp
  with 3 show ?case
    by (simp add: record_best_pp_def previous_best_rows best_rows_replace max_def)
      (simp add: best_of_score_def)
qed

section \<open>Weighted sums of ranked lists\<close>

text \<open>How many entries reach a threshold; it depends on the multiset of a list only, and for
  a descending list it says where the entries lie.\<close>

definition reach :: "real \<Rightarrow> real list \<Rightarrow> nat" where
  "reach t xs = length (filter (\<lambda>x. t \<le> x) xs)"

lemma reach_mset: "mset xs = mset ys \<Longrightarrow> reach t xs = reach t ys"
  unfolding reach_def by (metis mset_filter size_mset)

lemma reach_desc_lower:
  assumes "sorted_wrt (\<ge>) xs" "i < length xs"
  shows "Suc i \<le> reach (xs ! i) xs"
proof -
  have "\<forall>x \<in> set (take (Suc i) xs). xs ! i \<le> x"
    using assms by (auto simp: in_set_conv_nth sorted_wrt_iff_nth_less less_Suc_eq)
  then have "filter (\<lambda>x. xs ! i \<le> x) (take (Suc i) xs) = take (Suc i) xs"
    by (simp add: filter_id_conv)
  then have "Suc i \<le> length (filter (\<lambda>x. xs ! i \<le> x) (take (Suc i) xs))"
    using assms(2) by simp
  also have "\<dots> \<le> length (filter (\<lambda>x. xs ! i \<le> x) (take (Suc i) xs @ drop (Suc i) xs))"
    by (simp only: filter_append length_append le_add1)
  finally show ?thesis by (simp add: reach_def)
qed

lemma reach_desc_upper:
  assumes "sorted_wrt (\<ge>) ys" "Suc i \<le> reach t ys"
  shows "i < length ys \<and> t \<le> ys ! i"
proof -
  have len: "i < length ys"
    using assms(2) length_filter_le [of "\<lambda>x. t \<le> x" ys] unfolding reach_def by linarith
  have "t \<le> ys ! i"
  proof (rule ccontr)
    assume no: "\<not> t \<le> ys ! i"
    have "filter (\<lambda>x. t \<le> x) (drop i ys) = []"
    proof (rule filter_False, intro ballI)
      fix x
      assume "x \<in> set (drop i ys)"
      then obtain j where "j < length ys - i" "x = ys ! (i + j)"
        by (auto simp: in_set_conv_nth)
      then have "x \<le> ys ! i"
        using assms(1) by (cases j) (auto simp: sorted_wrt_iff_nth_less)
      with no show "\<not> t \<le> x" by simp
    qed
    moreover have "filter (\<lambda>x. t \<le> x) ys = filter (\<lambda>x. t \<le> x) (take i ys) @ filter (\<lambda>x. t \<le> x) (drop i ys)"
      by (metis append_take_drop_id filter_append)
    ultimately have "reach t ys \<le> i"
      using length_filter_le [of "\<lambda>x. t \<le> x" "take i ys"] len by (simp add: reach_def)
    with assms(2) show False by simp
  qed
  with len show ?thesis by simp
qed

lemma reach_pointwise:
  assumes "sorted_wrt (\<ge>) xs" "sorted_wrt (\<ge>) ys" "\<And>t. reach t xs \<le> reach t ys" "i < length xs"
  shows "i < length ys \<and> xs ! i \<le> ys ! i"
  using reach_desc_upper [OF assms(2)] reach_desc_lower [OF assms(1,4)] assms(3) by (meson order.trans)

lemma weighted_sum_pointwise:
  assumes "\<And>i. i < length xs \<Longrightarrow> i < length ys \<and> xs ! i \<le> ys ! i"
  shows "weighted_sum calculate_weighted_pp k xs \<le> weighted_sum calculate_weighted_pp k ys"
  using assms
proof (induction xs arbitrary: ys k)
  case Nil
  show ?case by (induction ys arbitrary: k) (auto intro: add_nonneg_nonneg weighted_pp_mono)
next
  case (Cons x xs)
  from Cons.prems [of 0] obtain y ys' where ys: "ys = y # ys'" "x \<le> y" by (cases ys) auto
  have "weighted_sum calculate_weighted_pp (Suc k) xs \<le> weighted_sum calculate_weighted_pp (Suc k) ys'"
    using Cons.prems ys by (intro Cons.IH) (use Cons.prems [of "Suc i" for i] in auto)
  with ys show ?case by (simp add: add_mono weighted_pp_mono)
qed

lemma sort_desc: "sorted_wrt (\<ge>) (map bs_pp (sort_key (\<lambda>b. - bs_pp b) bs))"
proof -
  have "sorted (map (\<lambda>b. - bs_pp b) (sort_key (\<lambda>b. - bs_pp b) bs))" by simp
  then show ?thesis by (simp add: sorted_wrt_map)
qed

definition user_rows :: "best_score list \<Rightarrow> int \<Rightarrow> game_mode \<Rightarrow> best_score list" where
  "user_rows best user mode = filter (\<lambda>b. bs_user b = user \<and> bs_mode b = mode) best"

lemma sorted_wrt_take: "sorted_wrt R xs \<Longrightarrow> sorted_wrt R (take n xs)"
  by (simp add: sorted_wrt_iff_nth_less)

text \<open>More entries at every threshold, more pp.\<close>

lemma user_pp_mono:
  assumes "\<And>t. reach t (map bs_pp (user_rows best user mode)) \<le> reach t (map bs_pp (user_rows best' user mode))"
  shows "fst (calculate_user_pp best user mode) \<le> fst (calculate_user_pp best' user mode)"
proof -
  let ?s = "\<lambda>b. map bs_pp (sort_key (\<lambda>b. - bs_pp b) (user_rows b user mode))"
  have "reach t (?s b) = reach t (map bs_pp (user_rows b user mode))" for t b
    by (rule reach_mset) simp
  then have "i < length (?s best') \<and> ?s best ! i \<le> ?s best' ! i" if "i < length (?s best)" for i
    using that assms by (intro reach_pointwise sort_desc) simp_all
  then have "i < length (take 1000 (?s best')) \<and> take 1000 (?s best) ! i \<le> take 1000 (?s best') ! i"
    if "i < length (take 1000 (?s best))" for i
    using that by (simp del: nth_map length_map)
  then have "weighted_sum calculate_weighted_pp 0 (take 1000 (?s best))
      \<le> weighted_sum calculate_weighted_pp 0 (take 1000 (?s best'))"
    by (rule weighted_sum_pointwise)
  then show ?thesis
    by (simp add: calculate_user_pp_def get_user_best_pp_def user_rows_def Let_def take_map)
qed

lemma user_rows_append: "user_rows (a @ b) u m = user_rows a u m @ user_rows b u m"
  by (simp add: user_rows_def)

lemma reach_simps [simp]:
  "reach t [] = 0" "reach t (x # xs) = (if t \<le> x then 1 else 0) + reach t xs"
  "reach t (xs @ ys) = reach t xs + reach t ys"
  by (simp_all add: reach_def)

lemma reach_remove1:
  "b \<in> set bs \<Longrightarrow> reach t (map bs_pp bs) = reach t (map bs_pp (remove1 b bs)) + (if t \<le> bs_pp b then 1 else 0)"
  by (induction bs) auto

lemma record_best_pp_reach:
  "reach t (map bs_pp (user_rows best u m)) \<le> reach t (map bs_pp (user_rows (record_best_pp s best) u m))"
proof -
  let ?new = "best_of_score s"
  show ?thesis
  proof (cases "best_rows (score_key s) best")
    case Nil
    then show ?thesis by (simp add: record_best_pp_def previous_best_rows user_rows_append)
  next
    case (Cons prev rest)
    then have prev: "best_key prev = score_key s" "prev \<in> set best"
      using best_rows_key [of prev "score_key s" best] by (auto simp: best_rows_def dest: filter_eq_ConsD)
    show ?thesis
    proof (cases "bs_pp prev < sc_pp s")
      case False
      with Cons show ?thesis by (simp add: record_best_pp_def previous_best_rows)
    next
      case True
      have rec: "record_best_pp s best = remove1 prev (best @ [?new])"
        using Cons True by (simp add: record_best_pp_def previous_best_rows)
      show ?thesis
      proof (cases "u = sc_user s \<and> m = sc_mode s")
        case True
        have um: "bs_user prev = u \<and> bs_mode prev = m" "bs_user ?new = u \<and> bs_mode ?new = m"
          using True prev(1) by (simp_all add: best_key_def score_key_def best_of_score_def)
        have mem: "prev \<in> set (user_rows (best @ [?new]) u m)"
          using prev(2) um by (simp add: user_rows_def)
        have "user_rows (record_best_pp s best) u m = remove1 prev (user_rows (best @ [?new]) u m)"
          using um by (simp add: rec user_rows_def filter_remove1)
        with reach_remove1 [OF mem, of t] um \<open>bs_pp prev < sc_pp s\<close> show ?thesis
          by (simp add: user_rows_def best_of_score_def split: if_splits)
      next
        case False
        have "\<not> (bs_user prev = u \<and> bs_mode prev = m)" "\<not> (bs_user ?new = u \<and> bs_mode ?new = m)"
          using False prev(1) by (auto simp: best_key_def score_key_def best_of_score_def)
        then show ?thesis by (auto simp: rec user_rows_def filter_remove1)
      qed
    qed
  qed
qed

section \<open>The accuracy of a player\<close>

fun weight_total :: "nat \<Rightarrow> nat \<Rightarrow> real" where
  "weight_total i 0 = 0"
| "weight_total i (Suc n) = calculate_pp_weight i + weight_total (Suc i) n"

lemma weight_total_closed: "weight_total i n = 20 * (calculate_pp_weight i - calculate_pp_weight (i + n))"
proof (induction n arbitrary: i)
  case (Suc n)
  have "calculate_pp_weight i = 20 * (calculate_pp_weight i - calculate_pp_weight (Suc i))"
    by (simp add: calculate_pp_weight_def)
  with Suc show ?case by simp
qed simp

lemma weighted_acc_between:
  assumes "\<forall>x \<in> set xs. lo \<le> x \<and> x \<le> hi" "0 \<le> lo"
  shows "lo * weight_total i (length xs) \<le> weighted_sum calculate_weighted_acc i xs \<and>
         weighted_sum calculate_weighted_acc i xs \<le> hi * weight_total i (length xs)"
  using assms(1)
proof (induction xs arbitrary: i)
  case (Cons x xs)
  have w: "0 < calculate_pp_weight i" by (rule calculate_pp_weight_bounds)
  have "calculate_weighted_acc x i = calculate_pp_weight i * x"
    using Cons.prems assms(2) by (auto simp: calculate_weighted_acc_def)
  then have "lo * calculate_pp_weight i \<le> calculate_weighted_acc x i"
    "calculate_weighted_acc x i \<le> hi * calculate_pp_weight i"
    using Cons.prems w by (simp_all add: mult.commute)
  with Cons.IH [of "Suc i"] Cons.prems show ?case
    by (simp add: distrib_left add_mono)
qed simp

text \<open>A player's accuracy is a weighted mean of the accuracies of the best scores that
  count, in percent: when those lie between lo and hi (fractions from 0 to 1), it lies
  between 100 lo and 100 hi, so the clamp to [0, 100] changes nothing; without scores it is
  0, and it is in [0, 100] whatever the table holds.\<close>

theorem user_accuracy_is_mean:
  assumes "\<And>b. b \<in> set (get_user_best_pp best u m 1000) \<Longrightarrow> lo \<le> bs_acc b \<and> bs_acc b \<le> hi"
    and "0 \<le> lo" and "hi \<le> 1"
  shows "(if get_user_best_pp best u m 1000 = [] then snd (calculate_user_pp best u m) = 0
          else 100 * lo \<le> snd (calculate_user_pp best u m) \<and> snd (calculate_user_pp best u m) \<le> 100 * hi) \<and>
         0 \<le> snd (calculate_user_pp best u m) \<and> snd (calculate_user_pp best u m) \<le> 100"
proof -
  define bps where "bps = get_user_best_pp best u m 1000"
  define raw where "raw = weighted_sum calculate_weighted_acc 0 (map bs_acc bps)"
  have result: "snd (calculate_user_pp best u m) =
      clamp (if bps = [] then raw else raw * (100 / (20 * (1 - (95 / 100) ^ length bps)))) 0 100"
    by (simp add: calculate_user_pp_def bps_def raw_def Let_def)
  have any: "0 \<le> clamp x 0 100 \<and> clamp x 0 100 \<le> 100" for x :: real
    by (simp add: clamp_def)
  show ?thesis
  proof (cases "bps = []")
    case True
    then have "snd (calculate_user_pp best u m) = 0"
      by (simp add: result raw_def clamp_def)
    with True show ?thesis by (simp add: bps_def)
  next
    case False
    define W where "W = 20 * (1 - (95 / 100 :: real) ^ length bps)"
    have "(95 / 100 :: real) ^ length bps < 1"
      using False by (intro power_less_one_iff [THEN iffD2]) simp_all
    then have W: "0 < W" by (simp add: W_def)
    have total: "weight_total 0 (length bps) = W"
      unfolding weight_total_closed W_def by (simp add: calculate_pp_weight_def)
    have "lo * W \<le> raw \<and> raw \<le> hi * W"
      using weighted_acc_between [of "map bs_acc bps" lo hi 0] assms
      unfolding raw_def length_map total by (auto simp: bps_def)
    then have "lo \<le> raw / W" "raw / W \<le> hi"
      using W by (simp_all add: pos_le_divide_eq pos_divide_le_eq)
    moreover have scale: "raw * (100 / W) = 100 * (raw / W)" by simp
    ultimately have range: "100 * lo \<le> raw * (100 / W)" "raw * (100 / W) \<le> 100 * hi"
      unfolding scale by linarith+
    then have "clamp (raw * (100 / W)) 0 100 = raw * (100 / W)"
      using assms(2,3) by (simp add: clamp_def)
    then have eq: "snd (calculate_user_pp best u m) = raw * (100 / W)"
      using False by (simp add: result W_def)
    show ?thesis using False range any [of "raw * (100 / W)"] assms(2,3)
      unfolding bps_def [symmetric] eq by simp
  qed
qed

definition sample_best :: "best_score list" where
  "sample_best =
     [\<lparr>bs_user = 7, bs_score = 1, bs_beatmap = 42, bs_mode = OSU, bs_pp = 200, bs_acc = 0.99\<rparr>,
      \<lparr>bs_user = 7, bs_score = 2, bs_beatmap = 43, bs_mode = OSU, bs_pp = 300, bs_acc = 0.95\<rparr>,
      \<lparr>bs_user = 8, bs_score = 3, bs_beatmap = 42, bs_mode = OSU, bs_pp = 100, bs_acc = 0.5\<rparr>]"

lemma sample_best_pp: "map bs_score (get_user_best_pp sample_best 7 OSU 1000) = [2, 1]"
  "set (get_user_best_pp sample_best 7 OSU 1000) \<subseteq> set (take 2 sample_best)"
  by (simp_all add: get_user_best_pp_def sample_best_def)

lemma user_accuracy_is_mean_witness:
  "95 \<le> snd (calculate_user_pp sample_best 7 OSU) \<and> snd (calculate_user_pp sample_best 7 OSU) \<le> 99"
proof -
  have "0.95 \<le> bs_acc b \<and> bs_acc b \<le> 0.99" if "b \<in> set (get_user_best_pp sample_best 7 OSU 1000)" for b
    using sample_best_pp(2) that by (auto simp: sample_best_def)
  moreover have "get_user_best_pp sample_best 7 OSU 1000 \<noteq> []" using sample_best_pp(1) by auto
  ultimately show ?thesis
    using user_accuracy_is_mean [of sample_best 7 OSU "0.95" "0.99"] by simp
qed

section \<open>Properties\<close>

text \<open>C22: recording a score never lowers a player's pp, the player's own or anyone else's, on
  any table and in any mode: a score that is not the best on its map changes nothing, and
  one that is replaces a lower entry.\<close>

theorem account_pp_monotone:
  "fst (calculate_user_pp best u m) \<le> fst (calculate_user_pp (record_best_pp s best) u m)"
  by (rule user_pp_mono) (rule record_best_pp_reach)

text \<open>From an empty table, any sequence of scores leaves at most one row per user, map and
  mode, and its pp is the greatest pp among the scores recorded for them.\<close>

theorem best_pp_table_keeps_maximum:
  "map bs_pp (best_rows k (fold record_best_pp ss [])) =
     (case map sc_pp (filter (\<lambda>s. score_key s = k) ss) of
        [] \<Rightarrow> []
      | p # ps \<Rightarrow> [Max (set (p # ps))])"
  using pp_table.keeps_maximum [of k "[]" ss]
  by (simp add: best_rows_def foldl_max_Max split: list.splits)

text \<open>Where a score can gain pp.\<close>

lemma process_score_pp_cases:
  assumes "process_score_pp cfg validate ranked (pp, ok) s best = Inr r"
  shows "(pp_score r = s \<and> pp_best r = best) \<or>
    (pp_score r = s\<lparr>sc_pp := pp\<rparr> \<and> pp_best r = record_best_pp (s\<lparr>sc_pp := pp\<rparr>) best \<and>
     ok \<and> sc_pp s = 0 \<and> sc_passed s \<and> sc_ranked s \<and>
     mods_can_get_pp cfg validate ranked (mode_int (sc_mode s)) (sc_mods s) = Inr True \<and>
     (sc_mode s \<in> RELAX_AP_MODES \<longrightarrow> 0.75 \<le> sc_accuracy s))"
proof (cases "sc_pp s = 0")
  case True
  with assms obtain fl where fl: "fl_gate s = Inr fl"
    by (auto simp: process_score_pp_def py_bind_Inr_iff)
  show ?thesis
  proof (cases fl)
    case True
    with assms fl \<open>sc_pp s = 0\<close> show ?thesis by (auto simp: process_score_pp_def pp_unchanged_def)
  next
    case False
    with assms fl True obtain can where can: "can_get_pp cfg validate ranked s = Inr can"
      by (auto simp: process_score_pp_def py_bind_Inr_iff)
    show ?thesis
    proof (cases can)
      case True
      then have "sc_passed s \<and> sc_ranked s \<and>
          mods_can_get_pp cfg validate ranked (mode_int (sc_mode s)) (sc_mods s) = Inr True"
        using can by (simp add: can_get_pp_def split: if_splits)
      then show ?thesis
        using assms fl can True False \<open>sc_pp s = 0\<close>
        by (cases "sc_mode s \<in> RELAX_AP_MODES \<and> sc_accuracy s < 0.75"; cases ok)
          (auto simp: process_score_pp_def pp_unchanged_def Let_def)
    next
      case False
      with assms fl can \<open>\<not> fl\<close> \<open>sc_pp s = 0\<close> show ?thesis
        by (auto simp: process_score_pp_def pp_unchanged_def)
    qed
  qed
qed (use assms in \<open>auto simp: process_score_pp_def pp_unchanged_def\<close>)

text \<open>The pp step changes a score's pp, or the best-score table, only for a passed and
  ranked score without pp whose mods pass the pp check and which, on relax or autopilot,
  has at least 75 percent accuracy; then the score gets the calculator's pp. In every case
  no player's pp goes down.\<close>

theorem process_score_pp_gates:
  assumes "process_score_pp cfg validate ranked (pp, ok) s best = Inr r"
  shows "(sc_pp (pp_score r) \<noteq> sc_pp s \<or> pp_best r \<noteq> best \<longrightarrow>
       sc_pp s = 0 \<and> sc_passed s \<and> sc_ranked s \<and> ok \<and> sc_pp (pp_score r) = pp \<and>
       mods_can_get_pp cfg validate ranked (mode_int (sc_mode s)) (sc_mods s) = Inr True \<and>
       (sc_mode s \<in> RELAX_AP_MODES \<longrightarrow> 0.75 \<le> sc_accuracy s)) \<and>
    fst (calculate_user_pp best u m) \<le> fst (calculate_user_pp (pp_best r) u m)"
  using process_score_pp_cases [OF assms] user_pp_mono [OF record_best_pp_reach, of best u m "s\<lparr>sc_pp := pp\<rparr>"]
  by auto

lemma process_score_pp_gates_witness:
  "fst (calculate_user_pp sample_best 7 OSU) \<le> fst (calculate_user_pp
     (sample_best @ [best_of_score (sample_score\<lparr>sc_beatmap := 50, sc_pp := 120\<rparr>)]) 7 OSU)"
proof -
  let ?s = "sample_score\<lparr>sc_beatmap := 50\<rparr>"
  have "process_score_pp cfg validate ranked (120, True) ?s sample_best =
      Inr (pp_unchanged (?s\<lparr>sc_pp := 120\<rparr>) (sample_best @ [best_of_score (?s\<lparr>sc_pp := 120\<rparr>)]))"
    for cfg validate ranked
    by (simp add: process_score_pp_def sample_score_def RELAX_AP_MODES_def OSU_STANDARD_MODES_def
        record_best_pp_def get_user_best_pp_in_beatmap_def sample_best_def mods_can_get_pp_def fl_gate_def
        can_get_pp_def Let_def)
  from process_score_pp_gates [OF this [of undefined undefined undefined], of 7 OSU] show ?thesis
    by (simp add: pp_unchanged_def)
qed

end
