(* ===== verification/Leaderboard.thy ===== *)
theory Leaderboard
  imports Calculator KeepBest
begin

text \<open>
  The leaderboards of a map (\<^verbatim>\<open>src/app/database/score.py\<close>): the table of best scores by total
  that \<^verbatim>\<open>_process_statistics\<close> maintains, the filter \<^verbatim>\<open>_score_where\<close>, the paged query of
  \<^verbatim>\<open>get_leaderboard\<close>, and positions. An ORM row is updated or deleted as the row object, so a
  row is found again by equality. Rows of equal total keep their insertion order in a sorted
  query.
\<close>

section \<open>Best rows of a user\<close>

definition by_total_desc :: "total_best list \<Rightarrow> total_best list" where
  "by_total_desc rows = sort_key (\<lambda>r. - tb_total r) rows"

definition first_row :: "total_best list \<Rightarrow> total_best option" where
  "first_row rows = (case rows of [] \<Rightarrow> None | r # _ \<Rightarrow> Some r)"

text \<open>\<^verbatim>\<open>JSON_CONTAINS(mods, :w) AND JSON_CONTAINS(:w, mods)\<close>.\<close>

definition same_mods :: "string list \<Rightarrow> string list \<Rightarrow> bool" where
  "same_mods a b \<longleftrightarrow> set b \<subseteq> set a \<and> set a \<subseteq> set b"

definition get_user_best_score_in_beatmap ::
  "total_best list \<Rightarrow> int \<Rightarrow> int \<Rightarrow> game_mode option \<Rightarrow> total_best option" where
  "get_user_best_score_in_beatmap tbl beatmap user mode =
     first_row (by_total_desc (filter (\<lambda>r.
       (case mode of None \<Rightarrow> True | Some m \<Rightarrow> tb_mode r = m) \<and> tb_beatmap r = beatmap \<and> tb_user r = user) tbl))"

definition get_user_best_score_with_mod_in_beatmap ::
  "total_best list \<Rightarrow> int \<Rightarrow> int \<Rightarrow> string list \<Rightarrow> game_mode option \<Rightarrow> total_best option" where
  "get_user_best_score_with_mod_in_beatmap tbl beatmap user mods mode =
     first_row (by_total_desc (filter (\<lambda>r.
       (case mode of None \<Rightarrow> True | Some m \<Rightarrow> tb_mode r = m) \<and> tb_beatmap r = beatmap \<and> tb_user r = user \<and>
       same_mods (tb_mods r) mods) tbl))"

section \<open>Recording a score\<close>

fun replace_row :: "'a \<Rightarrow> 'a \<Rightarrow> 'a list \<Rightarrow> 'a list" where
  "replace_row old new [] = []"
| "replace_row old new (x # xs) = (if x = old then new # xs else x # replace_row old new xs)"

definition total_best_of :: "score_row \<Rightarrow> total_best" where
  "total_best_of s =
     \<lparr>tb_user = sc_user s, tb_score = sc_id s, tb_beatmap = sc_beatmap s, tb_mode = sc_mode s,
      tb_total = sc_total_score s, tb_mods = mod_to_save (sc_mods s), tb_rank = sc_rank s\<rparr>"

definition take_over :: "score_row \<Rightarrow> total_best \<Rightarrow> total_best" where
  "take_over s r = r\<lparr>tb_total := sc_total_score s, tb_rank := sc_rank s, tb_score := sc_id s\<rparr>"

text \<open>The four cases of \<^verbatim>\<open>_process_statistics\<close>; \<open>difference\<close> is that of the display scores.\<close>

definition update_total_best ::
  "score_row \<Rightarrow> int \<Rightarrow> total_best option \<Rightarrow> total_best option \<Rightarrow> total_best list \<Rightarrow> total_best list" where
  "update_total_best s difference prev prev_mod tbl =
     (case (prev, prev_mod) of
        (Some p, Some pm) \<Rightarrow>
          if tb_score p = tb_score pm then
            (if 0 < difference then replace_row p (take_over s p) tbl else tbl)
          else
            let tbl = (if 0 < difference then remove1 p tbl else tbl)
            in if 0 < sc_total_score s - tb_total pm then replace_row pm (take_over s pm) tbl else tbl
      | _ \<Rightarrow> tbl @ [total_best_of s])"

text \<open>A passed score on a map with a leaderboard; the display score of the previous best row is
  that of the score it points to.\<close>

definition submit_total_best ::
  "config \<Rightarrow> (int \<Rightarrow> score_row option) \<Rightarrow> score_row \<Rightarrow> total_best list \<Rightarrow> total_best list" where
  "submit_total_best cfg scores s tbl =
     (let prev = get_user_best_score_in_beatmap tbl (sc_beatmap s) (sc_user s) (Some (sc_mode s));
          prev_mod = get_user_best_score_with_mod_in_beatmap tbl (sc_beatmap s) (sc_user s)
                       (mod_to_save (sc_mods s)) (Some (sc_mode s));
          previous_display = (case prev of None \<Rightarrow> 0 | Some p \<Rightarrow>
             (case scores (tb_score p) of None \<Rightarrow> 0 | Some ps \<Rightarrow> display_score cfg ps))
      in update_total_best s (display_score cfg s - previous_display) prev prev_mod tbl)"

section \<open>The filter of a leaderboard\<close>

datatype leaderboard_type = GLOBAL | FRIENDS | COUNTRY | TEAM

text \<open>What the filter reads of the other tables: restrictions, follows, countries and teams.\<close>

record social =
  restricted :: "int \<Rightarrow> bool"
  follows :: "int \<Rightarrow> int \<Rightarrow> bool"
  country_of :: "int \<Rightarrow> string"
  team_of :: "int \<Rightarrow> int option"

definition base_mode :: "game_mode \<Rightarrow> game_mode" where
  "base_mode m = (case m of OSURX \<Rightarrow> OSU | OSUAP \<Rightarrow> OSU | TAIKORX \<Rightarrow> TAIKO | FRUITSRX \<Rightarrow> FRUITS | _ \<Rightarrow> m)"

definition global_gamemodes_including_automation :: "config \<Rightarrow> game_mode \<Rightarrow> game_mode list" where
  "global_gamemodes_including_automation cfg base =
     uniq_first [base, to_special_mode cfg base [''RX''], to_special_mode cfg base [''AP'']]"

definition mode_where :: "config \<Rightarrow> leaderboard_type \<Rightarrow> game_mode \<Rightarrow> string list \<Rightarrow> total_best \<Rightarrow> bool" where
  "mode_where cfg typ mode mods r =
     (if typ = GLOBAL \<and> mods = []
      then tb_mode r \<in> set (global_gamemodes_including_automation cfg (base_mode mode))
      else tb_mode r = mode)"

definition mods_where :: "string list \<Rightarrow> total_best \<Rightarrow> bool" where
  "mods_where mods r =
     (if mods = [] then True
      else let automation = filter (\<lambda>m. m = ''RX'' \<or> m = ''AP'') mods
           in if automation \<noteq> [] then set automation \<subseteq> set (tb_mods r) else same_mods (tb_mods r) mods)"

definition score_where ::
  "config \<Rightarrow> social \<Rightarrow> leaderboard_type \<Rightarrow> int \<Rightarrow> game_mode \<Rightarrow> string list \<Rightarrow> int option \<Rightarrow> (total_best \<Rightarrow> bool) option" where
  "score_where cfg soc typ beatmap mode mods user =
     (let people = (case typ of
            GLOBAL \<Rightarrow> Some (\<lambda>_. True)
          | FRIENDS \<Rightarrow> map_option (\<lambda>u r. follows soc u (tb_user r)) user
          | COUNTRY \<Rightarrow> map_option (\<lambda>u r. country_of soc (tb_user r) = country_of soc u) user
          | TEAM \<Rightarrow> (case user of
                None \<Rightarrow> Some (\<lambda>_. True)
              | Some u \<Rightarrow> (case team_of soc u of
                    None \<Rightarrow> Some (\<lambda>_. True)
                  | Some t \<Rightarrow> Some (\<lambda>r. team_of soc (tb_user r) = Some t))))
      in map_option (\<lambda>p r. tb_beatmap r = beatmap \<and> \<not> restricted soc (tb_user r) \<and>
           mode_where cfg typ mode mods r \<and> p r \<and> mods_where mods r) people)"

section \<open>The paged leaderboard\<close>

text \<open>One page: the rows below the lowest total seen, best first, at most \<open>limit\<close>.\<close>

definition page :: "total_best list \<Rightarrow> int \<Rightarrow> nat \<Rightarrow> total_best list" where
  "page rows max_score limit = take limit (by_total_desc (filter (\<lambda>r. tb_total r < max_score) rows))"

text \<open>The loop over a page: the row shown for each user in the order users appear, how many
  rows were another row of a user already seen, and the lowest total.\<close>

fun read_page :: "total_best list \<Rightarrow> (int \<times> total_best) list \<Rightarrow> nat \<Rightarrow> int \<Rightarrow> (int \<times> total_best) list \<times> nat \<times> int" where
  "read_page [] scores extra max_score = (scores, extra, max_score)"
| "read_page (r # rs) scores extra max_score =
     (case map_of scores (tb_user r) of
        Some old \<Rightarrow> read_page rs (if tb_total r > tb_total old then dict_set scores (tb_user r) r else scores)
                      (extra + 1) (min max_score (tb_total r))
      | None \<Rightarrow> read_page rs (dict_set scores (tb_user r) r) extra (min max_score (tb_total r)))"

lemma read_page_max: "snd (snd (read_page rs scores extra m)) \<le> m"
  "r \<in> set rs \<Longrightarrow> snd (snd (read_page rs scores extra m)) \<le> tb_total r"
  by (induction rs scores extra m rule: read_page.induct) (auto split: option.splits)

definition rows_below :: "total_best list \<Rightarrow> int \<Rightarrow> nat" where
  "rows_below rows m = length (filter (\<lambda>r. tb_total r < m) rows)"

lemma rows_below_mono: "m \<le> m' \<Longrightarrow> rows_below rows m \<le> rows_below rows m'"
  by (induction rows) (auto simp: rows_below_def)

lemma rows_below_less: "r \<in> set rows \<Longrightarrow> tb_total r < m' \<Longrightarrow> m \<le> tb_total r \<Longrightarrow> rows_below rows m < rows_below rows m'"
proof (induction rows)
  case (Cons a rows)
  have "rows_below rows m \<le> rows_below rows m'" using Cons.prems by (intro rows_below_mono) simp
  with Cons show ?case by (auto simp: rows_below_def)
qed simp

lemma page_rows: "r \<in> set (page rows m n) \<Longrightarrow> r \<in> set rows \<and> tb_total r < m"
  by (auto simp: page_def by_total_desc_def dest: in_set_takeD)

lemma read_page_progress:
  assumes "read_page (page rows m n) scores 0 m = (scores', extra, m')"
  shows "m' \<le> m \<and> (page rows m n \<noteq> [] \<longrightarrow> rows_below rows m' < rows_below rows m) \<and>
    (page rows m n = [] \<longrightarrow> extra = 0)"
proof -
  have "m' \<le> m" using read_page_max(1) [of "page rows m n" scores 0 m] assms by simp
  moreover have "rows_below rows m' < rows_below rows m" if "page rows m n \<noteq> []"
  proof -
    from that obtain r where r: "r \<in> set (page rows m n)" by (cases "page rows m n") auto
    with read_page_max(2) [OF r, of scores 0 m] assms have "m' \<le> tb_total r" by simp
    then show ?thesis using page_rows [OF r] by (intro rows_below_less) auto
  qed
  ultimately show ?thesis using assms by auto
qed

function board_loop :: "total_best list \<Rightarrow> nat \<Rightarrow> int \<Rightarrow> (int \<times> total_best) list \<Rightarrow> (int \<times> total_best) list" where
  "board_loop rows limit max_score scores =
     (if 0 < limit then
        (case read_page (page rows max_score limit) scores 0 max_score of
           (scores, extra_need, max_score) \<Rightarrow> board_loop rows extra_need max_score scores)
      else scores)"
  by pat_completeness auto

termination
proof (relation "measures [\<lambda>(rows, limit, m, _). rows_below rows m, \<lambda>(rows, limit, m, _). limit]", goal_cases)
  case (2 rows limit m scores scores' y extra m')
  then have eq: "read_page (page rows m limit) scores 0 m = (scores', extra, m')" by simp
  show ?case
    using read_page_progress [OF eq] rows_below_mono [of m' m rows] 2(1)
    by (cases "page rows m limit = []") (auto simp: le_less)
qed simp

declare board_loop.simps [simp del]

definition sys_maxsize :: int where "sys_maxsize = 2 ^ 63 - 1"

definition get_leaderboard ::
  "config \<Rightarrow> social \<Rightarrow> total_best list \<Rightarrow> int \<Rightarrow> game_mode \<Rightarrow> leaderboard_type \<Rightarrow> string list \<Rightarrow> int option \<Rightarrow> nat
     \<Rightarrow> total_best list \<times> total_best option \<times> int" where
  "get_leaderboard cfg soc tbl beatmap mode typ mods user limit =
     (let mode = to_special_mode cfg mode mods in
      case score_where cfg soc typ beatmap mode mods user of
        None \<Rightarrow> ([], None, 0)
      | Some wheres \<Rightarrow>
          let rows = filter wheres tbl;
              count = int (card (tb_user ` set rows));
              shown = by_total_desc (map snd (board_loop rows limit sys_maxsize []))
          in case user of
               None \<Rightarrow> (shown, None, count)
             | Some u \<Rightarrow>
                 let mine = first_row (by_total_desc (filter (\<lambda>r. tb_user r = u \<and> tb_beatmap r = beatmap \<and>
                              mode_where cfg typ mode mods r \<and> mods_where mods r) tbl))
                 in case mine of
                      None \<Rightarrow> (shown, None, count)
                    | Some r \<Rightarrow> (if r \<in> set shown then shown else shown @ [r], Some r, count))"

text \<open>\<^verbatim>\<open>get_score_position_by_id\<close>.\<close>

definition get_score_position_by_id ::
  "config \<Rightarrow> social \<Rightarrow> total_best list \<Rightarrow> int \<Rightarrow> int \<Rightarrow> game_mode \<Rightarrow> int option \<Rightarrow> leaderboard_type \<Rightarrow> string list \<Rightarrow> int" where
  "get_score_position_by_id cfg soc tbl beatmap sid mode user typ mods =
     (case score_where cfg soc typ beatmap mode mods user of
        None \<Rightarrow> 0
      | Some wheres \<Rightarrow>
          (case find (\<lambda>r. tb_score r = sid) tbl of
             None \<Rightarrow> 0
           | Some mine \<Rightarrow>
               int (card (tb_user ` set (filter (\<lambda>r. wheres r \<and> tb_total r > tb_total mine) tbl))) + 1))"

text \<open>\<^verbatim>\<open>get_best_id\<close>: the place of a score among its owner's best scores by pp.\<close>

definition get_best_id :: "best_score list \<Rightarrow> int \<Rightarrow> nat option" where
  "get_best_id best sid =
     (case find (\<lambda>b. bs_score b = sid) best of
        None \<Rightarrow> None
      | Some b \<Rightarrow> Some (length (filter (\<lambda>x. bs_user x = bs_user b \<and> bs_mode x = bs_mode b \<and>
            (bs_pp x > bs_pp b \<or> bs_pp x = bs_pp b \<and> bs_score x < sid)) best) + 1))"

text \<open>First places: rows of a user that no row of the map and mode beats.\<close>

definition is_first_place :: "total_best list \<Rightarrow> total_best \<Rightarrow> bool" where
  "is_first_place tbl r \<longleftrightarrow>
     \<not> list_ex (\<lambda>x. tb_beatmap x = tb_beatmap r \<and> tb_mode x = tb_mode r \<and> tb_total x > tb_total r) tbl"

definition get_user_first_scores ::
  "total_best list \<Rightarrow> int \<Rightarrow> game_mode \<Rightarrow> nat \<Rightarrow> nat \<Rightarrow> int option \<Rightarrow> total_best list" where
  "get_user_first_scores tbl user mode limit skip cursor =
     take limit (drop skip (sort_key (\<lambda>r. - tb_score r) (filter (\<lambda>r. tb_user r = user \<and> tb_mode r = mode \<and>
       is_first_place tbl r \<and> (case cursor of None \<Rightarrow> True | Some c \<Rightarrow> c = 0 \<or> tb_score r < c)) tbl)))"

definition get_user_first_score_count :: "total_best list \<Rightarrow> int \<Rightarrow> game_mode \<Rightarrow> int" where
  "get_user_first_score_count tbl user mode =
     int (length (filter (\<lambda>r. tb_user r = user \<and> tb_mode r = mode \<and> is_first_place tbl r) tbl))"

section \<open>The best total of a user on a map\<close>

type_synonym total_key = "int \<times> int \<times> game_mode"

definition total_key :: "total_best \<Rightarrow> total_key" where
  "total_key r = (tb_user r, tb_beatmap r, tb_mode r)"

definition key_of_score :: "score_row \<Rightarrow> total_key" where
  "key_of_score s = (sc_user s, sc_beatmap s, sc_mode s)"

definition key_rows :: "total_key \<Rightarrow> total_best list \<Rightarrow> total_best list" where
  "key_rows k tbl = filter (\<lambda>r. total_key r = k) tbl"

definition best_row :: "total_key \<Rightarrow> total_best list \<Rightarrow> total_best list" where
  "best_row k tbl = take 1 (by_total_desc (key_rows k tbl))"

lemma set_by_total_desc [simp]: "set (by_total_desc rows) = set rows"
  by (simp add: by_total_desc_def)

lemma by_total_desc_Nil [simp]: "by_total_desc rows = [] \<longleftrightarrow> rows = []"
  by (metis list.set(1) set_by_total_desc set_empty)

lemma by_total_desc_sorted: "sorted_wrt (\<lambda>a b. tb_total b \<le> tb_total a) (by_total_desc rows)"
proof -
  have "sorted (map (\<lambda>r. - tb_total r) (by_total_desc rows))" by (simp add: by_total_desc_def)
  then show ?thesis by (simp add: sorted_wrt_map)
qed

lemma first_row_best:
  "first_row (by_total_desc rows) = Some p \<Longrightarrow> p \<in> set rows \<and> (\<forall>r \<in> set rows. tb_total r \<le> tb_total p)"
proof -
  assume "first_row (by_total_desc rows) = Some p"
  then obtain rest where L: "by_total_desc rows = p # rest"
    by (auto simp: first_row_def split: list.splits)
  have "set rows = set (p # rest)" by (metis L set_by_total_desc)
  moreover have "sorted_wrt (\<lambda>a b. tb_total b \<le> tb_total a) (p # rest)" by (metis L by_total_desc_sorted)
  ultimately show ?thesis by auto
qed

lemma first_row_None: "first_row (by_total_desc rows) = None \<longleftrightarrow> rows = []"
proof -
  have "first_row xs = None \<longleftrightarrow> xs = []" for xs by (cases xs) (simp_all add: first_row_def)
  then show ?thesis by simp
qed

lemma best_row_total:
  "map tb_total (best_row k tbl) =
     (if key_rows k tbl = [] then [] else [Max (tb_total ` set (key_rows k tbl))])"
proof (cases "by_total_desc (key_rows k tbl)")
  case (Cons p rest)
  then have p: "first_row (by_total_desc (key_rows k tbl)) = Some p" by (simp add: first_row_def)
  then have "Max (tb_total ` set (key_rows k tbl)) = tb_total p"
    using first_row_best [OF p] by (intro Max_eqI) auto
  moreover have "key_rows k tbl \<noteq> []" using first_row_best [OF p] by auto
  ultimately show ?thesis using Cons by (simp add: best_row_def)
qed (simp add: best_row_def)

lemma previous_best_row:
  "get_user_best_score_in_beatmap tbl (sc_beatmap s) (sc_user s) (Some (sc_mode s)) =
     first_row (by_total_desc (key_rows (key_of_score s) tbl))"
proof -
  have "(\<lambda>r. tb_mode r = sc_mode s \<and> tb_beatmap r = sc_beatmap s \<and> tb_user r = sc_user s) =
        (\<lambda>r. total_key r = key_of_score s)"
    by (auto simp: total_key_def key_of_score_def)
  then show ?thesis by (simp add: get_user_best_score_in_beatmap_def key_rows_def)
qed

lemma previous_mod_row:
  "get_user_best_score_with_mod_in_beatmap tbl (sc_beatmap s) (sc_user s) mods (Some (sc_mode s)) =
     first_row (by_total_desc (filter (\<lambda>r. same_mods (tb_mods r) mods) (key_rows (key_of_score s) tbl)))"
proof -
  have "(\<lambda>r. tb_mode r = sc_mode s \<and> tb_beatmap r = sc_beatmap s \<and> tb_user r = sc_user s \<and> same_mods (tb_mods r) mods) =
        (\<lambda>r. same_mods (tb_mods r) mods \<and> total_key r = key_of_score s)"
    by (auto simp: total_key_def key_of_score_def)
  then show ?thesis by (simp add: get_user_best_score_with_mod_in_beatmap_def key_rows_def conj_commute)
qed

lemma replace_row_set: "old \<in> set xs \<Longrightarrow> new \<in> set (replace_row old new xs)"
  "x \<in> set xs \<Longrightarrow> x \<noteq> old \<Longrightarrow> x \<in> set (replace_row old new xs)"
  "x \<in> set (replace_row old new xs) \<Longrightarrow> x = new \<or> x \<in> set xs"
  by (induction xs) (auto split: if_splits)

lemma filter_replace_other: "\<not> P old \<Longrightarrow> \<not> P new \<Longrightarrow> filter P (replace_row old new xs) = filter P xs"
  by (induction xs) auto

lemma take_over_sel [simp]: "total_key (take_over s r) = total_key r" "tb_total (take_over s r) = sc_total_score s"
  "tb_mods (take_over s r) = tb_mods r" "tb_score (take_over s r) = sc_id s" "tb_rank (take_over s r) = sc_rank s"
  by (simp_all add: take_over_def total_key_def)

lemma total_best_of_sel [simp]: "total_key (total_best_of s) = key_of_score s"
  "tb_total (total_best_of s) = sc_total_score s" "tb_score (total_best_of s) = sc_id s"
  "tb_rank (total_best_of s) = sc_rank s"
  by (simp_all add: total_best_of_def total_key_def key_of_score_def)

text \<open>Recording with the difference of the totals, which is what the standardised scoring mode
  uses.\<close>

definition submit_standardised :: "score_row \<Rightarrow> total_best list \<Rightarrow> total_best list" where
  "submit_standardised s tbl =
     (let prev = first_row (by_total_desc (key_rows (key_of_score s) tbl));
          prev_mod = first_row (by_total_desc
            (filter (\<lambda>r. same_mods (tb_mods r) (mod_to_save (sc_mods s))) (key_rows (key_of_score s) tbl)))
      in update_total_best s (sc_total_score s - (case prev of None \<Rightarrow> 0 | Some p \<Rightarrow> tb_total p)) prev prev_mod tbl)"

text \<open>What one recording does to the rows: other keys are untouched, only the score's own row is
  new, and the best row survives unless the score beats it.\<close>

lemma submit_standardised_other:
  assumes "k \<noteq> key_of_score s"
  shows "key_rows k (submit_standardised s tbl) = key_rows k tbl"
proof -
  have key: "total_key r = key_of_score s"
    if "first_row (by_total_desc rows) = Some r" "set rows \<subseteq> set (key_rows (key_of_score s) tbl)" for r rows
    using first_row_best [OF that(1)] that(2) by (auto simp: key_rows_def)
  show ?thesis
    using assms unfolding submit_standardised_def Let_def update_total_best_def key_rows_def
    by (auto split: option.split simp: filter_replace_other filter_remove1
        dest!: key [unfolded key_rows_def])
qed

lemma submit_standardised_first:
  "key_rows (key_of_score s) tbl = [] \<Longrightarrow> submit_standardised s tbl = tbl @ [total_best_of s]"
  by (simp add: submit_standardised_def update_total_best_def first_row_def by_total_desc_def)

lemma submit_standardised_again:
  assumes p: "first_row (by_total_desc (key_rows (key_of_score s) tbl)) = Some p"
  shows "\<forall>r \<in> set (key_rows (key_of_score s) (submit_standardised s tbl)).
           tb_total r = sc_total_score s \<or> r \<in> set (key_rows (key_of_score s) tbl)"
    and "tb_total p < sc_total_score s \<Longrightarrow>
           \<exists>r \<in> set (key_rows (key_of_score s) (submit_standardised s tbl)). tb_total r = sc_total_score s"
    and "sc_total_score s \<le> tb_total p \<Longrightarrow> p \<in> set (key_rows (key_of_score s) (submit_standardised s tbl))"
proof -
  let ?k = "key_of_score s" and ?n = "sc_total_score s"
  let ?rows = "key_rows ?k tbl"
  let ?pm = "first_row (by_total_desc (filter (\<lambda>r. same_mods (tb_mods r) (mod_to_save (sc_mods s))) ?rows))"
  have p_in: "p \<in> set tbl" "total_key p = ?k" and top: "\<And>r. r \<in> set ?rows \<Longrightarrow> tb_total r \<le> tb_total p"
    using first_row_best [OF p] by (auto simp: key_rows_def)
  have sub: "submit_standardised s tbl = update_total_best s (?n - tb_total p) (Some p) ?pm tbl"
    by (simp add: submit_standardised_def p Let_def)
  have "(\<forall>r \<in> set (key_rows ?k (submit_standardised s tbl)). tb_total r = ?n \<or> r \<in> set ?rows) \<and>
    (tb_total p < ?n \<longrightarrow> (\<exists>r \<in> set (key_rows ?k (submit_standardised s tbl)). tb_total r = ?n)) \<and>
    (?n \<le> tb_total p \<longrightarrow> p \<in> set (key_rows ?k (submit_standardised s tbl)))"
  proof (cases ?pm)
    case None
    then have "submit_standardised s tbl = tbl @ [total_best_of s]"
      by (simp add: sub update_total_best_def)
    then show ?thesis using p_in by (auto simp: key_rows_def)
  next
    case (Some pm)
    have pm: "pm \<in> set tbl" "total_key pm = ?k" "tb_total pm \<le> tb_total p"
      using first_row_best [OF Some] top by (auto simp: key_rows_def)
    show ?thesis
    proof (cases "tb_score p = tb_score pm")
      case True
      then have "submit_standardised s tbl =
          (if tb_total p < ?n then replace_row p (take_over s p) tbl else tbl)"
        by (simp add: sub Some update_total_best_def)
      then show ?thesis using p_in
        by (auto simp: key_rows_def dest: replace_row_set(3) intro: replace_row_set(1) bexI [of _ "take_over s p"])
    next
      case False
      then have ne: "p \<noteq> pm" by auto
      let ?t1 = "if tb_total p < ?n then remove1 p tbl else tbl"
      have sub2: "submit_standardised s tbl =
          (if tb_total pm < ?n then replace_row pm (take_over s pm) ?t1 else ?t1)"
        using False by (simp add: sub Some update_total_best_def)
      have pm1: "pm \<in> set ?t1" using pm(1) ne by simp
      have sub1: "set ?t1 \<subseteq> set tbl" using set_remove1_subset [of p tbl] by simp
      show ?thesis
      proof (intro conjI)
        show "\<forall>r \<in> set (key_rows ?k (submit_standardised s tbl)). tb_total r = ?n \<or> r \<in> set ?rows"
          using sub1 unfolding sub2 key_rows_def by (auto dest!: replace_row_set(3) split: if_splits)
        show "tb_total p < ?n \<longrightarrow> (\<exists>r \<in> set (key_rows ?k (submit_standardised s tbl)). tb_total r = ?n)"
        proof
          assume "tb_total p < ?n"
          then have "take_over s pm \<in> set (key_rows ?k (submit_standardised s tbl))"
            using pm pm1 unfolding sub2 key_rows_def by (auto intro: replace_row_set(1))
          then show "\<exists>r \<in> set (key_rows ?k (submit_standardised s tbl)). tb_total r = ?n"
            by (intro bexI [of _ "take_over s pm"]) simp_all
        qed
        show "?n \<le> tb_total p \<longrightarrow> p \<in> set (key_rows ?k (submit_standardised s tbl))"
          using p_in ne unfolding sub2 key_rows_def by (auto intro: replace_row_set(2))
      qed
    qed
  qed
  then show "\<forall>r \<in> set (key_rows ?k (submit_standardised s tbl)). tb_total r = ?n \<or> r \<in> set ?rows"
    "tb_total p < ?n \<Longrightarrow> \<exists>r \<in> set (key_rows ?k (submit_standardised s tbl)). tb_total r = ?n"
    "?n \<le> tb_total p \<Longrightarrow> p \<in> set (key_rows ?k (submit_standardised s tbl))"
    by blast+
qed

interpretation total_table: keep_best best_row tb_total key_of_score sc_total_score submit_standardised
proof (unfold_locales, goal_cases)
  case (1 k s t)
  then show ?case by (simp add: best_row_def submit_standardised_other)
next
  case (2 s t)
  then have "key_rows (key_of_score s) t = []" by (simp add: best_row_def)
  then show ?case
    by (simp add: best_row_total submit_standardised_first) (simp add: key_rows_def)
next
  case (3 s t r)
  then obtain rest where "by_total_desc (key_rows (key_of_score s) t) = r # rest"
    by (cases "by_total_desc (key_rows (key_of_score s) t)") (auto simp: best_row_def)
  then have r: "first_row (by_total_desc (key_rows (key_of_score s) t)) = Some r"
    by (simp add: first_row_def)
  let ?new = "key_rows (key_of_score s) (submit_standardised s t)"
  note after = submit_standardised_again [OF r]
  have best: "tb_total x \<le> tb_total r" if "x \<in> set (key_rows (key_of_score s) t)" for x
    using first_row_best [OF r] that by blast
  have "Max (tb_total ` set ?new) = max (tb_total r) (sc_total_score s)"
  proof (rule Max_eqI)
    show "y \<le> max (tb_total r) (sc_total_score s)" if "y \<in> tb_total ` set ?new" for y
      using that after(1) best by (auto simp: le_max_iff_disj)
    show "max (tb_total r) (sc_total_score s) \<in> tb_total ` set ?new"
      using after(2,3) by (cases "tb_total r < sc_total_score s") (force simp: max_def)+
  qed simp
  moreover have "?new \<noteq> []" using after(2,3) by (cases "tb_total r < sc_total_score s") auto
  ultimately show ?case by (simp add: best_row_total)
qed

text \<open>The score table answers for every row: the score a row points to has the row's total.\<close>

definition rows_backed :: "(int \<Rightarrow> score_row option) \<Rightarrow> total_best list \<Rightarrow> bool" where
  "rows_backed scores tbl \<longleftrightarrow> (\<forall>r \<in> set tbl. \<exists>s. scores (tb_score r) = Some s \<and> sc_total_score s = tb_total r)"

lemma update_total_best_rows:
  assumes "r \<in> set (update_total_best s d prev prev_mod tbl)"
  shows "r \<in> set tbl \<or> (tb_score r = sc_id s \<and> tb_total r = sc_total_score s \<and> tb_rank r = sc_rank s)"
proof (cases "\<exists>p pm. prev = Some p \<and> prev_mod = Some pm")
  case True
  then obtain p pm where both: "prev = Some p" "prev_mod = Some pm" by blast
  define t1 where "t1 = (if 0 < d then remove1 p tbl else tbl)"
  have t1: "x \<in> set tbl" if "x \<in> set t1" for x
    using that set_remove1_subset [of p tbl] by (auto simp: t1_def split: if_splits)
  have "r \<in> set (replace_row p (take_over s p) tbl) \<or> r \<in> set tbl \<or> r \<in> set (replace_row pm (take_over s pm) t1) \<or> r \<in> set t1"
  proof -
    have "update_total_best s d prev prev_mod tbl =
        (if tb_score p = tb_score pm then (if 0 < d then replace_row p (take_over s p) tbl else tbl)
         else if 0 < sc_total_score s - tb_total pm then replace_row pm (take_over s pm) t1 else t1)"
      unfolding both update_total_best_def prod.case option.case Let_def t1_def by (rule refl)
    with assms show ?thesis by (simp split: if_splits)
  qed
  then show ?thesis
    using replace_row_set(3) [of r p "take_over s p" tbl] replace_row_set(3) [of r pm "take_over s pm" t1] t1
    by auto
next
  case False
  then have "update_total_best s d prev prev_mod tbl = tbl @ [total_best_of s]"
    by (auto simp: update_total_best_def split: option.split)
  with assms show ?thesis by auto
qed

lemma submit_is_standardised:
  assumes "scoring_mode cfg = STANDARDISED" and backed: "rows_backed scores tbl"
  shows "submit_total_best cfg scores s tbl = submit_standardised s tbl"
proof -
  have display: "display_score cfg x = sc_total_score x" for x
    by (simp add: display_score_def get_display_score_def assms(1))
  let ?prev = "first_row (by_total_desc (key_rows (key_of_score s) tbl))"
  have "(case ?prev of None \<Rightarrow> 0 | Some p \<Rightarrow> (case scores (tb_score p) of None \<Rightarrow> 0 | Some ps \<Rightarrow> display_score cfg ps)) =
        (case ?prev of None \<Rightarrow> 0 | Some p \<Rightarrow> tb_total p)"
  proof (cases ?prev)
    case (Some p)
    then have "p \<in> set tbl" using first_row_best [OF Some] by (simp add: key_rows_def)
    then show ?thesis using backed by (auto simp: rows_backed_def Some display)
  qed simp
  then show ?thesis
    by (simp add: submit_total_best_def submit_standardised_def previous_best_row previous_mod_row display Let_def)
qed

lemma submit_keeps_backed:
  assumes "rows_backed scores tbl" and "scores (sc_id s) = Some s"
  shows "rows_backed scores (submit_total_best cfg scores s tbl)"
  unfolding rows_backed_def
proof
  fix r
  assume "r \<in> set (submit_total_best cfg scores s tbl)"
  then have "r \<in> set tbl \<or> (tb_score r = sc_id s \<and> tb_total r = sc_total_score s \<and> tb_rank r = sc_rank s)"
    unfolding submit_total_best_def Let_def by (rule update_total_best_rows)
  then show "\<exists>s. scores (tb_score r) = Some s \<and> sc_total_score s = tb_total r"
    using assms by (auto simp: rows_backed_def)
qed

lemma submits_are_standardised:
  assumes "scoring_mode cfg = STANDARDISED" and "rows_backed scores tbl"
    and "\<And>s. s \<in> set ss \<Longrightarrow> scores (sc_id s) = Some s"
  shows "fold (submit_total_best cfg scores) ss tbl = fold submit_standardised ss tbl"
  using assms(2,3)
proof (induction ss arbitrary: tbl)
  case (Cons s ss)
  then have "rows_backed scores (submit_total_best cfg scores s tbl)"
    by (intro submit_keeps_backed) simp_all
  with Cons show ?case by (simp add: submit_is_standardised [OF assms(1)])
qed simp

text \<open>C6: with standardised scores, the table that a sequence of passed scores leaves on maps
  with a leaderboard has, for each user, map and mode, as its best row the greatest total
  submitted, whatever mods the scores were played with.\<close>

theorem leaderboard_row_is_maximum:
  assumes "scoring_mode cfg = STANDARDISED"
    and "\<And>s. s \<in> set ss \<Longrightarrow> scores (sc_id s) = Some s"
  shows "map tb_total (best_row k (fold (submit_total_best cfg scores) ss [])) =
    (case map sc_total_score (filter (\<lambda>s. key_of_score s = k) ss) of
       [] \<Rightarrow> []
     | t # ts \<Rightarrow> [Max (set (t # ts))])"
proof -
  have "fold (submit_total_best cfg scores) ss [] = fold submit_standardised ss []"
    using assms by (intro submits_are_standardised) (simp_all add: rows_backed_def)
  moreover have "best_row k [] = []" by (simp add: best_row_def key_rows_def by_total_desc_def)
  ultimately show ?thesis
    using total_table.keeps_maximum [of k "[]" ss] by (simp add: foldl_max_Max split: list.splits)
qed

definition std_config :: config where
  "std_config = \<lparr>enable_rx = True, enable_ap = True, server_authoritative_total_score = False,
     enable_all_beatmap_leaderboard = False, enable_all_beatmap_pp = False,
     scoring_mode = STANDARDISED, check_ruleset_version = True\<rparr>"

definition hd_mod :: api_mod where "hd_mod = \<lparr>acronym = ''HD'', msettings = None\<rparr>"

definition play1 :: score_row where "play1 = sample_score\<lparr>sc_id := 1, sc_mods := [hd_mod], sc_total_score := 900\<rparr>"

definition play2 :: score_row where "play2 = sample_score\<lparr>sc_id := 2, sc_total_score := 800\<rparr>"

definition play3 :: score_row where "play3 = sample_score\<lparr>sc_id := 3, sc_total_score := 950\<rparr>"

definition plays :: "int \<Rightarrow> score_row option" where
  "plays = [1 \<mapsto> play1, 2 \<mapsto> play2, 3 \<mapsto> play3]"

lemmas play_defs = play1_def play2_def play3_def

lemma plays_ids: "s \<in> {play1, play2, play3} \<Longrightarrow> plays (sc_id s) = Some s"
  by (auto simp: plays_def play_defs)

lemma leaderboard_row_is_maximum_witness:
  "map tb_total (best_row (7, 42, OSU) (fold (submit_total_best std_config plays) [play1, play2, play3] [])) = [950]"
proof -
  have "map tb_total (best_row (7, 42, OSU) (fold (submit_total_best std_config plays) [play1, play2, play3] [])) =
    (case map sc_total_score (filter (\<lambda>s. key_of_score s = (7, 42, OSU)) [play1, play2, play3]) of
       [] \<Rightarrow> [] | t # ts \<Rightarrow> [Max (set (t # ts))])"
    by (rule leaderboard_row_is_maximum) (use plays_ids in \<open>auto simp: std_config_def\<close>)
  then show ?thesis by (simp add: play_defs sample_score_def key_of_score_def)
qed

section \<open>What becomes of the other mod combinations\<close>

text \<open>When a user who has rows for two mod combinations on a map beats the better one with
  the mods of the other, the better row is deleted: if it was the only row of its mods,
  the user then has no row for them, although a score with them was passed.\<close>

theorem overtaken_mods_lose_their_row:
  assumes std: "scoring_mode cfg = STANDARDISED" and backed: "rows_backed scores tbl"
    and p: "get_user_best_score_in_beatmap tbl (sc_beatmap s) (sc_user s) (Some (sc_mode s)) = Some p"
    and pm: "get_user_best_score_with_mod_in_beatmap tbl (sc_beatmap s) (sc_user s)
               (mod_to_save (sc_mods s)) (Some (sc_mode s)) = Some pm"
    and other: "tb_score p \<noteq> tb_score pm" "tb_total p < sc_total_score s" "\<not> same_mods (tb_mods pm) (tb_mods p)"
    and only: "filter (\<lambda>r. same_mods (tb_mods r) (tb_mods p)) (key_rows (key_of_score s) tbl) = [p]"
  shows "get_user_best_score_with_mod_in_beatmap (submit_total_best cfg scores s tbl)
           (sc_beatmap s) (sc_user s) (tb_mods p) (Some (sc_mode s)) = None"
proof -
  have p': "first_row (by_total_desc (key_rows (key_of_score s) tbl)) = Some p"
    using p by (simp add: previous_best_row)
  have pm': "first_row (by_total_desc (filter (\<lambda>r. same_mods (tb_mods r) (mod_to_save (sc_mods s)))
      (key_rows (key_of_score s) tbl))) = Some pm"
    using pm by (simp add: previous_mod_row)
  have pm_in: "pm \<in> set tbl" "tb_total pm \<le> tb_total p"
    using first_row_best [OF pm'] first_row_best [OF p'] by (auto simp: key_rows_def)
  have "submit_total_best cfg scores s tbl = replace_row pm (take_over s pm) (remove1 p tbl)"
    using other pm_in(2)
    by (simp add: submit_is_standardised [OF std backed] submit_standardised_def p' pm' update_total_best_def)
  then have "filter (\<lambda>r. same_mods (tb_mods r) (tb_mods p))
      (key_rows (key_of_score s) (submit_total_best cfg scores s tbl)) =
      filter (\<lambda>r. same_mods (tb_mods r) (tb_mods p) \<and> total_key r = key_of_score s) (remove1 p tbl)"
    using other(3) by (simp add: key_rows_def filter_replace_other conj_commute)
  also have "\<dots> = remove1 p (filter (\<lambda>r. same_mods (tb_mods r) (tb_mods p)) (key_rows (key_of_score s) tbl))"
    using first_row_best [OF p']
    by (simp add: filter_remove1 key_rows_def conj_commute same_mods_def)
  also have "\<dots> = []" by (simp add: only)
  finally show ?thesis by (simp add: previous_mod_row first_row_None)
qed

definition two_rows :: "total_best list" where
  "two_rows = [total_best_of play1, total_best_of play2]"

lemma mod_to_save_samples: "mod_to_save (sc_mods play1) = [''HD'']" "mod_to_save (sc_mods play2) = []"
  "mod_to_save (sc_mods play3) = []"
  by (simp_all add: play_defs sample_score_def hd_mod_def mod_to_save_def)

lemma two_rows_reached: "fold (submit_total_best std_config plays) [play1, play2] [] = two_rows"
proof -
  have "fold (submit_total_best std_config plays) [play1, play2] [] = fold submit_standardised [play1, play2] []"
    by (rule submits_are_standardised) (use plays_ids in \<open>auto simp: std_config_def rows_backed_def\<close>)
  also have "\<dots> = two_rows"
    by (simp add: submit_standardised_def two_rows_def key_rows_def by_total_desc_def first_row_def
        update_total_best_def total_best_of_def total_key_def key_of_score_def same_mods_def
        mod_to_save_samples)
  finally show ?thesis .
qed

lemma overtaken_mods_lose_their_row_witness:
  "get_user_best_score_with_mod_in_beatmap (submit_total_best std_config plays play3 two_rows) 42 7 [''HD''] (Some OSU) = None"
proof -
  have "get_user_best_score_with_mod_in_beatmap (submit_total_best std_config plays play3 two_rows)
      (sc_beatmap play3) (sc_user play3) (tb_mods (total_best_of play1)) (Some (sc_mode play3)) = None"
  proof (rule overtaken_mods_lose_their_row [where pm = "total_best_of play2"])
    show "rows_backed plays two_rows"
      by (simp add: rows_backed_def two_rows_def plays_ids play_defs plays_def)
    show "get_user_best_score_in_beatmap two_rows (sc_beatmap play3) (sc_user play3) (Some (sc_mode play3)) = Some (total_best_of play1)"
      by (simp add: get_user_best_score_in_beatmap_def two_rows_def by_total_desc_def first_row_def total_best_of_def)
        (simp add: play_defs sample_score_def)
    show "get_user_best_score_with_mod_in_beatmap two_rows (sc_beatmap play3) (sc_user play3)
        (mod_to_save (sc_mods play3)) (Some (sc_mode play3)) = Some (total_best_of play2)"
      by (simp add: get_user_best_score_with_mod_in_beatmap_def two_rows_def by_total_desc_def first_row_def
          total_best_of_def mod_to_save_samples same_mods_def) (simp add: play_defs sample_score_def)
    show "filter (\<lambda>r. same_mods (tb_mods r) (tb_mods (total_best_of play1))) (key_rows (key_of_score play3) two_rows)
        = [total_best_of play1]"
      by (simp add: two_rows_def key_rows_def total_key_def key_of_score_def total_best_of_def
          mod_to_save_samples same_mods_def) (simp add: play_defs sample_score_def)
  qed (simp_all add: std_config_def total_best_of_def mod_to_save_samples same_mods_def,
       simp_all add: play_defs sample_score_def)
  then show ?thesis by (simp add: total_best_of_def mod_to_save_samples) (simp add: play_defs sample_score_def)
qed

section \<open>The paged query against one sorted pass\<close>

text \<open>The reference: every user's best row, best first, in one pass over all rows.\<close>

fun add_rows :: "(int \<times> total_best) list \<Rightarrow> total_best list \<Rightarrow> (int \<times> total_best) list" where
  "add_rows acc [] = acc"
| "add_rows acc (r # rs) =
     add_rows (if map_of acc (tb_user r) = None then acc @ [(tb_user r, r)] else acc) rs"

definition best_per_user :: "total_best list \<Rightarrow> (int \<times> total_best) list" where
  "best_per_user rows = add_rows [] (by_total_desc rows)"

lemma add_rows_append: "add_rows acc (a @ b) = add_rows (add_rows acc a) b"
  by (induction acc a rule: add_rows.induct) auto

lemma add_rows_prefix: "prefix acc (add_rows acc rs)"
proof (induction acc rs rule: add_rows.induct)
  case (2 acc r rs)
  then show ?case by (auto split: if_splits dest: append_prefixD)
qed simp

lemma dict_set_new: "map_of d k = None \<Longrightarrow> dict_set d k v = d @ [(k, v)]"
  by (induction d k v rule: dict_set.induct) (auto split: if_splits)

lemma read_page_desc:
  assumes "sorted_wrt (\<lambda>a b. tb_total b < tb_total a) rs"
    and "\<And>u o'. (u, o') \<in> set scores \<Longrightarrow> \<forall>r \<in> set rs. tb_total r < tb_total o'"
    and "read_page rs scores extra m = (scores', extra', m')"
  shows "scores' = add_rows scores rs \<and> length (add_rows scores rs) + extra' = length scores + length rs + extra \<and>
    m' = (if rs = [] then m else min m (tb_total (last rs)))"
  using assms
proof (induction rs arbitrary: scores extra m)
  case (Cons r rs)
  have better: "tb_total x < tb_total r" if "x \<in> set rs" for x using Cons.prems(1) that by simp
  have last: "(if rs = [] then min m (tb_total r) else min (min m (tb_total r)) (tb_total (last rs))) =
      min m (tb_total (last (r # rs)))"
    using better [of "last rs"] by auto
  show ?case
  proof (cases "map_of scores (tb_user r)")
    case None
    have "scores' = add_rows (scores @ [(tb_user r, r)]) rs \<and>
        length (add_rows (scores @ [(tb_user r, r)]) rs) + extra' = length (scores @ [(tb_user r, r)]) + length rs + extra \<and>
        m' = (if rs = [] then min m (tb_total r) else min (min m (tb_total r)) (tb_total (last rs)))"
      using Cons.prems None better by (intro Cons.IH) (auto simp: dict_set_new)
    with None last show ?thesis by simp
  next
    case (Some old)
    then have "tb_total r < tb_total old" using Cons.prems(2) [of "tb_user r" old] by (auto dest: map_of_SomeD)
    then have "scores' = add_rows scores rs \<and>
        length (add_rows scores rs) + extra' = length scores + length rs + (extra + 1) \<and>
        m' = (if rs = [] then min m (tb_total r) else min (min m (tb_total r)) (tb_total (last rs)))"
      using Cons.prems Some by (intro Cons.IH) auto
    with Some last show ?thesis by simp
  qed
qed simp

lemma add_rows_from: "(u, r) \<in> set (add_rows acc rs) \<Longrightarrow> (u, r) \<in> set acc \<or> r \<in> set rs"
  by (induction acc rs rule: add_rows.induct) (auto split: if_splits)

lemma filter_below_drop:
  assumes "sorted_wrt (\<lambda>a b. tb_total b < tb_total a) L" and "n < length L"
  shows "filter (\<lambda>r. tb_total r < tb_total (L ! n)) L = drop (Suc n) L"
proof -
  have "filter (\<lambda>r. tb_total r < tb_total (L ! n)) (take (Suc n) L) = []"
  proof (rule filter_False, intro ballI)
    fix r
    assume "r \<in> set (take (Suc n) L)"
    then obtain i where "i \<le> n" "r = L ! i" by (auto simp: in_set_conv_nth less_Suc_eq_le)
    then show "\<not> tb_total r < tb_total (L ! n)"
      using sorted_wrt_nth_less [OF assms(1), of i n] assms(2) by (cases "i = n") auto
  qed
  moreover have "filter (\<lambda>r. tb_total r < tb_total (L ! n)) (drop (Suc n) L) = drop (Suc n) L"
    using assms by (auto simp: filter_id_conv in_set_conv_nth sorted_wrt_iff_nth_less)
  ultimately show ?thesis by (metis append_Nil append_take_drop_id filter_append)
qed

lemma by_total_desc_filter: "by_total_desc (filter P rows) = filter P (by_total_desc rows)"
  by (simp add: by_total_desc_def filter_sort)

lemma board_loop_spec:
  "sorted_wrt (\<lambda>a b. tb_total b < tb_total a) (by_total_desc rows) \<Longrightarrow>
    filter (\<lambda>r. tb_total r < m) (by_total_desc rows) = drop n (by_total_desc rows) \<Longrightarrow>
    scores = add_rows [] (take n (by_total_desc rows)) \<Longrightarrow>
    length scores + limit \<le> target \<Longrightarrow>
    length scores + limit = target \<or> length (by_total_desc rows) \<le> n \<Longrightarrow>
    board_loop rows limit m scores = take target (best_per_user rows)"
proof (induction rows limit m scores arbitrary: n rule: board_loop.induct)
  case (1 rows limit m scores)
  let ?L = "by_total_desc rows"
  note strict = "1.prems"(1)
  show ?case
  proof (cases "0 < limit")
    case False
    have "prefix scores (best_per_user rows)"
      unfolding best_per_user_def "1.prems"(3) by (metis add_rows_append add_rows_prefix append_take_drop_id)
    moreover have "scores = best_per_user rows" if "length ?L \<le> n"
      using that by (simp add: best_per_user_def "1.prems"(3))
    ultimately have "scores = take target (best_per_user rows)"
      using "1.prems"(4,5) False by (auto simp: prefix_def)
    with False show ?thesis by (simp add: board_loop.simps)
  next
    case True
    obtain scores' extra m' where rp: "read_page (page rows m limit) scores 0 m = (scores', extra, m')"
      by (metis prod_cases3)
    have page: "page rows m limit = take limit (drop n ?L)"
      by (simp add: page_def by_total_desc_filter "1.prems"(2))
    let ?P = "take limit (drop n ?L)"
    have "sorted_wrt (\<lambda>a b. tb_total b < tb_total a) ?P"
      by (rule sorted_wrt_take, rule sorted_wrt_drop, rule strict)
    moreover have "\<forall>r \<in> set ?P. tb_total r < tb_total x" if "(u, x) \<in> set scores" for u x
    proof -
      have "x \<in> set (take n ?L)" using that "1.prems"(3) add_rows_from [of u x "[]" "take n ?L"] by simp
      moreover have "sorted_wrt (\<lambda>a b. tb_total b < tb_total a) (take n ?L @ drop n ?L)" using strict by simp
      ultimately have "\<forall>r \<in> set (drop n ?L). tb_total r < tb_total x"
        unfolding sorted_wrt_append by blast
      then show ?thesis by (meson in_set_takeD)
    qed
    ultimately have res: "scores' = add_rows scores ?P" "length scores' + extra = length scores + length ?P"
      "m' = (if ?P = [] then m else min m (tb_total (last ?P)))"
      using read_page_desc [of ?P scores 0 m scores' extra m'] rp unfolding page by auto
    define n' where "n' = n + length ?P"
    have scores': "scores' = add_rows [] (take n' ?L)"
    proof -
      have "take (length (take limit xs)) xs = take limit xs" for xs :: "total_best list"
        by (metis append_eq_conv_conj append_take_drop_id)
      then have "take n' ?L = take n ?L @ ?P" unfolding n'_def take_add by blast
      then show ?thesis by (simp add: res(1) "1.prems"(3) add_rows_append)
    qed
    have below: "filter (\<lambda>r. tb_total r < m') ?L = drop n' ?L"
    proof (cases "?P = []")
      case True
      then have "length ?P = 0" by (simp only: list.size)
      then have "n' = n" by (simp only: n'_def add_0_right)
      moreover have "m' = m" using res(3) unfolding if_P [OF True] .
      ultimately show ?thesis using "1.prems"(2) by (simp only:)
    next
      case False
      then have lt: "n' - 1 < length ?L" "0 < n'" by (auto simp: n'_def)
      have last: "last ?P = ?L ! (n' - 1)"
        using False unfolding n'_def last_conv_nth [OF False] by (subst nth_take) (auto simp: min_def)
      have "last ?P \<in> set (filter (\<lambda>r. tb_total r < m) ?L)"
        unfolding "1.prems"(2) using last_in_set [OF False] by (rule in_set_takeD)
      then have "m' = tb_total (?L ! (n' - 1))" using False by (simp add: res(3) last min_def)
      then show ?thesis using filter_below_drop [OF strict lt(1)] lt(2) by simp
    qed
    have "board_loop rows extra m' scores' = take target (best_per_user rows)"
    proof (rule "1.IH" [OF True rp [symmetric] refl strict below scores'])
      show "length scores' + extra \<le> target" using res(2) "1.prems"(4) by simp
      show "length scores' + extra = target \<or> length ?L \<le> n'"
        using res(2) "1.prems"(5) by (auto simp: n'_def)
    qed
    with True rp show ?thesis by (simp add: board_loop.simps [of rows limit m scores])
  qed
qed

lemma add_rows_best:
  assumes "sorted_wrt (\<lambda>a b. tb_total b < tb_total a) rs"
  shows "map snd (add_rows acc rs) = map snd acc @
    filter (\<lambda>r. map_of acc (tb_user r) = None \<and> (\<forall>x \<in> set rs. tb_user x = tb_user r \<longrightarrow> tb_total x \<le> tb_total r)) rs"
  using assms
proof (induction acc rs rule: add_rows.induct)
  case (2 acc r rs)
  let ?best = "\<lambda>acc L y. map_of acc (tb_user y) = None \<and> (\<forall>x \<in> set L. tb_user x = tb_user y \<longrightarrow> tb_total x \<le> tb_total y)"
  have below: "y \<in> set rs \<Longrightarrow> tb_total y < tb_total r" for y using "2.prems" by simp
  have sorted: "sorted_wrt (\<lambda>a b. tb_total b < tb_total a) rs" using "2.prems" by simp
  show ?case
  proof (cases "map_of acc (tb_user r)")
    case None
    have "filter (?best (acc @ [(tb_user r, r)]) rs) rs = filter (?best acc (r # rs)) rs"
      by (rule filter_cong) (use below in \<open>force simp: map_add_def split: option.splits\<close>)+
    moreover have "?best acc (r # rs) r" using None below by force
    ultimately show ?thesis using 2 None sorted by simp
  next
    case (Some old)
    have "filter (?best acc rs) rs = filter (?best acc (r # rs)) rs"
      by (rule filter_cong) (use Some in auto)
    then show ?thesis using 2 Some sorted by simp
  qed
qed simp

text \<open>The reference: a row is shown if no row of its user has a greater total.\<close>

definition best_rows :: "total_best list \<Rightarrow> total_best list" where
  "best_rows rows = filter (\<lambda>r. list_all (\<lambda>x. tb_user x = tb_user r \<longrightarrow> tb_total x \<le> tb_total r) rows) (by_total_desc rows)"

definition reference_leaderboard ::
  "config \<Rightarrow> social \<Rightarrow> total_best list \<Rightarrow> int \<Rightarrow> game_mode \<Rightarrow> leaderboard_type \<Rightarrow> string list \<Rightarrow> int option \<Rightarrow> nat
     \<Rightarrow> total_best list" where
  "reference_leaderboard cfg soc tbl beatmap mode typ mods user limit =
     (case score_where cfg soc typ beatmap (to_special_mode cfg mode mods) mods user of
        None \<Rightarrow> []
      | Some wheres \<Rightarrow> take limit (best_rows (filter wheres tbl)))"

lemma by_total_desc_strict:
  assumes "distinct (map tb_total rows)"
  shows "sorted_wrt (\<lambda>a b. tb_total b < tb_total a) (by_total_desc rows)"
proof -
  have "distinct (map tb_total (by_total_desc rows))"
    using assms by (metis by_total_desc_def distinct_map distinct_sort set_sort)
  moreover have "sorted_wrt (\<lambda>a b. tb_total b \<le> tb_total a) (by_total_desc rows)"
    using sorted_sort_key [of "\<lambda>r. - tb_total r" rows] by (simp add: by_total_desc_def sorted_map)
  ultimately show ?thesis
    unfolding sorted_wrt_iff_nth_less
    by (metis (no_types, lifting) distinct_conv_nth length_map less_imp_not_eq2 nth_map order.not_eq_order_implies_strict
        order.strict_trans)
qed

lemma best_per_user_rows:
  assumes "distinct (map tb_total rows)"
  shows "map snd (best_per_user rows) = best_rows rows"
proof -
  have "set (by_total_desc rows) = set rows" by (simp add: by_total_desc_def)
  then show ?thesis
    by (simp add: best_per_user_def best_rows_def add_rows_best [OF by_total_desc_strict [OF assms]] list_all_iff)
qed

lemma strict_sorted_by_total: "sorted_wrt (\<lambda>a b. tb_total b < tb_total a) rs \<Longrightarrow> by_total_desc rs = rs"
  unfolding by_total_desc_def
  by (rule sort_key_id_if_sorted) (simp add: sorted_map, rule sorted_wrt_mono_rel [rotated], assumption, simp)

lemma board_loop_reference:
  assumes "distinct (map tb_total rows)" and "list_all (\<lambda>r. tb_total r < sys_maxsize) rows"
  shows "by_total_desc (map snd (board_loop rows limit sys_maxsize [])) = take limit (best_rows rows)"
proof -
  note strict = by_total_desc_strict [OF assms(1)]
  have "board_loop rows limit sys_maxsize [] = take limit (best_per_user rows)"
    by (rule board_loop_spec [OF strict, where n = 0])
      (use assms(2) in \<open>auto simp: list_all_iff by_total_desc_def filter_id_conv\<close>)
  then have "map snd (board_loop rows limit sys_maxsize []) = take limit (best_rows rows)"
    by (simp add: best_per_user_rows [OF assms(1), symmetric] take_map)
  moreover have "sorted_wrt (\<lambda>a b. tb_total b < tb_total a) (take limit (best_rows rows))"
    unfolding best_rows_def by (intro sorted_wrt_take sorted_wrt_filter strict)
  ultimately show ?thesis by (simp add: strict_sorted_by_total)
qed

text \<open>C7: when no two rows of the filtered table have the same total, the pages of
  \<^verbatim>\<open>get_leaderboard\<close> add up to one sorted pass: the first \<open>limit\<close> users' best rows, best first,
  and the asking user's own row at the end if it is not among them.\<close>

theorem paged_leaderboard_is_reference:
  assumes "score_where cfg soc typ beatmap (to_special_mode cfg mode mods) mods user = Some wheres"
    and "distinct (map tb_total (filter wheres tbl))"
    and "list_all (\<lambda>r. tb_total r < sys_maxsize) (filter wheres tbl)"
  shows "fst (get_leaderboard cfg soc tbl beatmap mode typ mods user limit) =
    (let shown = reference_leaderboard cfg soc tbl beatmap mode typ mods user limit
     in case fst (snd (get_leaderboard cfg soc tbl beatmap mode typ mods user limit)) of
          None \<Rightarrow> shown
        | Some own \<Rightarrow> if own \<in> set shown then shown else shown @ [own])"
  using board_loop_reference [OF assms(2,3)]
  by (simp add: get_leaderboard_def reference_leaderboard_def assms(1) Let_def split: option.split)

definition free_social :: social where
  "free_social = \<lparr>restricted = (\<lambda>_. False), follows = (\<lambda>_ _. False), country_of = (\<lambda>_. ''''), team_of = (\<lambda>_. None)\<rparr>"

definition board_row :: "int \<Rightarrow> int \<Rightarrow> int \<Rightarrow> total_best" where
  "board_row user sid t = \<lparr>tb_user = user, tb_score = sid, tb_beatmap = 42, tb_mode = OSU, tb_total = t,
     tb_mods = [], tb_rank = Rank_A\<rparr>"

lemma own_row_of_nobody: "fst (snd (get_leaderboard cfg soc tbl beatmap mode typ mods None limit)) = None"
  by (simp add: get_leaderboard_def Let_def split: option.split)

definition board_sample :: "total_best list" where
  "board_sample = [board_row 1 11 100, board_row 1 12 95, board_row 2 13 90, board_row 3 14 80]"

lemma paged_leaderboard_is_reference_witness:
  "fst (get_leaderboard std_config free_social board_sample 42 OSU GLOBAL [] None 2) =
    [board_row 1 11 100, board_row 2 13 90]"
proof -
  have mode: "to_special_mode std_config OSU [] = OSU" by code_simp
  have "score_where std_config free_social GLOBAL 42 (to_special_mode std_config OSU []) [] None =
      Some (\<lambda>r. tb_beatmap r = 42 \<and> tb_mode r \<in> set (global_gamemodes_including_automation std_config OSU))"
    by (simp add: score_where_def free_social_def mode_where_def mods_where_def mode base_mode_def)
  note where_ = this
  have rows: "filter (\<lambda>r. tb_beatmap r = 42 \<and> tb_mode r \<in> set (global_gamemodes_including_automation std_config OSU))
      board_sample = board_sample"
    by code_simp
  have "fst (get_leaderboard std_config free_social board_sample 42 OSU GLOBAL [] None 2) =
      reference_leaderboard std_config free_social board_sample 42 OSU GLOBAL [] None 2"
    using paged_leaderboard_is_reference [OF where_, of board_sample 2] unfolding rows
    by (simp add: own_row_of_nobody board_sample_def board_row_def sys_maxsize_def)
  also have "\<dots> = [board_row 1 11 100, board_row 2 13 90]"
    unfolding reference_leaderboard_def where_ option.case rows
    by (simp add: best_rows_def board_sample_def board_row_def by_total_desc_def)
  finally show ?thesis .
qed

text \<open>With equal totals the cursor of the next page steps over the rows that tie with the last
  row of a page: a user is missing from a leaderboard that has room for them.\<close>

lemma tied_row_is_dropped:
  "board_loop [board_row 1 11 100, board_row 1 12 90, board_row 2 13 90] 2 sys_maxsize [] = [(1, board_row 1 11 100)]"
  "best_rows [board_row 1 11 100, board_row 1 12 90, board_row 2 13 90] = [board_row 1 11 100, board_row 2 13 90]"
  by (simp_all add: board_loop.simps page_def by_total_desc_def board_row_def sys_maxsize_def best_rows_def)

lemma best_rows_users:
  assumes "distinct (map tb_total rows)"
  shows "inj_on tb_user (set (best_rows rows))"
proof (rule inj_onI)
  fix a b
  assume ab: "a \<in> set (best_rows rows)" "b \<in> set (best_rows rows)" "tb_user a = tb_user b"
  then have "tb_total a = tb_total b" by (force simp: best_rows_def list_all_iff by_total_desc_def)
  with ab show "a = b" using assms by (auto simp: best_rows_def by_total_desc_def distinct_map dest: inj_onD)
qed

lemma users_above:
  "tb_user ` {r \<in> set rows. t < tb_total r} = tb_user ` {r \<in> set (best_rows rows). t < tb_total r}"
proof (intro equalityI subsetI)
  fix u
  assume "u \<in> tb_user ` {r \<in> set rows. t < tb_total r}"
  then obtain r where r: "r \<in> set rows" "t < tb_total r" "u = tb_user r" by auto
  let ?mine = "{x \<in> set rows. tb_user x = u}"
  have "finite (tb_total ` ?mine)" "tb_total ` ?mine \<noteq> {}" using r by auto
  from Max_in [OF this] obtain b where b: "b \<in> ?mine" "tb_total b = Max (tb_total ` ?mine)" by force
  have top: "tb_total x \<le> tb_total b" if "x \<in> ?mine" for x using that b(2) by simp
  with b r have "b \<in> set (best_rows rows)" "t < tb_total b"
    by (auto simp: best_rows_def list_all_iff by_total_desc_def intro: less_le_trans)
  with b show "u \<in> tb_user ` {r \<in> set (best_rows rows). t < tb_total r}" by auto
qed (auto simp: best_rows_def by_total_desc_def)

text \<open>The position of a row that is its user's best among the rows of a leaderboard is its
  place, from one, on the sorted leaderboard of users' best rows.\<close>

theorem position_is_place_on_board:
  assumes "score_where cfg soc typ beatmap mode mods user = Some wheres"
    and "distinct (map tb_total (filter wheres tbl))"
    and "find (\<lambda>r. tb_score r = sid) tbl = Some mine"
    and "mine \<in> set (best_rows (filter wheres tbl))"
  shows "let place = get_score_position_by_id cfg soc tbl beatmap sid mode user typ mods
    in 1 \<le> place \<and> nat place \<le> length (best_rows (filter wheres tbl)) \<and>
       best_rows (filter wheres tbl) ! (nat place - 1) = mine"
proof -
  let ?rows = "filter wheres tbl" and ?board = "best_rows (filter wheres tbl)"
  have strict: "sorted_wrt (\<lambda>a b. tb_total b < tb_total a) ?board"
    unfolding best_rows_def by (intro sorted_wrt_filter by_total_desc_strict assms(2))
  from assms(4) obtain i where i: "i < length ?board" "?board ! i = mine" by (auto simp: in_set_conv_nth)
  have above: "{r \<in> set ?board. tb_total mine < tb_total r} = set (take i ?board)"
  proof (intro equalityI subsetI)
    fix r
    assume r: "r \<in> {r \<in> set ?board. tb_total mine < tb_total r}"
    then obtain j where j: "j < length ?board" "?board ! j = r" by (auto simp: in_set_conv_nth)
    have "j < i"
    proof (rule ccontr)
      assume "\<not> j < i"
      then have "j = i \<or> tb_total r < tb_total mine"
        using sorted_wrt_nth_less [OF strict, of i j] i j by (metis linorder_cases)
      with r i j show False by auto
    qed
    with i j show "r \<in> set (take i ?board)" by (auto simp: in_set_conv_nth)
  next
    fix r
    assume "r \<in> set (take i ?board)"
    then obtain j where "j < i" "r = ?board ! j" by (auto simp: in_set_conv_nth)
    with i sorted_wrt_nth_less [OF strict, of j i] show "r \<in> {r \<in> set ?board. tb_total mine < tb_total r}" by auto
  qed
  have "set (take i ?board) \<subseteq> set ?board" by (rule set_take_subset)
  then have inj: "inj_on tb_user (set (take i ?board))"
    using best_rows_users [OF assms(2)] by (rule inj_on_subset [rotated])
  have "distinct ?board"
    using assms(2) by (auto simp: best_rows_def by_total_desc_def distinct_map)
  then have count: "card (set (take i ?board)) = i" using i by (simp add: distinct_card)
  have "set (filter (\<lambda>r. wheres r \<and> tb_total mine < tb_total r) tbl) = {r \<in> set ?rows. tb_total mine < tb_total r}"
    by auto
  then have "get_score_position_by_id cfg soc tbl beatmap sid mode user typ mods = int i + 1"
    using users_above [of ?rows "tb_total mine"]
    by (simp add: get_score_position_by_id_def assms(1,3) above card_image [OF inj] count)
  with i show ?thesis by (simp add: Let_def nat_add_distrib)
qed

lemma position_is_place_on_board_witness:
  "best_rows board_sample ! (nat (get_score_position_by_id std_config free_social board_sample 42 13 OSU None GLOBAL []) - 1)
    = board_row 2 13 90"
proof -
  let ?w = "\<lambda>r. tb_beatmap r = 42 \<and> tb_mode r \<in> set (global_gamemodes_including_automation std_config OSU)"
  have where_: "score_where std_config free_social GLOBAL 42 OSU [] None = Some ?w"
    by (simp add: score_where_def free_social_def mode_where_def mods_where_def base_mode_def)
  have rows: "filter ?w board_sample = board_sample" by code_simp
  have "distinct (map tb_total board_sample)" "find (\<lambda>r. tb_score r = 13) board_sample = Some (board_row 2 13 90)"
    "board_row 2 13 90 \<in> set (best_rows board_sample)"
    by (simp_all add: board_sample_def board_row_def best_rows_def by_total_desc_def)
  then show ?thesis
    using position_is_place_on_board [OF where_, of board_sample 13 "board_row 2 13 90"]
    unfolding rows by (simp add: Let_def)
qed

end
