(* ===== verification/Submission.thy ===== *)
theory Submission
  imports Points PlayerPP Leaderboard Multiplier
begin

text \<open>
  What happens to a submitted score: the merging of repeated mods and the score row
  (\<^verbatim>\<open>process_score\<close>), and the statistics step with its counters, tables, points and pp
  (\<^verbatim>\<open>_process_statistics\<close>), both in \<^verbatim>\<open>src/app/database/score.py\<close>. The handlers are called with
  the score's own user. \<^verbatim>\<open>utcnow()\<close> and the month of \<^verbatim>\<open>date.today()\<close> are arguments; columns
  nothing modelled reads (replay flag, client version, map checksum) are left out.
\<close>

section \<open>State\<close>

record monthly_playcount =
  mp_user :: int
  mp_year :: nat
  mp_month :: nat
  mp_count :: int

record beatmap_playcount =
  bp_beatmap :: int
  bp_user :: int
  bp_playcount :: int

record score_token =
  tok_id :: int
  tok_user :: int
  tok_beatmap :: int
  tok_score :: "int option"
  tok_room :: "int option"
  tok_playlist_item :: "int option"
  tok_created_at :: moment

record map_row =
  map_length :: int
  map_status :: beatmap_status
  map_cs :: "real option"
  map_od :: "real option"

text \<open>What is published on Redis.\<close>

datatype message =
    Existed_time int int
  | User_invalidate int
  | Score_processed int
  | Zero_pp_pm int pp_skip

record game_db =
  gd_users :: "int list"
  gd_maps :: "int \<Rightarrow> map_row option"
  gd_tokens :: "score_token list"
  gd_scores :: "score_row list"
  gd_best :: "best_score list"
  gd_totals :: "total_best list"
  gd_stats :: "user_statistics list"
  gd_monthly :: "monthly_playcount list"
  gd_playcounts :: "beatmap_playcount list"
  gd_points :: points_db
  gd_pm_keys :: "int list"
  gd_messages :: "message list"
  gd_requeued :: "int list"

definition score_by_id :: "score_row list \<Rightarrow> int \<Rightarrow> score_row option" where
  "score_by_id scores sid = find (\<lambda>s. sc_id s = sid) scores"

section \<open>Repeated mods\<close>

text \<open>A mod required by a room and chosen by the player arrives twice; the entries are merged,
  and for a setting that both give, the first one wins.\<close>

fun merge_mods_loop :: "(string \<times> api_mod) list \<Rightarrow> api_mod list \<Rightarrow> (string \<times> api_mod) list" where
  "merge_mods_loop merged [] = merged"
| "merge_mods_loop merged (m # ms) =
     (case map_of merged (acronym m) of
        None \<Rightarrow> merge_mods_loop (dict_set merged (acronym m) m) ms
      | Some previous \<Rightarrow>
          let settings = dict_update (settings_of m) (settings_of previous)
          in merge_mods_loop
               (dict_set merged (acronym m)
                  (if settings \<noteq> [] then previous\<lparr>msettings := Some settings\<rparr> else previous)) ms)"

definition merge_mods :: "api_mod list \<Rightarrow> api_mod list" where
  "merge_mods mods =
     (let merged = merge_mods_loop [] mods
      in if length merged \<noteq> length mods then map snd merged else mods)"

section \<open>The score row\<close>

definition hit_count :: "statistics \<Rightarrow> hit_result \<Rightarrow> int" where
  "hit_count st r = (case map_of st r of None \<Rightarrow> 0 | Some n \<Rightarrow> n)"

text \<open>\<^verbatim>\<open>float(x or 5.0)\<close>: a circle size or difficulty of zero counts as missing.\<close>

definition stat_or_five :: "real option \<Rightarrow> real" where
  "stat_or_five x = (case x of None \<Rightarrow> 5 | Some v \<Rightarrow> if v = 0 then 5 else v)"

definition final_total_score :: "config \<Rightarrow> map_row \<Rightarrow> submission \<Rightarrow> api_mod list \<Rightarrow> py_error + int" where
  "final_total_score cfg bm info mods =
     (if server_authoritative_total_score cfg
      then recompute_total_score (sub_ruleset_id info) mods (sub_total_score_without_mods info)
             (stat_or_five (map_cs bm)) (stat_or_five (map_od bm))
      else Inr (sub_total_score info))"

definition make_score ::
  "moment \<Rightarrow> int \<Rightarrow> int \<Rightarrow> int \<Rightarrow> game_mode \<Rightarrow> api_mod list \<Rightarrow> bool \<Rightarrow> int \<Rightarrow> score_token \<Rightarrow> submission \<Rightarrow> score_row" where
  "make_score now sid user beatmap mode mods ranked total_score token info =
     \<lparr>sc_id = sid, sc_user = user, sc_beatmap = beatmap, sc_mode = mode, sc_mods = mods,
      sc_accuracy = sub_accuracy info, sc_max_combo = sub_max_combo info, sc_passed = sub_passed info,
      sc_rank = sub_rank info, sc_total_score = total_score,
      sc_total_score_without_mods = sub_total_score_without_mods info, sc_pp = 0, sc_ranked = ranked,
      sc_preserve = (if tok_room token \<noteq> None \<or> tok_playlist_item token \<noteq> None then True else sub_passed info),
      sc_processed = False, sc_pause_count = length (sub_pauses info),
      sc_started_at = tok_created_at token, sc_ended_at = now,
      n300 = hit_count (sub_statistics info) Hit_GREAT, n100 = hit_count (sub_statistics info) Hit_OK,
      n50 = hit_count (sub_statistics info) Hit_MEH, nmiss = hit_count (sub_statistics info) Hit_MISS,
      ngeki = hit_count (sub_statistics info) Hit_PERFECT, nkatu = hit_count (sub_statistics info) Hit_GOOD,
      nlarge_tick_miss = Some (hit_count (sub_statistics info) LARGE_TICK_MISS),
      nlarge_tick_hit = Some (hit_count (sub_statistics info) LARGE_TICK_HIT),
      nslider_tail_hit = Some (hit_count (sub_statistics info) SLIDER_TAIL_HIT),
      nsmall_tick_hit = Some (hit_count (sub_statistics info) SMALL_TICK_HIT),
      nlarge_bonus = Some (hit_count (sub_statistics info) LARGE_BONUS),
      nsmall_bonus = Some (hit_count (sub_statistics info) SMALL_BONUS),
      sc_maximum_statistics = sub_maximum_statistics info, sc_account_pp_delta = Some 0,
      sc_room_id = tok_room token, sc_playlist_item_id = tok_playlist_item token\<rparr>"

text \<open>The new row gets the next identifier, and the token is bound to it in the same commit.\<close>

definition next_score_id :: "score_row list \<Rightarrow> int" where
  "next_score_id scores = foldl max 0 (map sc_id scores) + 1"

definition bind_token :: "int \<Rightarrow> int \<Rightarrow> score_token list \<Rightarrow> score_token list" where
  "bind_token token sid tokens = map (\<lambda>t. if tok_id t = token then t\<lparr>tok_score := Some sid\<rparr> else t) tokens"

definition process_score ::
  "config \<Rightarrow> validator \<Rightarrow> ranked_mods \<Rightarrow> moment \<Rightarrow> int \<Rightarrow> int \<Rightarrow> bool \<Rightarrow> map_row \<Rightarrow> score_token \<Rightarrow> submission
     \<Rightarrow> game_db \<Rightarrow> py_error + score_row \<times> game_db" where
  "process_score cfg validate ranked_tbl now user beatmap ranked bm token info db =
     (let mods = merge_mods (sub_mods info) in
      py_bind (from_int (sub_ruleset_id info)) (\<lambda>base.
        let mode = to_special_mode cfg base (map acronym mods) in
        py_bind (mods_can_get_pp cfg validate ranked_tbl (mode_int mode) mods) (\<lambda>mods_ranked.
          py_bind (final_total_score cfg bm info mods) (\<lambda>total_score.
            let s = make_score now (next_score_id (gd_scores db)) user beatmap mode mods
                      (ranked \<and> mods_ranked) total_score token info
            in Inr (s, db\<lparr>gd_scores := gd_scores db @ [s],
                          gd_tokens := bind_token (tok_id token) (sc_id s) (gd_tokens db)\<rparr>)))))"

section \<open>Play time\<close>

definition get_play_length :: "score_row \<Rightarrow> int \<Rightarrow> py_error + int" where
  "get_play_length s beatmap_length =
     py_bind (get_speed_rate (sc_mods s)) (\<lambda>rate.
       let rate = (if rate \<le> 0 then 0.01 else rate);
           length = of_int beatmap_length / rate
       in Inr (py_int (min length (real (sc_ended_at s) - real (sc_started_at s)))))"

definition objects_hit :: "score_row \<Rightarrow> int" where
  "objects_hit s = n300 s + n100 s + n50 s + ngeki s + nkatu s + or_zero (nlarge_tick_hit s) +
     or_zero (nlarge_tick_miss s) + or_zero (nslider_tail_hit s) + or_zero (nsmall_tick_hit s)"

definition total_objects :: "statistics \<Rightarrow> int" where
  "total_objects st = sum_list (map snd (filter (\<lambda>(r, _). is_scorable r) st))"

definition calculate_playtime :: "score_row \<Rightarrow> int \<Rightarrow> py_error + int \<times> bool" where
  "calculate_playtime s beatmap_length =
     py_bind (get_play_length s beatmap_length) (\<lambda>total_length.
       Inr (total_length,
            sc_passed s \<or>
            (total_length > 8 \<and> sc_total_score s \<ge> 5000 \<and>
             real_of_int (objects_hit s) \<ge> min (0.1 * of_int (total_objects (sc_maximum_statistics s))) 20)))"

section \<open>The statistics step\<close>

text \<open>The two matches on a rank: the grade counters of a new best and of the one it replaces.\<close>

definition add_grade :: "int \<Rightarrow> rank \<Rightarrow> user_statistics \<Rightarrow> user_statistics" where
  "add_grade d r st =
     (case r of
        Rank_X \<Rightarrow> st\<lparr>grade_ss := grade_ss st + d\<rparr>
      | Rank_XH \<Rightarrow> st\<lparr>grade_ssh := grade_ssh st + d\<rparr>
      | Rank_S \<Rightarrow> st\<lparr>grade_s := grade_s st + d\<rparr>
      | Rank_SH \<Rightarrow> st\<lparr>grade_sh := grade_sh st + d\<rparr>
      | Rank_A \<Rightarrow> st\<lparr>grade_a := grade_a st + d\<rparr>
      | _ \<Rightarrow> st)"

definition new_best :: "score_row \<Rightarrow> int \<Rightarrow> total_best option \<Rightarrow> user_statistics \<Rightarrow> user_statistics" where
  "new_best s difference prev st =
     (let st = add_grade 1 (sc_rank s) st;
          st = (case prev of None \<Rightarrow> st | Some p \<Rightarrow> add_grade (- 1) (tb_rank p) st)
      in st\<lparr>ranked_score := ranked_score st + difference,
            level_current := calculate_score_to_level (us_total_score st),
            maximum_combo := max (maximum_combo st) (sc_max_combo s)\<rparr>)"

definition count_hits :: "score_row \<Rightarrow> user_statistics \<Rightarrow> user_statistics" where
  "count_hits s st =
     (let large_miss = or_zero (nlarge_tick_miss s); small_hit = or_zero (nsmall_tick_hit s);
          large_hit = or_zero (nlarge_tick_hit s);
          st = st\<lparr>count_100 := count_100 st + (n100 s + nkatu s),
                  count_300 := count_300 st + (n300 s + ngeki s),
                  count_50 := count_50 st + n50 s,
                  count_miss := count_miss st + nmiss s,
                  us_total_hits := us_total_hits st +
                    (n300 s + n100 s + n50 s + ngeki s + nkatu s + large_hit + large_miss + small_hit)\<rparr>
      in if sc_mode s \<in> {FRUITS, FRUITSRX}
         then st\<lparr>count_miss := count_miss st + large_miss, count_50 := count_50 st + small_hit,
                 count_100 := count_100 st + large_hit\<rparr>
         else st)"

definition process_beatmap_playcount :: "int \<Rightarrow> int \<Rightarrow> beatmap_playcount list \<Rightarrow> beatmap_playcount list" where
  "process_beatmap_playcount beatmap user tbl =
     (case find (\<lambda>p. bp_beatmap p = beatmap \<and> bp_user p = user) tbl of
        None \<Rightarrow> tbl @ [\<lparr>bp_beatmap = beatmap, bp_user = user, bp_playcount = 1\<rparr>]
      | Some _ \<Rightarrow> update_first (\<lambda>p. bp_beatmap p = beatmap \<and> bp_user p = user)
                    (\<lambda>p. p\<lparr>bp_playcount := bp_playcount p + 1\<rparr>) tbl)"

text \<open>The monthly row is created on the first score of a month even if the play does not
  count.\<close>

definition count_month :: "int \<Rightarrow> nat \<times> nat \<Rightarrow> bool \<Rightarrow> monthly_playcount list \<Rightarrow> monthly_playcount list" where
  "count_month user ym valid tbl =
     (let this = (\<lambda>m. mp_user m = user \<and> mp_year m = fst ym \<and> mp_month m = snd ym);
          played = (if valid then 1 else 0)
      in case find this tbl of
           None \<Rightarrow> tbl @ [\<lparr>mp_user = user, mp_year = fst ym, mp_month = snd ym, mp_count = played\<rparr>]
         | Some _ \<Rightarrow> update_first this (\<lambda>m. m\<lparr>mp_count := mp_count m + played\<rparr>) tbl)"

text \<open>The pp part: the account's new pp and accuracy, the gain of the score, milestones and the
  top-play award.\<close>

definition account_pp_gain :: "real \<Rightarrow> real \<Rightarrow> real option \<Rightarrow> real" where
  "account_pp_gain before after seen = max (or_zero seen) (max 0 (after - before))"

definition reward_pp ::
  "moment \<Rightarrow> best_score list \<Rightarrow> user_statistics list \<Rightarrow> score_row \<Rightarrow> real \<Rightarrow> real \<Rightarrow> points_db \<Rightarrow> points_db" where
  "reward_pp now best stats s pp_before pp points =
     (let points =
        (if pp_before < pp \<and> pp \<ge> of_int (min_list (map fst PP_MILESTONES))
         then award_pp_milestones now best (sc_user s) (sc_mode s) pp_before pp points else points)
      in if list_ex (\<lambda>b. bs_score b = sc_id s) best then
           let mine = filter (\<lambda>b. bs_user b = sc_user s \<and> bs_mode b = sc_mode s) best;
               better = int (length (filter (\<lambda>b. bs_pp b > sc_pp s) mine))
           in snd (award_top_play now (sc_user s) (better + 1) (int (length mine))
                (py_round (or_zero (sc_account_pp_delta s))) (sc_id s) (Some (sc_mode s))
                (is_main_mode stats (sc_user s) (sc_mode s) pp) points)
         else points)"

text \<open>Whether a map gives pp, counts for the ranked score, and has a leaderboard.\<close>

definition score_gates :: "config \<Rightarrow> beatmap_status \<Rightarrow> bool \<Rightarrow> bool \<times> bool \<times> bool" where
  "score_gates cfg status mods_ranked =
     ((has_pp status \<or> enable_all_beatmap_pp cfg) \<and> mods_ranked,
      (status_ranked status \<or> enable_all_beatmap_pp cfg) \<and> mods_ranked,
      (has_leaderboard status \<or> enable_all_beatmap_leaderboard cfg) \<and> mods_ranked)"

definition previous_display :: "config \<Rightarrow> score_row list \<Rightarrow> total_best option \<Rightarrow> int" where
  "previous_display cfg scores prev =
     (case prev of
        None \<Rightarrow> 0
      | Some p \<Rightarrow> (case score_by_id scores (tb_score p) of None \<Rightarrow> 0 | Some ps \<Rightarrow> display_score cfg ps))"

definition update_counters ::
  "score_row \<Rightarrow> int \<Rightarrow> int \<Rightarrow> bool \<Rightarrow> total_best option \<Rightarrow> int \<times> bool \<Rightarrow> user_statistics \<Rightarrow> user_statistics" where
  "update_counters s display difference ranked prev played st =
     (let st = st\<lparr>us_total_score := us_total_score st + display\<rparr>;
          st = (if 0 < difference \<and> sc_passed s \<and> ranked then new_best s difference prev st else st);
          st = (if sc_passed s then st\<lparr>last_played := Some (sc_ended_at s)\<rparr> else st);
          st = (if snd played then st\<lparr>play_count := play_count st + 1, play_time := play_time st + fst played\<rparr> else st)
      in count_hits s st)"

definition is_stats_of :: "score_row \<Rightarrow> user_statistics \<Rightarrow> bool" where
  "is_stats_of s st \<longleftrightarrow> us_user st = sc_user s \<and> us_mode st = sc_mode s"

definition put_stats :: "score_row \<Rightarrow> user_statistics \<Rightarrow> user_statistics list \<Rightarrow> user_statistics list" where
  "put_stats s st = update_first (is_stats_of s) (\<lambda>_. st)"

definition put_score :: "score_row \<Rightarrow> score_row list \<Rightarrow> score_row list" where
  "put_score s = update_first (\<lambda>x. sc_id x = sc_id s) (\<lambda>_. s)"

text \<open>The step without its pp part: the statistics row, the play counts, the leaderboard row.\<close>

definition record_play ::
  "config \<Rightarrow> nat \<times> nat \<Rightarrow> int \<Rightarrow> bool \<times> bool \<Rightarrow> int \<Rightarrow> score_row \<Rightarrow> user_statistics \<Rightarrow> game_db
     \<Rightarrow> py_error + user_statistics \<times> game_db" where
  "record_play cfg ym beatmap_length gates token s st db =
     (let (ranked, leaderboard) = gates;
          check = sc_passed s \<and> (ranked \<or> leaderboard);
          prev = (if check then get_user_best_score_in_beatmap (gd_totals db) (sc_beatmap s) (sc_user s) (Some (sc_mode s))
                  else None);
          prev_mod = (if check then get_user_best_score_with_mod_in_beatmap (gd_totals db) (sc_beatmap s) (sc_user s)
                        (mod_to_save (sc_mods s)) (Some (sc_mode s)) else None);
          display = display_score cfg s;
          difference = display - previous_display cfg (gd_scores db) prev
      in py_bind (calculate_playtime s beatmap_length) (\<lambda>played.
           let st = update_counters s display difference ranked prev played st in
           Inr (st, db\<lparr>
             gd_stats := put_stats s st (gd_stats db),
             gd_totals := (if sc_passed s \<and> leaderboard then update_total_best s difference prev prev_mod (gd_totals db)
                           else gd_totals db),
             gd_monthly := count_month (sc_user s) ym (snd played) (gd_monthly db),
             gd_playcounts := (if snd played then process_beatmap_playcount (sc_beatmap s) (sc_user s) (gd_playcounts db)
                               else gd_playcounts db),
             gd_messages := gd_messages db @ (if snd played then [Existed_time token (fst played)] else [])\<rparr>)))"

text \<open>The pp part.\<close>

definition record_pp :: "moment \<Rightarrow> score_row \<Rightarrow> user_statistics \<Rightarrow> game_db \<Rightarrow> score_row \<times> game_db" where
  "record_pp now s st db =
     (let (pp, acc) = calculate_user_pp (gd_best db) (us_user st) (sc_mode s);
          stats = put_stats s (st\<lparr>us_pp := pp, hit_accuracy := acc\<rparr>) (gd_stats db);
          s = s\<lparr>sc_account_pp_delta := Some (account_pp_gain (us_pp st) pp (sc_account_pp_delta s))\<rparr>
      in (s, db\<lparr>gd_stats := stats, gd_scores := put_score s (gd_scores db),
                gd_points := reward_pp now (gd_best db) stats s (us_pp st) pp (gd_points db)\<rparr>))"

definition process_statistics ::
  "config \<Rightarrow> validator \<Rightarrow> ranked_mods \<Rightarrow> moment \<Rightarrow> nat \<times> nat \<Rightarrow> int \<Rightarrow> int \<Rightarrow> beatmap_status \<Rightarrow> score_row \<Rightarrow> game_db
     \<Rightarrow> py_error + score_row \<times> game_db" where
  "process_statistics cfg validate ranked_tbl now ym token beatmap_length status s db =
     py_bind (mods_can_get_pp cfg validate ranked_tbl (mode_int (sc_mode s)) (sc_mods s)) (\<lambda>mods_ranked.
       let (pp, gates) = score_gates cfg status mods_ranked in
       case find (is_stats_of s) (gd_stats db) of
         None \<Rightarrow> Inl ValueError
       | Some st \<Rightarrow>
           py_bind (record_play cfg ym beatmap_length gates token s st db) (\<lambda>(st, db).
             Inr (if sc_passed s \<and> pp then record_pp now s st db else (s, db))))"

section \<open>Processing a score\<close>

definition DAILY_PLAY_MIN_TOTAL_SCORE :: int where "DAILY_PLAY_MIN_TOTAL_SCORE = 5000"

text \<open>The private message about a score that gave no pp is sent once per score.\<close>

definition warn_zero_pp :: "score_row \<Rightarrow> pp_skip option \<Rightarrow> game_db \<Rightarrow> game_db" where
  "warn_zero_pp s reason db =
     (case reason of
        None \<Rightarrow> db
      | Some r \<Rightarrow>
          if sc_id s \<in> set (gd_pm_keys db) then db
          else db\<lparr>gd_pm_keys := sc_id s # gd_pm_keys db, gd_messages := gd_messages db @ [Zero_pp_pm (sc_user s) r]\<rparr>)"

text \<open>Background jobs a handler leaves behind.\<close>

datatype task =
    Events_task int
  | Anticheat_task int
  | Process_user_task int int
  | Refresh_cache_task int game_mode
  | Achievements_task int

text \<open>\<^verbatim>\<open>process_user\<close> commits after the pp step, so an exception of the statistics step leaves
  the pp step done. The pp of the score is the answer of the calculator, an argument.\<close>

definition process_user ::
  "config \<Rightarrow> validator \<Rightarrow> ranked_mods \<Rightarrow> (score_row \<Rightarrow> real \<times> bool) \<Rightarrow> moment \<Rightarrow> nat \<times> nat \<Rightarrow> int \<Rightarrow> int
     \<Rightarrow> beatmap_status \<Rightarrow> score_row \<Rightarrow> game_db \<Rightarrow> (py_error + task list) \<times> game_db" where
  "process_user cfg validate ranked_tbl calc now ym token beatmap_length status s db =
     (let points = (if sc_passed s \<and> sc_ranked s \<and> sc_total_score s \<ge> DAILY_PLAY_MIN_TOTAL_SCORE
                    then snd (award_daily_play now (sc_user s) (Some (sc_mode s)) (gd_points db)) else gd_points db)
      in case process_score_pp cfg validate ranked_tbl (calc s) s (gd_best db) of
           Inl e \<Rightarrow> (Inl e, db)
         | Inr r \<Rightarrow>
             let s = pp_score r;
                 db = db\<lparr>gd_points := points, gd_best := pp_best r, gd_scores := put_score s (gd_scores db),
                         gd_requeued := gd_requeued db @ (if pp_requeued r then [sc_id s] else [])\<rparr>;
                 db = warn_zero_pp s (skip_reason r) db
             in case process_statistics cfg validate ranked_tbl now ym token beatmap_length status s db of
                  Inl e \<Rightarrow> (Inl e, db)
                | Inr (s, db) \<Rightarrow>
                    (Inr (Events_task (sc_id s) # (if sc_passed s then [Anticheat_task (sc_id s)] else [])),
                     db\<lparr>gd_scores := put_score (s\<lparr>sc_processed := True\<rparr>) (gd_scores db),
                        gd_messages := gd_messages db @ [User_invalidate (sc_user s), Score_processed (sc_id s)]\<rparr>))"

section \<open>Submitting a score\<close>

text \<open>\<^verbatim>\<open>_process_user\<close> (\<^verbatim>\<open>src/app/router/v2/score.py\<close>): nothing happens if the user, the score, its
  token or its map is gone.\<close>

definition process_user_job ::
  "config \<Rightarrow> validator \<Rightarrow> ranked_mods \<Rightarrow> (score_row \<Rightarrow> real \<times> bool) \<Rightarrow> moment \<Rightarrow> nat \<times> nat \<Rightarrow> int \<Rightarrow> int
     \<Rightarrow> game_db \<Rightarrow> (py_error + task list) \<times> game_db" where
  "process_user_job cfg validate ranked_tbl calc now ym sid user db =
     (if user \<notin> set (gd_users db) then (Inr [], db)
      else case score_by_id (gd_scores db) sid of
        None \<Rightarrow> (Inr [], db)
      | Some s \<Rightarrow>
          (case find (\<lambda>t. tok_score t = Some sid) (gd_tokens db) of
             None \<Rightarrow> (Inr [], db)
           | Some t \<Rightarrow>
               if tok_id t = 0 then (Inr [], db)
               else case gd_maps db (sc_beatmap s) of
                 None \<Rightarrow> (Inr [], db)
               | Some bm \<Rightarrow>
                   process_user cfg validate ranked_tbl calc now ym (tok_id t) (map_length bm) (map_status bm) s db))"

text \<open>\<^verbatim>\<open>_process_user_background\<close> logs an exception and drops it.\<close>

definition process_user_background ::
  "config \<Rightarrow> validator \<Rightarrow> ranked_mods \<Rightarrow> (score_row \<Rightarrow> real \<times> bool) \<Rightarrow> moment \<Rightarrow> nat \<times> nat \<Rightarrow> int \<Rightarrow> int
     \<Rightarrow> game_db \<Rightarrow> game_db" where
  "process_user_background cfg validate ranked_tbl calc now ym sid user db =
     snd (process_user_job cfg validate ranked_tbl calc now ym sid user db)"

text \<open>Who submits, and what the server finds about it: a restriction, the administrator flag, the
  message of a maintenance in progress, whether another request holds the token's lock, and
  the score the token has after waiting for it.\<close>

record request =
  rq_user :: int
  rq_restricted :: bool
  rq_admin :: bool
  rq_maintenance :: "string option"
  rq_locked :: bool
  rq_after_wait :: "int option"

definition user_score :: "score_row list \<Rightarrow> int \<Rightarrow> int \<Rightarrow> score_row option" where
  "user_score scores sid user = find (\<lambda>s. sc_id s = sid \<and> sc_user s = user) scores"

text \<open>The end of the handler reads the local \<^verbatim>\<open>score_id\<close>, which only the branch that creates a
  score assigns: \<open>created\<close> is None in the branches that find one.\<close>

definition respond :: "int option \<Rightarrow> score_row \<Rightarrow> int \<Rightarrow> task list \<Rightarrow> py_error + score_row \<times> task list" where
  "respond created s user tasks =
     (case created of
        None \<Rightarrow> Inl UnboundLocalError
      | Some _ \<Rightarrow> Inr (s, tasks @ [Refresh_cache_task user (sc_mode s), Achievements_task (sc_id s)]))"

text \<open>A passed score is processed before the answer; the background pass follows when that
  failed, or when no leaderboard row points at the score.\<close>

definition submit_new ::
  "config \<Rightarrow> validator \<Rightarrow> ranked_mods \<Rightarrow> (score_row \<Rightarrow> real \<times> bool) \<Rightarrow> moment \<Rightarrow> nat \<times> nat \<Rightarrow> request
     \<Rightarrow> submission \<Rightarrow> score_token \<Rightarrow> game_db \<Rightarrow> (py_error + score_row \<times> task list) \<times> game_db" where
  "submit_new cfg validate ranked_tbl calc now ym rq info token db =
     (case gd_maps db (tok_beatmap token) of
        None \<Rightarrow> (Inl (HTTPException 404 ''Beatmap not found''), db)
      | Some bm \<Rightarrow>
          (case process_score cfg validate ranked_tbl now (rq_user rq) (tok_beatmap token)
                  (has_pp (map_status bm) \<or> enable_all_beatmap_pp cfg) bm token info db of
             Inl e \<Rightarrow> (Inl e, db)
           | Inr (s, db) \<Rightarrow>
               let job = Process_user_task (sc_id s) (rq_user rq) in
               if sc_passed s then
                 let (r, db) = process_user_job cfg validate ranked_tbl calc now ym (sc_id s) (rq_user rq) db;
                     tasks = (case r of
                         Inl _ \<Rightarrow> [job]
                       | Inr started \<Rightarrow> started @
                           (if list_ex (\<lambda>b. tb_score b = sc_id s) (gd_totals db) then [] else [job]))
                 in (respond (Some (sc_id s))
                       (case score_by_id (gd_scores db) (sc_id s) of None \<Rightarrow> s | Some s' \<Rightarrow> s') (rq_user rq) tasks, db)
               else (respond (Some (sc_id s)) s (rq_user rq) [job], db)))"

definition submit_score ::
  "config \<Rightarrow> validator \<Rightarrow> ranked_mods \<Rightarrow> (score_row \<Rightarrow> real \<times> bool) \<Rightarrow> moment \<Rightarrow> nat \<times> nat \<Rightarrow> request
     \<Rightarrow> submission \<Rightarrow> int \<Rightarrow> game_db \<Rightarrow> (py_error + score_row \<times> task list) \<times> game_db" where
  "submit_score cfg validate ranked_tbl calc now ym rq info token db =
     (if rq_restricted rq then
        (Inl (HTTPException 403 ''You are restricted from logging in or submitting scores on Torii.''), db)
      else if \<not> rq_admin rq \<and> rq_maintenance rq \<noteq> None then
        (Inl (HTTPException 503 (if the (rq_maintenance rq) \<noteq> [] then the (rq_maintenance rq)
           else ''Score submission is temporarily disabled for maintenance.'')), db)
      else
        let info = (if sub_passed info then info else info\<lparr>sub_rank := Rank_F\<rparr>) in
        case find (\<lambda>t. tok_id t = token) (gd_tokens db) of
          None \<Rightarrow> (Inl (HTTPException 404 ''Score token not found''), db)
        | Some t \<Rightarrow>
            if tok_user t \<noteq> rq_user rq then (Inl (HTTPException 404 ''Score token not found''), db)
            else if (case tok_score t of None \<Rightarrow> False | Some sid \<Rightarrow> sid \<noteq> 0) then
              (case user_score (gd_scores db) (the (tok_score t)) (rq_user rq) of
                 None \<Rightarrow> (Inl (HTTPException 404 ''Score not found''), db)
               | Some s \<Rightarrow> (respond None s (rq_user rq) [], db))
            else if rq_locked rq then
              (case rq_after_wait rq of
                 None \<Rightarrow> (Inl (HTTPException 409 ''Score submission already in progress''), db)
               | Some sid \<Rightarrow>
                   if sid = 0 then (Inl (HTTPException 409 ''Score submission already in progress''), db)
                   else case user_score (gd_scores db) sid (rq_user rq) of
                     None \<Rightarrow> (Inl (HTTPException 409 ''Score not found after concurrent submission''), db)
                   | Some s \<Rightarrow> (respond None s (rq_user rq) [], db))
            else submit_new cfg validate ranked_tbl calc now ym rq info t db)"

section \<open>Repeated mods: properties\<close>

lemma uniq_first_snoc: "uniq_first (xs @ [x]) = (if x \<in> set xs then uniq_first xs else uniq_first xs @ [x])"
  by (induction xs) auto

text \<open>The setting the first entry that has it gives a mod.\<close>

definition first_setting :: "api_mod list \<Rightarrow> string \<Rightarrow> string \<Rightarrow> setting option" where
  "first_setting mods a k = map_of (concat (map settings_of (filter (\<lambda>m. acronym m = a) mods))) k"

definition settings_distinct :: "api_mod list \<Rightarrow> bool" where
  "settings_distinct mods \<longleftrightarrow> list_all (\<lambda>m. distinct (map fst (settings_of m))) mods"

lemma no_entry: "a \<notin> acronym ` set mods \<Longrightarrow> filter (\<lambda>m. acronym m = a) mods = []"
  by (induction mods) auto

lemma first_setting_snoc:
  "first_setting (old @ [m]) a k =
     (if acronym m = a \<and> first_setting old a k = None then map_of (settings_of m) k else first_setting old a k)"
  by (auto simp: first_setting_def map_add_def split: option.split)

definition merged_ok :: "api_mod list \<Rightarrow> (string \<times> api_mod) list \<Rightarrow> bool" where
  "merged_ok old merged \<longleftrightarrow>
     map fst merged = uniq_first (map acronym old) \<and>
     (\<forall>(a, m) \<in> set merged. acronym m = a \<and> distinct (map fst (settings_of m)) \<and>
        map_of (settings_of m) = first_setting old a)"

lemma dict_set_keys: "map_of d k \<noteq> None \<Longrightarrow> map fst (dict_set d k v) = map fst d"
  by (induction d k v rule: dict_set.induct) auto

lemma dict_set_entries: "kv \<in> set (dict_set d k v) \<Longrightarrow> kv = (k, v) \<or> kv \<in> set d"
  by (induction d k v rule: dict_set.induct) (auto split: if_splits)

lemma dict_set_other: "distinct (map fst d) \<Longrightarrow> (k', v') \<in> set (dict_set d k v) \<Longrightarrow> k' = k \<Longrightarrow> v' = v"
  by (induction d k v rule: dict_set.induct) (auto split: if_splits simp: image_iff)

lemma merged_ok_new:
  assumes "merged_ok old merged" "map_of merged (acronym m) = None" "distinct (map fst (settings_of m))"
  shows "merged_ok (old @ [m]) (dict_set merged (acronym m) m)"
proof -
  have new: "acronym m \<notin> acronym ` set old"
    using assms(1,2) by (metis (no_types, lifting) map_of_eq_None_iff merged_ok_def set_map set_uniq_first)
  then have none: "first_setting old (acronym m) = (\<lambda>k. None)"
    by (simp add: first_setting_def fun_eq_iff no_entry)
  have ok: "acronym x = a \<and> distinct (map fst (settings_of x)) \<and> map_of (settings_of x) = first_setting (old @ [m]) a"
    if "(a, x) \<in> set merged" for a x
  proof -
    have "a \<in> set (map fst merged)" using that by force
    moreover have "map fst merged = uniq_first (map acronym old)" using assms(1) by (simp add: merged_ok_def)
    ultimately have "a \<in> acronym ` set old" by simp
    then have "acronym m \<noteq> a" using new by auto
    then have "first_setting (old @ [m]) a = first_setting old a" by (simp add: fun_eq_iff first_setting_snoc)
    with that assms(1) show ?thesis unfolding merged_ok_def by fastforce
  qed
  have fresh: "map_of (settings_of m) = first_setting (old @ [m]) (acronym m)"
    by (simp add: fun_eq_iff first_setting_snoc none)
  have "map fst (merged @ [(acronym m, m)]) = uniq_first (map acronym (old @ [m]))"
    using assms(1) new by (simp add: merged_ok_def uniq_first_snoc)
  with ok fresh show ?thesis
    unfolding dict_set_new [OF assms(2)] merged_ok_def using assms(3) by auto
qed

lemma merged_ok_again:
  assumes ok: "merged_ok old merged" and prev: "map_of merged (acronym m) = Some p"
    and distinct: "distinct (map fst (settings_of m))"
  defines "s \<equiv> dict_update (settings_of m) (settings_of p)"
  shows "merged_ok (old @ [m]) (dict_set merged (acronym m) (if s \<noteq> [] then p\<lparr>msettings := Some s\<rparr> else p))"
proof -
  let ?p = "if s \<noteq> [] then p\<lparr>msettings := Some s\<rparr> else p"
  have p: "(acronym m, p) \<in> set merged" using prev by (rule map_of_SomeD)
  then have p': "acronym p = acronym m" "distinct (map fst (settings_of p))"
    "map_of (settings_of p) = first_setting old (acronym m)"
    using ok by (auto simp: merged_ok_def)
  have keys: "map fst merged = uniq_first (map acronym old)" using ok by (simp add: merged_ok_def)
  have "acronym m \<in> set (map fst merged)" using p by force
  then have seen: "acronym m \<in> acronym ` set old" by (simp only: keys set_uniq_first set_map)
  have s: "map_of s k = first_setting (old @ [m]) (acronym m) k" for k
    unfolding s_def map_of_dict_update [OF p'(2)]
    by (simp add: p'(3) map_add_def first_setting_snoc split: option.split)
  have "s = [] \<Longrightarrow> settings_of p = []"
    using s p'(3) by (metis first_setting_snoc map_of_eq_empty_iff)
  then have new: "acronym ?p = acronym m" "settings_of ?p = s"
    using p'(1) by (simp_all add: settings_of_def)
  have "distinct (map fst s)" unfolding s_def using distinct by (rule distinct_dict_update)
  have entry: "acronym x = a \<and> distinct (map fst (settings_of x)) \<and>
      map_of (settings_of x) = first_setting (old @ [m]) a" if x: "(a, x) \<in> set (dict_set merged (acronym m) ?p)" for a x
  proof (cases "a = acronym m")
    case True
    moreover have "distinct (map fst merged)" by (simp add: keys)
    ultimately have "x = ?p" using dict_set_other x by fastforce
    then show ?thesis using True new s \<open>distinct (map fst s)\<close> by (auto simp: fun_eq_iff)
  next
    case False
    then have "(a, x) \<in> set merged" using dict_set_entries [OF x] by auto
    then show ?thesis using ok False by (auto simp: merged_ok_def first_setting_snoc fun_eq_iff)
  qed
  have "map fst (dict_set merged (acronym m) ?p) = uniq_first (map acronym (old @ [m]))"
    using seen by (simp only: dict_set_keys prev keys map_append list.map uniq_first_snoc set_map if_True option.distinct not_False_eq_True)
  then show ?thesis using entry unfolding merged_ok_def by blast
qed

lemma merge_loop_ok:
  assumes "merged_ok old merged" and "settings_distinct ms"
  shows "merged_ok (old @ ms) (merge_mods_loop merged ms)"
  using assms
proof (induction ms arbitrary: old merged)
  case (Cons m ms)
  then have m: "distinct (map fst (settings_of m))" "settings_distinct ms" by (simp_all add: settings_distinct_def)
  show ?case
  proof (cases "map_of merged (acronym m)")
    case None
    then show ?thesis using Cons.IH [OF merged_ok_new [OF Cons.prems(1) None m(1)] m(2)] by simp
  next
    case (Some p)
    then show ?thesis using Cons.IH [OF merged_ok_again [OF Cons.prems(1) Some m(1)] m(2)] by (simp add: Let_def)
  qed
qed simp

text \<open>Merging keeps one entry per mod, in the order of first occurrences, with every setting
  any of its entries gives, the first entry that gives it deciding its value.\<close>

theorem merge_mods_spec:
  assumes "settings_distinct mods"
  shows "map acronym (merge_mods mods) = uniq_first (map acronym mods) \<and>
    list_all (\<lambda>m. map_of (settings_of m) = first_setting mods (acronym m)) (merge_mods mods)"
proof -
  have "merged_ok [] []" by (simp add: merged_ok_def)
  from merge_loop_ok [OF this assms] have ok: "merged_ok mods (merge_mods_loop [] mods)" by simp
  then have "acronym (snd x) = fst x" if "x \<in> set (merge_mods_loop [] mods)" for x
    using that by (auto simp: merged_ok_def)
  then have acr: "map acronym (map snd (merge_mods_loop [] mods)) = map fst (merge_mods_loop [] mods)" by simp
  show ?thesis
  proof (cases "length (merge_mods_loop [] mods) = length mods")
    case False
    then have "merge_mods mods = map snd (merge_mods_loop [] mods)" by (simp add: merge_mods_def Let_def)
    then show ?thesis using ok acr by (auto simp: merged_ok_def list_all_iff)
  next
    case True
    then have "length (uniq_first (map acronym mods)) = length (map acronym mods)"
      using conjunct1 [OF ok [unfolded merged_ok_def]] by (metis length_map)
    then have dist: "distinct (map acronym mods)"
      by (metis card_distinct distinct_card distinct_uniq_first set_uniq_first)
    have "first_setting mods (acronym m) = map_of (settings_of m)" if "m \<in> set mods" for m
    proof -
      from that obtain a b where ab: "mods = a @ m # b" by (meson split_list)
      with dist have "filter (\<lambda>x. acronym x = acronym m) mods = [m]"
        by (auto simp: no_entry)
      then show ?thesis by (simp add: first_setting_def fun_eq_iff)
    qed
    moreover have "merge_mods mods = mods" using True by (simp add: merge_mods_def)
    ultimately show ?thesis by (simp add: uniq_first_id [OF dist] list_all_iff)
  qed
qed

lemma merge_mods_spec_witness:
  "map acronym (merge_mods [\<lparr>acronym = ''DA'', msettings = Some [(''approach_rate'', SInt 9)]\<rparr>,
     \<lparr>acronym = ''HD'', msettings = None\<rparr>,
     \<lparr>acronym = ''DA'', msettings = Some [(''circle_size'', SInt 4), (''approach_rate'', SInt 10)]\<rparr>]) = [''DA'', ''HD'']"
  by (subst conjunct1 [OF merge_mods_spec]) (simp_all add: settings_distinct_def settings_of_def)

end
