(* ===== verification/Processing.thy ===== *)
theory Processing
  imports Submission
begin

text \<open>
  Properties of the submission pipeline of theory Submission as a whole: the frame of its steps,
  the correspondence of tokens and scores in every reachable state, what a request for a used
  token gets, and what the background pass over an already processed score does.
\<close>

section \<open>Tokens and scores\<close>

text \<open>What of a score never changes once it is submitted: all but its pp, its account gain and
  the processed flag.\<close>

definition score_core :: "score_row \<Rightarrow> score_row" where
  "score_core s = s\<lparr>sc_pp := 0, sc_account_pp_delta := None, sc_processed := False\<rparr>"

definition kept_in :: "score_row \<Rightarrow> score_row list \<Rightarrow> bool" where
  "kept_in s scores \<longleftrightarrow> find (\<lambda>i. sc_id i = sc_id (score_core s)) (map score_core scores) = Some (score_core s)"

lemma sc_id_score_core [simp]: "sc_id (score_core s) = sc_id s"
  by (simp add: score_core_def)

lemma put_score_core:
  assumes "kept_in s scores" and same: "score_core s' = score_core s"
  shows "map score_core (put_score s' scores) = map score_core scores"
proof -
  have "sc_id s' = sc_id s" using same by (metis sc_id_score_core)
  with assms(1) show ?thesis
    by (induction scores) (simp_all add: kept_in_def put_score_def same split: if_splits)
qed

lemma kept_in_cong: "map score_core scores' = map score_core scores \<Longrightarrow> kept_in s scores' = kept_in s scores"
  by (simp only: kept_in_def)

lemma kept_in_core: "score_core s' = score_core s \<Longrightarrow> kept_in s' scores = kept_in s scores"
  by (simp only: kept_in_def)

lemma score_by_id_kept: "score_by_id scores sid = Some s \<Longrightarrow> kept_in s scores"
proof -
  assume found: "score_by_id scores sid = Some s"
  then have "sc_id s = sid" by (auto simp: score_by_id_def dest: find_SomeD)
  with found show ?thesis by (induction scores) (auto simp: kept_in_def score_by_id_def split: if_splits)
qed

text \<open>The frame of the processing steps.\<close>

definition same_game :: "game_db \<Rightarrow> game_db \<Rightarrow> bool" where
  "same_game db db' \<longleftrightarrow>
     gd_users db' = gd_users db \<and> gd_maps db' = gd_maps db \<and> gd_tokens db' = gd_tokens db \<and>
     map score_core (gd_scores db') = map score_core (gd_scores db)"

lemma same_game_refl [simp]: "same_game db db"
  by (simp add: same_game_def)

lemma same_game_trans: "same_game a b \<Longrightarrow> same_game b c \<Longrightarrow> same_game a c"
  by (simp add: same_game_def)

lemma same_game_kept: "same_game a b \<Longrightarrow> kept_in s (gd_scores b) = kept_in s (gd_scores a)"
  unfolding same_game_def by (rule kept_in_cong) (elim conjE)

lemma process_score_pp_score:
  assumes "process_score_pp cfg validate ranked_tbl calculated s best = Inr r"
  shows "pp_score r = s \<or> (\<exists>pp. pp_score r = s\<lparr>sc_pp := pp\<rparr>) \<and> sc_pp s = 0"
proof (cases "fl_gate s")
  case fl: (Inr fl)
  show ?thesis
  proof (cases "can_get_pp cfg validate ranked_tbl s")
    case (Inr can)
    with fl assms show ?thesis
      by (cases calculated; cases fl; cases can) (auto simp: process_score_pp_def pp_unchanged_def Let_def split: if_splits)
  qed (use fl assms in \<open>auto simp: process_score_pp_def pp_unchanged_def split: if_splits\<close>)
qed (use assms in \<open>auto simp: process_score_pp_def pp_unchanged_def split: if_splits\<close>)

lemma process_score_pp_core:
  "process_score_pp cfg validate ranked_tbl calculated s best = Inr r \<Longrightarrow> score_core (pp_score r) = score_core s"
  by (auto simp: score_core_def dest: process_score_pp_score)

lemma record_play_frame:
  assumes "record_play cfg ym beatmap_length gates token s st db = Inr (st', db')"
  shows "same_game db db' \<and> gd_scores db' = gd_scores db \<and> gd_best db' = gd_best db \<and> gd_points db' = gd_points db"
  using assms by (auto simp: record_play_def same_game_def Let_def py_bind_Inr_iff split: prod.splits)

lemma process_statistics_frame:
  assumes run: "process_statistics cfg validate ranked_tbl now ym token beatmap_length status s db = Inr (s', db')"
    and kept: "kept_in s (gd_scores db)"
  shows "same_game db db' \<and> score_core s' = score_core s"
proof -
  obtain mods_ranked where gates: "mods_can_get_pp cfg validate ranked_tbl (mode_int (sc_mode s)) (sc_mods s) = Inr mods_ranked"
    using run by (auto simp: process_statistics_def py_bind_Inr_iff)
  obtain pp g where pg: "score_gates cfg status mods_ranked = (pp, g)" by (cases "score_gates cfg status mods_ranked")
  obtain st where st: "find (is_stats_of s) (gd_stats db) = Some st"
    using run gates pg by (cases "find (is_stats_of s) (gd_stats db)") (auto simp: process_statistics_def)
  obtain st1 db1 where r1: "record_play cfg ym beatmap_length g token s st db = Inr (st1, db1)"
    and res: "(s', db') = (if sc_passed s \<and> pp then record_pp now s st1 db1 else (s, db1))"
    using run gates pg st by (auto simp: process_statistics_def py_bind_Inr_iff)
  note f1 = record_play_frame [OF r1]
  have "map score_core (put_score (s\<lparr>sc_account_pp_delta := d\<rparr>) (gd_scores db1)) = map score_core (gd_scores db1)" for d
    using f1 kept by (intro put_score_core [of s]) (simp_all add: score_core_def)
  then show ?thesis
    using res f1 by (auto simp: record_pp_def same_game_def score_core_def Let_def split: if_splits prod.splits)
qed

lemma warn_zero_pp_frame: "same_game db (warn_zero_pp s reason db)" "gd_scores (warn_zero_pp s reason db) = gd_scores db"
  by (simp_all add: warn_zero_pp_def same_game_def split: option.split)

lemma process_user_frame:
  assumes "kept_in s (gd_scores db)"
  shows "same_game db (snd (process_user cfg validate ranked_tbl calc now ym token beatmap_length status s db))"
proof (cases "process_score_pp cfg validate ranked_tbl (calc s) s (gd_best db)")
  case (Inl e)
  then show ?thesis by (simp add: process_user_def Let_def)
next
  case (Inr r)
  let ?s = "pp_score r"
  let ?pts = "if sc_passed s \<and> sc_ranked s \<and> sc_total_score s \<ge> DAILY_PLAY_MIN_TOTAL_SCORE
                    then snd (award_daily_play now (sc_user s) (Some (sc_mode s)) (gd_points db)) else gd_points db"
  let ?db1 = "db\<lparr>gd_points := ?pts, gd_best := pp_best r, gd_scores := put_score ?s (gd_scores db),
    gd_requeued := gd_requeued db @ (if pp_requeued r then [sc_id ?s] else [])\<rparr>"
  let ?db2 = "warn_zero_pp ?s (skip_reason r) ?db1"
  note ident = process_score_pp_core [OF Inr]
  have "same_game db ?db1" by (simp add: same_game_def put_score_core [OF assms ident])
  then have f: "same_game db ?db2" by (rule same_game_trans) (rule warn_zero_pp_frame)
  have kept: "kept_in ?s (gd_scores ?db2)"
    using assms same_game_kept [OF f] kept_in_core [OF ident] by blast
  show ?thesis
  proof (cases "process_statistics cfg validate ranked_tbl now ym token beatmap_length status ?s ?db2")
    case (Inl e)
    then show ?thesis using Inr f by (simp add: process_user_def Let_def)
  next
    case (Inr res)
    obtain s' db' where res: "res = (s', db')" by (cases res)
    note f2 = process_statistics_frame [OF Inr [unfolded res] kept]
    then have f3: "same_game db db'" using f same_game_trans by blast
    have "kept_in s' (gd_scores db')"
      using f2 same_game_kept [of ?db2 db'] kept kept_in_core by blast
    then have "map score_core (put_score (s'\<lparr>sc_processed := True\<rparr>) (gd_scores db')) = map score_core (gd_scores db')"
      by (rule put_score_core) (simp add: score_core_def)
    then show ?thesis
      using f3 Inr res \<open>process_score_pp cfg validate ranked_tbl (calc s) s (gd_best db) = Inr r\<close>
      by (simp add: process_user_def same_game_def Let_def)
  qed
qed

lemma process_user_job_frame:
  "same_game db (snd (process_user_job cfg validate ranked_tbl calc now ym sid user db))"
proof (cases "score_by_id (gd_scores db) sid")
  case (Some s)
  then show ?thesis
    using process_user_frame [OF score_by_id_kept [OF Some]] by (simp add: process_user_job_def split: option.split)
qed (simp add: process_user_job_def)

text \<open>The scores are exactly what the bound tokens say: one score per token, of the token's
  user and map, under an identifier no other token has.\<close>

definition score_ident :: "score_row \<Rightarrow> int \<times> int \<times> int" where
  "score_ident s = (sc_id s, sc_user s, sc_beatmap s)"

lemma score_ident_core: "score_ident (score_core s) = score_ident s"
  by (simp add: score_ident_def score_core_def)

lemma fst_score_ident [simp]: "fst (score_ident s) = sc_id s"
  by (simp add: score_ident_def)

lemma same_game_idents: "same_game db db' \<Longrightarrow> map score_ident (gd_scores db') = map score_ident (gd_scores db)"
proof -
  assume "same_game db db'"
  then have "map score_ident (map score_core (gd_scores db')) = map score_ident (map score_core (gd_scores db))"
    by (simp only: same_game_def)
  then show ?thesis by (simp add: score_ident_core o_def)
qed

definition token_ident :: "score_token \<Rightarrow> (int \<times> int \<times> int) option" where
  "token_ident t = map_option (\<lambda>sid. (sid, tok_user t, tok_beatmap t)) (tok_score t)"

definition tokens_ok :: "game_db \<Rightarrow> bool" where
  "tokens_ok db \<longleftrightarrow>
     distinct (map tok_id (gd_tokens db)) \<and>
     distinct (map fst (map score_ident (gd_scores db))) \<and>
     (\<forall>i \<in> set (map score_ident (gd_scores db)). 0 < fst i) \<and>
     mset (map score_ident (gd_scores db)) = mset (List.map_filter token_ident (gd_tokens db))"

lemma map_filter_append: "List.map_filter f (xs @ ys) = List.map_filter f xs @ List.map_filter f ys"
  by (simp add: List.map_filter_def)

lemma tokens_ok_same_game: "same_game db db' \<Longrightarrow> tokens_ok db \<Longrightarrow> tokens_ok db'"
  using same_game_idents [of db db'] unfolding same_game_def tokens_ok_def by (elim conjE) (simp only: simp_thms)

lemma foldl_max_ge: "a \<le> foldl max a xs \<and> (x \<in> set xs \<longrightarrow> x \<le> foldl max a xs)" for a :: int
proof (induction xs arbitrary: a)
  case (Cons y xs)
  have "max a y \<le> foldl max (max a y) xs" using Cons by blast
  then show ?case using Cons [of "max a y"] by auto
qed simp

lemma next_score_id_fresh: "0 < next_score_id scores" "s \<in> set scores \<Longrightarrow> sc_id s < next_score_id scores"
  using foldl_max_ge [of 0 "map sc_id scores"] foldl_max_ge [of 0 "map sc_id scores" "sc_id s"]
  by (simp_all add: next_score_id_def)

lemma map_filter_bind_token:
  assumes "distinct (map tok_id tokens)" "t \<in> set tokens" "tok_score t = None"
  shows "mset (List.map_filter token_ident (bind_token (tok_id t) sid tokens)) =
    add_mset (sid, tok_user t, tok_beatmap t) (mset (List.map_filter token_ident tokens))"
  using assms
proof (induction tokens)
  case (Cons x tokens)
  show ?case
  proof (cases "x = t")
    case True
    then have "tok_id t \<notin> tok_id ` set tokens" using Cons.prems(1) by simp
    then have "tok_id y \<noteq> tok_id t" if "y \<in> set tokens" for y using that by (metis imageI)
    then have "bind_token (tok_id t) sid tokens = tokens" by (auto simp: bind_token_def map_idI)
    with True Cons.prems show ?thesis by (simp add: bind_token_def token_ident_def)
  next
    case False
    with Cons.prems have "t \<in> set tokens" "tok_id x \<noteq> tok_id t" by auto
    with Cons show ?thesis by (simp add: bind_token_def split: option.split)
  qed
qed simp

lemma tok_ids_bind: "map tok_id (bind_token tid sid tokens) = map tok_id tokens"
  by (simp add: bind_token_def)

lemma process_score_tokens:
  assumes run: "process_score cfg validate ranked_tbl now user beatmap ranked bm token info db = Inr (s, db')"
    and ok: "tokens_ok db" and t: "token \<in> set (gd_tokens db)" "tok_score token = None"
      "tok_user token = user" "tok_beatmap token = beatmap"
  shows "tokens_ok db'"
proof -
  from run obtain mode mods r total where s: "s = make_score now (next_score_id (gd_scores db)) user beatmap mode mods r total token info"
    and db': "db' = db\<lparr>gd_scores := gd_scores db @ [s], gd_tokens := bind_token (tok_id token) (sc_id s) (gd_tokens db)\<rparr>"
    unfolding process_score_def Let_def py_bind_Inr_iff by blast
  have ident: "score_ident s = (next_score_id (gd_scores db), user, beatmap)"
    by (simp add: s make_score_def score_ident_def)
  then have sid: "sc_id s = next_score_id (gd_scores db)" by (simp add: score_ident_def)
  have "mset (List.map_filter token_ident (gd_tokens db')) =
      add_mset (score_ident s) (mset (List.map_filter token_ident (gd_tokens db)))"
    using map_filter_bind_token [OF _ t(1,2), of "sc_id s"] ok t(3,4) by (simp add: tokens_ok_def db' ident sid)
  moreover have "next_score_id (gd_scores db) \<notin> sc_id ` set (gd_scores db)"
    using next_score_id_fresh(2) [of _ "gd_scores db"] by (metis imageE less_irrefl)
  ultimately show ?thesis
    using ok next_score_id_fresh(1) by (auto simp: tokens_ok_def db' ident tok_ids_bind o_def)
qed

lemma submit_new_tokens:
  assumes ok: "tokens_ok db" and t: "token \<in> set (gd_tokens db)" "tok_score token = None" "tok_user token = rq_user rq"
  shows "tokens_ok (snd (submit_new cfg validate ranked_tbl calc now ym rq info token db))"
proof (cases "gd_maps db (tok_beatmap token)")
  case (Some bm)
  let ?run = "process_score cfg validate ranked_tbl now (rq_user rq) (tok_beatmap token)
                  (has_pp (map_status bm) \<or> enable_all_beatmap_pp cfg) bm token info db"
  show ?thesis
  proof (cases ?run)
    case (Inr r)
    obtain s db1 where r: "r = (s, db1)" by (cases r)
    have ok1: "tokens_ok db1" by (rule process_score_tokens [OF Inr [unfolded r] ok t]) simp
    then have "tokens_ok (snd (process_user_job cfg validate ranked_tbl calc now ym (sc_id s) (rq_user rq) db1))"
      by (rule tokens_ok_same_game [OF process_user_job_frame])
    with ok1 Some Inr r show ?thesis
      by (cases "process_user_job cfg validate ranked_tbl calc now ym (sc_id s) (rq_user rq) db1")
        (simp add: submit_new_def Let_def)
  qed (simp add: submit_new_def Some ok)
qed (simp add: submit_new_def ok)

lemma unbound_token:
  "tokens_ok db \<Longrightarrow> t \<in> set (gd_tokens db) \<Longrightarrow> \<not> (case tok_score t of None \<Rightarrow> False | Some sid \<Rightarrow> sid \<noteq> 0) \<Longrightarrow> tok_score t = None"
proof (cases "tok_score t")
  case (Some sid)
  assume ok: "tokens_ok db" and t: "t \<in> set (gd_tokens db)" "\<not> (case tok_score t of None \<Rightarrow> False | Some sid \<Rightarrow> sid \<noteq> 0)"
  have "(sid, tok_user t, tok_beatmap t) \<in># mset (List.map_filter token_ident (gd_tokens db))"
    using t(1) Some by (force simp: token_ident_def List.map_filter_def)
  then have "(sid, tok_user t, tok_beatmap t) \<in> set (map score_ident (gd_scores db))"
    using ok by (metis set_mset_mset tokens_ok_def)
  then have "0 < fst (sid, tok_user t, tok_beatmap t)" using ok unfolding tokens_ok_def by blast
  then show ?thesis using t(2) Some by simp
qed simp

lemma submit_score_tokens:
  assumes ok: "tokens_ok db"
  shows "tokens_ok (snd (submit_score cfg validate ranked_tbl calc now ym rq info token db))"
proof (cases "find (\<lambda>t. tok_id t = token) (gd_tokens db)")
  case (Some t)
  then have t: "t \<in> set (gd_tokens db)" by (auto dest: find_SomeD)
  have "tokens_ok (snd (submit_new cfg validate ranked_tbl calc now ym rq info' t db))"
    if "tok_user t = rq_user rq" "\<not> (case tok_score t of None \<Rightarrow> False | Some sid \<Rightarrow> sid \<noteq> 0)" for info'
    using submit_new_tokens [OF ok t unbound_token [OF ok t that(2)] that(1)] .
  then show ?thesis
    using ok Some by (auto simp: submit_score_def Let_def split: option.split)
qed (use ok in \<open>auto simp: submit_score_def Let_def\<close>)

text \<open>The life of the tables: tokens are issued, scores are submitted, background passes run.\<close>

inductive game_step :: "config \<Rightarrow> validator \<Rightarrow> ranked_mods \<Rightarrow> (score_row \<Rightarrow> real \<times> bool) \<Rightarrow> game_db \<Rightarrow> game_db \<Rightarrow> bool"
  for cfg validate ranked_tbl calc where
  token_issued: "tok_id t \<notin> tok_id ` set (gd_tokens db) \<Longrightarrow> tok_score t = None \<Longrightarrow>
    game_step cfg validate ranked_tbl calc db (db\<lparr>gd_tokens := gd_tokens db @ [t]\<rparr>)"
| submitted: "game_step cfg validate ranked_tbl calc db (snd (submit_score cfg validate ranked_tbl calc now ym rq info token db))"
| passed_again: "game_step cfg validate ranked_tbl calc db (process_user_background cfg validate ranked_tbl calc now ym sid user db)"

lemma game_step_tokens: "game_step cfg validate ranked_tbl calc db db' \<Longrightarrow> tokens_ok db \<Longrightarrow> tokens_ok db'"
proof (induction rule: game_step.induct)
  case (token_issued t db)
  then show ?case by (auto simp: tokens_ok_def token_ident_def map_filter_append)
next
  case (submitted db now ym rq info token)
  then show ?case by (intro submit_score_tokens)
next
  case (passed_again db now ym sid user)
  then show ?case
    unfolding process_user_background_def by (rule tokens_ok_same_game [OF process_user_job_frame])
qed

text \<open>C2: whatever is submitted, in whatever order and however often, the scores stay in
  one-to-one correspondence with the bound tokens: each bound token has one score, of its own
  user and map, and there is no other score.\<close>

theorem one_score_per_token:
  assumes "(game_step cfg validate ranked_tbl calc)\<^sup>*\<^sup>* db0 db"
    and "gd_tokens db0 = []" and "gd_scores db0 = []"
  shows "distinct (map sc_id (gd_scores db)) \<and>
    mset (map score_ident (gd_scores db)) = mset (List.map_filter token_ident (gd_tokens db))"
proof -
  have "tokens_ok db" using assms(1)
  proof (induction rule: rtranclp_induct)
    case base
    show ?case using assms(2,3) by (simp add: tokens_ok_def)
  qed (rule game_step_tokens)
  then show ?thesis by (simp add: tokens_ok_def o_def)
qed

section \<open>The second pass\<close>

definition same_play :: "score_row \<Rightarrow> score_row \<Rightarrow> bool" where
  "same_play s s' \<longleftrightarrow> score_core s' = score_core s"

lemma same_play_refl [simp]: "same_play s s"
  by (simp add: same_play_def)

lemma same_play_updates [simp]:
  "same_play s (s'\<lparr>sc_pp := x\<rparr>) = same_play s s'" "same_play s (s'\<lparr>sc_account_pp_delta := d\<rparr>) = same_play s s'"
  "same_play s (s'\<lparr>sc_processed := b\<rparr>) = same_play s s'"
  by (simp_all add: same_play_def score_core_def)

lemma same_play_trans: "same_play a b \<Longrightarrow> same_play b c \<Longrightarrow> same_play a c"
  by (simp add: same_play_def)

lemma core_fields:
  "sc_user (score_core s) = sc_user s" "sc_mode (score_core s) = sc_mode s" "sc_mods (score_core s) = sc_mods s"
  "sc_passed (score_core s) = sc_passed s" "sc_ranked (score_core s) = sc_ranked s"
  "sc_beatmap (score_core s) = sc_beatmap s" "sc_total_score (score_core s) = sc_total_score s"
  "fl_gate (score_core s) = fl_gate s" "can_get_pp cfg validate ranked_tbl (score_core s) = can_get_pp cfg validate ranked_tbl s"
  "display_score cfg (score_core s) = display_score cfg s" "calculate_playtime (score_core s) n = calculate_playtime s n"
  "is_stats_of (score_core s) = is_stats_of s"
  by (simp_all add: score_core_def fl_gate_def can_get_pp_def display_score_def calculate_playtime_def get_play_length_def
      objects_hit_def is_stats_of_def fun_eq_iff)

lemma same_play_fields:
  assumes "same_play s s'"
  shows "sc_id s' = sc_id s" "sc_user s' = sc_user s" "sc_mode s' = sc_mode s" "sc_mods s' = sc_mods s"
    "sc_passed s' = sc_passed s" "sc_ranked s' = sc_ranked s" "sc_beatmap s' = sc_beatmap s"
    "fl_gate s' = fl_gate s" "can_get_pp cfg validate ranked_tbl s' = can_get_pp cfg validate ranked_tbl s"
    "display_score cfg s' = display_score cfg s" "calculate_playtime s' n = calculate_playtime s n"
    "is_stats_of s' = is_stats_of s"
  using assms unfolding same_play_def by (metis sc_id_score_core core_fields)+

lemma process_score_pp_again:
  assumes "process_score_pp cfg validate ranked_tbl calculated s best = Inr r" and same: "same_play s s'"
    and pp: "sc_pp s \<noteq> 0 \<Longrightarrow> sc_pp s' \<noteq> 0"
  shows "\<exists>r'. process_score_pp cfg validate ranked_tbl calculated' s' best' = Inr r'"
proof (cases "sc_pp s' = 0")
  case True
  with pp have "sc_pp s = 0" by auto
  note f = same_play_fields [OF same]
  from assms(1) \<open>sc_pp s = 0\<close> obtain fl where fl: "fl_gate s = Inr fl"
    by (auto simp: process_score_pp_def py_bind_Inr_iff)
  show ?thesis
  proof (cases fl)
    case False
    with assms(1) \<open>sc_pp s = 0\<close> fl obtain can where "can_get_pp cfg validate ranked_tbl s = Inr can"
      by (auto simp: process_score_pp_def py_bind_Inr_iff)
    with True fl False show ?thesis
      by (cases calculated') (simp add: process_score_pp_def f Let_def)
  qed (use True fl in \<open>simp add: process_score_pp_def f\<close>)
qed (simp add: process_score_pp_def)

lemma find_put_stats:
  "find (is_stats_of s) stats \<noteq> None \<Longrightarrow> is_stats_of s st \<Longrightarrow> find (is_stats_of s) (put_stats s st stats) = Some st"
  by (induction stats) (auto simp: put_stats_def)

text \<open>What one pass of the statistics step needs and what it adds.\<close>

definition counted :: "config \<Rightarrow> score_row \<Rightarrow> user_statistics \<Rightarrow> user_statistics \<Rightarrow> bool" where
  "counted cfg s st st' \<longleftrightarrow>
     us_total_score st' = us_total_score st + display_score cfg s \<and>
     play_count st' = play_count st + 1 \<and>
     us_total_hits st' = us_total_hits (count_hits s st)"

lemma add_grade_frame:
  "us_user (add_grade d r st) = us_user st" "us_mode (add_grade d r st) = us_mode st" "us_pp (add_grade d r st) = us_pp st"
  "us_total_score (add_grade d r st) = us_total_score st" "play_count (add_grade d r st) = play_count st"
  "us_total_hits (add_grade d r st) = us_total_hits st"
  by (cases r; simp add: add_grade_def)+

lemma new_best_frame:
  "us_user (new_best s d p st) = us_user st" "us_mode (new_best s d p st) = us_mode st" "us_pp (new_best s d p st) = us_pp st"
  "us_total_score (new_best s d p st) = us_total_score st" "play_count (new_best s d p st) = play_count st"
  "us_total_hits (new_best s d p st) = us_total_hits st"
  by (cases p; simp add: new_best_def add_grade_frame Let_def)+

lemma count_hits_frame:
  "us_user (count_hits s st) = us_user st" "us_mode (count_hits s st) = us_mode st" "us_pp (count_hits s st) = us_pp st"
  "us_total_score (count_hits s st) = us_total_score st" "play_count (count_hits s st) = play_count st"
  by (simp_all add: count_hits_def Let_def)

lemma count_hits_total:
  "us_total_hits (count_hits s st) = us_total_hits st + (n300 s + n100 s + n50 s + ngeki s + nkatu s +
     or_zero (nlarge_tick_hit s) + or_zero (nlarge_tick_miss s) + or_zero (nsmall_tick_hit s))"
  by (simp add: count_hits_def Let_def)

lemma update_counters_fields:
  "us_user (update_counters s d diff ranked prev played st) = us_user st"
  "us_mode (update_counters s d diff ranked prev played st) = us_mode st"
  "us_pp (update_counters s d diff ranked prev played st) = us_pp st"
  "us_total_score (update_counters s d diff ranked prev played st) = us_total_score st + d"
  "play_count (update_counters s d diff ranked prev played st) = play_count st + (if snd played then 1 else 0)"
  "us_total_hits (update_counters s d diff ranked prev played st) = us_total_hits (count_hits s st)"
  by (simp_all add: update_counters_def count_hits_frame count_hits_total new_best_frame Let_def)

lemma count_hits_key: "us_user (count_hits s st) = us_user st" "us_mode (count_hits s st) = us_mode st"
  by (simp_all add: count_hits_def Let_def)

lemma process_statistics_counts:
  assumes run: "process_statistics cfg validate ranked_tbl now ym token len status s db = Inr (s', db')"
    and passed: "sc_passed s"
  shows "\<exists>st st'. find (is_stats_of s) (gd_stats db) = Some st \<and> find (is_stats_of s) (gd_stats db') = Some st' \<and>
    counted cfg s st st' \<and> same_play s s' \<and> sc_pp s' = sc_pp s"
proof -
  obtain mods_ranked where gates: "mods_can_get_pp cfg validate ranked_tbl (mode_int (sc_mode s)) (sc_mods s) = Inr mods_ranked"
    using run by (auto simp: process_statistics_def py_bind_Inr_iff)
  obtain pp g where pg: "score_gates cfg status mods_ranked = (pp, g)" by (cases "score_gates cfg status mods_ranked")
  obtain st where st: "find (is_stats_of s) (gd_stats db) = Some st"
    using run gates pg by (cases "find (is_stats_of s) (gd_stats db)") (auto simp: process_statistics_def)
  obtain st1 db1 where r1: "record_play cfg ym len g token s st db = Inr (st1, db1)"
    and res: "(s', db') = (if sc_passed s \<and> pp then record_pp now s st1 db1 else (s, db1))"
    using run gates pg st by (auto simp: process_statistics_def py_bind_Inr_iff)
  have isst: "is_stats_of s st" using st by (auto dest: find_SomeD)
  from r1 obtain played d diff rk prev where played: "calculate_playtime s len = Inr played"
    and st1: "st1 = update_counters s (display_score cfg s) diff rk prev played st"
    and stats1: "gd_stats db1 = put_stats s st1 (gd_stats db)"
    by (auto simp: record_play_def py_bind_Inr_iff Let_def split: prod.splits)
  have valid: "snd played" using played passed by (auto simp: calculate_playtime_def py_bind_Inr_iff)
  have c1: "counted cfg s st st1" using valid by (simp add: counted_def st1 update_counters_fields)
  have isst1: "is_stats_of s st1" using isst by (simp add: st1 is_stats_of_def update_counters_fields)
  have f1: "find (is_stats_of s) (gd_stats db1) = Some st1"
    unfolding stats1 using st isst1 by (intro find_put_stats) simp_all
  show ?thesis
  proof (cases pp)
    case False
    with res passed have "s' = s" "db' = db1" by simp_all
    with st f1 c1 show ?thesis by auto
  next
    case True
    obtain upp acc where u: "calculate_user_pp (gd_best db1) (us_user st1) (sc_mode s) = (upp, acc)" by fastforce
    let ?st2 = "st1\<lparr>us_pp := upp, hit_accuracy := acc\<rparr>"
    have "find (is_stats_of s) (put_stats s ?st2 (gd_stats db1)) = Some ?st2"
      using f1 isst1 by (intro find_put_stats) (simp_all add: is_stats_of_def)
    moreover have "counted cfg s st ?st2" using c1 by (simp add: counted_def)
    ultimately show ?thesis
      using res True passed st u by (auto simp: record_pp_def Let_def)
  qed
qed

lemma process_statistics_again:
  assumes run: "process_statistics cfg validate ranked_tbl now ym token len status s db = Inr res"
    and same: "same_play s s'" and stats: "find (is_stats_of s) (gd_stats db') \<noteq> None"
  shows "\<exists>res'. process_statistics cfg validate ranked_tbl now' ym' token len status s' db' = Inr res'"
proof -
  note f = same_play_fields [OF same]
  obtain mods_ranked where gates: "mods_can_get_pp cfg validate ranked_tbl (mode_int (sc_mode s)) (sc_mods s) = Inr mods_ranked"
    using run by (auto simp: process_statistics_def py_bind_Inr_iff)
  obtain pp g where pg: "score_gates cfg status mods_ranked = (pp, g)" by (cases "score_gates cfg status mods_ranked")
  obtain st where st: "find (is_stats_of s) (gd_stats db) = Some st"
    using run gates pg by (cases "find (is_stats_of s) (gd_stats db)") (auto simp: process_statistics_def)
  obtain r1 where "record_play cfg ym len g token s st db = Inr r1"
    using run gates pg st by (auto simp: process_statistics_def py_bind_Inr_iff)
  then obtain played where played: "calculate_playtime s len = Inr played"
    by (auto simp: record_play_def py_bind_Inr_iff Let_def split: prod.splits)
  obtain st' where st': "find (is_stats_of s) (gd_stats db') = Some st'" using stats by auto
  obtain st1 db1 where "record_play cfg ym' len g token s' st' db' = Inr (st1, db1)"
    using played by (cases g) (simp add: record_play_def f Let_def)
  with gates pg st' show ?thesis by (simp add: process_statistics_def f)
qed

lemma warn_zero_pp_same: "gd_stats (warn_zero_pp s reason db) = gd_stats db" "gd_best (warn_zero_pp s reason db) = gd_best db"
  by (simp_all add: warn_zero_pp_def split: option.split)

lemma score_by_id_put:
  "score_by_id (put_score s scores) (sc_id s) \<noteq> None \<Longrightarrow> score_by_id (put_score s scores) (sc_id s) = Some s"
  by (induction scores) (auto simp: score_by_id_def put_score_def)

lemma kept_in_found: "kept_in s scores \<Longrightarrow> score_by_id scores (sc_id s) \<noteq> None"
  by (induction scores) (auto simp: kept_in_def score_by_id_def split: if_splits)

text \<open>One pass over a passed score, and that it can run again.\<close>

lemma process_user_pass:
  assumes run: "process_user cfg validate ranked_tbl calc now ym token len status s db = (Inr ts, db')"
    and s: "score_by_id (gd_scores db) (sc_id s) = Some s" and passed: "sc_passed s"
  shows "\<exists>st st' s'. find (is_stats_of s) (gd_stats db) = Some st \<and> find (is_stats_of s) (gd_stats db') = Some st' \<and>
    counted cfg s st st' \<and> score_by_id (gd_scores db') (sc_id s) = Some s' \<and> same_play s s' \<and>
    fst (process_user cfg validate ranked_tbl calc now' ym' token len status s' db') \<in> range Inr"
proof -
  obtain r where r: "process_score_pp cfg validate ranked_tbl (calc s) s (gd_best db) = Inr r"
    using run by (cases "process_score_pp cfg validate ranked_tbl (calc s) s (gd_best db)") (auto simp: process_user_def Let_def)
  let ?s = "pp_score r"
  let ?pts = "if sc_passed s \<and> sc_ranked s \<and> sc_total_score s \<ge> DAILY_PLAY_MIN_TOTAL_SCORE
                    then snd (award_daily_play now (sc_user s) (Some (sc_mode s)) (gd_points db)) else gd_points db"
  let ?db1 = "db\<lparr>gd_points := ?pts, gd_best := pp_best r, gd_scores := put_score ?s (gd_scores db),
    gd_requeued := gd_requeued db @ (if pp_requeued r then [sc_id ?s] else [])\<rparr>"
  let ?db2 = "warn_zero_pp ?s (skip_reason r) ?db1"
  obtain s2 db3 where run2: "process_statistics cfg validate ranked_tbl now ym token len status ?s ?db2 = Inr (s2, db3)"
    using run r by (cases "process_statistics cfg validate ranked_tbl now ym token len status ?s ?db2")
      (auto simp: process_user_def Let_def)
  let ?s3 = "s2\<lparr>sc_processed := True\<rparr>"
  have db': "db' = db3\<lparr>gd_scores := put_score ?s3 (gd_scores db3),
      gd_messages := gd_messages db3 @ [User_invalidate (sc_user s2), Score_processed (sc_id s2)]\<rparr>"
    using run r run2 by (simp add: process_user_def Let_def)
  have same: "same_play s ?s" using process_score_pp_score [OF r] by auto
  note f = same_play_fields [OF same]
  from process_statistics_counts [OF run2] passed obtain st st' where
    st: "find (is_stats_of s) (gd_stats db) = Some st" "find (is_stats_of s) (gd_stats db3) = Some st'"
      "counted cfg ?s st st'" and s2: "same_play ?s s2" "sc_pp s2 = sc_pp ?s"
    by (auto simp: f warn_zero_pp_same)
  have s3: "same_play s ?s3" using same_play_trans [OF same s2(1)] by simp
  have counted: "counted cfg s st st'"
    using st(3) process_score_pp_score [OF r] by (auto simp: counted_def f count_hits_def Let_def)
  have "kept_in s (gd_scores db')"
    using process_user_frame [OF score_by_id_kept [OF s], of cfg validate ranked_tbl calc now ym token len status] run
      same_game_kept score_by_id_kept [OF s] by fastforce
  then have found: "score_by_id (gd_scores db') (sc_id s) = Some ?s3"
    using score_by_id_put [of ?s3 "gd_scores db3"] same_play_fields(1) [OF s3] kept_in_found by (simp add: db')
  have "sc_pp s \<noteq> 0 \<Longrightarrow> sc_pp ?s3 \<noteq> 0" using process_score_pp_score [OF r] s2(2) by auto
  then obtain r' where r': "process_score_pp cfg validate ranked_tbl (calc ?s3) ?s3 (gd_best db') = Inr r'"
    using process_score_pp_again [OF r s3] by blast
  have same': "same_play s (pp_score r')" using process_score_pp_score [OF r'] s3 by auto
  have "same_play ?s (pp_score r')"
    using same same' process_score_pp_score [OF r] by (auto simp: same_play_def)
  then have again: "\<exists>res'. process_statistics cfg validate ranked_tbl now' ym' token len status (pp_score r') d = Inr res'"
    if "gd_stats d = gd_stats db3" for d
    using process_statistics_again [OF run2, of "pp_score r'" d now' ym'] st(2) that f(12) by simp
  let ?d = "warn_zero_pp (pp_score r') (skip_reason r')
      (db'\<lparr>gd_points := (if sc_passed ?s3 \<and> sc_ranked ?s3 \<and> sc_total_score ?s3 \<ge> DAILY_PLAY_MIN_TOTAL_SCORE
          then snd (award_daily_play now' (sc_user ?s3) (Some (sc_mode ?s3)) (gd_points db')) else gd_points db'),
        gd_best := pp_best r', gd_scores := put_score (pp_score r') (gd_scores db'),
        gd_requeued := gd_requeued db' @ (if pp_requeued r' then [sc_id (pp_score r')] else [])\<rparr>)"
  have "gd_stats ?d = gd_stats db3" by (simp add: warn_zero_pp_same db')
  from again [OF this] obtain s4 db4 where
    "process_statistics cfg validate ranked_tbl now' ym' token len status (pp_score r') ?d = Inr (s4, db4)" by auto
  then have "fst (process_user cfg validate ranked_tbl calc now' ym' token len status ?s3 db') \<in> range Inr"
    using r' by (simp add: process_user_def Let_def)
  then show ?thesis using st(1,2) counted found s3 by (auto simp: db')
qed

lemma score_by_id_new: "sc_id s = next_score_id scores \<Longrightarrow> score_by_id (scores @ [s]) (sc_id s) = Some s"
proof -
  assume new: "sc_id s = next_score_id scores"
  have "score_by_id (xs @ [s]) (sc_id s) = Some s" if "sc_id s \<notin> sc_id ` set xs" for xs
    using that by (induction xs) (auto simp: score_by_id_def)
  moreover have "sc_id s \<notin> sc_id ` set scores" using next_score_id_fresh(2) [of _ scores] new by (metis imageE less_irrefl)
  ultimately show ?thesis by blast
qed

lemma process_score_new:
  assumes "process_score cfg validate ranked_tbl now user beatmap ranked bm token info db = Inr (s, db')"
  shows "score_by_id (gd_scores db') (sc_id s) = Some s \<and> gd_stats db' = gd_stats db \<and> sc_passed s = sub_passed info"
proof -
  from assms obtain mode mods r total where s: "s = make_score now (next_score_id (gd_scores db)) user beatmap mode mods r total token info"
    and db': "db' = db\<lparr>gd_scores := gd_scores db @ [s], gd_tokens := bind_token (tok_id token) (sc_id s) (gd_tokens db)\<rparr>"
    unfolding process_score_def Let_def py_bind_Inr_iff by blast
  have "sc_id s = next_score_id (gd_scores db)" by (simp add: s make_score_def)
  moreover have "sc_passed s = sub_passed info" by (simp add: s make_score_def)
  ultimately show ?thesis using score_by_id_new [of s "gd_scores db"] by (simp add: db')
qed

text \<open>A job that did something ran \<^verbatim>\<open>process_user\<close>.\<close>

lemma process_user_job_ran:
  assumes "process_user_job cfg validate ranked_tbl calc now ym sid user db = (Inr ts, db')" and "ts \<noteq> []"
  obtains s t bm where "user \<in> set (gd_users db)" "score_by_id (gd_scores db) sid = Some s"
    "find (\<lambda>t. tok_score t = Some sid) (gd_tokens db) = Some t" "tok_id t \<noteq> 0" "gd_maps db (sc_beatmap s) = Some bm"
    "process_user cfg validate ranked_tbl calc now ym (tok_id t) (map_length bm) (map_status bm) s db = (Inr ts, db')"
  using assms by (auto simp: process_user_job_def split: if_splits option.splits)

lemma job_counts_twice:
  assumes run: "process_user_job cfg validate ranked_tbl calc now ym sid user db = (Inr ts, db')" and "ts \<noteq> []"
    and s: "score_by_id (gd_scores db) sid = Some s" and passed: "sc_passed s"
  shows "\<exists>st st'' s'. score_by_id (gd_scores db') sid = Some s' \<and> same_play s s' \<and>
    find (is_stats_of s) (gd_stats db) = Some st \<and>
    find (is_stats_of s) (gd_stats (process_user_background cfg validate ranked_tbl calc now' ym' sid user db')) = Some st'' \<and>
    us_total_score st'' = us_total_score st + 2 * display_score cfg s \<and> play_count st'' = play_count st + 2"
proof -
  from process_user_job_ran [OF run \<open>ts \<noteq> []\<close>] s obtain t bm where job: "user \<in> set (gd_users db)"
    "find (\<lambda>t. tok_score t = Some sid) (gd_tokens db) = Some t" "tok_id t \<noteq> 0" "gd_maps db (sc_beatmap s) = Some bm"
    and first: "process_user cfg validate ranked_tbl calc now ym (tok_id t) (map_length bm) (map_status bm) s db = (Inr ts, db')"
    by (metis option.inject)
  have sid: "sc_id s = sid" using s by (auto simp: score_by_id_def dest: find_SomeD)
  have s_id: "score_by_id (gd_scores db) (sc_id s) = Some s" using s sid by simp
  from process_user_pass [OF first s_id passed, of now' ym'] obtain st st' s' where
    st: "find (is_stats_of s) (gd_stats db) = Some st" "find (is_stats_of s) (gd_stats db') = Some st'" "counted cfg s st st'"
    and s': "score_by_id (gd_scores db') sid = Some s'" "same_play s s'"
    and again: "fst (process_user cfg validate ranked_tbl calc now' ym' (tok_id t) (map_length bm) (map_status bm) s' db') \<in> range Inr"
    by (auto simp: sid)
  note f = same_play_fields [OF s'(2)]
  from again obtain ts' db'' where
    second: "process_user cfg validate ranked_tbl calc now' ym' (tok_id t) (map_length bm) (map_status bm) s' db' = (Inr ts', db'')"
    by (cases "process_user cfg validate ranked_tbl calc now' ym' (tok_id t) (map_length bm) (map_status bm) s' db'") auto
  from process_user_pass [OF second, of now' ym'] s' passed obtain st1 st'' where
    st1: "find (is_stats_of s') (gd_stats db') = Some st1" "find (is_stats_of s') (gd_stats db'') = Some st''" "counted cfg s' st1 st''"
    by (auto simp: f sid)
  have "same_game db db'" using process_user_job_frame [of db cfg validate ranked_tbl calc now ym sid user] run by simp
  then have "process_user_background cfg validate ranked_tbl calc now' ym' sid user db' = db''"
    using job second s'(1) by (simp add: process_user_background_def process_user_job_def same_game_def f)
  then show ?thesis
    using st st1 s' by (auto simp: f counted_def)
qed

text \<open>A passed score that the statistics step processed but that no leaderboard row points at,
  as when it did not beat the player's best or the map has no leaderboard, is answered with a
  background pass, and that pass counts the play again: total score and play count grow by
  twice the score.\<close>

theorem unlisted_pass_is_counted_twice:
  assumes submit: "submit_score cfg validate ranked_tbl calc now ym rq info token db = (Inr (s, tasks), db1)"
    and processed: "Events_task (sc_id s) \<in> set tasks" and passed: "sub_passed info"
    and unlisted: "\<not> list_ex (\<lambda>b. tb_score b = sc_id s) (gd_totals db1)"
  shows "Process_user_task (sc_id s) (rq_user rq) \<in> set tasks \<and>
    (\<exists>st st'. find (is_stats_of s) (gd_stats db) = Some st \<and>
       find (is_stats_of s) (gd_stats (process_user_background cfg validate ranked_tbl calc now' ym' (sc_id s) (rq_user rq) db1)) = Some st' \<and>
       us_total_score st' = us_total_score st + 2 * display_score cfg s \<and>
       play_count st' = play_count st + 2)"
proof -
  from submit obtain t where sub: "submit_new cfg validate ranked_tbl calc now ym rq info t db = (Inr (s, tasks), db1)"
    using passed by (auto simp: submit_score_def respond_def Let_def split: if_splits option.splits)
  then obtain bm where bm: "gd_maps db (tok_beatmap t) = Some bm"
    by (auto simp: submit_new_def split: option.splits)
  obtain s0 db0 where ps: "process_score cfg validate ranked_tbl now (rq_user rq) (tok_beatmap t)
      (has_pp (map_status bm) \<or> enable_all_beatmap_pp cfg) bm t info db = Inr (s0, db0)"
    using sub bm by (cases "process_score cfg validate ranked_tbl now (rq_user rq) (tok_beatmap t)
      (has_pp (map_status bm) \<or> enable_all_beatmap_pp cfg) bm t info db") (auto simp: submit_new_def)
  note new = process_score_new [OF ps]
  obtain r db2 where job: "process_user_job cfg validate ranked_tbl calc now ym (sc_id s0) (rq_user rq) db0 = (r, db2)" by fastforce
  have db2: "db2 = db1" using sub bm ps job new passed by (simp add: submit_new_def Let_def)
  have resp: "respond (Some (sc_id s0)) (case score_by_id (gd_scores db1) (sc_id s0) of None \<Rightarrow> s0 | Some s' \<Rightarrow> s')
      (rq_user rq) (case r of Inl _ \<Rightarrow> [Process_user_task (sc_id s0) (rq_user rq)]
        | Inr started \<Rightarrow> started @ (if list_ex (\<lambda>b. tb_score b = sc_id s0) (gd_totals db1) then []
            else [Process_user_task (sc_id s0) (rq_user rq)])) = Inr (s, tasks)"
    using sub bm ps job new passed db2 by (simp add: submit_new_def Let_def)
  then have s_eq: "(case score_by_id (gd_scores db1) (sc_id s0) of None \<Rightarrow> s0 | Some s' \<Rightarrow> s') = s"
    by (simp add: respond_def)
  have "\<exists>started. r = Inr started \<and> started \<noteq> []"
  proof (cases r)
    case (Inr started)
    then show ?thesis using resp processed by (cases "started = []") (auto simp: respond_def split: if_splits)
  qed (use resp processed in \<open>auto simp: respond_def\<close>)
  then obtain started where r: "r = Inr started" "started \<noteq> []" by blast
  from job_counts_twice [OF job [unfolded r(1)] r(2) conjunct1 [OF new], of now' ym'] new passed
  obtain st st' s' where res: "score_by_id (gd_scores db1) (sc_id s0) = Some s'" "same_play s0 s'"
    "find (is_stats_of s0) (gd_stats db0) = Some st"
    "find (is_stats_of s0) (gd_stats (process_user_background cfg validate ranked_tbl calc now' ym' (sc_id s0) (rq_user rq) db1)) = Some st'"
    "us_total_score st' = us_total_score st + 2 * display_score cfg s0" "play_count st' = play_count st + 2"
    by (auto simp: db2)
  have "s = s'" using s_eq res(1) by simp
  note f = same_play_fields [OF res(2) [folded \<open>s = s'\<close>]]
  have "Process_user_task (sc_id s) (rq_user rq) \<in> set tasks"
    using resp r unlisted by (auto simp: respond_def f)
  with res new show ?thesis by (simp add: f)
qed

definition sample_info :: submission where
  "sample_info =
     \<lparr>sub_rank = Rank_S, sub_total_score = 800000, sub_total_score_without_mods = 800000, sub_accuracy = 0.99, sub_pp = 0,
      sub_max_combo = 400, sub_ruleset_id = 0, sub_passed = True, sub_mods = [], sub_statistics = [(Hit_GREAT, 300)],
      sub_maximum_statistics = [(Hit_GREAT, 300)], sub_pauses = []\<rparr>"

definition sample_request :: request where
  "sample_request = \<lparr>rq_user = 7, rq_restricted = False, rq_admin = False, rq_maintenance = None, rq_locked = False,
     rq_after_wait = None\<rparr>"

definition sample_token :: score_token where
  "sample_token = \<lparr>tok_id = 5, tok_user = 7, tok_beatmap = 42, tok_score = None, tok_room = None,
     tok_playlist_item = None, tok_created_at = 1000\<rparr>"

definition sample_stats :: user_statistics where
  "sample_stats =
     \<lparr>us_user = 7, us_mode = OSU, us_pp = 0, hit_accuracy = 0, ranked_score = 0, us_total_score = 0, level_current = 1,
      us_total_hits = 0, maximum_combo = 0, play_count = 0, play_time = 0, count_300 = 0, count_100 = 0, count_50 = 0,
      count_miss = 0, grade_ss = 0, grade_ssh = 0, grade_s = 0, grade_sh = 0, grade_a = 0, last_played = None\<rparr>"

definition sample_game :: "beatmap_status \<Rightarrow> game_db" where
  "sample_game status =
     \<lparr>gd_users = [7], gd_maps = [42 \<mapsto> \<lparr>map_length = 100, map_status = status, map_cs = None, map_od = None\<rparr>],
      gd_tokens = [], gd_scores = [], gd_best = [], gd_totals = [], gd_stats = [sample_stats], gd_monthly = [],
      gd_playcounts = [], gd_points = empty_points, gd_pm_keys = [], gd_messages = [], gd_requeued = []\<rparr>"

definition issued_game :: "beatmap_status \<Rightarrow> game_db" where
  "issued_game status = (sample_game status)\<lparr>gd_tokens := [sample_token]\<rparr>"

definition no_validator :: validator where "no_validator = (\<lambda>_ _. True)"

abbreviation sample_submit :: "beatmap_status \<Rightarrow> (py_error + score_row \<times> task list) \<times> game_db" where
  "sample_submit status \<equiv> submit_score std_config no_validator DEFAULT_RANKED_MODS (\<lambda>_. (0, True)) 1200 (2026, 6)
     sample_request sample_info 5 (issued_game status)"

lemmas sample_defs = sample_info_def sample_request_def sample_token_def sample_stats_def sample_game_def issued_game_def

lemma std_config_simps: "\<not> server_authoritative_total_score std_config" "\<not> enable_all_beatmap_pp std_config"
  "\<not> enable_all_beatmap_leaderboard std_config" "scoring_mode std_config = STANDARDISED"
  by (simp_all add: std_config_def)

lemma no_mods_pp: "mods_can_get_pp std_config v r m [] = Inr True"
  by (simp add: mods_can_get_pp_def)

definition grave_score :: score_row where
  "grave_score = make_score 1200 1 7 42 OSU [] False 800000 sample_token sample_info"

lemma sample_process:
  "process_score std_config no_validator DEFAULT_RANKED_MODS 1200 7 42 False bm
     sample_token sample_info (issued_game status) =
   Inr (grave_score, (issued_game status)\<lparr>gd_scores := [grave_score], gd_tokens := [sample_token\<lparr>tok_score := Some 1\<rparr>]\<rparr>)"
proof -
  have "to_special_mode std_config OSU [] = OSU" by (simp add: to_special_mode_def)
  moreover have "from_int 0 = Inr OSU" by code_simp
  moreover have "merge_mods [] = []" by (simp add: merge_mods_def)
  moreover have "make_score 1200 (next_score_id (gd_scores (issued_game status))) 7 42 OSU [] False 800000 sample_token sample_info = grave_score"
    by (simp add: grave_score_def issued_game_def sample_game_def next_score_id_def)
  moreover have "sc_id grave_score = 1" by (simp add: grave_score_def make_score_def)
  ultimately show ?thesis
    by (simp add: process_score_def no_mods_pp final_total_score_def std_config_simps)
      (simp add: sample_info_def sample_token_def issued_game_def sample_game_def bind_token_def no_mods_pp)
qed


lemma grave_job:
  "\<exists>db1. process_user_job std_config no_validator DEFAULT_RANKED_MODS (\<lambda>_. (0, True)) 1200 (2026, 6) 1 7
     ((issued_game GRAVEYARD)\<lparr>gd_scores := [grave_score], gd_tokens := [sample_token\<lparr>tok_score := Some 1\<rparr>]\<rparr>) =
     (Inr [Events_task 1, Anticheat_task 1], db1) \<and> gd_totals db1 = [] \<and>
     score_by_id (gd_scores db1) 1 = Some (grave_score\<lparr>sc_processed := True\<rparr>)"
proof -
  have gates: "score_gates std_config GRAVEYARD True = (False, False, False)"
    by (simp add: score_gates_def has_pp_def status_ranked_def has_leaderboard_def std_config_simps)
  have f: "sc_id grave_score = 1" "sc_user grave_score = 7" "sc_beatmap grave_score = 42" "sc_mode grave_score = OSU"
    "sc_mods grave_score = []" "sc_passed grave_score" "\<not> sc_ranked grave_score" "sc_pp grave_score = 0"
    by (simp_all add: grave_score_def make_score_def sample_info_def)
  have play: "\<exists>n. calculate_playtime grave_score 100 = Inr (n, True)"
    by (simp add: calculate_playtime_def get_play_length_def f get_speed_rate_def)
  then obtain n where n: "calculate_playtime grave_score 100 = Inr (n, True)" by blast
  have pp: "process_score_pp std_config no_validator DEFAULT_RANKED_MODS (0, True) grave_score [] = Inr (pp_unchanged grave_score [])"
    by (simp add: process_score_pp_def f fl_gate_def can_get_pp_def)
  show ?thesis
    by (simp add: process_user_job_def issued_game_def sample_game_def score_by_id_def f sample_token_def
        process_user_def pp pp_unchanged_def warn_zero_pp_def put_score_def process_statistics_def no_mods_pp
        gates is_stats_of_def sample_stats_def record_play_def n Let_def)
qed

lemma unlisted_pass_is_counted_twice_witness:
  "\<exists>db1 st'. snd (sample_submit GRAVEYARD) = db1 \<and>
     find (is_stats_of grave_score) (gd_stats (process_user_background std_config no_validator DEFAULT_RANKED_MODS
       (\<lambda>_. (0, True)) 1300 (2026, 6) 1 7 db1)) = Some st' \<and>
     us_total_score st' = 1600000 \<and> play_count st' = 2"
proof -
  obtain db1 where job: "process_user_job std_config no_validator DEFAULT_RANKED_MODS (\<lambda>_. (0, True)) 1200 (2026, 6) 1 7
     ((issued_game GRAVEYARD)\<lparr>gd_scores := [grave_score], gd_tokens := [sample_token\<lparr>tok_score := Some 1\<rparr>]\<rparr>) =
     (Inr [Events_task 1, Anticheat_task 1], db1)" "gd_totals db1 = []"
     "score_by_id (gd_scores db1) 1 = Some (grave_score\<lparr>sc_processed := True\<rparr>)" using grave_job by blast
  let ?s = "grave_score\<lparr>sc_processed := True\<rparr>"
  have f: "sc_id grave_score = 1" "sc_passed grave_score" "sc_total_score grave_score = 800000" "sc_mode grave_score = OSU"
    by (simp_all add: grave_score_def make_score_def sample_info_def)
  have sub: "sample_submit GRAVEYARD = (Inr (?s, [Events_task 1, Anticheat_task 1, Process_user_task 1 7,
      Refresh_cache_task 7 OSU, Achievements_task 1]), db1)"
    using sample_process job
    by (simp add: submit_score_def sample_request_def issued_game_def sample_token_def submit_new_def sample_game_def
        sample_info_def respond_def f has_pp_def std_config_simps)
  have stats: "is_stats_of ?s = is_stats_of grave_score" by (simp add: is_stats_of_def fun_eq_iff)
  have "\<exists>st st'. find (is_stats_of ?s) (gd_stats (issued_game GRAVEYARD)) = Some st \<and>
      find (is_stats_of ?s) (gd_stats (process_user_background std_config no_validator DEFAULT_RANKED_MODS
        (\<lambda>_. (0, True)) 1300 (2026, 6) (sc_id ?s) (rq_user sample_request) db1)) = Some st' \<and>
      us_total_score st' = us_total_score st + 2 * display_score std_config ?s \<and> play_count st' = play_count st + 2"
    by (rule conjunct2 [OF unlisted_pass_is_counted_twice [OF sub]]) (simp_all add: f job(2) sample_info_def)
  moreover have "find (is_stats_of ?s) (gd_stats (issued_game GRAVEYARD)) = Some sample_stats"
    by (simp add: stats issued_game_def sample_game_def is_stats_of_def grave_score_def make_score_def)
      (simp add: sample_stats_def)
  moreover have "display_score std_config ?s = 800000"
    by (simp add: display_score_def get_display_score_def std_config_simps f)
  moreover have "us_total_score sample_stats = 0" "play_count sample_stats = 0" by (simp_all add: sample_stats_def)
  moreover have "rq_user sample_request = 7" by (simp add: sample_request_def)
  ultimately show ?thesis
    unfolding stats sub by (auto simp: f)
qed

lemma one_score_per_token_witness:
  "mset (map score_ident (gd_scores (snd (sample_submit GRAVEYARD)))) =
   mset (List.map_filter token_ident (gd_tokens (snd (sample_submit GRAVEYARD))))"
proof -
  let ?step = "game_step std_config no_validator DEFAULT_RANKED_MODS (\<lambda>_. (0, True))"
  have "?step (sample_game GRAVEYARD) (issued_game GRAVEYARD)"
    using token_issued [of sample_token "sample_game GRAVEYARD"] by (simp add: sample_defs)
  moreover have "?step (issued_game GRAVEYARD) (snd (sample_submit GRAVEYARD))" by (rule submitted)
  ultimately have "?step\<^sup>*\<^sup>* (sample_game GRAVEYARD) (snd (sample_submit GRAVEYARD))"
    by (meson converse_rtranclp_into_rtranclp rtranclp.rtrancl_refl)
  then show ?thesis
    by (rule conjunct2 [OF one_score_per_token]) (simp_all add: sample_game_def)
qed

text \<open>A token that already has a score never yields another one, and asking again is never
  answered: the branch that finds the existing score ends in an exception, because the
  response reads a local variable that only the other branch assigns.\<close>

theorem used_token_is_never_answered:
  assumes "find (\<lambda>t. tok_id t = token) (gd_tokens db) = Some t"
    and "tok_score t = Some sid" and "sid \<noteq> 0"
  shows "snd (submit_score cfg validate ranked_tbl calc now ym rq info token db) = db \<and>
    isl (fst (submit_score cfg validate ranked_tbl calc now ym rq info token db)) \<and>
    (if rq_restricted rq \<or> (\<not> rq_admin rq \<and> rq_maintenance rq \<noteq> None) \<or> tok_user t \<noteq> rq_user rq \<or>
        user_score (gd_scores db) sid (rq_user rq) = None then True
     else fst (submit_score cfg validate ranked_tbl calc now ym rq info token db) = Inl UnboundLocalError)"
  by (auto simp: submit_score_def assms respond_def Let_def split: option.split)

lemma used_token_is_never_answered_witness:
  "fst (submit_score std_config no_validator DEFAULT_RANKED_MODS (\<lambda>_. (0, True)) 1300 (2026, 6) sample_request sample_info 5
     ((issued_game GRAVEYARD)\<lparr>gd_scores := [grave_score], gd_tokens := [sample_token\<lparr>tok_score := Some 1\<rparr>]\<rparr>))
   = Inl UnboundLocalError"
proof -
  let ?db = "(issued_game GRAVEYARD)\<lparr>gd_scores := [grave_score], gd_tokens := [sample_token\<lparr>tok_score := Some 1\<rparr>]\<rparr>"
  have "user_score (gd_scores ?db) 1 (rq_user sample_request) \<noteq> None"
    by (simp add: user_score_def grave_score_def make_score_def sample_request_def)
  moreover have "find (\<lambda>t. tok_id t = 5) (gd_tokens ?db) = Some (sample_token\<lparr>tok_score := Some 1\<rparr>)"
    by (simp add: sample_token_def)
  moreover have "rq_restricted sample_request = False" "rq_maintenance sample_request = None"
    "tok_user (sample_token\<lparr>tok_score := Some 1\<rparr>) = rq_user sample_request"
    by (simp_all add: sample_request_def sample_token_def)
  ultimately show ?thesis
    using used_token_is_never_answered [of 5 ?db "sample_token\<lparr>tok_score := Some 1\<rparr>" 1 std_config no_validator
        DEFAULT_RANKED_MODS "\<lambda>_. (0, True)" 1300 "(2026, 6)" sample_request sample_info]
    by (auto split: if_splits)
qed

end
