(* ===== verification/PlayerTotals.thy ===== *)
theory PlayerTotals
  imports Processing
begin

text \<open>
  What the statistics step keeps true of a player's counters: the grade counters and the ranked
  score against the table of best totals, step by step and in every state the pipeline
  reaches.
\<close>

section \<open>The best total and rank of a key\<close>

definition best_total_of :: "total_best list \<Rightarrow> total_key \<Rightarrow> int" where
  "best_total_of tbl k = (case best_row k tbl of [] \<Rightarrow> 0 | r # _ \<Rightarrow> tb_total r)"

definition best_rank_of :: "total_best list \<Rightarrow> total_key \<Rightarrow> rank option" where
  "best_rank_of tbl k = (case best_row k tbl of [] \<Rightarrow> None | r # _ \<Rightarrow> Some (tb_rank r))"

lemma best_row_cases:
  obtains "key_rows k tbl = []" "best_row k tbl = []"
    "first_row (by_total_desc (key_rows k tbl)) = None" "best_total_of tbl k = 0" "best_rank_of tbl k = None"
  | p where "best_row k tbl = [p]" "first_row (by_total_desc (key_rows k tbl)) = Some p"
    "best_total_of tbl k = tb_total p" "best_rank_of tbl k = Some (tb_rank p)" "key_rows k tbl \<noteq> []"
proof (cases "by_total_desc (key_rows k tbl)")
  case Nil
  then have "key_rows k tbl = []" by (simp only: by_total_desc_Nil)
  with Nil show ?thesis
    using that(1) by (simp add: best_row_def first_row_def best_total_of_def best_rank_of_def by_total_desc_def)
next
  case (Cons p rest)
  then have "key_rows k tbl \<noteq> []" by (metis by_total_desc_Nil list.distinct(1))
  with Cons show ?thesis
    using that(2) [of p] by (simp add: best_row_def first_row_def best_total_of_def best_rank_of_def)
qed

lemma best_row_submit:
  "map tb_total (best_row (key_of_score s) (submit_standardised s tbl)) =
     (case best_row (key_of_score s) tbl of [] \<Rightarrow> [sc_total_score s] | p # _ \<Rightarrow> [max (tb_total p) (sc_total_score s)])"
proof (cases rule: best_row_cases [of "key_of_score s" tbl])
  case 1
  then show ?thesis using total_table.first [of s tbl] by simp
next
  case (2 p)
  then show ?thesis using total_table.again [of s tbl p] by simp
qed

lemma best_total_submit:
  assumes "0 \<le> sc_total_score s"
  shows "best_total_of (submit_standardised s tbl) k =
    (if k = key_of_score s then max (best_total_of tbl k) (sc_total_score s) else best_total_of tbl k)"
proof (cases "k = key_of_score s")
  case True
  then show ?thesis
    using best_row_submit [of s tbl] assms by (cases rule: best_row_cases [of k tbl]) (auto simp: best_total_of_def)
next
  case False
  then show ?thesis using total_table.other [OF False] by (simp add: best_total_of_def)
qed

text \<open>A score that beats the best total brings its own rank; the row of any other rank stays.\<close>

lemma best_rank_submit:
  assumes "best_total_of tbl (key_of_score s) < sc_total_score s"
  shows "best_rank_of (submit_standardised s tbl) (key_of_score s) = Some (sc_rank s)"
proof -
  let ?k = "key_of_score s" and ?new = "submit_standardised s tbl"
  obtain p where p: "best_row ?k ?new = [p]" "first_row (by_total_desc (key_rows ?k ?new)) = Some p"
    using best_row_submit [of s tbl] by (cases rule: best_row_cases [of ?k ?new]) (auto split: list.splits)
  have "tb_total p = sc_total_score s"
    using best_row_submit [of s tbl] p(1) assms
    by (cases rule: best_row_cases [of ?k tbl]) auto
  have in_new: "p \<in> set ?new" "total_key p = ?k" using first_row_best [OF p(2)] by (auto simp: key_rows_def)
  have "p \<notin> set tbl"
  proof
    assume "p \<in> set tbl"
    then have "p \<in> set (key_rows ?k tbl)" using in_new by (simp add: key_rows_def)
    then have "tb_total p \<le> best_total_of tbl ?k"
      using first_row_best by (cases rule: best_row_cases [of ?k tbl]) auto
    then show False using assms \<open>tb_total p = sc_total_score s\<close> by simp
  qed
  then have "tb_rank p = sc_rank s"
    using in_new(1) update_total_best_rows unfolding submit_standardised_def Let_def by blast
  then show ?thesis by (simp add: best_rank_of_def p(1))
qed

lemma best_row_kept:
  assumes "sc_total_score s < best_total_of tbl (key_of_score s)" and "0 \<le> sc_total_score s"
    and "distinct (map tb_total (key_rows (key_of_score s) tbl))"
  shows "best_rank_of (submit_standardised s tbl) (key_of_score s) = best_rank_of tbl (key_of_score s)"
proof (cases rule: best_row_cases [of "key_of_score s" tbl])
  case 1
  with assms show ?thesis by simp
next
  case (2 p)
  let ?k = "key_of_score s" and ?new = "submit_standardised s tbl"
  have "p \<in> set (key_rows ?k ?new)" using submit_standardised_again(3) [OF 2(2)] assms 2 by simp
  then obtain q where q: "best_row ?k ?new = [q]" "first_row (by_total_desc (key_rows ?k ?new)) = Some q"
    by (cases rule: best_row_cases [of ?k ?new]) auto
  have "tb_total q = tb_total p"
    using best_row_submit [of s tbl] q(1) assms 2 by auto
  moreover have "q \<in> set (key_rows ?k tbl)"
    using submit_standardised_again(1) [OF 2(2)] first_row_best [OF q(2)] calculation assms 2 by auto
  moreover have "p \<in> set (key_rows ?k tbl)" using first_row_best [OF 2(2)] by blast
  ultimately have "q = p" using assms(3) by (meson distinct_map inj_onD)
  then show ?thesis by (simp add: best_rank_of_def q(1) 2(1))
qed

text \<open>The sum of a player's best totals over the maps of a mode.\<close>

definition played_maps :: "total_best list \<Rightarrow> int \<Rightarrow> game_mode \<Rightarrow> int list" where
  "played_maps tbl user mode = remdups (map tb_beatmap (filter (\<lambda>r. tb_user r = user \<and> tb_mode r = mode) tbl))"

definition sum_of_bests :: "total_best list \<Rightarrow> int \<Rightarrow> game_mode \<Rightarrow> int" where
  "sum_of_bests tbl user mode = sum_list (map (\<lambda>b. best_total_of tbl (user, b, mode)) (played_maps tbl user mode))"

lemma set_played_maps: "set (played_maps tbl user mode) = {b. key_rows (user, b, mode) tbl \<noteq> []}"
  by (auto simp: played_maps_def key_rows_def total_key_def filter_empty_conv)

lemma sum_of_bests_eq:
  "sum_of_bests tbl user mode = (\<Sum>b \<in> {b. key_rows (user, b, mode) tbl \<noteq> []}. best_total_of tbl (user, b, mode))"
  unfolding sum_of_bests_def set_played_maps [symmetric]
  by (rule sum_list_distinct_conv_sum_set) (simp add: played_maps_def)

lemma unplayed_total: "key_rows k tbl = [] \<Longrightarrow> best_total_of tbl k = 0"
  by (cases rule: best_row_cases [of k tbl]) auto

lemma sum_of_bests_submit:
  assumes "0 \<le> sc_total_score s"
  shows "sum_of_bests (submit_standardised s tbl) user mode = sum_of_bests tbl user mode +
    (if user = sc_user s \<and> mode = sc_mode s
     then max 0 (sc_total_score s - best_total_of tbl (key_of_score s)) else 0)"
proof (cases "user = sc_user s \<and> mode = sc_mode s")
  case False
  then have other: "(user, b, mode) \<noteq> key_of_score s" for b by (auto simp: key_of_score_def)
  then have "sum_of_bests (submit_standardised s tbl) user mode = sum_of_bests tbl user mode"
    by (simp add: sum_of_bests_eq submit_standardised_other best_total_submit assms)
  with False show ?thesis by auto
next
  case True
  let ?b = "sc_beatmap s" and ?new = "submit_standardised s tbl"
  let ?S = "\<lambda>t. {b. key_rows (user, b, mode) t \<noteq> []}"
  have k: "key_of_score s = (user, ?b, mode)" using True by (simp add: key_of_score_def)
  have fin: "finite (?S t)" for t by (metis finite_set set_played_maps)
  have "key_rows (user, ?b, mode) ?new \<noteq> []"
    using best_row_submit [of s tbl] unfolding k
    by (cases rule: best_row_cases [of "(user, ?b, mode)" ?new]) (auto split: list.splits)
  moreover have same: "key_rows (user, b, mode) ?new = key_rows (user, b, mode) tbl" if "b \<noteq> ?b" for b
    using that by (intro submit_standardised_other) (simp add: k)
  ultimately have S: "?S ?new = insert ?b (?S tbl)" using same by (intro set_eqI) (case_tac "x = ?b", simp_all)
  have "sum_of_bests ?new user mode = (\<Sum>b \<in> insert ?b (?S tbl). best_total_of ?new (user, b, mode))"
    by (simp only: sum_of_bests_eq S)
  also have "\<dots> = best_total_of ?new (user, ?b, mode) + (\<Sum>b \<in> ?S tbl - {?b}. best_total_of ?new (user, b, mode))"
    using fin by (simp add: sum.insert_remove)
  also have "(\<Sum>b \<in> ?S tbl - {?b}. best_total_of ?new (user, b, mode)) = (\<Sum>b \<in> ?S tbl - {?b}. best_total_of tbl (user, b, mode))"
    by (rule sum.cong) (auto simp: best_total_submit assms k)
  also have "\<dots> = sum_of_bests tbl user mode - best_total_of tbl (user, ?b, mode)"
  proof -
    have "sum_of_bests tbl user mode = (\<Sum>b \<in> insert ?b (?S tbl). best_total_of tbl (user, b, mode))"
      unfolding sum_of_bests_eq
      by (cases "?b \<in> ?S tbl") (use fin in \<open>auto simp: insert_absorb unplayed_total\<close>)
    then show ?thesis using fin by (simp add: sum.insert_remove)
  qed
  finally show ?thesis using True by (simp add: best_total_submit assms k)
qed

section \<open>The statistics step keeps the tallies\<close>

text \<open>The grade counter of a rank.\<close>

definition grade_count :: "rank \<Rightarrow> user_statistics \<Rightarrow> int" where
  "grade_count r st =
     (case r of Rank_X \<Rightarrow> grade_ss st | Rank_XH \<Rightarrow> grade_ssh st | Rank_S \<Rightarrow> grade_s st
      | Rank_SH \<Rightarrow> grade_sh st | Rank_A \<Rightarrow> grade_a st | _ \<Rightarrow> 0)"

definition graded :: "rank option \<Rightarrow> rank \<Rightarrow> int" where
  "graded best r = (if best = Some r \<and> in_statistics r then 1 else 0)"

lemma grade_count_add: "grade_count r (add_grade d r' st) = grade_count r st + (if r = r' \<and> in_statistics r then d else 0)"
  by (cases r; cases r') (simp_all add: grade_count_def add_grade_def in_statistics_def)

lemma grade_count_frame [simp]:
  "grade_count r (st\<lparr>ranked_score := a\<rparr>) = grade_count r st" "grade_count r (st\<lparr>level_current := l\<rparr>) = grade_count r st"
  "grade_count r (st\<lparr>maximum_combo := c\<rparr>) = grade_count r st" "grade_count r (st\<lparr>us_total_score := a\<rparr>) = grade_count r st"
  "grade_count r (st\<lparr>last_played := p\<rparr>) = grade_count r st" "grade_count r (st\<lparr>play_count := a\<rparr>) = grade_count r st"
  "grade_count r (st\<lparr>play_time := a\<rparr>) = grade_count r st"
  by (simp_all add: grade_count_def split: rank.split)

lemma count_hits_grades: "grade_count r (count_hits s st) = grade_count r st" "ranked_score (count_hits s st) = ranked_score st"
  by (simp_all add: count_hits_def grade_count_def Let_def split: rank.split)

lemma add_grade_ranked_score [simp]: "ranked_score (add_grade d r st) = ranked_score st"
  by (simp add: add_grade_def split: rank.split)

lemma update_counters_tallies:
  "ranked_score (update_counters s display difference ranked prev played st) = ranked_score st +
     (if 0 < difference \<and> sc_passed s \<and> ranked then difference else 0)"
  "grade_count r (update_counters s display difference ranked prev played st) = grade_count r st +
     (if 0 < difference \<and> sc_passed s \<and> ranked
      then graded (Some (sc_rank s)) r - graded (map_option tb_rank prev) r else 0)"
  by (auto simp: update_counters_def new_best_def count_hits_grades grade_count_add graded_def Let_def split: option.split)

lemma standard_display: "scoring_mode cfg = STANDARDISED \<Longrightarrow> display_score cfg s = sc_total_score s"
  by (simp add: display_score_def get_display_score_def)

lemma standard_previous:
  assumes "scoring_mode cfg = STANDARDISED" and "rows_backed (score_by_id scores) tbl"
    and "prev = first_row (by_total_desc (key_rows (key_of_score s) tbl))"
  shows "previous_display cfg scores prev = best_total_of tbl (key_of_score s)"
    and "map_option tb_rank prev = best_rank_of tbl (key_of_score s)"
proof -
  show "previous_display cfg scores prev = best_total_of tbl (key_of_score s)"
  proof (cases rule: best_row_cases [of "key_of_score s" tbl])
    case (2 p)
    then have "p \<in> set tbl" using first_row_best [OF 2(2)] by (simp add: key_rows_def)
    then show ?thesis using assms 2
      by (auto simp: previous_display_def rows_backed_def standard_display)
  qed (simp add: assms(3) previous_display_def)
  show "map_option tb_rank prev = best_rank_of tbl (key_of_score s)"
    by (cases rule: best_row_cases [of "key_of_score s" tbl]) (simp_all add: assms(3))
qed

text \<open>One play on a map that both counts and has a leaderboard, or neither.\<close>

lemma record_play_tallies:
  assumes run: "record_play cfg ym len (counts, counts) token s st db = Inr (st', db')"
    and std: "scoring_mode cfg = STANDARDISED" and backed: "rows_backed (score_by_id (gd_scores db)) (gd_totals db)"
  shows "gd_totals db' = (if sc_passed s \<and> counts then submit_standardised s (gd_totals db) else gd_totals db)"
    and "ranked_score st' = ranked_score st + (if sc_passed s \<and> counts
           then max 0 (sc_total_score s - best_total_of (gd_totals db) (key_of_score s)) else 0)"
    and "grade_count r st' = grade_count r st +
           (if sc_passed s \<and> counts \<and> best_total_of (gd_totals db) (key_of_score s) < sc_total_score s
            then graded (Some (sc_rank s)) r - graded (best_rank_of (gd_totals db) (key_of_score s)) r else 0)"
    and "gd_stats db' = put_stats s st' (gd_stats db)" and "us_user st' = us_user st" and "us_mode st' = us_mode st"
proof -
  let ?prev = "first_row (by_total_desc (key_rows (key_of_score s) (gd_totals db)))"
  let ?pm = "first_row (by_total_desc (filter (\<lambda>r. same_mods (tb_mods r) (mod_to_save (sc_mods s)))
      (key_rows (key_of_score s) (gd_totals db))))"
  note prev = standard_previous [OF std backed refl]
  obtain played where played: "calculate_playtime s len = Inr played"
    using run by (auto simp: record_play_def py_bind_Inr_iff Let_def)
  let ?d = "sc_total_score s - best_total_of (gd_totals db) (key_of_score s)"
  have res: "st' = update_counters s (sc_total_score s) (if sc_passed s \<and> counts then ?d else sc_total_score s) counts
      (if sc_passed s \<and> counts then ?prev else None) played st"
    "gd_stats db' = put_stats s st' (gd_stats db)"
    "gd_totals db' = (if sc_passed s \<and> counts then update_total_best s ?d ?prev ?pm (gd_totals db) else gd_totals db)"
    using run played prev(1) unfolding record_play_def previous_best_row previous_mod_row standard_display [OF std]
    by (auto simp: Let_def previous_display_def)
  show "gd_stats db' = put_stats s st' (gd_stats db)" by (rule res)
  show "us_user st' = us_user st" "us_mode st' = us_mode st" by (simp_all add: res(1) update_counters_fields)
  have "(case ?prev of None \<Rightarrow> 0 | Some p \<Rightarrow> tb_total p) = best_total_of (gd_totals db) (key_of_score s)"
    by (cases rule: best_row_cases [of "key_of_score s" "gd_totals db"]) simp_all
  then show "gd_totals db' = (if sc_passed s \<and> counts then submit_standardised s (gd_totals db) else gd_totals db)"
    by (simp add: res(3) submit_standardised_def Let_def)
  show "ranked_score st' = ranked_score st + (if sc_passed s \<and> counts
           then max 0 (sc_total_score s - best_total_of (gd_totals db) (key_of_score s)) else 0)"
    by (simp add: res(1) update_counters_tallies)
  show "grade_count r st' = grade_count r st +
           (if sc_passed s \<and> counts \<and> best_total_of (gd_totals db) (key_of_score s) < sc_total_score s
            then graded (Some (sc_rank s)) r - graded (best_rank_of (gd_totals db) (key_of_score s)) r else 0)"
    by (auto simp: res(1) update_counters_tallies prev(2))
qed


section \<open>The ranked score in every reachable state\<close>

definition maps_agree :: "config \<Rightarrow> (int \<Rightarrow> map_row option) \<Rightarrow> bool" where
  "maps_agree cfg maps \<longleftrightarrow>
     (\<forall>b bm. maps b = Some bm \<longrightarrow>
        (status_ranked (map_status bm) \<or> enable_all_beatmap_pp cfg) =
        (has_leaderboard (map_status bm) \<or> enable_all_beatmap_leaderboard cfg))"

definition nonneg_scores :: "score_row list \<Rightarrow> bool" where
  "nonneg_scores scores \<longleftrightarrow> list_all (\<lambda>s. 0 \<le> sc_total_score s) scores"

definition tallies_ok :: "game_db \<Rightarrow> bool" where
  "tallies_ok db \<longleftrightarrow>
     nonneg_scores (gd_scores db) \<and> rows_backed (score_by_id (gd_scores db)) (gd_totals db) \<and>
     (\<forall>user mode st. find (\<lambda>st. us_user st = user \<and> us_mode st = mode) (gd_stats db) = Some st \<longrightarrow>
        ranked_score st = sum_of_bests (gd_totals db) user mode)"

lemma score_by_id_core:
  "map_option score_core (score_by_id scores sid) = find (\<lambda>c. sc_id c = sid) (map score_core scores)"
  by (induction scores) (simp_all add: score_by_id_def)

lemma total_by_id:
  "map_option sc_total_score (score_by_id scores sid) =
   map_option sc_total_score (find (\<lambda>c. sc_id c = sid) (map score_core scores))"
  by (simp add: score_by_id_core [symmetric] option.map_comp o_def core_fields)

lemma rows_backed_iff:
  "rows_backed (score_by_id scores) tbl \<longleftrightarrow>
   (\<forall>r \<in> set tbl. map_option sc_total_score (find (\<lambda>c. sc_id c = tb_score r) (map score_core scores)) = Some (tb_total r))"
  unfolding total_by_id [symmetric] by (auto simp: rows_backed_def)

lemma rows_backed_cong:
  "map score_core scores' = map score_core scores \<Longrightarrow>
   rows_backed (score_by_id scores') tbl = rows_backed (score_by_id scores) tbl"
  unfolding rows_backed_iff by (simp only:)

lemma nonneg_scores_cong:
  "map score_core scores' = map score_core scores \<Longrightarrow> nonneg_scores scores' = nonneg_scores scores"
proof -
  assume "map score_core scores' = map score_core scores"
  then have "map sc_total_score (map score_core scores') = map sc_total_score (map score_core scores)" by (simp only:)
  then have eq: "map sc_total_score scores' = map sc_total_score scores" by (simp add: o_def core_fields)
  have "nonneg_scores xs \<longleftrightarrow> list_all (\<lambda>t. 0 \<le> t) (map sc_total_score xs)" for xs
    by (simp add: nonneg_scores_def list_all_iff)
  with eq show ?thesis by (simp only:)
qed

lemma find_put_stats_other:
  "P = (\<lambda>st. us_user st = user \<and> us_mode st = mode) \<Longrightarrow> is_stats_of s st' \<Longrightarrow>
   find P (put_stats s st' stats) =
     (if user = sc_user s \<and> mode = sc_mode s \<and> find P stats \<noteq> None then Some st' else find P stats)"
  by (induction stats) (auto simp: put_stats_def is_stats_of_def)

text \<open>Replacing the row of the score's player keeps the tallies if the ranked score moves with
  the sum.\<close>

lemma tallies_put_stats:
  assumes ok: "tallies_ok db" and find: "find (is_stats_of s) (gd_stats db) = Some st"
    and st': "us_user st' = us_user st" "us_mode st' = us_mode st"
    and moves: "\<And>user mode. sum_of_bests tbl user mode = sum_of_bests (gd_totals db) user mode +
          (if user = sc_user s \<and> mode = sc_mode s then ranked_score st' - ranked_score st else 0)"
    and found: "find (\<lambda>x. us_user x = user \<and> us_mode x = mode) (put_stats s st' (gd_stats db)) = Some x"
  shows "ranked_score x = sum_of_bests tbl user mode"
proof -
  have st: "is_stats_of s st" using find by (auto dest: find_SomeD)
  then have is': "is_stats_of s st'" using st' by (simp add: is_stats_of_def)
  have old: "ranked_score y = sum_of_bests (gd_totals db) user mode"
    if "find (\<lambda>x. us_user x = user \<and> us_mode x = mode) (gd_stats db) = Some y" for y
    using ok that by (simp add: tallies_ok_def)
  show ?thesis
  proof (cases "user = sc_user s \<and> mode = sc_mode s")
    case True
    then have "(\<lambda>x. us_user x = user \<and> us_mode x = mode) = is_stats_of s" by (simp add: is_stats_of_def fun_eq_iff)
    then have "ranked_score st = sum_of_bests (gd_totals db) user mode" "x = st'"
      using old [of st] find found find_put_stats_other [OF refl is', of user mode "gd_stats db"] True by auto
    then show ?thesis using moves [of user mode] True by simp
  next
    case False
    then show ?thesis
      using old [of x] found find_put_stats_other [OF refl is', of user mode "gd_stats db"] moves [of user mode] by auto
  qed
qed

lemma process_statistics_tallies:
  assumes run: "process_statistics cfg validate ranked_tbl now ym token len status s db = Inr (s', db')"
    and std: "scoring_mode cfg = STANDARDISED" and ok: "tallies_ok db"
    and agree: "(status_ranked status \<or> enable_all_beatmap_pp cfg) = (has_leaderboard status \<or> enable_all_beatmap_leaderboard cfg)"
    and s: "score_by_id (gd_scores db) (sc_id s) = Some s"
  shows "tallies_ok db'"
proof -
  obtain mods_ranked where gates: "mods_can_get_pp cfg validate ranked_tbl (mode_int (sc_mode s)) (sc_mods s) = Inr mods_ranked"
    using run by (auto simp: process_statistics_def py_bind_Inr_iff)
  obtain pp counts where pg: "score_gates cfg status mods_ranked = (pp, counts, counts)"
    by (simp add: score_gates_def agree)
  obtain st where st: "find (is_stats_of s) (gd_stats db) = Some st"
    using run gates pg by (cases "find (is_stats_of s) (gd_stats db)") (auto simp: process_statistics_def)
  obtain st1 db1 where r1: "record_play cfg ym len (counts, counts) token s st db = Inr (st1, db1)"
    and res: "(s', db') = (if sc_passed s \<and> pp then record_pp now s st1 db1 else (s, db1))"
    using run gates pg st by (auto simp: process_statistics_def py_bind_Inr_iff)
  have backed: "rows_backed (score_by_id (gd_scores db)) (gd_totals db)" using ok by (simp add: tallies_ok_def)
  note t = record_play_tallies [OF r1 std backed]
  note f1 = record_play_frame [OF r1]
  have nonneg: "0 \<le> sc_total_score s"
    using ok s by (auto simp: tallies_ok_def nonneg_scores_def list_all_iff score_by_id_def dest: find_SomeD)
  have sum: "sum_of_bests (gd_totals db1) user mode = sum_of_bests (gd_totals db) user mode +
      (if user = sc_user s \<and> mode = sc_mode s then ranked_score st1 - ranked_score st else 0)" for user mode
    by (simp add: t(1,2) sum_of_bests_submit [OF nonneg])
  have "rows_backed (score_by_id (gd_scores db)) (submit_standardised s (gd_totals db))"
    using submit_keeps_backed [OF backed s] submit_is_standardised [OF std backed] by metis
  then have backed1: "rows_backed (score_by_id (gd_scores db)) (gd_totals db1)"
    using backed by (simp add: t(1))
  have nn: "nonneg_scores (gd_scores db)" using ok by (simp add: tallies_ok_def)
  have ok1: "tallies_ok db1"
    unfolding tallies_ok_def
    using f1 nn backed1 tallies_put_stats [OF ok st t(5,6) sum] by (auto simp: t(4))
  show ?thesis
  proof (cases "sc_passed s \<and> pp")
    case False
    then show ?thesis using res ok1 unfolding if_not_P [OF False] by simp
  next
    case True
    obtain upp acc where u: "calculate_user_pp (gd_best db1) (us_user st1) (sc_mode s) = (upp, acc)" by fastforce
    let ?st2 = "st1\<lparr>us_pp := upp, hit_accuracy := acc\<rparr>"
    let ?sc = "put_score (s\<lparr>sc_account_pp_delta := Some (account_pp_gain (us_pp st1) upp (sc_account_pp_delta s))\<rparr>) (gd_scores db)"
    have core: "map score_core ?sc = map score_core (gd_scores db)"
      by (rule put_score_core [OF score_by_id_kept [OF s]]) (simp add: score_core_def)
    have db': "gd_stats db' = put_stats s ?st2 (gd_stats db1)" "gd_totals db' = gd_totals db1" "gd_scores db' = ?sc"
      using res True u f1 by (simp_all add: record_pp_def Let_def)
    have "is_stats_of s st1" using st t(5,6) by (auto simp: is_stats_of_def dest: find_SomeD)
    then have here: "find (is_stats_of s) (gd_stats db1) = Some st1"
      unfolding t(4) using st by (intro find_put_stats) simp_all
    show ?thesis
      unfolding tallies_ok_def db' rows_backed_cong [OF core] nonneg_scores_cong [OF core]
    proof (intro conjI allI impI)
      fix user mode x
      assume "find (\<lambda>y. us_user y = user \<and> us_mode y = mode) (put_stats s ?st2 (gd_stats db1)) = Some x"
      then show "ranked_score x = sum_of_bests (gd_totals db1) user mode"
        by (rule tallies_put_stats [OF ok1 here, rotated 3]) simp_all
    qed (use nn backed1 in simp_all)
  qed
qed

lemma tallies_ok_cong:
  assumes "map score_core (gd_scores db') = map score_core (gd_scores db)"
    and "gd_totals db' = gd_totals db" and "gd_stats db' = gd_stats db"
  shows "tallies_ok db' = tallies_ok db"
  unfolding tallies_ok_def assms(2,3) rows_backed_cong [OF assms(1)] nonneg_scores_cong [OF assms(1)] by (rule refl)

lemma warn_zero_pp_totals: "gd_totals (warn_zero_pp s reason db) = gd_totals db"
  by (simp add: warn_zero_pp_def split: option.split)

lemma process_user_tallies:
  assumes std: "scoring_mode cfg = STANDARDISED" and ok: "tallies_ok db"
    and agree: "(status_ranked status \<or> enable_all_beatmap_pp cfg) = (has_leaderboard status \<or> enable_all_beatmap_leaderboard cfg)"
    and s: "score_by_id (gd_scores db) (sc_id s) = Some s"
  shows "tallies_ok (snd (process_user cfg validate ranked_tbl calc now ym token len status s db))"
proof (cases "process_score_pp cfg validate ranked_tbl (calc s) s (gd_best db)")
  case (Inl e)
  then show ?thesis using ok by (simp add: process_user_def Let_def)
next
  case (Inr r)
  let ?s = "pp_score r"
  let ?pts = "if sc_passed s \<and> sc_ranked s \<and> sc_total_score s \<ge> DAILY_PLAY_MIN_TOTAL_SCORE
                    then snd (award_daily_play now (sc_user s) (Some (sc_mode s)) (gd_points db)) else gd_points db"
  let ?db1 = "db\<lparr>gd_points := ?pts, gd_best := pp_best r, gd_scores := put_score ?s (gd_scores db),
    gd_requeued := gd_requeued db @ (if pp_requeued r then [sc_id ?s] else [])\<rparr>"
  let ?db2 = "warn_zero_pp ?s (skip_reason r) ?db1"
  note core = process_score_pp_core [OF Inr]
  note kept = score_by_id_kept [OF s]
  have "map score_core (gd_scores ?db2) = map score_core (gd_scores db)"
    using put_score_core [OF kept core] by (simp add: warn_zero_pp_frame(2))
  then have ok2: "tallies_ok ?db2"
    using tallies_ok_cong [of ?db2 db] ok by (simp add: warn_zero_pp_totals warn_zero_pp_same)
  have "sc_id ?s = sc_id s" using core by (metis sc_id_score_core)
  then have s2: "score_by_id (gd_scores ?db2) (sc_id ?s) = Some ?s"
    using score_by_id_put [of ?s "gd_scores db"] kept_in_found kept_in_cong [OF put_score_core [OF kept core]] kept
    by (simp add: warn_zero_pp_frame(2))
  show ?thesis
  proof (cases "process_statistics cfg validate ranked_tbl now ym token len status ?s ?db2")
    case (Inl e)
    then show ?thesis using Inr ok2 \<open>process_score_pp cfg validate ranked_tbl (calc s) s (gd_best db) = Inr r\<close>
      by (simp add: process_user_def Let_def)
  next
    case run: (Inr res)
    obtain s' db' where res: "res = (s', db')" by (cases res)
    have ok': "tallies_ok db'" by (rule process_statistics_tallies [OF run [unfolded res] std ok2 agree s2])
    note f2 = process_statistics_frame [OF run [unfolded res] score_by_id_kept [OF s2]]
    then have "kept_in s' (gd_scores db')"
      using same_game_kept [of ?db2 db'] score_by_id_kept [OF s2] kept_in_core by blast
    then have "map score_core (put_score (s'\<lparr>sc_processed := True\<rparr>) (gd_scores db')) = map score_core (gd_scores db')"
      by (rule put_score_core) (simp add: score_core_def)
    then have "tallies_ok (db'\<lparr>gd_scores := put_score (s'\<lparr>sc_processed := True\<rparr>) (gd_scores db'),
        gd_messages := gd_messages db' @ [User_invalidate (sc_user s'), Score_processed (sc_id s')]\<rparr>)"
      using ok' by (subst tallies_ok_cong [of _ db']) simp_all
    then show ?thesis
      using run res Inr by (simp add: process_user_def Let_def)
  qed
qed

lemma process_user_job_tallies:
  assumes std: "scoring_mode cfg = STANDARDISED" and ok: "tallies_ok db" and agree: "maps_agree cfg (gd_maps db)"
  shows "tallies_ok (snd (process_user_job cfg validate ranked_tbl calc now ym sid user db))"
proof (cases "score_by_id (gd_scores db) sid")
  case (Some s)
  then have "sc_id s = sid" by (auto simp: score_by_id_def dest: find_SomeD)
  with Some have s: "score_by_id (gd_scores db) (sc_id s) = Some s" by simp
  have "tallies_ok (snd (process_user cfg validate ranked_tbl calc now ym token (map_length bm) (map_status bm) s db))"
    if "gd_maps db (sc_beatmap s) = Some bm" for token bm
    by (rule process_user_tallies [OF std ok _ s]) (use agree that in \<open>auto simp: maps_agree_def\<close>)
  then show ?thesis using Some ok by (simp add: process_user_job_def split: option.split)
qed (simp add: process_user_job_def ok)

lemma process_score_tallies:
  assumes run: "process_score cfg validate ranked_tbl now user beatmap ranked bm token info db = Inr (s, db')"
    and plain: "\<not> server_authoritative_total_score cfg" and fields: "0 \<le> sub_total_score info" and ok: "tallies_ok db"
  shows "tallies_ok db'"
proof -
  from run obtain mode mods r total where tot: "final_total_score cfg bm info mods = Inr total"
    and s: "s = make_score now (next_score_id (gd_scores db)) user beatmap mode mods r total token info"
    and db': "db' = db\<lparr>gd_scores := gd_scores db @ [s], gd_tokens := bind_token (tok_id token) (sc_id s) (gd_tokens db)\<rparr>"
    unfolding process_score_def Let_def py_bind_Inr_iff by blast
  have "total = sub_total_score info" using tot plain by (simp add: final_total_score_def)
  then have "0 \<le> sc_total_score s" using fields by (simp add: s make_score_def)
  moreover have "score_by_id (xs @ [s]) sid = Some x" if "score_by_id xs sid = Some x" for xs sid x
    using that by (induction xs) (auto simp: score_by_id_def split: if_splits)
  ultimately show ?thesis
    using ok unfolding tallies_ok_def db' rows_backed_def nonneg_scores_def by (fastforce simp: list_all_iff)
qed

text \<open>Submissions whose fields are valid.\<close>

inductive valid_step :: "config \<Rightarrow> validator \<Rightarrow> ranked_mods \<Rightarrow> (score_row \<Rightarrow> real \<times> bool) \<Rightarrow> game_db \<Rightarrow> game_db \<Rightarrow> bool"
  for cfg validate ranked_tbl calc where
  v_token: "game_step cfg validate ranked_tbl calc db (db\<lparr>gd_tokens := gd_tokens db @ [t]\<rparr>) \<Longrightarrow>
    valid_step cfg validate ranked_tbl calc db (db\<lparr>gd_tokens := gd_tokens db @ [t]\<rparr>)"
| v_submit: "submission_fields_ok info \<Longrightarrow>
    valid_step cfg validate ranked_tbl calc db (snd (submit_score cfg validate ranked_tbl calc now ym rq info token db))"
| v_again: "valid_step cfg validate ranked_tbl calc db (process_user_background cfg validate ranked_tbl calc now ym sid user db)"

lemma process_score_maps:
  assumes "process_score cfg validate ranked_tbl now user beatmap ranked bm token info db = Inr (s, db')"
  shows "gd_maps db' = gd_maps db"
  using assms unfolding process_score_def Let_def py_bind_Inr_iff by auto

lemma submit_new_tallies:
  assumes std: "scoring_mode cfg = STANDARDISED" and plain: "\<not> server_authoritative_total_score cfg"
    and agree: "maps_agree cfg (gd_maps db)" and ok: "tallies_ok db" and fields: "0 \<le> sub_total_score info"
  shows "tallies_ok (snd (submit_new cfg validate ranked_tbl calc now ym rq info t db)) \<and>
    gd_maps (snd (submit_new cfg validate ranked_tbl calc now ym rq info t db)) = gd_maps db"
proof (cases "gd_maps db (tok_beatmap t)")
  case (Some bm)
  show ?thesis
  proof (cases "process_score cfg validate ranked_tbl now (rq_user rq) (tok_beatmap t)
      (has_pp (map_status bm) \<or> enable_all_beatmap_pp cfg) bm t info db")
    case (Inr r)
    obtain s db1 where r: "r = (s, db1)" by (cases r)
    have ok1: "tallies_ok db1" by (rule process_score_tallies [OF Inr [unfolded r] plain fields ok])
    have maps: "gd_maps db1 = gd_maps db" by (rule process_score_maps [OF Inr [unfolded r]])
    let ?job = "process_user_job cfg validate ranked_tbl calc now ym (sc_id s) (rq_user rq) db1"
    have "tallies_ok (snd ?job)" using agree maps by (intro process_user_job_tallies [OF std ok1]) simp
    moreover have "gd_maps (snd ?job) = gd_maps db1"
      using process_user_job_frame [of db1] unfolding same_game_def by blast
    ultimately show ?thesis
      using ok1 maps Some Inr r by (cases ?job) (simp add: submit_new_def Let_def)
  qed (simp add: submit_new_def Some ok)
qed (simp add: submit_new_def ok)

lemma snd_if_in: "snd a \<in> S \<Longrightarrow> snd b \<in> S \<Longrightarrow> snd (if c then a else b) \<in> S"
  by simp

lemma snd_option_in:
  "snd a \<in> S \<Longrightarrow> (\<And>x. x \<in> set_option o' \<Longrightarrow> snd (f x) \<in> S) \<Longrightarrow> snd (case o' of None \<Rightarrow> a | Some x \<Rightarrow> f x) \<in> S"
  by (cases o') simp_all

lemma submit_score_state:
  "snd (submit_score cfg validate ranked_tbl calc now ym rq info token db) = db \<or>
   (\<exists>t. snd (submit_score cfg validate ranked_tbl calc now ym rq info token db) =
      snd (submit_new cfg validate ranked_tbl calc now ym rq (if sub_passed info then info else info\<lparr>sub_rank := Rank_F\<rparr>) t db))"
proof -
  have "snd (submit_score cfg validate ranked_tbl calc now ym rq info token db) \<in>
      insert db (range (\<lambda>t. snd (submit_new cfg validate ranked_tbl calc now ym rq
        (if sub_passed info then info else info\<lparr>sub_rank := Rank_F\<rparr>) t db)))"
    unfolding submit_score_def Let_def by (intro snd_if_in snd_option_in; (simp only: snd_conv insertI1; fail | blast)?)
  then show ?thesis by blast
qed

lemma submit_score_tallies:
  assumes std: "scoring_mode cfg = STANDARDISED" and plain: "\<not> server_authoritative_total_score cfg"
    and agree: "maps_agree cfg (gd_maps db)" and ok: "tallies_ok db" and fields: "submission_fields_ok info"
  shows "tallies_ok (snd (submit_score cfg validate ranked_tbl calc now ym rq info token db)) \<and>
    gd_maps (snd (submit_score cfg validate ranked_tbl calc now ym rq info token db)) = gd_maps db"
proof -
  have "0 \<le> sub_total_score (if sub_passed info then info else info\<lparr>sub_rank := Rank_F\<rparr>)"
    using fields by (simp add: submission_fields_ok_def)
  from submit_new_tallies [OF std plain agree ok this]
    submit_score_state [of cfg validate ranked_tbl calc now ym rq info token db]
  show ?thesis using ok by metis
qed

lemma valid_step_tallies:
  assumes "valid_step cfg validate ranked_tbl calc db db'"
    and std: "scoring_mode cfg = STANDARDISED" and plain: "\<not> server_authoritative_total_score cfg"
    and "maps_agree cfg (gd_maps db) \<and> tallies_ok db"
  shows "maps_agree cfg (gd_maps db') \<and> tallies_ok db'"
  using assms(1,4)
proof (induction rule: valid_step.induct)
  case (v_token db t)
  then show ?case by (simp add: tallies_ok_def)
next
  case (v_submit info db now ym rq token)
  then show ?case using submit_score_tallies [OF std plain] by metis
next
  case (v_again db now ym sid user)
  moreover have "gd_maps (snd (process_user_job cfg validate ranked_tbl calc now ym sid user db)) = gd_maps db"
    using process_user_job_frame [of db] unfolding same_game_def by blast
  ultimately show ?case using process_user_job_tallies [OF std] by (simp add: process_user_background_def)
qed


lemma loved_gates: "score_gates std_config LOVED True = (False, True, True)"
  by (simp add: score_gates_def has_pp_def status_ranked_def has_leaderboard_def std_config_simps)

lemma sample_play:
  "sc_id grave_score = 1" "sc_user grave_score = 7" "sc_beatmap grave_score = 42" "sc_mode grave_score = OSU"
  "sc_mods grave_score = []" "sc_passed grave_score" "\<not> sc_ranked grave_score" "sc_pp grave_score = 0"
  "sc_total_score grave_score = 800000"
  by (simp_all add: grave_score_def make_score_def sample_info_def)

lemma sample_playtime: "calculate_playtime grave_score 100 = Inr (100, True)"
  by (simp add: calculate_playtime_def get_play_length_def sample_play get_speed_rate_def)
    (simp add: grave_score_def make_score_def sample_token_def py_int_def)

lemma loved_play:
  "\<exists>st db'. record_play std_config (2026, 6) 100 (True, True) 5 grave_score sample_stats
     ((issued_game LOVED)\<lparr>gd_scores := [grave_score]\<rparr>) = Inr (st, db')"
  by (simp add: record_play_def sample_playtime Let_def)


lemma loved_submit:
  "\<exists>st. find (\<lambda>st. us_user st = 7 \<and> us_mode st = OSU) (gd_stats (snd (sample_submit LOVED))) = Some st"
proof -
  let ?db0 = "(issued_game LOVED)\<lparr>gd_scores := [grave_score], gd_tokens := [sample_token\<lparr>tok_score := Some 1\<rparr>]\<rparr>"
  let ?job = "process_user_job std_config no_validator DEFAULT_RANKED_MODS (\<lambda>_. (0, True)) 1200 (2026, 6) 1 7 ?db0"
  have pp: "process_score_pp std_config no_validator DEFAULT_RANKED_MODS (0, True) grave_score [] = Inr (pp_unchanged grave_score [])"
    by (simp add: process_score_pp_def sample_play fl_gate_def can_get_pp_def)
  obtain ts db1 where job: "?job = (Inr ts, db1)" and ts: "ts \<noteq> []"
    by (simp add: process_user_job_def issued_game_def sample_game_def score_by_id_def sample_play sample_token_def
        process_user_def pp pp_unchanged_def warn_zero_pp_def put_score_def process_statistics_def no_mods_pp
        loved_gates is_stats_of_def sample_stats_def record_play_def sample_playtime Let_def)
  have s: "score_by_id (gd_scores ?db0) 1 = Some grave_score" by (simp add: score_by_id_def sample_play)
  obtain t :: score_token and bm :: map_row where run: "process_user std_config no_validator DEFAULT_RANKED_MODS (\<lambda>_. (0, True)) 1200 (2026, 6) (tok_id t)
      (map_length bm) (map_status bm) grave_score ?db0 = (Inr ts, db1)"
  proof (rule process_user_job_ran [OF job ts])
    fix s0 and t :: score_token and bm :: map_row
    assume s0: "score_by_id (gd_scores ?db0) 1 = Some s0"
      and run: "process_user std_config no_validator DEFAULT_RANKED_MODS (\<lambda>_. (0, True)) 1200 (2026, 6) (tok_id t)
        (map_length bm) (map_status bm) s0 ?db0 = (Inr ts, db1)"
    have "s0 = grave_score" using s s0 by simp
    with run show thesis by (intro that) simp
  qed
  have s': "score_by_id (gd_scores ?db0) (sc_id grave_score) = Some grave_score" using s by (simp add: sample_play)
  from process_user_pass [OF run s' sample_play(6), of 0 "(0, 0)"]
  obtain st where st: "find (is_stats_of grave_score) (gd_stats db1) = Some st" by blast
  have "is_stats_of grave_score = (\<lambda>st. us_user st = 7 \<and> us_mode st = OSU)" by (simp add: is_stats_of_def fun_eq_iff sample_play)
  moreover have "snd (sample_submit LOVED) = db1"
    using sample_process job
    by (simp add: submit_score_def sample_request_def issued_game_def sample_token_def submit_new_def sample_game_def
        sample_info_def sample_play has_pp_def std_config_simps)
  ultimately show ?thesis using st by auto
qed


end
