(* ===== verification/Achievements.thy ===== *)
theory Achievements
  imports Points Leaderboard
begin

text \<open>
  Medals: the conditions of \<^verbatim>\<open>src/app/achievements/\<close>, one definition per processor, the medal
  tables of each module, and \<^verbatim>\<open>process_achievements\<close> (\<^verbatim>\<open>src/app/database/achievement.py\<close>). The
  descriptions of the medals are left out. The difficulty calculator is an argument.
\<close>

section \<open>What the conditions read\<close>

text \<open>The map of a score, with its mapset.\<close>

record medal_map =
  mm_id :: int
  mm_status :: beatmap_status
  mm_hit_length :: int
  mm_total_length :: int
  mm_max_combo :: "int option"
  mm_set_id :: int
  mm_artist :: string
  mm_title :: string
  mm_creator :: string
  mm_ranked_date :: "moment option"
  mm_local :: bool

text \<open>The star rating of a map with mods, or the exception of computing it; whether the
  calculator supports a mode; the mod table; the statistics rows; the best daily-challenge
  streak of a user that has statistics for it.\<close>

record medal_env =
  em_cfg :: config
  em_validate :: validator
  em_stars :: "int \<Rightarrow> game_mode \<Rightarrow> api_mod list \<Rightarrow> py_error + real"
  em_can_difficulty :: "game_mode \<Rightarrow> bool"
  em_api_mods :: api_mod_table
  em_stats :: "user_statistics list"
  em_daily_best :: "int \<Rightarrow> int option"

type_synonym processor = "medal_env \<Rightarrow> score_row \<Rightarrow> medal_map \<Rightarrow> py_error + bool"

record achievement =
  ach_id :: int
  ach_name :: string
  assets_id :: string

type_synonym medal = "achievement \<times> processor"

text \<open>\<^verbatim>\<open>a / b\<close>.\<close>

definition py_div :: "real \<Rightarrow> real \<Rightarrow> py_error + real" where
  "py_div a b = (if b = 0 then Inl ZeroDivisionError else Inr (a / b))"

text \<open>\<^verbatim>\<open>lo <= x < hi or (hi == 0 and y >= lo)\<close>, the tier test of the counting medals.\<close>

definition in_tier :: "int \<Rightarrow> int \<Rightarrow> int \<Rightarrow> int \<Rightarrow> bool" where
  "in_tier lo hi x y \<longleftrightarrow> lo \<le> x \<and> x < hi \<or> hi = 0 \<and> lo \<le> y"

definition stats_for :: "medal_env \<Rightarrow> int \<Rightarrow> game_mode \<Rightarrow> user_statistics option" where
  "stats_for env user mode = find (\<lambda>st. us_mode st = mode \<and> us_user st = user) (em_stats env)"

section \<open>Skill, combo, count and mod medals\<close>

datatype skill_kind = PassMedal | FullComboMedal

definition process_skill :: "game_mode \<Rightarrow> int \<Rightarrow> skill_kind \<Rightarrow> processor" where
  "process_skill target star kind env s bm =
     (if target \<noteq> sc_mode s then Inr False
      else if \<not> sc_passed s then Inr False
      else if \<not> has_pp (mm_status bm) then Inr False
      else py_bind (mods_can_get_pp_vanilla (em_cfg env) (em_validate env) (mode_int (sc_mode s)) (sc_mods s)) (\<lambda>can.
        if \<not> can then Inr False
        else case em_api_mods env (mode_int (sc_mode s)) of
          None \<Rightarrow> Inl KeyError
        | Some table \<Rightarrow>
            let reducing = map fst (filter (\<lambda>(_, d). mod_type d = ''DifficultyReduction'') table) in
            if list_ex (\<lambda>m. acronym m \<in> set reducing) (sc_mods s) then Inr False
            else py_bind (em_stars env (mm_id bm) (sc_mode s) (sort_key acronym (sc_mods s))) (\<lambda>stars.
              if stars < of_int star \<or> stars \<ge> of_int (star + 1) then Inr False
              else Inr (\<not> (kind = FullComboMedal \<and> Some (sc_max_combo s) \<noteq> mm_max_combo bm)))))"

definition process_combo :: "int \<Rightarrow> int \<Rightarrow> processor" where
  "process_combo combo next_combo env s bm =
     Inr (if \<not> sc_passed s \<or> \<not> has_pp (mm_status bm) \<or> sc_mode s \<noteq> OSU then False
          else if combo < 1 then False
          else if next_combo \<noteq> 0 \<and> combo \<ge> next_combo then False
          else in_tier combo next_combo (sc_max_combo s) (sc_max_combo s))"

definition process_playcount :: "int \<Rightarrow> int \<Rightarrow> processor" where
  "process_playcount pc next_pc env s bm =
     Inr (if pc < 1 then False
          else if next_pc \<noteq> 0 \<and> pc \<ge> next_pc then False
          else if sc_mode s \<noteq> OSU then False
          else case stats_for env (sc_user s) OSU of
            None \<Rightarrow> False
          | Some st \<Rightarrow> in_tier pc next_pc (play_count st) (play_count st))"

text \<open>The open-ended tier compares the play count, not the hits.\<close>

definition process_tth :: "int \<Rightarrow> int \<Rightarrow> game_mode \<Rightarrow> processor" where
  "process_tth tth next_tth gamemode env s bm =
     Inr (if tth < 1 then False
          else if next_tth \<noteq> 0 \<and> tth \<ge> next_tth then False
          else if sc_mode s \<noteq> gamemode then False
          else case stats_for env (sc_user s) (sc_mode s) of
            None \<Rightarrow> False
          | Some st \<Rightarrow> in_tier tth next_tth (us_total_hits st) (play_count st))"

definition process_streak :: "int \<Rightarrow> int \<Rightarrow> processor" where
  "process_streak streak upcoming env s bm =
     Inr (if \<not> sc_passed s then False
          else if streak < 1 then False
          else if upcoming \<noteq> 0 \<and> streak \<ge> upcoming then False
          else case em_daily_best env (sc_user s) of
            None \<Rightarrow> False
          | Some best \<Rightarrow> in_tier streak upcoming best best)"

definition process_mod :: "string \<Rightarrow> processor" where
  "process_mod m env s bm =
     Inr (if \<not> sc_passed s then False
          else if \<not> has_leaderboard (mm_status bm) then False
          else map acronym (sc_mods s) = [m])"

definition process_category_mod :: "string \<Rightarrow> processor" where
  "process_category_mod category env s bm =
     (if \<not> sc_passed s then Inr False
      else if \<not> has_leaderboard (mm_status bm) then Inr False
      else if sc_mods s = [] then Inr False
      else case em_api_mods env (mode_int (sc_mode s)) of
        None \<Rightarrow> Inl KeyError
      | Some table \<Rightarrow>
          let api_mods = map fst (filter (\<lambda>(_, d). mod_type d = category) table)
          in Inr (list_all (\<lambda>m. acronym m \<in> set api_mods) (sc_mods s)))"

section \<open>Hush-hush medals\<close>

definition perfect_rank :: "score_row \<Rightarrow> bool" where
  "perfect_rank s \<longleftrightarrow> sc_rank s = Rank_X \<or> sc_rank s = Rank_XH"

definition uses :: "score_row \<Rightarrow> string \<Rightarrow> bool" where
  "uses s m \<longleftrightarrow> m \<in> set (mod_to_save (sc_mods s))"

text \<open>\<^verbatim>\<open>_calculate_attributes\<close>: no rating if the calculator does not support the mode.\<close>

definition calculate_attributes :: "medal_env \<Rightarrow> score_row \<Rightarrow> medal_map \<Rightarrow> py_error + real option" where
  "calculate_attributes env s bm =
     (if \<not> em_can_difficulty env (sc_mode s) then Inr None
      else py_bind (em_stars env (mm_id bm) (sc_mode s) (sc_mods s)) (\<lambda>r. Inr (Some r)))"

definition stars_at_least :: "real \<Rightarrow> processor" where
  "stars_at_least n env s bm =
     py_bind (calculate_attributes env s bm) (\<lambda>r. Inr (case r of None \<Rightarrow> False | Some x \<Rightarrow> \<not> x < n))"

definition jackpot :: processor where
  "jackpot env s bm =
     Inr (sc_passed s \<and> sc_total_score s > 100000 \<and>
          list_all (\<lambda>d. d = hd (int_str (sc_total_score s))) (int_str (sc_total_score s)))"

definition nonstop :: processor where
  "nonstop env s bm = Inr (perfect_rank s \<and> mm_hit_length bm > 521)"

definition time_dilation :: processor where
  "time_dilation env s bm =
     (if \<not> sc_passed s then Inr False
      else if uses s ''NF'' then Inr False
      else if \<not> uses s ''DT'' \<and> \<not> uses s ''NC'' then Inr False
      else py_bind (get_speed_rate (sc_mods s)) (\<lambda>rate.
        py_bind (py_div (of_int (mm_hit_length bm)) rate) (\<lambda>x. Inr (x > 480))))"

definition to_the_core :: processor where
  "to_the_core env s bm =
     Inr (if \<not> sc_passed s then False
          else if \<not> str_contains ''Nightcore'' (mm_title bm) \<and> \<not> str_contains ''Nightcore'' (mm_artist bm) then False
          else \<not> (\<not> uses s ''DT'' \<or> \<not> uses s ''NC''))"

text \<open>\<^verbatim>\<open>str(round(x, ndigits=4))\<close> of a number that is not negative: four decimals without
  trailing zeros, but at least one.\<close>

definition str_round4 :: "real \<Rightarrow> string" where
  "str_round4 x =
     (let k = nat (py_round (x * 10000));
          digits = nat_str (k mod 10000);
          padded = replicate (4 - length digits) (CHR ''0'') @ digits;
          decimals = rev (dropWhile (\<lambda>c. c = CHR ''0'') (rev padded))
      in nat_str (k div 10000) @ ''.'' @ (if decimals = [] then ''0'' else decimals))"

definition wysi :: processor where
  "wysi env s bm =
     Inr (if \<not> sc_passed s then False
          else if drop 3 (str_round4 (sc_accuracy s)) \<noteq> ''727'' then False
          else str_contains ''xi'' (mm_artist bm))"

definition prepared :: processor where
  "prepared env s bm = Inr (if \<not> perfect_rank s then False else uses s ''NF'')"

definition reckless_adandon :: processor where
  "reckless_adandon env s bm =
     (if \<not> perfect_rank s then Inr False
      else if \<not> uses s ''HR'' \<or> \<not> uses s ''SD'' then Inr False
      else stars_at_least 3 env s bm)"

definition lights_out :: processor where
  "lights_out env s bm = Inr (if \<not> sc_passed s then False else uses s ''FL'' \<and> uses s ''NC'')"

definition camera_shy :: processor where
  "camera_shy env s bm = Inr (if \<not> perfect_rank s then False else uses s ''HD'' \<and> uses s ''NF'')"

definition the_sun_of_all_fears :: processor where
  "the_sun_of_all_fears env s bm =
     Inr (if \<not> sc_passed s then False else sc_max_combo s = or_zero (mm_max_combo bm) - 1)"

definition hour_before_the_down :: processor where
  "hour_before_the_down env s bm =
     Inr (if \<not> perfect_rank s then False else mm_artist bm = ''ginkiha'' \<and> mm_title bm = ''EOS'')"

definition slow_and_steady :: processor where
  "slow_and_steady env s bm =
     (if \<not> perfect_rank s then Inr False
      else if \<not> uses s ''HT'' \<or> \<not> uses s ''PF'' then Inr False
      else stars_at_least 3 env s bm)"

definition no_time_to_spare :: processor where
  "no_time_to_spare env s bm =
     (if \<not> perfect_rank s then Inr False
      else if \<not> uses s ''DT'' \<and> \<not> uses s ''NC'' then Inr False
      else py_bind (get_speed_rate (sc_mods s)) (\<lambda>rate.
        py_bind (py_div (of_int (mm_total_length bm)) rate) (\<lambda>x. Inr (x \<le> 30))))"

definition sognare :: processor where
  "sognare env s bm =
     Inr (if \<not> sc_passed s then False
          else if \<not> uses s ''HT'' then False
          else mm_artist bm = ''LeaF'' \<and> mm_title bm = ''Evanescent'')"

definition realtor_extraordinaire :: processor where
  "realtor_extraordinaire env s bm =
     Inr (if \<not> perfect_rank s then False
          else if \<not> (uses s ''DT'' \<or> uses s ''NC'') \<or> \<not> uses s ''HR'' then False
          else mm_artist bm = ''cYsmix'' \<and> mm_title bm = ''House With Legs'')"

definition impeccable :: processor where
  "impeccable env s bm =
     (if \<not> sc_passed s then Inr False
      else if \<not> (uses s ''DT'' \<or> uses s ''NC'') \<or> \<not> uses s ''PF'' then Inr False
      else stars_at_least 4 env s bm)"

text \<open>Midnight of 1 January 2012.\<close>

definition year_2012 :: moment where "year_2012 = 1325376000"

definition aeon :: processor where
  "aeon env s bm =
     (if \<not> sc_passed s then Inr False
      else if \<not> uses s ''FL'' \<or> \<not> uses s ''HD'' \<or> \<not> uses s ''HT'' then Inr False
      else if (case mm_ranked_date bm of None \<Rightarrow> True | Some d \<Rightarrow> d > year_2012) then Inr False
      else if mm_total_length bm < 180 then Inr False
      else stars_at_least 4 env s bm)"

definition quick_maths :: processor where
  "quick_maths env s bm =
     Inr (if nmiss s \<noteq> 34 then False else mm_artist bm = ''Function Phantom'' \<and> mm_title bm = ''Variable'')"

definition kaleidoscope :: processor where
  "kaleidoscope env s bm =
     Inr (if \<not> sc_passed s then False
          else if \<not> uses s ''EZ'' \<or> \<not> uses s ''HT'' then False
          else mm_id bm = 2022237 \<and> sc_accuracy s \<ge> 0.8)"

definition valediction :: processor where
  "valediction env s bm =
     Inr (sc_passed s \<and> mm_artist bm = ''a_hisa'' \<and>
          mm_title bm = ''Alexithymia | Lupinus | Tokei no Heya to Seishin Sekai'' \<and> sc_accuracy s \<ge> 0.9)"

definition right_on_time :: processor where
  "right_on_time env s bm =
     Inr (if \<not> sc_passed s then False
          else if \<not> (mm_artist bm = ''Kola Kid'' \<and> mm_title bm = ''timer'') then False
          else (sc_ended_at s div 60) mod 60 = 0)"

definition not_again :: processor where
  "not_again env s bm =
     Inr (if \<not> sc_passed s then False
          else if nmiss s \<noteq> 1 then False
          else if sc_accuracy s < 0.99 then False
          else mm_artist bm = ''ARForest'' \<and> mm_title bm = ''Regret'')"

definition deliberation :: processor where
  "deliberation env s bm =
     (if \<not> perfect_rank s then Inr False
      else if \<not> uses s ''HT'' then Inr False
      else if \<not> has_pp (mm_status bm) \<and> mm_status bm \<noteq> LOVED then Inr False
      else stars_at_least 6 env s bm)"

definition clarity :: processor where
  "clarity env s bm = Inr (if \<not> sc_passed s then False else mm_set_id bm = 582089)"

definition autocreation :: processor where
  "autocreation env s bm = Inr (if \<not> sc_passed s then False else mm_creator bm = mm_artist bm)"

definition value_your_identity :: processor where
  "value_your_identity env s bm =
     Inr (if \<not> sc_passed s then False
          else let last_3_digits = sc_user s mod 1000
               in sc_max_combo s = (if last_3_digits = 0 then 1000 else last_3_digits))"

fun target_accuracy :: "api_mod list \<Rightarrow> real option" where
  "target_accuracy [] = None"
| "target_accuracy (m # ms) =
     (if acronym m = ''AC'' then
        (case Option.bind (map_of (settings_of m) ''minimum_accuracy'') setting_num of
           None \<Rightarrow> target_accuracy ms
         | Some t \<Rightarrow> Some t)
      else target_accuracy ms)"

definition by_the_skin_of_the_teeth :: processor where
  "by_the_skin_of_the_teeth env s bm =
     Inr (if \<not> sc_passed s then False
          else if \<not> uses s ''AC'' then False
          else case target_accuracy (sc_mods s) of
            None \<Rightarrow> False
          | Some t \<Rightarrow> \<bar>sc_accuracy s - t\<bar> < 0.0001)"

definition meticulous_mayhem :: processor where
  "meticulous_mayhem env s bm = Inr (if \<not> sc_passed s then False else length (sc_mods s) \<ge> 15)"

definition pitch_adjust_extreme_state :: "score_row \<Rightarrow> bool \<times> real option" where
  "pitch_adjust_extreme_state s =
     (case find (\<lambda>m. acronym m = ''PA'') (sc_mods s) of
        None \<Rightarrow> (False, None)
      | Some m \<Rightarrow>
          if \<not> (case map_of (settings_of m) ''extended_limits'' of None \<Rightarrow> False | Some v \<Rightarrow> setting_truthy v)
          then (False, None)
          else case Option.bind (map_of (settings_of m) ''pitch_shift'') setting_num of
            None \<Rightarrow> (False, None)
          | Some p \<Rightarrow> (True, Some p))"

definition pitch_extreme_medal_base_check :: "score_row \<Rightarrow> medal_map \<Rightarrow> bool" where
  "pitch_extreme_medal_base_check s bm =
     (if \<not> sc_passed s then False
      else if nmiss s \<noteq> 0 then False
      else if sc_accuracy s < 0.99 then False
      else or_zero (mm_max_combo bm) = 1000)"

definition can_he_even_hear_anything :: processor where
  "can_he_even_hear_anything env s bm =
     Inr (if \<not> pitch_extreme_medal_base_check s bm then False
          else case pitch_adjust_extreme_state s of (True, Some p) \<Rightarrow> p \<ge> 2.7 | _ \<Rightarrow> False)"

definition from_the_abyss :: processor where
  "from_the_abyss env s bm =
     Inr (if \<not> pitch_extreme_medal_base_check s bm then False
          else case pitch_adjust_extreme_state s of (True, Some p) \<Rightarrow> p \<le> 0.3 | _ \<Rightarrow> False)"

section \<open>The medal tables\<close>

definition skill_medals_osu :: "medal list" where
  "skill_medals_osu =
    [(\<lparr>ach_id = 1, ach_name = ''Rising Star'', assets_id = ''osu-skill-pass-1''\<rparr>, process_skill OSU 1 PassMedal),
     (\<lparr>ach_id = 2, ach_name = ''Constellation Prize'', assets_id = ''osu-skill-pass-2''\<rparr>, process_skill OSU 2 PassMedal),
     (\<lparr>ach_id = 3, ach_name = ''Building Confidence'', assets_id = ''osu-skill-pass-3''\<rparr>, process_skill OSU 3 PassMedal),
     (\<lparr>ach_id = 4, ach_name = ''Insanity Approaches'', assets_id = ''osu-skill-pass-4''\<rparr>, process_skill OSU 4 PassMedal),
     (\<lparr>ach_id = 5, ach_name = ''These Clarion Skies'', assets_id = ''osu-skill-pass-5''\<rparr>, process_skill OSU 5 PassMedal),
     (\<lparr>ach_id = 6, ach_name = ''Above and Beyond'', assets_id = ''osu-skill-pass-6''\<rparr>, process_skill OSU 6 PassMedal),
     (\<lparr>ach_id = 7, ach_name = ''Supremacy'', assets_id = ''osu-skill-pass-7''\<rparr>, process_skill OSU 7 PassMedal),
     (\<lparr>ach_id = 8, ach_name = ''Absolution'', assets_id = ''osu-skill-pass-8''\<rparr>, process_skill OSU 8 PassMedal),
     (\<lparr>ach_id = 9, ach_name = ''Event Horizon'', assets_id = ''osu-skill-pass-9''\<rparr>, process_skill OSU 9 PassMedal),
     (\<lparr>ach_id = 10, ach_name = ''Phantasm'', assets_id = ''osu-skill-pass-10''\<rparr>, process_skill OSU 10 PassMedal),
     (\<lparr>ach_id = 11, ach_name = ''Totality'', assets_id = ''osu-skill-fc-1''\<rparr>, process_skill OSU 1 FullComboMedal),
     (\<lparr>ach_id = 12, ach_name = ''Business As Usual'', assets_id = ''osu-skill-fc-2''\<rparr>, process_skill OSU 2 FullComboMedal),
     (\<lparr>ach_id = 13, ach_name = ''Building Steam'', assets_id = ''osu-skill-fc-3''\<rparr>, process_skill OSU 3 FullComboMedal),
     (\<lparr>ach_id = 14, ach_name = ''Moving Forward'', assets_id = ''osu-skill-fc-4''\<rparr>, process_skill OSU 4 FullComboMedal),
     (\<lparr>ach_id = 15, ach_name = ''Paradigm Shift'', assets_id = ''osu-skill-fc-5''\<rparr>, process_skill OSU 5 FullComboMedal),
     (\<lparr>ach_id = 16, ach_name = ''Anguish Quelled'', assets_id = ''osu-skill-fc-6''\<rparr>, process_skill OSU 6 FullComboMedal),
     (\<lparr>ach_id = 17, ach_name = ''Never Give Up'', assets_id = ''osu-skill-fc-7''\<rparr>, process_skill OSU 7 FullComboMedal),
     (\<lparr>ach_id = 18, ach_name = ''Aberration'', assets_id = ''osu-skill-fc-8''\<rparr>, process_skill OSU 8 FullComboMedal),
     (\<lparr>ach_id = 19, ach_name = ''Chosen'', assets_id = ''osu-skill-fc-9''\<rparr>, process_skill OSU 9 FullComboMedal),
     (\<lparr>ach_id = 20, ach_name = ''Unfathomable'', assets_id = ''osu-skill-fc-10''\<rparr>, process_skill OSU 10 FullComboMedal)]"

definition skill_medals_taiko :: "medal list" where
  "skill_medals_taiko =
    [(\<lparr>ach_id = 25, ach_name = ''My First Don'', assets_id = ''taiko-skill-pass-1''\<rparr>, process_skill TAIKO 1 PassMedal),
     (\<lparr>ach_id = 26, ach_name = ''Katsu Katsu Katsu'', assets_id = ''taiko-skill-pass-2''\<rparr>, process_skill TAIKO 2 PassMedal),
     (\<lparr>ach_id = 27, ach_name = ''Not Even Trying'', assets_id = ''taiko-skill-pass-3''\<rparr>, process_skill TAIKO 3 PassMedal),
     (\<lparr>ach_id = 28, ach_name = ''Face Your Demons'', assets_id = ''taiko-skill-pass-4''\<rparr>, process_skill TAIKO 4 PassMedal),
     (\<lparr>ach_id = 29, ach_name = ''The Demon Within'', assets_id = ''taiko-skill-pass-5''\<rparr>, process_skill TAIKO 5 PassMedal),
     (\<lparr>ach_id = 30, ach_name = ''Drumbreaker'', assets_id = ''taiko-skill-pass-6''\<rparr>, process_skill TAIKO 6 PassMedal),
     (\<lparr>ach_id = 31, ach_name = ''The Godfather'', assets_id = ''taiko-skill-pass-7''\<rparr>, process_skill TAIKO 7 PassMedal),
     (\<lparr>ach_id = 32, ach_name = ''Rhythm Incarnate'', assets_id = ''taiko-skill-pass-8''\<rparr>, process_skill TAIKO 8 PassMedal),
     (\<lparr>ach_id = 33, ach_name = ''Keeping Time'', assets_id = ''taiko-skill-fc-1''\<rparr>, process_skill TAIKO 1 FullComboMedal),
     (\<lparr>ach_id = 34, ach_name = ''To Your Own Beat'', assets_id = ''taiko-skill-fc-2''\<rparr>, process_skill TAIKO 2 FullComboMedal),
     (\<lparr>ach_id = 35, ach_name = ''Big Drums'', assets_id = ''taiko-skill-fc-3''\<rparr>, process_skill TAIKO 3 FullComboMedal),
     (\<lparr>ach_id = 36, ach_name = ''Adversity Overcome'', assets_id = ''taiko-skill-fc-4''\<rparr>, process_skill TAIKO 4 FullComboMedal),
     (\<lparr>ach_id = 37, ach_name = ''Demonslayer'', assets_id = ''taiko-skill-fc-5''\<rparr>, process_skill TAIKO 5 FullComboMedal),
     (\<lparr>ach_id = 38, ach_name = ''Rhythm's Call'', assets_id = ''taiko-skill-fc-6''\<rparr>, process_skill TAIKO 6 FullComboMedal),
     (\<lparr>ach_id = 39, ach_name = ''Time Everlasting'', assets_id = ''taiko-skill-fc-7''\<rparr>, process_skill TAIKO 7 FullComboMedal),
     (\<lparr>ach_id = 40, ach_name = ''The Drummer's Throne'', assets_id = ''taiko-skill-fc-8''\<rparr>, process_skill TAIKO 8 FullComboMedal)]"

definition skill_medals_fruits :: "medal list" where
  "skill_medals_fruits =
    [(\<lparr>ach_id = 41, ach_name = ''A Slice Of Life'', assets_id = ''fruits-skill-pass-1''\<rparr>, process_skill FRUITS 1 PassMedal),
     (\<lparr>ach_id = 42, ach_name = ''Dashing Ever Forward'', assets_id = ''fruits-skill-pass-2''\<rparr>, process_skill FRUITS 2 PassMedal),
     (\<lparr>ach_id = 43, ach_name = ''Zesty Disposition'', assets_id = ''fruits-skill-pass-3''\<rparr>, process_skill FRUITS 3 PassMedal),
     (\<lparr>ach_id = 44, ach_name = ''Hyperdash ON!'', assets_id = ''fruits-skill-pass-4''\<rparr>, process_skill FRUITS 4 PassMedal),
     (\<lparr>ach_id = 45, ach_name = ''It's Raining Fruit'', assets_id = ''fruits-skill-pass-5''\<rparr>, process_skill FRUITS 5 PassMedal),
     (\<lparr>ach_id = 46, ach_name = ''Fruit Ninja'', assets_id = ''fruits-skill-pass-6''\<rparr>, process_skill FRUITS 6 PassMedal),
     (\<lparr>ach_id = 47, ach_name = ''Dreamcatcher'', assets_id = ''fruits-skill-pass-7''\<rparr>, process_skill FRUITS 7 PassMedal),
     (\<lparr>ach_id = 48, ach_name = ''Lord of the Catch'', assets_id = ''fruits-skill-pass-8''\<rparr>, process_skill FRUITS 8 PassMedal),
     (\<lparr>ach_id = 49, ach_name = ''Sweet And Sour'', assets_id = ''fruits-skill-fc-1''\<rparr>, process_skill FRUITS 1 FullComboMedal),
     (\<lparr>ach_id = 50, ach_name = ''Reaching The Core'', assets_id = ''fruits-skill-fc-2''\<rparr>, process_skill FRUITS 2 FullComboMedal),
     (\<lparr>ach_id = 51, ach_name = ''Clean Platter'', assets_id = ''fruits-skill-fc-3''\<rparr>, process_skill FRUITS 3 FullComboMedal),
     (\<lparr>ach_id = 52, ach_name = ''Between The Rain'', assets_id = ''fruits-skill-fc-4''\<rparr>, process_skill FRUITS 4 FullComboMedal),
     (\<lparr>ach_id = 53, ach_name = ''Addicted'', assets_id = ''fruits-skill-fc-5''\<rparr>, process_skill FRUITS 5 FullComboMedal),
     (\<lparr>ach_id = 54, ach_name = ''Quickening'', assets_id = ''fruits-skill-fc-6''\<rparr>, process_skill FRUITS 6 FullComboMedal),
     (\<lparr>ach_id = 55, ach_name = ''Supersonic'', assets_id = ''fruits-skill-fc-7''\<rparr>, process_skill FRUITS 7 FullComboMedal),
     (\<lparr>ach_id = 56, ach_name = ''Dashing Scarlet'', assets_id = ''fruits-skill-fc-8''\<rparr>, process_skill FRUITS 8 FullComboMedal)]"

definition skill_medals_mania :: "medal list" where
  "skill_medals_mania =
    [(\<lparr>ach_id = 57, ach_name = ''First Steps'', assets_id = ''mania-skill-pass-1''\<rparr>, process_skill MANIA 1 PassMedal),
     (\<lparr>ach_id = 58, ach_name = ''No Normal Player'', assets_id = ''mania-skill-pass-2''\<rparr>, process_skill MANIA 2 PassMedal),
     (\<lparr>ach_id = 59, ach_name = ''Impulse Drive'', assets_id = ''mania-skill-pass-3''\<rparr>, process_skill MANIA 3 PassMedal),
     (\<lparr>ach_id = 60, ach_name = ''Hyperspeed'', assets_id = ''mania-skill-pass-4''\<rparr>, process_skill MANIA 4 PassMedal),
     (\<lparr>ach_id = 61, ach_name = ''Ever Onwards'', assets_id = ''mania-skill-pass-5''\<rparr>, process_skill MANIA 5 PassMedal),
     (\<lparr>ach_id = 62, ach_name = ''Another Surpassed'', assets_id = ''mania-skill-pass-6''\<rparr>, process_skill MANIA 6 PassMedal),
     (\<lparr>ach_id = 63, ach_name = ''Extra Credit'', assets_id = ''mania-skill-pass-7''\<rparr>, process_skill MANIA 7 PassMedal),
     (\<lparr>ach_id = 64, ach_name = ''Maniac'', assets_id = ''mania-skill-pass-8''\<rparr>, process_skill MANIA 8 PassMedal),
     (\<lparr>ach_id = 65, ach_name = ''Keystruck'', assets_id = ''mania-skill-fc-1''\<rparr>, process_skill MANIA 1 FullComboMedal),
     (\<lparr>ach_id = 66, ach_name = ''Keying In'', assets_id = ''mania-skill-fc-2''\<rparr>, process_skill MANIA 2 FullComboMedal),
     (\<lparr>ach_id = 67, ach_name = ''Hyperflow'', assets_id = ''mania-skill-fc-3''\<rparr>, process_skill MANIA 3 FullComboMedal),
     (\<lparr>ach_id = 68, ach_name = ''Breakthrough'', assets_id = ''mania-skill-fc-4''\<rparr>, process_skill MANIA 4 FullComboMedal),
     (\<lparr>ach_id = 69, ach_name = ''Everything Extra'', assets_id = ''mania-skill-fc-5''\<rparr>, process_skill MANIA 5 FullComboMedal),
     (\<lparr>ach_id = 70, ach_name = ''Level Breaker'', assets_id = ''mania-skill-fc-6''\<rparr>, process_skill MANIA 6 FullComboMedal),
     (\<lparr>ach_id = 71, ach_name = ''Step Up'', assets_id = ''mania-skill-fc-7''\<rparr>, process_skill MANIA 7 FullComboMedal),
     (\<lparr>ach_id = 72, ach_name = ''Behind The Veil'', assets_id = ''mania-skill-fc-8''\<rparr>, process_skill MANIA 8 FullComboMedal)]"

definition combo_medals :: "medal list" where
  "combo_medals =
    [(\<lparr>ach_id = 21, ach_name = ''500 Combo'', assets_id = ''osu-combo-500''\<rparr>, process_combo 500 750),
     (\<lparr>ach_id = 22, ach_name = ''750 Combo'', assets_id = ''osu-combo-750''\<rparr>, process_combo 750 1000),
     (\<lparr>ach_id = 23, ach_name = ''1000 Combo'', assets_id = ''osu-combo-1000''\<rparr>, process_combo 1000 2000),
     (\<lparr>ach_id = 24, ach_name = ''2000 Combo'', assets_id = ''osu-combo-2000''\<rparr>, process_combo 2000 0)]"

definition playcount_medals :: "medal list" where
  "playcount_medals =
    [(\<lparr>ach_id = 73, ach_name = ''5,000 Plays'', assets_id = ''osu-plays-5000''\<rparr>, process_playcount 5000 15000),
     (\<lparr>ach_id = 74, ach_name = ''15,000 Plays'', assets_id = ''osu-plays-15000''\<rparr>, process_playcount 15000 25000),
     (\<lparr>ach_id = 75, ach_name = ''25,000 Plays'', assets_id = ''osu-plays-25000''\<rparr>, process_playcount 25000 50000),
     (\<lparr>ach_id = 76, ach_name = ''50,000 Plays'', assets_id = ''osu-plays-50000''\<rparr>, process_playcount 50000 0)]"

definition total_hits_medals :: "medal list" where
  "total_hits_medals =
    [(\<lparr>ach_id = 77, ach_name = ''30,000 Drum Hits'', assets_id = ''taiko-hits-30000''\<rparr>, process_tth 30000 300000 TAIKO),
     (\<lparr>ach_id = 78, ach_name = ''300,000 Drum Hits'', assets_id = ''taiko-hits-300000''\<rparr>, process_tth 300000 3000000 TAIKO),
     (\<lparr>ach_id = 79, ach_name = ''3,000,000 Drum Hits'', assets_id = ''taiko-hits-3000000''\<rparr>, process_tth 3000000 30000000 TAIKO),
     (\<lparr>ach_id = 80, ach_name = ''30,000,000 Drum Hits'', assets_id = ''taiko-hits-30000000''\<rparr>, process_tth 30000000 0 TAIKO),
     (\<lparr>ach_id = 81, ach_name = ''Catch 20,000 fruits'', assets_id = ''fruits-hits-20000''\<rparr>, process_tth 20000 200000 FRUITS),
     (\<lparr>ach_id = 82, ach_name = ''Catch 200,000 fruits'', assets_id = ''fruits-hits-200000''\<rparr>, process_tth 200000 2000000 FRUITS),
     (\<lparr>ach_id = 83, ach_name = ''Catch 2,000,000 fruits'', assets_id = ''fruits-hits-2000000''\<rparr>, process_tth 2000000 20000000 FRUITS),
     (\<lparr>ach_id = 84, ach_name = ''Catch 20,000,000 fruits'', assets_id = ''fruits-hits-20000000''\<rparr>, process_tth 20000000 0 FRUITS),
     (\<lparr>ach_id = 85, ach_name = ''40,000 Keys'', assets_id = ''mania-hits-40000''\<rparr>, process_tth 40000 400000 MANIA),
     (\<lparr>ach_id = 86, ach_name = ''400,000 Keys'', assets_id = ''mania-hits-400000''\<rparr>, process_tth 400000 4000000 MANIA),
     (\<lparr>ach_id = 87, ach_name = ''4,000,000 Keys'', assets_id = ''mania-hits-4000000''\<rparr>, process_tth 4000000 40000000 MANIA),
     (\<lparr>ach_id = 88, ach_name = ''40,000,000 Keys'', assets_id = ''mania-hits-40000000''\<rparr>, process_tth 40000000 0 MANIA)]"

definition mod_medals :: "medal list" where
  "mod_medals =
    [(\<lparr>ach_id = 89, ach_name = ''Finality'', assets_id = ''all-intro-suddendeath''\<rparr>, process_mod ''SD''),
     (\<lparr>ach_id = 90, ach_name = ''Perfectionist'', assets_id = ''all-intro-perfect''\<rparr>, process_mod ''PF''),
     (\<lparr>ach_id = 91, ach_name = ''Rock Around The Clock'', assets_id = ''all-intro-hardrock''\<rparr>, process_mod ''HR''),
     (\<lparr>ach_id = 92, ach_name = ''Time And A Half'', assets_id = ''all-intro-doubletime''\<rparr>, process_mod ''DT''),
     (\<lparr>ach_id = 93, ach_name = ''Sweet Rave Party'', assets_id = ''all-intro-nightcore''\<rparr>, process_mod ''NC''),
     (\<lparr>ach_id = 94, ach_name = ''Blindsight'', assets_id = ''all-intro-hidden''\<rparr>, process_mod ''HD''),
     (\<lparr>ach_id = 95, ach_name = ''Are You Afraid Of The Dark?'', assets_id = ''all-intro-flashlight''\<rparr>, process_mod ''FL''),
     (\<lparr>ach_id = 96, ach_name = ''Dial It Right Back'', assets_id = ''all-intro-easy''\<rparr>, process_mod ''EZ''),
     (\<lparr>ach_id = 97, ach_name = ''Risk Averse'', assets_id = ''all-intro-nofail''\<rparr>, process_mod ''NF''),
     (\<lparr>ach_id = 98, ach_name = ''Slowboat'', assets_id = ''all-intro-halftime''\<rparr>, process_mod ''HT''),
     (\<lparr>ach_id = 99, ach_name = ''Burned Out'', assets_id = ''all-intro-spunout''\<rparr>, process_mod ''SO''),
     (\<lparr>ach_id = 100, ach_name = ''Gear Shift'', assets_id = ''all-intro-conversion''\<rparr>, process_category_mod ''Conversion''),
     (\<lparr>ach_id = 101, ach_name = ''Game Night'', assets_id = ''all-intro-fun''\<rparr>, process_category_mod ''Fun'')]"

definition daily_challenge_medals :: "medal list" where
  "daily_challenge_medals =
    [(\<lparr>ach_id = 102, ach_name = ''Daily Sprout'', assets_id = ''all-skill-dc-1''\<rparr>, process_streak 1 7),
     (\<lparr>ach_id = 103, ach_name = ''Weekly Sapling'', assets_id = ''all-skill-dc-7''\<rparr>, process_streak 7 30),
     (\<lparr>ach_id = 104, ach_name = ''Monthly Shrub'', assets_id = ''all-skill-dc-30''\<rparr>, process_streak 30 0)]"

definition hush_hush_medals_a :: "medal list" where
  "hush_hush_medals_a =
    [(\<lparr>ach_id = 105, ach_name = ''Jackpot'', assets_id = ''all-secret-jackpot''\<rparr>, jackpot),
     (\<lparr>ach_id = 106, ach_name = ''Nonstop'', assets_id = ''all-secret-nonstop''\<rparr>, nonstop),
     (\<lparr>ach_id = 107, ach_name = ''Time Dilation'', assets_id = ''all-secret-tidi''\<rparr>, time_dilation),
     (\<lparr>ach_id = 108, ach_name = ''To The Core'', assets_id = ''all-secret-tothecore''\<rparr>, to_the_core),
     (\<lparr>ach_id = 109, ach_name = ''When You See It'', assets_id = ''all-secret-when-you-see-it''\<rparr>, wysi),
     (\<lparr>ach_id = 110, ach_name = ''Prepared'', assets_id = ''all-secret-prepared''\<rparr>, prepared),
     (\<lparr>ach_id = 111, ach_name = ''Reckless Abandon'', assets_id = ''all-secret-reckless''\<rparr>, reckless_adandon),
     (\<lparr>ach_id = 112, ach_name = ''Lights Out'', assets_id = ''all-secret-lightsout''\<rparr>, lights_out),
     (\<lparr>ach_id = 113, ach_name = ''Camera Shy'', assets_id = ''all-secret-uguushy''\<rparr>, camera_shy),
     (\<lparr>ach_id = 114, ach_name = ''The Sun of All Fears'', assets_id = ''all-secret-nuked''\<rparr>, the_sun_of_all_fears),
     (\<lparr>ach_id = 115, ach_name = ''Hour Before The Down'', assets_id = ''all-secret-hourbeforethedawn''\<rparr>, hour_before_the_down),
     (\<lparr>ach_id = 116, ach_name = ''Slow And Steady'', assets_id = ''all-secret-slowandsteady''\<rparr>, slow_and_steady),
     (\<lparr>ach_id = 117, ach_name = ''No Time To Spare'', assets_id = ''all-secret-ntts''\<rparr>, no_time_to_spare),
     (\<lparr>ach_id = 118, ach_name = ''Sognare'', assets_id = ''all-secret-sognare''\<rparr>, sognare),
     (\<lparr>ach_id = 119, ach_name = ''Realtor Extraordinaire'', assets_id = ''all-secret-realtor''\<rparr>, realtor_extraordinaire)]"

definition hush_hush_medals_b :: "medal list" where
  "hush_hush_medals_b =
    [(\<lparr>ach_id = 120, ach_name = ''Impeccable'', assets_id = ''all-secret-impeccable''\<rparr>, impeccable),
     (\<lparr>ach_id = 121, ach_name = ''Aeon'', assets_id = ''all-secret-aeon''\<rparr>, aeon),
     (\<lparr>ach_id = 122, ach_name = ''Quick Maths'', assets_id = ''all-secret-quickmaffs''\<rparr>, quick_maths),
     (\<lparr>ach_id = 123, ach_name = ''Kaleidoscope'', assets_id = ''all-secret-kaleidoscope''\<rparr>, kaleidoscope),
     (\<lparr>ach_id = 124, ach_name = ''Valediction'', assets_id = ''all-secret-valediction''\<rparr>, valediction),
     (\<lparr>ach_id = 127, ach_name = ''Right On Time'', assets_id = ''all-secret-rightontime''\<rparr>, right_on_time),
     (\<lparr>ach_id = 128, ach_name = ''Not Again'', assets_id = ''all-secret-notagain''\<rparr>, not_again),
     (\<lparr>ach_id = 129, ach_name = ''Deliberation'', assets_id = ''all-secret-deliberation''\<rparr>, deliberation),
     (\<lparr>ach_id = 130, ach_name = ''Clarity'', assets_id = ''all-secret-clarity''\<rparr>, clarity),
     (\<lparr>ach_id = 131, ach_name = ''Autocreation'', assets_id = ''all-secret-autocreation''\<rparr>, autocreation),
     (\<lparr>ach_id = 132, ach_name = ''Value Your Identity'', assets_id = ''all-secret-identity''\<rparr>, value_your_identity),
     (\<lparr>ach_id = 133, ach_name = ''By The Skin Of The Teeth'', assets_id = ''all-secret-skinoftheteeth''\<rparr>, by_the_skin_of_the_teeth),
     (\<lparr>ach_id = 134, ach_name = ''Meticulous Mayhem'', assets_id = ''all-secret-meticulousmayhem''\<rparr>, meticulous_mayhem),
     (\<lparr>ach_id = 135, ach_name = ''Can He Even Hear Anything?'', assets_id = ''all-secret-tothecore''\<rparr>, can_he_even_hear_anything),
     (\<lparr>ach_id = 136, ach_name = ''From The Abyss'', assets_id = ''all-secret-aeon''\<rparr>, from_the_abyss)]"

text \<open>\<^verbatim>\<open>load_achievements\<close>: the modules in one order of the directory.\<close>

definition all_medals :: "medal list" where
  "all_medals =
     daily_challenge_medals @ hush_hush_medals_a @ hush_hush_medals_b @ mod_medals @ combo_medals @ playcount_medals @
     skill_medals_osu @ skill_medals_taiko @ skill_medals_fruits @ skill_medals_mania @ total_hits_medals"

section \<open>Unlocking\<close>

definition POINTS_MEDAL :: int where "POINTS_MEDAL = 10"

record medal_db =
  md_rows :: "(int \<times> int \<times> moment) list"
  md_events :: "(int \<times> string \<times> string) list"
  md_notices :: "(int \<times> int \<times> game_mode) list"
  md_points :: points_db

definition medal_key :: "int \<Rightarrow> int \<Rightarrow> string" where
  "medal_key user mid = ''medal:'' @ int_str user @ '':'' @ int_str mid"

definition achieved_ids :: "medal_db \<Rightarrow> int \<Rightarrow> int list" where
  "achieved_ids db user = map (\<lambda>(_, i, _). i) (filter (\<lambda>(u, _, _). u = user) (md_rows db))"

fun collect_medals :: "medal_env \<Rightarrow> score_row \<Rightarrow> medal_map \<Rightarrow> medal list \<Rightarrow> py_error + achievement list" where
  "collect_medals env s bm [] = Inr []"
| "collect_medals env s bm ((a, p) # ms) =
     py_bind (p env s bm) (\<lambda>ok. py_bind (collect_medals env s bm ms) (\<lambda>r. Inr (if ok then a # r else r)))"

definition unlock :: "moment \<Rightarrow> score_row \<Rightarrow> achievement \<Rightarrow> medal_db \<Rightarrow> medal_db" where
  "unlock now s a db =
     db\<lparr>md_rows := md_rows db @ [(sc_user s, ach_id a, now)],
        md_notices := md_notices db @ [(sc_user s, ach_id a, sc_mode s)],
        md_events := md_events db @ [(sc_user s, assets_id a, ach_name a)],
        md_points := snd (award now (sc_user s) POINTS_MEDAL (reason_value MEDAL) (Some (int_str (ach_id a)))
                            (Some (medal_key (sc_user s) (ach_id a))) (md_points db))\<rparr>"

definition process_achievements ::
  "medal list \<Rightarrow> medal_env \<Rightarrow> moment \<Rightarrow> score_row option \<Rightarrow> medal_map \<Rightarrow> medal_db \<Rightarrow> py_error + medal_db" where
  "process_achievements medals env now score bm db =
     (case score of
        None \<Rightarrow> Inr db
      | Some s \<Rightarrow>
          if mm_local bm then Inr db
          else
            let open_medals = filter (\<lambda>(a, _). ach_id a \<notin> set (achieved_ids db (sc_user s))) medals
            in py_bind (collect_medals env s bm open_medals) (\<lambda>result. Inr (fold (unlock now s) result db)))"

section \<open>Medals are unlocked and paid once\<close>

lemma nat_str_no_colon: "CHR '':'' \<notin> set (nat_str n)"
proof -
  have "list_all is_digit (nat_str n)" using nat_str_isdigit by (simp add: str_isdigit_def)
  then show ?thesis by (auto simp: list_all_iff is_digit_def)
qed

lemma int_str_no_colon: "CHR '':'' \<notin> set (int_str i)"
  by (simp add: int_str_def nat_str_no_colon)

lemma medal_key_inj: "medal_key u i = medal_key u' i' \<longleftrightarrow> u = u' \<and> i = i'"
  by (simp add: medal_key_def append_sep_eq int_str_no_colon int_str_inj)

definition medal_pairs :: "medal_db \<Rightarrow> (int \<times> int) list" where
  "medal_pairs db = map (\<lambda>(u, i, _). (u, i)) (md_rows db)"

text \<open>Every user and medal at most once, and only unlocked medals have been paid.\<close>

definition medals_ok :: "medal_db \<Rightarrow> bool" where
  "medals_ok db \<longleftrightarrow> distinct (medal_pairs db) \<and>
     (\<forall>u i. seen_key (md_points db) (medal_key u i) \<longrightarrow> (u, i) \<in> set (medal_pairs db))"

lemma achieved_iff: "i \<in> set (achieved_ids db user) \<longleftrightarrow> (user, i) \<in> set (medal_pairs db)"
  by (force simp: achieved_ids_def medal_pairs_def)

lemma unlock_sel [simp]: "medal_pairs (unlock now s a db) = medal_pairs db @ [(sc_user s, ach_id a)]"
  by (simp add: medal_pairs_def unlock_def)

lemma unlock_ok:
  assumes "medals_ok db" and new: "(sc_user s, ach_id a) \<notin> set (medal_pairs db)"
    and user: "balances (md_points db) (sc_user s) = Some p"
  shows "medals_ok (unlock now s a db) \<and> balances (md_points (unlock now s a db)) (sc_user s) = Some (p + POINTS_MEDAL)"
proof -
  have unpaid: "\<not> seen_key (md_points db) (medal_key (sc_user s) (ach_id a))" using assms(1) new by (auto simp: medals_ok_def)
  have paid: "snd (award now (sc_user s) POINTS_MEDAL (reason_value MEDAL) (Some (int_str (ach_id a)))
      (Some (medal_key (sc_user s) (ach_id a))) (md_points db)) =
    post now (sc_user s) POINTS_MEDAL (reason_value MEDAL) (Some (int_str (ach_id a)))
      (Some (medal_key (sc_user s) (ach_id a))) (p + POINTS_MEDAL) (md_points db)"
    using unpaid user by (simp add: award_def lock_user_def POINTS_MEDAL_def)
  have points: "md_points (unlock now s a db) = post now (sc_user s) POINTS_MEDAL (reason_value MEDAL)
      (Some (int_str (ach_id a))) (Some (medal_key (sc_user s) (ach_id a))) (p + POINTS_MEDAL) (md_points db)"
    using paid by (simp add: unlock_def)
  have "seen_key (md_points (unlock now s a db)) k \<longleftrightarrow>
      seen_key (md_points db) k \<or> k = medal_key (sc_user s) (ach_id a)" for k
    by (auto simp: seen_key_iff points tx_keys_def List.map_filter_def)
  then show ?thesis
    using assms(1) new by (auto simp: medals_ok_def points medal_key_inj)
qed

lemma unlock_all:
  assumes "medals_ok db" and "balances (md_points db) (sc_user s) = Some p" and "distinct (map ach_id as)"
    and "\<forall>a \<in> set as. (sc_user s, ach_id a) \<notin> set (medal_pairs db)"
  shows "medals_ok (fold (unlock now s) as db) \<and>
    balances (md_points (fold (unlock now s) as db)) (sc_user s) = Some (p + POINTS_MEDAL * int (length as)) \<and>
    medal_pairs (fold (unlock now s) as db) = medal_pairs db @ map (\<lambda>a. (sc_user s, ach_id a)) as"
  using assms
proof (induction as arbitrary: db p)
  case (Cons a as)
  have step: "medals_ok (unlock now s a db)"
    "balances (md_points (unlock now s a db)) (sc_user s) = Some (p + POINTS_MEDAL)"
    using unlock_ok [OF Cons.prems(1) _ Cons.prems(2), of a now] Cons.prems(4) by auto
  have "\<forall>b \<in> set as. (sc_user s, ach_id b) \<notin> set (medal_pairs (unlock now s a db))"
  proof
    fix b
    assume "b \<in> set as"
    then have "ach_id b \<noteq> ach_id a" using Cons.prems(3) by (metis distinct.simps(2) image_eqI image_set list.map(2))
    then show "(sc_user s, ach_id b) \<notin> set (medal_pairs (unlock now s a db))"
      using Cons.prems(4) \<open>b \<in> set as\<close> by simp
  qed
  with Cons.IH [OF step] Cons.prems(3) show ?case by (simp add: algebra_simps)
qed simp

lemma collect_medals_spec:
  "collect_medals env s bm ms = Inr r \<Longrightarrow>
    r = map fst (filter (\<lambda>(_, p). p env s bm = Inr True) ms) \<and> list_all (\<lambda>(_, p). \<not> isl (p env s bm)) ms"
proof (induction ms arbitrary: r)
  case (Cons m ms)
  obtain a p where m: "m = (a, p)" by (cases m)
  with Cons.prems obtain ok r' where ok: "p env s bm = Inr ok" and r': "collect_medals env s bm ms = Inr r'"
    and r: "r = (if ok then a # r' else r')"
    by (auto simp: py_bind_Inr_iff)
  from Cons.IH [OF r'] show ?case by (simp add: m ok r)
qed simp

lemma collect_medals_raises:
  "(a, p) \<in> set ms \<Longrightarrow> isl (p env s bm) \<Longrightarrow> isl (collect_medals env s bm ms)"
proof (induction ms)
  case (Cons m ms)
  obtain b q where m: "m = (b, q)" by (cases m)
  show ?case
  proof (cases "q env s bm")
    case (Inr ok)
    then have "(a, p) \<in> set ms" using Cons.prems m by auto
    then have "isl (collect_medals env s bm ms)" using Cons by blast
    then show ?thesis using Inr by (cases "collect_medals env s bm ms") (simp_all add: m)
  qed (simp add: m)
qed simp

text \<open>C34: processing the achievements of a score gives its player exactly the medals of the table
  whose condition holds and that the player does not have yet, each once, and ten points for
  each of them.\<close>

theorem medals_unlocked_spec:
  assumes run: "process_achievements medals env now (Some s) bm db = Inr db'"
    and not_local: "\<not> mm_local bm" and ids: "distinct (map (\<lambda>(a, _). ach_id a) medals)"
    and ok: "medals_ok db" and user: "balances (md_points db) (sc_user s) = Some p"
  shows "medals_ok db' \<and>
    medal_pairs db' = medal_pairs db @ map (\<lambda>(a, _). (sc_user s, ach_id a))
      (filter (\<lambda>(a, cond). (sc_user s, ach_id a) \<notin> set (medal_pairs db) \<and> cond env s bm = Inr True) medals) \<and>
    balances (md_points db') (sc_user s) =
      Some (p + 10 * (int (length (medal_pairs db')) - int (length (medal_pairs db))))"
proof -
  let ?open = "filter (\<lambda>(a, _). ach_id a \<notin> set (achieved_ids db (sc_user s))) medals"
  obtain r where r: "collect_medals env s bm ?open = Inr r" and db': "db' = fold (unlock now s) r db"
    using run not_local by (auto simp: process_achievements_def py_bind_Inr_iff)
  have r_eq: "r = map fst (filter (\<lambda>(_, p). p env s bm = Inr True) ?open)"
    using collect_medals_spec [OF r] by blast
  also have "filter (\<lambda>(_, p). p env s bm = Inr True) ?open =
      filter (\<lambda>(a, cond). (sc_user s, ach_id a) \<notin> set (medal_pairs db) \<and> cond env s bm = Inr True) medals" (is "_ = ?new")
    by (simp add: achieved_iff) (rule filter_cong, auto)
  finally have r': "r = map fst ?new" .
  have "distinct (map ach_id r)"
    using distinct_map_filter [OF ids] by (simp add: r' o_def case_prod_unfold)
  moreover have "\<forall>a \<in> set r. (sc_user s, ach_id a) \<notin> set (medal_pairs db)" by (auto simp: r')
  ultimately have res: "medals_ok db'"
    "balances (md_points db') (sc_user s) = Some (p + POINTS_MEDAL * int (length r))"
    "medal_pairs db' = medal_pairs db @ map (\<lambda>a. (sc_user s, ach_id a)) r"
    using unlock_all [OF ok user, of r now] by (simp_all add: db')
  have "map (\<lambda>a. (sc_user s, ach_id a)) r = map (\<lambda>(a, _). (sc_user s, ach_id a)) ?new"
    by (simp add: r' o_def case_prod_unfold)
  with res show ?thesis by (simp add: POINTS_MEDAL_def r')
qed

lemma all_medal_ids: "distinct (map (\<lambda>(a, _). ach_id a) all_medals)"
  by code_simp

text \<open>An exception in one condition loses every medal of the score: with a rate mod whose
  speed is zero the clock rate is zero, and a passed double-time score without No Fail then
  gets no medal at all as long as Time Dilation is open.\<close>

theorem zero_rate_loses_all_medals:
  assumes "sc_passed s" and "uses s ''DT'' \<or> uses s ''NC''" and "\<not> uses s ''NF''"
    and "get_speed_rate (sc_mods s) = Inr 0" and "\<not> mm_local bm"
    and "(sc_user s, 107) \<notin> set (medal_pairs db)"
  shows "isl (process_achievements all_medals env now (Some s) bm db)"
proof -
  have raises: "isl (time_dilation env s bm)"
    using assms(1-4) by (auto simp: time_dilation_def py_div_def)
  have "(\<lparr>ach_id = 107, ach_name = ''Time Dilation'', assets_id = ''all-secret-tidi''\<rparr>, time_dilation) \<in> set all_medals"
    by (simp add: all_medals_def hush_hush_medals_a_def)
  then have "isl (collect_medals env s bm (filter (\<lambda>(a, _). ach_id a \<notin> set (achieved_ids db (sc_user s))) all_medals))"
    using assms(6) by (intro collect_medals_raises [of _ time_dilation, OF _ raises]) (auto simp: achieved_iff)
  then show ?thesis
    using assms(5) by (cases "collect_medals env s bm (filter (\<lambda>(a, _). ach_id a \<notin> set (achieved_ids db (sc_user s))) all_medals)")
      (simp_all add: process_achievements_def)
qed

text \<open>To The Core asks for Double Time and Nightcore at once, which the validator of a submission
  never accepts when the table excludes one with the other.\<close>

lemma to_the_core_unreachable:
  assumes "validate_mods tbl rs mods = Inr mods" and "tbl rs = Some t"
    and "map_of t ''DT'' = Some dt" and "map_of t ''NC'' = Some nc"
    and "''NC'' \<in> set (IncompatibleMods dt)" and "''DT'' \<in> set (IncompatibleMods nc)" and "sc_mods s = mods"
  shows "to_the_core env s bm = Inr False"
proof -
  have ok: "sorted_wrt (allows t) mods"
    using assms(1,2) validate_mods_iff [of tbl rs t mods] by (simp add: mods_acceptable_def)
  have "\<not> (uses s ''DT'' \<and> uses s ''NC'')"
  proof
    assume "uses s ''DT'' \<and> uses s ''NC''"
    then obtain a b where ab: "a \<in> set mods" "acronym a = ''DT''" "b \<in> set mods" "acronym b = ''NC''"
      using assms(7) by (auto simp: uses_def mod_to_save_def)
    then obtain i j where ij: "i < length mods" "mods ! i = a" "j < length mods" "mods ! j = b"
      by (auto simp: in_set_conv_nth)
    have "i \<noteq> j" using ab ij by auto
    then have "allows t a b \<or> allows t b a"
      using sorted_wrt_nth_less [OF ok] ij by (metis linorder_neqE_nat)
    moreover have "\<not> allows t a b" "\<not> allows t b a" using assms(3-6) ab by (simp_all add: allows_def)
    ultimately show False by blast
  qed
  then show ?thesis by (auto simp: to_the_core_def)
qed

text \<open>The highest hit-count medals look at the play count.\<close>

lemma last_hit_tier_counts_plays:
  assumes "sc_mode s = MANIA" and "stats_for env (sc_user s) MANIA = Some st"
  shows "process_tth 40000000 0 MANIA env s bm = Inr (40000000 \<le> play_count st)"
  using assms by (auto simp: process_tth_def in_tier_def)


definition sample_env :: medal_env where
  "sample_env =
     \<lparr>em_cfg = std_config, em_validate = (\<lambda>_ _. True), em_stars = (\<lambda>_ _ _. Inr 5), em_can_difficulty = (\<lambda>_. True),
      em_api_mods = (\<lambda>_. Some []), em_stats = [], em_daily_best = (\<lambda>_. None)\<rparr>"

definition sample_medal_map :: medal_map where
  "sample_medal_map =
     \<lparr>mm_id = 42, mm_status = RANKED, mm_hit_length = 300, mm_total_length = 320, mm_max_combo = Some 900, mm_set_id = 9,
      mm_artist = ''artist'', mm_title = ''title'', mm_creator = ''creator'', mm_ranked_date = None, mm_local = False\<rparr>"

definition sample_medals :: medal_db where
  "sample_medals = \<lparr>md_rows = [], md_events = [], md_notices = [],
     md_points = empty_points\<lparr>balances := [7 \<mapsto> 3]\<rparr>\<rparr>"

lemma medals_unlocked_spec_witness:
  "\<exists>db'. process_achievements combo_medals sample_env 0 (Some sample_score) sample_medal_map sample_medals = Inr db' \<and>
     medal_pairs db' = [(7, 21)] \<and> balances (md_points db') 7 = Some 13"
proof -
  have run: "process_combo c n sample_env sample_score sample_medal_map =
      Inr (\<not> c < 1 \<and> \<not> (n \<noteq> 0 \<and> c \<ge> n) \<and> in_tier c n 500 500)" for c n
    by (simp add: process_combo_def sample_score_def sample_medal_map_def has_pp_def)
  have none: "\<not> mm_local sample_medal_map" "achieved_ids sample_medals u = []" for u
    by (simp_all add: sample_medal_map_def sample_medals_def achieved_ids_def)
  obtain db' where db': "process_achievements combo_medals sample_env 0 (Some sample_score) sample_medal_map sample_medals = Inr db'"
    using run by (simp add: process_achievements_def none combo_medals_def Let_def)
  have "medals_ok sample_medals"
    by (simp add: medals_ok_def medal_pairs_def sample_medals_def seen_key_def empty_points_def)
  moreover have "sc_user sample_score = 7" by (simp add: sample_score_def)
  ultimately have "medal_pairs db' = medal_pairs sample_medals @ map (\<lambda>(a, _). (sc_user sample_score, ach_id a))
      (filter (\<lambda>(a, cond). (sc_user sample_score, ach_id a) \<notin> set (medal_pairs sample_medals) \<and>
         cond sample_env sample_score sample_medal_map = Inr True) combo_medals) \<and>
    balances (md_points db') (sc_user sample_score) =
      Some (3 + 10 * (int (length (medal_pairs db')) - int (length (medal_pairs sample_medals))))"
    using medals_unlocked_spec [OF db', of 3]
    by (simp add: sample_medal_map_def combo_medals_def sample_medals_def)
  moreover have "medal_pairs sample_medals = []" by (simp add: medal_pairs_def sample_medals_def)
  ultimately show ?thesis
    using db' \<open>sc_user sample_score = 7\<close> by (simp add: combo_medals_def run in_tier_def)
qed

definition stopped_score :: score_row where
  "stopped_score = sample_score\<lparr>sc_mods := [\<lparr>acronym = ''DT'', msettings = Some [(''speed_change'', SFloat 0)]\<rparr>]\<rparr>"

lemma zero_rate_loses_all_medals_witness:
  "isl (process_achievements all_medals sample_env 0 (Some stopped_score) sample_medal_map sample_medals)"
proof (rule zero_rate_loses_all_medals)
  show "uses stopped_score ''DT'' \<or> uses stopped_score ''NC''" "\<not> uses stopped_score ''NF''"
    by (simp_all add: stopped_score_def uses_def mod_to_save_def)
  show "get_speed_rate (sc_mods stopped_score) = Inr 0"
    by (simp add: stopped_score_def get_speed_rate_def rate_mods_def settings_of_def dict_get_def setting_num_def)
qed (simp_all add: stopped_score_def sample_score_def sample_medal_map_def sample_medals_def medal_pairs_def)

end
