(* ===== verification/Recalculate.thy ===== *)
theory Recalculate
  imports PlayerTotals
begin

text \<open>
  The recalculation tool (\<^verbatim>\<open>src/tools/recalculate.py\<close>): rebuilding the table of best pp, the table
  of best totals and the statistics row of a player from the score table, and choosing the
  players to recalculate. The lemmas compare the rebuilt state with what live processing
  (\<open>PlayerPP\<close>, \<open>Leaderboard\<close>, \<open>Submission\<close>) leaves behind.
\<close>

section \<open>Which scores count\<close>

text \<open>\<open>maps\<close> is the join with the beatmap table. A score counts for the pp table if its map
  gives pp, its mods may, a relax or autopilot score is accurate enough and its pp is
  positive; for the table of totals if its map has a leaderboard and its mods may give pp.\<close>

definition counts_for_pp ::
  "config \<Rightarrow> validator \<Rightarrow> ranked_mods \<Rightarrow> (int \<Rightarrow> map_row option) \<Rightarrow> score_row \<Rightarrow> py_error + bool" where
  "counts_for_pp cfg validate ranked_tbl maps s =
     (if \<not> sc_passed s then Inr False
      else case maps (sc_beatmap s) of
        None \<Rightarrow> Inr False
      | Some bm \<Rightarrow>
          if \<not> (has_pp (map_status bm) \<or> enable_all_beatmap_pp cfg) then Inr False
          else py_bind (mods_can_get_pp cfg validate ranked_tbl (mode_int (sc_mode s)) (sc_mods s)) (\<lambda>can.
            Inr (can \<and> \<not> (sc_mode s \<in> RELAX_AP_MODES \<and> sc_accuracy s < 0.75) \<and> 0 < sc_pp s)))"

definition counts_for_total ::
  "config \<Rightarrow> validator \<Rightarrow> ranked_mods \<Rightarrow> (int \<Rightarrow> map_row option) \<Rightarrow> score_row \<Rightarrow> py_error + bool" where
  "counts_for_total cfg validate ranked_tbl maps s =
     (if \<not> sc_passed s then Inr False
      else case maps (sc_beatmap s) of
        None \<Rightarrow> Inr False
      | Some bm \<Rightarrow>
          if \<not> (has_leaderboard (map_status bm) \<or> enable_all_beatmap_leaderboard cfg) then Inr False
          else mods_can_get_pp cfg validate ranked_tbl (mode_int (sc_mode s)) (sc_mods s))"

text \<open>A loop over scores that keeps an accumulator and stops at the first exception.\<close>

fun fold_counted :: "('s \<Rightarrow> py_error + bool) \<Rightarrow> ('s \<Rightarrow> 'a \<Rightarrow> 'a) \<Rightarrow> 's list \<Rightarrow> 'a \<Rightarrow> py_error + 'a" where
  "fold_counted gate f [] a = Inr a"
| "fold_counted gate f (s # ss) a =
     py_bind (gate s) (\<lambda>ok. fold_counted gate f ss (if ok then f s a else a))"

section \<open>Rebuilding the tables\<close>

text \<open>\<^verbatim>\<open>build_best_scores\<close>: the greatest pp of each map, the earlier score on a tie.\<close>

definition best_for :: "int \<Rightarrow> game_mode \<Rightarrow> score_row \<Rightarrow> best_score" where
  "best_for user mode s =
     \<lparr>bs_user = user, bs_score = sc_id s, bs_beatmap = sc_beatmap s, bs_mode = mode, bs_pp = sc_pp s,
      bs_acc = sc_accuracy s\<rparr>"

definition note_best :: "int \<Rightarrow> game_mode \<Rightarrow> score_row \<Rightarrow> (int \<times> best_score) list \<Rightarrow> (int \<times> best_score) list" where
  "note_best user mode s d =
     (case map_of d (sc_beatmap s) of
        None \<Rightarrow> dict_set d (sc_beatmap s) (best_for user mode s)
      | Some b \<Rightarrow> if bs_pp b < sc_pp s then dict_set d (sc_beatmap s) (best_for user mode s) else d)"

definition build_best_scores ::
  "config \<Rightarrow> validator \<Rightarrow> ranked_mods \<Rightarrow> (int \<Rightarrow> map_row option) \<Rightarrow> int \<Rightarrow> game_mode \<Rightarrow> score_row list
     \<Rightarrow> py_error + best_score list" where
  "build_best_scores cfg validate ranked_tbl maps user mode scores =
     py_bind (fold_counted (counts_for_pp cfg validate ranked_tbl maps) (note_best user mode) scores []) (\<lambda>d.
       Inr (map snd d))"

text \<open>\<^verbatim>\<open>build_total_score_best_scores\<close>: per map, one entry for each set of mods.\<close>

definition note_entry :: "score_row \<Rightarrow> total_best list \<Rightarrow> total_best list" where
  "note_entry s entries =
     (case find (\<lambda>e. tb_mods e = mod_to_save (sc_mods s)) entries of
        None \<Rightarrow> entries @ [total_best_of s]
      | Some e \<Rightarrow> if sc_total_score s > tb_total e then remove1 e entries @ [total_best_of s] else entries)"

definition note_total :: "score_row \<Rightarrow> (int \<times> total_best list) list \<Rightarrow> (int \<times> total_best list) list" where
  "note_total s d = dict_set d (sc_beatmap s) (note_entry s (dict_get d (sc_beatmap s) []))"

definition build_total_score_best_scores ::
  "config \<Rightarrow> validator \<Rightarrow> ranked_mods \<Rightarrow> (int \<Rightarrow> map_row option) \<Rightarrow> score_row list \<Rightarrow> py_error + total_best list" where
  "build_total_score_best_scores cfg validate ranked_tbl maps scores =
     py_bind (fold_counted (counts_for_total cfg validate ranked_tbl maps) note_total scores []) (\<lambda>d.
       Inr (concat (map snd d)))"

section \<open>Rebuilding the statistics\<close>

definition recalculated_play :: "config \<Rightarrow> score_row \<Rightarrow> int \<times> bool \<Rightarrow> user_statistics \<Rightarrow> user_statistics" where
  "recalculated_play cfg s played st =
     (let st = st\<lparr>play_count := play_count st + 1, us_total_score := us_total_score st + display_score cfg s\<rparr>;
          st = (if snd played then st\<lparr>play_time := play_time st + fst played\<rparr> else st)
      in st\<lparr>count_300 := count_300 st + (n300 s + ngeki s), count_100 := count_100 st + (n100 s + nkatu s),
            count_50 := count_50 st + n50 s, count_miss := count_miss st + nmiss s,
            us_total_hits := us_total_hits st + (n300 s + ngeki s + n100 s + nkatu s + n50 s)\<rparr>)"

text \<open>\<open>cached\<close> is the dictionary of the best score seen on each map.\<close>

definition recalculated_best ::
  "config \<Rightarrow> score_row \<Rightarrow> user_statistics \<times> (int \<times> score_row) list \<Rightarrow> user_statistics \<times> (int \<times> score_row) list" where
  "recalculated_best cfg s = (\<lambda>(st, cached).
     let st = st\<lparr>maximum_combo := max (maximum_combo st) (sc_max_combo s)\<rparr>;
         previous = map_of cached (sc_beatmap s);
         previous_display = (case previous of None \<Rightarrow> 0 | Some p \<Rightarrow> display_score cfg p);
         difference = display_score cfg s - previous_display
     in if 0 < difference then
          (let st = add_grade 1 (sc_rank s) (st\<lparr>ranked_score := ranked_score st + difference\<rparr>);
               st = (case previous of None \<Rightarrow> st | Some p \<Rightarrow> add_grade (- 1) (sc_rank p) st)
           in (st, dict_set cached (sc_beatmap s) s))
        else (st, cached))"

definition recalculated_score ::
  "config \<Rightarrow> validator \<Rightarrow> ranked_mods \<Rightarrow> (int \<Rightarrow> map_row option) \<Rightarrow> score_row
     \<Rightarrow> user_statistics \<times> (int \<times> score_row) list \<Rightarrow> py_error + user_statistics \<times> (int \<times> score_row) list" where
  "recalculated_score cfg validate ranked_tbl maps s = (\<lambda>(st, cached).
     case maps (sc_beatmap s) of
       None \<Rightarrow> Inr (st, cached)
     | Some bm \<Rightarrow>
         py_bind (calculate_playtime s (map_length bm)) (\<lambda>played.
           let st = recalculated_play cfg s played st in
           py_bind (if has_pp (map_status bm) \<or> enable_all_beatmap_pp cfg
                    then mods_can_get_pp cfg validate ranked_tbl (mode_int (sc_mode s)) (sc_mods s) else Inr False)
             (\<lambda>ranked. Inr (if ranked \<and> sc_passed s then recalculated_best cfg s (st, cached) else (st, cached)))))"

fun fold_scores :: "('s \<Rightarrow> 'a \<Rightarrow> py_error + 'a) \<Rightarrow> 's list \<Rightarrow> 'a \<Rightarrow> py_error + 'a" where
  "fold_scores f [] a = Inr a"
| "fold_scores f (s # ss) a = py_bind (f s a) (fold_scores f ss)"

definition reset_statistics :: "real \<times> real \<Rightarrow> user_statistics \<Rightarrow> user_statistics" where
  "reset_statistics pp_acc st =
     st\<lparr>us_pp := fst pp_acc, hit_accuracy := snd pp_acc, play_count := 0, us_total_score := 0, maximum_combo := 0,
        play_time := 0, us_total_hits := 0, count_100 := 0, count_300 := 0, count_50 := 0, count_miss := 0,
        ranked_score := 0, grade_ss := 0, grade_ssh := 0, grade_s := 0, grade_sh := 0, grade_a := 0\<rparr>"

definition recalculate_statistics ::
  "config \<Rightarrow> validator \<Rightarrow> ranked_mods \<Rightarrow> (int \<Rightarrow> map_row option) \<Rightarrow> best_score list \<Rightarrow> score_row list \<Rightarrow> user_statistics
     \<Rightarrow> py_error + user_statistics" where
  "recalculate_statistics cfg validate ranked_tbl maps best scores st =
     py_bind (fold_scores (recalculated_score cfg validate ranked_tbl maps) scores
               (reset_statistics (calculate_user_pp best (us_user st) (us_mode st)) st, [])) (\<lambda>(st, _).
       Inr (st\<lparr>level_current := calculate_score_to_level (us_total_score st)\<rparr>))"

lemma fold_counted_Inr:
  "fold_counted gate f ss a = Inr r \<longleftrightarrow>
     list_all (\<lambda>s. \<exists>ok. gate s = Inr ok) ss \<and> r = fold f (filter (\<lambda>s. gate s = Inr True) ss) a"
proof (induction ss arbitrary: a)
  case (Cons s ss)
  then show ?case
    by (cases "gate s") (auto simp: py_bind_Inr_iff)
qed auto

section \<open>The rebuilt pp table is the one live recording leaves\<close>

lemma map_snd_dict_set:
  "distinct (map fst d) \<Longrightarrow> image_mset snd (mset (dict_set d k v)) =
     (case map_of d k of None \<Rightarrow> image_mset snd (mset d) | Some w \<Rightarrow> image_mset snd (mset d) - {#w#}) + {#v#}"
proof (induction d)
  case (Cons x d)
  obtain a b where x: "x = (a, b)" by (cases x)
  show ?case
  proof (cases "a = k")
    case False
    have d: "distinct (map fst d)" using Cons by simp
    have "w \<in># image_mset snd (mset d)" if "map_of d k = Some w" for w
      using map_of_SomeD [OF that] by force
    with Cons.IH [OF d] False show ?thesis
      by (auto simp: x split: option.splits)
  next
    case True
    then show ?thesis by (simp add: x)
  qed
qed simp
definition mirrors :: "int \<Rightarrow> game_mode \<Rightarrow> (int \<times> best_score) list \<Rightarrow> best_score list \<Rightarrow> bool" where
  "mirrors user mode d t \<longleftrightarrow>
     distinct (map fst d) \<and> mset (map snd d) = mset t \<and>
     list_all (\<lambda>(b, r). bs_beatmap r = b \<and> bs_user r = user \<and> bs_mode r = mode) d"

lemma mirrors_lookup:
  assumes "mirrors user mode d t"
  shows "get_user_best_pp_in_beatmap t b user mode = map_of d b"
proof -
  have set: "set t = snd ` set d"
    using assms unfolding mirrors_def by (metis list.set_map set_mset_mset)
  have keys: "\<And>a r. (a, r) \<in> set d \<Longrightarrow> bs_beatmap r = a \<and> bs_user r = user \<and> bs_mode r = mode"
    using assms by (auto simp: mirrors_def list_all_iff)
  show ?thesis
  proof (cases "get_user_best_pp_in_beatmap t b user mode")
    case None
    then have "\<forall>r \<in> set t. bs_beatmap r \<noteq> b"
      using keys by (auto simp: get_user_best_pp_in_beatmap_def find_None_iff set)
    then have "b \<notin> fst ` set d" using keys by (force simp: set)
    then have "map_of d b = None" by (simp add: map_of_eq_None_iff)
    with None show ?thesis by simp
  next
    case (Some r)
    then have r: "r \<in> set t" "bs_beatmap r = b"
      by (auto simp: get_user_best_pp_in_beatmap_def dest!: find_SomeD)
    then obtain a where "(a, r) \<in> set d" by (auto simp: set)
    with keys r have "(b, r) \<in> set d" by auto
    moreover have "distinct (map fst d)" using assms by (simp add: mirrors_def)
    ultimately show ?thesis using Some by simp
  qed
qed

lemma mirrors_step:
  assumes m: "mirrors user mode d t" and s: "sc_user s = user" "sc_mode s = mode"
  shows "mirrors user mode (note_best user mode s d) (record_best_pp s t)"
proof -
  have row: "best_of_score s = best_for user mode s" using s by (simp add: best_of_score_def best_for_def)
  have dist: "distinct (map fst d)" and eq: "mset (map snd d) = mset t" using m by (simp_all add: mirrors_def)
  have entries: "list_all (\<lambda>(b, r). bs_beatmap r = b \<and> bs_user r = user \<and> bs_mode r = mode)
      (dict_set d (sc_beatmap s) (best_for user mode s))"
    using m by (auto simp: mirrors_def list_all_iff best_for_def dest!: dict_set_entries)
  show ?thesis
  proof (cases "map_of d (sc_beatmap s)")
    case None
    then show ?thesis
      using dist eq entries by (simp add: mirrors_def note_best_def record_best_pp_def mirrors_lookup [OF m] s row
          distinct_dict_set map_snd_dict_set)
  next
    case (Some b)
    then have "b \<in># mset t" using map_of_SomeD [OF Some] eq by (metis image_eqI list.set_map set_mset_mset snd_conv)
    then have "mset (remove1 b (t @ [best_for user mode s])) = mset t - {#b#} + {#best_for user mode s#}"
      by (simp add: insert_DiffM2)
    with Some m show ?thesis
      using dist eq entries by (simp add: mirrors_def note_best_def record_best_pp_def mirrors_lookup [OF m] s row
          distinct_dict_set map_snd_dict_set)
  qed
qed

lemma mirrors_fold:
  "mirrors user mode d t \<Longrightarrow> list_all (\<lambda>s. sc_user s = user \<and> sc_mode s = mode) ss \<Longrightarrow>
   mirrors user mode (fold (note_best user mode) ss d) (fold record_best_pp ss t)"
  by (induction ss arbitrary: d t) (auto simp: mirrors_step)

lemma user_pp_of_mset:
  assumes "mset best = mset best'"
  shows "fst (calculate_user_pp best user mode) = fst (calculate_user_pp best' user mode)"
proof -
  have desc: "map bs_pp (sort_key (\<lambda>b. - bs_pp b) bs) = rev (sort (map bs_pp bs))" for bs
  proof -
    have "sort (map bs_pp bs) = rev (map bs_pp (sort_key (\<lambda>b. - bs_pp b) bs))"
      using sort_desc [of bs] by (intro properties_for_sort) (simp_all add: sorted_wrt_rev)
    then show ?thesis by simp
  qed
  have "sort (map bs_pp (filter P best)) = sort (map bs_pp (filter P best'))" for P
    using assms by (intro properties_for_sort) simp_all
  then have "map bs_pp (take n (sort_key (\<lambda>b. - bs_pp b) (filter P best))) =
      map bs_pp (take n (sort_key (\<lambda>b. - bs_pp b) (filter P best')))" for n P
    by (metis desc take_map)
  then show ?thesis
    by (simp only: calculate_user_pp_def get_user_best_pp_def Let_def fst_conv)
qed


section \<open>The rebuilt table of totals keeps the maximum of each map and set of mods\<close>

definition entry_rows :: "int \<times> string list \<Rightarrow> (int \<times> total_best list) list \<Rightarrow> total_best list" where
  "entry_rows k d = filter (\<lambda>e. tb_mods e = snd k) (dict_get d (fst k) [])"

definition entry_key :: "score_row \<Rightarrow> int \<times> string list" where
  "entry_key s = (sc_beatmap s, mod_to_save (sc_mods s))"

lemma dict_get_set: "dict_get (dict_set d k v) k' v' = (if k' = k then v else dict_get d k' v')"
  by (simp add: dict_get_def)

lemma entry_rows_note:
  "entry_rows k (note_total s d) =
     (if fst k = sc_beatmap s then filter (\<lambda>e. tb_mods e = snd k) (note_entry s (dict_get d (sc_beatmap s) []))
      else entry_rows k d)"
  by (simp add: entry_rows_def note_total_def dict_get_set)

interpretation rebuilt_totals: keep_best entry_rows tb_total entry_key sc_total_score note_total
proof (unfold_locales, goal_cases)
  case (1 k s t)
  show ?case
  proof (cases "fst k = sc_beatmap s")
    case True
    with 1 have "snd k \<noteq> mod_to_save (sc_mods s)" by (auto simp: entry_key_def prod_eq_iff)
    then show ?thesis
      unfolding entry_rows_note if_P [OF True] unfolding entry_rows_def True
      by (auto simp: note_entry_def total_best_of_def filter_remove1 split: option.split dest!: find_SomeD)
  qed (simp add: entry_rows_note)
next
  case (2 s t)
  then have "find (\<lambda>e. tb_mods e = mod_to_save (sc_mods s)) (dict_get t (sc_beatmap s) []) = None"
    by (auto simp: find_None_iff entry_rows_def entry_key_def filter_empty_conv)
  with 2 show ?case
    by (simp add: entry_rows_note entry_key_def note_entry_def)
      (simp add: entry_rows_def total_best_of_def)
next
  case (3 s t r)
  then have "find (\<lambda>e. tb_mods e = mod_to_save (sc_mods s)) (dict_get t (sc_beatmap s) []) = Some r"
    by (simp add: find_hd_filter entry_rows_def entry_key_def)
  moreover have "tb_mods r = mod_to_save (sc_mods s)"
    using 3 by (auto simp: entry_rows_def entry_key_def filter_eq_Cons_iff)
  ultimately show ?case
    using 3 by (simp add: entry_rows_note entry_key_def note_entry_def filter_remove1)
      (simp add: entry_rows_def total_best_of_def max_def)
qed

text \<open>The entries are filed under the map they are for.\<close>

definition filed :: "(int \<times> total_best list) list \<Rightarrow> bool" where
  "filed d \<longleftrightarrow> distinct (map fst d) \<and> list_all (\<lambda>(b, es). list_all (\<lambda>e. tb_beatmap e = b) es) d"

lemma dict_get_entry: "x \<in> set (dict_get d k []) \<Longrightarrow> \<exists>es. (k, es) \<in> set d \<and> x \<in> set es"
  by (cases "map_of d k") (auto simp: dict_get_def dest: map_of_SomeD)

lemma filed_note: "filed d \<Longrightarrow> filed (note_total s d)"
proof -
  assume f: "filed d"
  have "tb_beatmap e = sc_beatmap s" if "e \<in> set (dict_get d (sc_beatmap s) [])" for e
    using dict_get_entry [OF that] f by (auto simp: filed_def list_all_iff)
  then have "list_all (\<lambda>e. tb_beatmap e = sc_beatmap s) (note_entry s (dict_get d (sc_beatmap s) []))"
    by (auto simp: note_entry_def list_all_iff total_best_of_def split: option.split dest!: set_remove1_subset [THEN subsetD])
  with f show ?thesis
    by (auto simp: filed_def note_total_def distinct_dict_set list_all_iff dest!: dict_set_entries)
qed

lemma filed_Nil: "filed []"
  by (simp add: filed_def)

lemma filed_fold: "filed d \<Longrightarrow> filed (fold note_total ss d)"
  by (induction ss arbitrary: d) (auto simp: filed_note)

lemma filed_rows:
  "filed d \<Longrightarrow> filter (\<lambda>r. tb_beatmap r = b \<and> P r) (concat (map snd d)) = filter P (dict_get d b [])"
proof (induction d)
  case (Cons x d)
  obtain b' es where x: "x = (b', es)" by (cases x)
  from Cons.prems have d: "filed d" "b' \<notin> fst ` set d" "\<And>e. e \<in> set es \<Longrightarrow> tb_beatmap e = b'"
    by (auto simp: filed_def list_all_iff x)
  show ?case
  proof (cases "b' = b")
    case True
    with d(2) have "dict_get d b [] = []" by (simp add: dict_get_def map_of_eq_None_iff [THEN iffD2])
    with Cons.IH [OF d(1)] True d(3) show ?thesis
      by (simp add: x dict_get_def cong: filter_cong)
  next
    case False
    with Cons.IH [OF d(1)] d(3) show ?thesis by (simp add: x dict_get_def cong: filter_cong)
  qed
qed (simp add: dict_get_def)

text \<open>The rebuilt leaderboard table has, for each map and each set of mods the player passed
  it with, exactly one row, whose total is the greatest of those scores; the mod rows that
  live processing deletes when they are overtaken are back.\<close>

theorem rebuilt_totals_keep_every_mod_set:
  assumes "build_total_score_best_scores cfg validate ranked_tbl maps scores = Inr rows"
  shows "map tb_total (filter (\<lambda>r. tb_beatmap r = b \<and> tb_mods r = ms) rows) =
    (case [sc_total_score s. s \<leftarrow> scores, counts_for_total cfg validate ranked_tbl maps s = Inr True,
             sc_beatmap s = b, mod_to_save (sc_mods s) = ms] of
       [] \<Rightarrow> []
     | v # vs \<Rightarrow> [Max (set (v # vs))])"
proof -
  let ?ss = "filter (\<lambda>s. counts_for_total cfg validate ranked_tbl maps s = Inr True) scores"
  have rows: "rows = concat (map snd (fold note_total ?ss []))"
    using assms by (auto simp: build_total_score_best_scores_def py_bind_Inr_iff fold_counted_Inr)
  have "filter (\<lambda>r. tb_beatmap r = b \<and> tb_mods r = ms) rows = entry_rows (b, ms) (fold note_total ?ss [])"
    unfolding rows using filed_rows [OF filed_fold [OF filed_Nil]] by (simp add: entry_rows_def)
  moreover have "entry_rows (b, ms) [] = []" by (simp add: entry_rows_def dict_get_def)
  moreover have "[sc_total_score s. s \<leftarrow> scores, counts_for_total cfg validate ranked_tbl maps s = Inr True,
      sc_beatmap s = b, mod_to_save (sc_mods s) = ms] = map sc_total_score (filter (\<lambda>s. entry_key s = (b, ms)) ?ss)"
    by (induction scores) (auto simp: entry_key_def)
  ultimately show ?thesis
    using rebuilt_totals.keeps_maximum [of "(b, ms)" "[]" ?ss]
    by (simp add: foldl_max_Max split: list.split)
qed

section \<open>The rebuilt statistics\<close>

definition on_map :: "(int \<Rightarrow> map_row option) \<Rightarrow> score_row \<Rightarrow> bool" where
  "on_map maps s \<longleftrightarrow> maps (sc_beatmap s) \<noteq> None"

text \<open>The scores that count for the ranked score: passes on maps with pp, with mods that may
  give it.\<close>

definition ranked_pass ::
  "config \<Rightarrow> validator \<Rightarrow> ranked_mods \<Rightarrow> (int \<Rightarrow> map_row option) \<Rightarrow> score_row \<Rightarrow> bool" where
  "ranked_pass cfg validate ranked_tbl maps s \<longleftrightarrow>
     sc_passed s \<and>
     (case maps (sc_beatmap s) of
        None \<Rightarrow> False
      | Some bm \<Rightarrow> (has_pp (map_status bm) \<or> enable_all_beatmap_pp cfg) \<and>
          mods_can_get_pp cfg validate ranked_tbl (mode_int (sc_mode s)) (sc_mods s) = Inr True)"

definition basic_hits :: "score_row \<Rightarrow> int" where
  "basic_hits s = n300 s + ngeki s + n100 s + nkatu s + n50 s"

text \<open>\<open>best\<close> holds, for every map with a score above zero, a greatest one among \<open>ss\<close>.\<close>

definition best_plays :: "config \<Rightarrow> score_row list \<Rightarrow> (int \<times> score_row) list \<Rightarrow> bool" where
  "best_plays cfg ss best \<longleftrightarrow>
     distinct (map fst best) \<and>
     (\<forall>b. case map_of best b of
        None \<Rightarrow> \<forall>s \<in> set ss. sc_beatmap s = b \<longrightarrow> display_score cfg s \<le> 0
      | Some p \<Rightarrow> p \<in> set ss \<and> sc_beatmap p = b \<and>
          (\<forall>s \<in> set ss. sc_beatmap s = b \<longrightarrow> display_score cfg s \<le> display_score cfg p))"

definition ranked_total :: "config \<Rightarrow> (int \<times> score_row) list \<Rightarrow> int" where
  "ranked_total cfg best = sum_list (map (\<lambda>(_, s). display_score cfg s) best)"

definition grade_total :: "rank \<Rightarrow> (int \<times> score_row) list \<Rightarrow> int" where
  "grade_total r best = int (length (filter (\<lambda>(_, s). sc_rank s = r) best))"

lemma ranked_total_set:
  "ranked_total cfg (dict_set d k v) =
     ranked_total cfg d + display_score cfg v - (case map_of d k of None \<Rightarrow> 0 | Some w \<Rightarrow> display_score cfg w)"
  by (induction d k v rule: dict_set.induct) (auto simp: ranked_total_def)

lemma grade_total_set:
  "grade_total r (dict_set d k v) =
     grade_total r d + (if sc_rank v = r then 1 else 0) -
     (case map_of d k of None \<Rightarrow> 0 | Some w \<Rightarrow> if sc_rank w = r then 1 else 0)"
  by (induction d k v rule: dict_set.induct) (auto simp: grade_total_def)

lemma best_plays_skip:
  assumes "best_plays cfg ss best"
    and "display_score cfg s \<le> (case map_of best (sc_beatmap s) of None \<Rightarrow> 0 | Some p \<Rightarrow> display_score cfg p)"
  shows "best_plays cfg (ss @ [s]) best"
  unfolding best_plays_def
proof (intro conjI allI)
  show "distinct (map fst best)" using assms(1) by (simp add: best_plays_def)
  show "case map_of best b of
        None \<Rightarrow> \<forall>s \<in> set (ss @ [s]). sc_beatmap s = b \<longrightarrow> display_score cfg s \<le> 0
      | Some p \<Rightarrow> p \<in> set (ss @ [s]) \<and> sc_beatmap p = b \<and>
          (\<forall>s \<in> set (ss @ [s]). sc_beatmap s = b \<longrightarrow> display_score cfg s \<le> display_score cfg p)" for b
  proof -
    have "case map_of best b of
        None \<Rightarrow> \<forall>s \<in> set ss. sc_beatmap s = b \<longrightarrow> display_score cfg s \<le> 0
      | Some p \<Rightarrow> p \<in> set ss \<and> sc_beatmap p = b \<and>
          (\<forall>s \<in> set ss. sc_beatmap s = b \<longrightarrow> display_score cfg s \<le> display_score cfg p)"
      using assms(1) by (simp add: best_plays_def)
    with assms(2) show ?thesis by (auto split: option.splits)
  qed
qed

lemma best_plays_take:
  assumes "best_plays cfg ss best"
    and "(case map_of best (sc_beatmap s) of None \<Rightarrow> 0 | Some p \<Rightarrow> display_score cfg p) < display_score cfg s"
  shows "best_plays cfg (ss @ [s]) (dict_set best (sc_beatmap s) s)"
  unfolding best_plays_def
proof (intro conjI allI)
  show "distinct (map fst (dict_set best (sc_beatmap s) s))"
    using assms(1) by (simp add: best_plays_def distinct_dict_set)
  show "case map_of (dict_set best (sc_beatmap s) s) b of
        None \<Rightarrow> \<forall>s \<in> set (ss @ [s]). sc_beatmap s = b \<longrightarrow> display_score cfg s \<le> 0
      | Some p \<Rightarrow> p \<in> set (ss @ [s]) \<and> sc_beatmap p = b \<and>
          (\<forall>s \<in> set (ss @ [s]). sc_beatmap s = b \<longrightarrow> display_score cfg s \<le> display_score cfg p)" for b
  proof -
    have "case map_of best b of
        None \<Rightarrow> \<forall>s \<in> set ss. sc_beatmap s = b \<longrightarrow> display_score cfg s \<le> 0
      | Some p \<Rightarrow> p \<in> set ss \<and> sc_beatmap p = b \<and>
          (\<forall>s \<in> set ss. sc_beatmap s = b \<longrightarrow> display_score cfg s \<le> display_score cfg p)"
      using assms(1) by (simp add: best_plays_def)
    with assms(2) show ?thesis by (cases "b = sc_beatmap s") (force split: option.splits)+
  qed
qed

lemma recalculated_best_ok:
  assumes "recalculated_best cfg s (st, best) = (st', best')" and "best_plays cfg ss best"
    and "ranked_score st = ranked_total cfg best"
    and "\<forall>r. in_statistics r \<longrightarrow> grade_count r st = grade_total r best"
  shows "best_plays cfg (ss @ [s]) best' \<and> ranked_score st' = ranked_total cfg best' \<and>
    (\<forall>r. in_statistics r \<longrightarrow> grade_count r st' = grade_total r best')"
proof (cases "(case map_of best (sc_beatmap s) of None \<Rightarrow> 0 | Some p \<Rightarrow> display_score cfg p) < display_score cfg s")
  case True
  then have best': "best' = dict_set best (sc_beatmap s) s"
    using assms(1) by (simp add: recalculated_best_def Let_def split: option.splits)
  have "ranked_score st' = ranked_total cfg best'"
    using assms(1,3) True by (auto simp: best' recalculated_best_def Let_def ranked_total_set split: option.splits)
  moreover have "grade_count r st' = grade_total r best'" if "in_statistics r" for r
    using assms(1,4) that True
    by (auto simp: best' recalculated_best_def Let_def grade_total_set grade_count_add split: option.splits)
  ultimately show ?thesis using best_plays_take [OF assms(2) True] by (simp add: best')
next
  case False
  then have "best' = best" "st' = st\<lparr>maximum_combo := max (maximum_combo st) (sc_max_combo s)\<rparr>"
    using assms(1) by (simp_all add: recalculated_best_def Let_def split: option.splits)
  with assms False show ?thesis by (simp add: best_plays_skip)
qed

lemma recalculated_best_counters:
  "recalculated_best cfg s (st, best) = (st', best') \<Longrightarrow>
   play_count st' = play_count st \<and> us_total_score st' = us_total_score st \<and> us_total_hits st' = us_total_hits st \<and>
   play_time st' = play_time st"
  by (auto simp: recalculated_best_def Let_def add_grade_def split: if_splits option.splits rank.splits)

lemma recalculated_play_counters:
  "play_count (recalculated_play cfg s played st) = play_count st + 1"
  "us_total_score (recalculated_play cfg s played st) = us_total_score st + display_score cfg s"
  "us_total_hits (recalculated_play cfg s played st) = us_total_hits st + basic_hits s"
  "ranked_score (recalculated_play cfg s played st) = ranked_score st"
  "grade_count r (recalculated_play cfg s played st) = grade_count r st"
  by (simp_all add: recalculated_play_def basic_hits_def grade_count_def Let_def split: rank.split)

text \<open>What the loop keeps true after the scores \<open>ss\<close>.\<close>

definition recalc_inv ::
  "config \<Rightarrow> validator \<Rightarrow> ranked_mods \<Rightarrow> (int \<Rightarrow> map_row option) \<Rightarrow> score_row list
     \<Rightarrow> user_statistics \<times> (int \<times> score_row) list \<Rightarrow> bool" where
  "recalc_inv cfg validate ranked_tbl maps ss = (\<lambda>(st, best).
     play_count st = int (length (filter (on_map maps) ss)) \<and>
     us_total_score st = sum_list (map (display_score cfg) (filter (on_map maps) ss)) \<and>
     us_total_hits st = sum_list (map basic_hits (filter (on_map maps) ss)) \<and>
     best_plays cfg (filter (ranked_pass cfg validate ranked_tbl maps) ss) best \<and>
     ranked_score st = ranked_total cfg best \<and>
     (\<forall>r. in_statistics r \<longrightarrow> grade_count r st = grade_total r best))"

lemma recalculated_score_known:
  assumes run: "recalculated_score cfg validate ranked_tbl maps s (st, best) = Inr (st', best')" and "maps (sc_beatmap s) = Some bm"
  obtains played can where "calculate_playtime s (map_length bm) = Inr played"
    "(if has_pp (map_status bm) \<or> enable_all_beatmap_pp cfg
      then mods_can_get_pp cfg validate ranked_tbl (mode_int (sc_mode s)) (sc_mods s) else Inr False) = Inr can"
    "(st', best') = (if can \<and> sc_passed s then recalculated_best cfg s (recalculated_play cfg s played st, best)
      else (recalculated_play cfg s played st, best))"
proof -
  from assms obtain played where played: "calculate_playtime s (map_length bm) = Inr played"
    by (auto simp: recalculated_score_def py_bind_Inr_iff)
  let ?can = "if has_pp (map_status bm) \<or> enable_all_beatmap_pp cfg
      then mods_can_get_pp cfg validate ranked_tbl (mode_int (sc_mode s)) (sc_mods s) else Inr False"
  have run': "py_bind ?can (\<lambda>ranked. Inr (if ranked \<and> sc_passed s then recalculated_best cfg s (recalculated_play cfg s played st, best)
      else (recalculated_play cfg s played st, best))) = Inr (st', best')"
    using assms played unfolding recalculated_score_def prod.case by (simp only: option.case py_bind_simps Let_def)
  then obtain can where can: "?can = Inr can" unfolding py_bind_Inr_iff by (elim exE conjE)
  from run' [unfolded can] have "(st', best') = (if can \<and> sc_passed s then recalculated_best cfg s (recalculated_play cfg s played st, best)
      else (recalculated_play cfg s played st, best))"
    unfolding py_bind_simps sum.inject by (rule sym)
  with played can show ?thesis by (rule that)
qed

lemma recalculated_score_inv:
  assumes run: "recalculated_score cfg validate ranked_tbl maps s (st, best) = Inr (st', best')"
    and inv: "recalc_inv cfg validate ranked_tbl maps ss (st, best)"
  shows "recalc_inv cfg validate ranked_tbl maps (ss @ [s]) (st', best')"
proof (cases "maps (sc_beatmap s)")
  case None
  with run have "st' = st" "best' = best" by (simp_all add: recalculated_score_def)
  moreover have "\<not> on_map maps s" "\<not> ranked_pass cfg validate ranked_tbl maps s"
    using None by (simp_all add: on_map_def ranked_pass_def)
  ultimately show ?thesis using inv by (simp add: recalc_inv_def)
next
  case (Some bm)
  obtain played can where
    can: "(if has_pp (map_status bm) \<or> enable_all_beatmap_pp cfg
           then mods_can_get_pp cfg validate ranked_tbl (mode_int (sc_mode s)) (sc_mods s) else Inr False) = Inr can"
    and res: "(st', best') = (if can \<and> sc_passed s then recalculated_best cfg s (recalculated_play cfg s played st, best)
        else (recalculated_play cfg s played st, best))"
    by (rule recalculated_score_known [OF run Some])
  have pass: "ranked_pass cfg validate ranked_tbl maps s \<longleftrightarrow> can \<and> sc_passed s"
    using can Some by (auto simp: ranked_pass_def split: if_splits)
  have on: "on_map maps s" using Some by (simp add: on_map_def)
  let ?st = "recalculated_play cfg s played st"
  let ?ss = "filter (ranked_pass cfg validate ranked_tbl maps) ss"
  have old: "best_plays cfg ?ss best" "ranked_score ?st = ranked_total cfg best"
    "\<forall>r. in_statistics r \<longrightarrow> grade_count r ?st = grade_total r best"
    using inv by (simp_all add: recalc_inv_def recalculated_play_counters)
  show ?thesis
  proof (cases "can \<and> sc_passed s")
    case True
    then have new: "recalculated_best cfg s (?st, best) = (st', best')" using res by simp
    from recalculated_best_ok [OF new old] recalculated_best_counters [OF new] inv True pass on
    show ?thesis by (simp add: recalc_inv_def recalculated_play_counters)
  next
    case False
    then have "st' = ?st" "best' = best" "\<not> ranked_pass cfg validate ranked_tbl maps s" using res pass by (simp_all only: if_False prod.inject not_False_eq_True)
    with inv on old show ?thesis by (simp add: recalc_inv_def recalculated_play_counters)
  qed
qed

lemma fold_recalculated_inv:
  assumes "fold_scores (recalculated_score cfg validate ranked_tbl maps) ss a = Inr r"
    and "recalc_inv cfg validate ranked_tbl maps pre a"
  shows "recalc_inv cfg validate ranked_tbl maps (pre @ ss) r"
  using assms
proof (induction ss arbitrary: a pre)
  case (Cons s ss)
  obtain st best where a: "a = (st, best)" by (cases a)
  from Cons.prems(1) a obtain st' best' where step: "recalculated_score cfg validate ranked_tbl maps s (st, best) = Inr (st', best')"
    and rest: "fold_scores (recalculated_score cfg validate ranked_tbl maps) ss (st', best') = Inr r"
    by (auto simp: py_bind_Inr_iff)
  have "recalc_inv cfg validate ranked_tbl maps (pre @ [s]) (st', best')"
    using recalculated_score_inv [OF step] Cons.prems(2) a by simp
  from Cons.IH [OF rest this] show ?case by simp
qed simp

lemma recalc_inv_start: "recalc_inv cfg validate ranked_tbl maps [] (reset_statistics pp st, [])"
  by (simp add: recalc_inv_def reset_statistics_def best_plays_def ranked_total_def grade_total_def grade_count_def
      split: rank.split)

text \<open>C29: recalculated statistics are a function of the score table: the play count is the number
  of scores on known maps, the totals are sums over them, and the ranked score and the grade
  counters are those of one greatest score per map among the ranked passes.\<close>

theorem recalculated_statistics_spec:
  assumes "recalculate_statistics cfg validate ranked_tbl maps best scores st = Inr st'"
  shows "play_count st' = int (length (filter (on_map maps) scores)) \<and>
    us_total_score st' = sum_list (map (display_score cfg) (filter (on_map maps) scores)) \<and>
    us_total_hits st' = sum_list (map basic_hits (filter (on_map maps) scores)) \<and>
    level_current st' = calculate_score_to_level (us_total_score st') \<and>
    (\<exists>plays. best_plays cfg (filter (ranked_pass cfg validate ranked_tbl maps) scores) plays \<and>
       ranked_score st' = ranked_total cfg plays \<and>
       (\<forall>r. in_statistics r \<longrightarrow> grade_count r st' = grade_total r plays))"
proof -
  from assms obtain st1 plays where
    loop: "fold_scores (recalculated_score cfg validate ranked_tbl maps) scores
      (reset_statistics (calculate_user_pp best (us_user st) (us_mode st)) st, []) = Inr (st1, plays)"
    and st': "st' = st1\<lparr>level_current := calculate_score_to_level (us_total_score st1)\<rparr>"
    by (auto simp: recalculate_statistics_def py_bind_Inr_iff)
  from fold_recalculated_inv [OF loop recalc_inv_start]
  show ?thesis by (simp add: st' recalc_inv_def) (metis)
qed

text \<open>Recalculation does not count the way submission does: a play too short to count is
  counted, tick hits are not, and a best score on a loved map (ranked score, no pp) is left out of the ranked score that submission adds it to.\<close>

theorem recalculation_counts_otherwise:
  assumes map: "maps (sc_beatmap s) = Some bm" and short: "calculate_playtime s (map_length bm) = Inr played"
    and run: "recalculated_score cfg validate ranked_tbl maps s (st, best) = Inr (st', best')"
  defines "live \<equiv> update_counters s (display_score cfg s) (display_score cfg s) (fst (snd (score_gates cfg (map_status bm) True))) None played st"
  shows "play_count st' = play_count st + 1 \<and>
    play_count live = play_count st + (if snd played then 1 else 0) \<and>
    us_total_hits live - us_total_hits st' =
      or_zero (nlarge_tick_hit s) + or_zero (nlarge_tick_miss s) + or_zero (nsmall_tick_hit s) \<and>
    (map_status bm = LOVED \<and> \<not> enable_all_beatmap_pp cfg \<and> sc_passed s \<and> 0 < display_score cfg s \<longrightarrow>
      ranked_score st' = ranked_score st \<and> ranked_score live = ranked_score st + display_score cfg s)"
proof -
  obtain can where
    can: "(if has_pp (map_status bm) \<or> enable_all_beatmap_pp cfg
           then mods_can_get_pp cfg validate ranked_tbl (mode_int (sc_mode s)) (sc_mods s) else Inr False) = Inr can"
    and res: "(st', best') = (if can \<and> sc_passed s then recalculated_best cfg s (recalculated_play cfg s played st, best)
        else (recalculated_play cfg s played st, best))"
    using recalculated_score_known [OF run map] short by (metis Inr_inject)
  have counts: "play_count st' = play_count st + 1 \<and> us_total_hits st' = us_total_hits st + basic_hits s"
  proof (cases "can \<and> sc_passed s")
    case True
    then have "recalculated_best cfg s (recalculated_play cfg s played st, best) = (st', best')" using res by simp
    from recalculated_best_counters [OF this] show ?thesis by (simp add: recalculated_play_counters)
  next
    case False
    then have "st' = recalculated_play cfg s played st" using res by (simp only: if_False prod.inject)
    then show ?thesis by (simp add: recalculated_play_counters)
  qed
  have loved: "ranked_score st' = ranked_score st"
    if "map_status bm = LOVED" "\<not> enable_all_beatmap_pp cfg"
  proof -
    have "\<not> can" using that can by (auto simp: has_pp_def)
    then show ?thesis using res by (simp add: recalculated_play_counters)
  qed
  have "ranked_score live = ranked_score st + display_score cfg s"
    if "map_status bm = LOVED" "sc_passed s" "0 < display_score cfg s"
    using that by (auto simp: live_def update_counters_tallies score_gates_def status_ranked_def)
  moreover have "us_total_hits live = us_total_hits st + basic_hits s + or_zero (nlarge_tick_hit s) +
      or_zero (nlarge_tick_miss s) + or_zero (nsmall_tick_hit s)"
    by (simp add: live_def update_counters_fields count_hits_total basic_hits_def)
  ultimately show ?thesis
    using counts loved by (simp add: live_def update_counters_fields)
qed

section \<open>Concrete recalculations\<close>

definition ranked_map :: "beatmap_status \<Rightarrow> map_row" where
  "ranked_map status = \<lparr>map_length = 100, map_status = status, map_cs = None, map_od = None\<rparr>"

definition first_play :: score_row where
  "first_play = sample_score\<lparr>sc_id := 1, sc_pp := 50, sc_total_score := 700000\<rparr>"

definition second_play :: score_row where
  "second_play = sample_score\<lparr>sc_id := 2, sc_pp := 80, sc_total_score := 900000\<rparr>"

lemma plays_fields:
  "sc_mods first_play = []" "sc_mods second_play = []" "sc_passed first_play" "sc_passed second_play"
  "sc_mode first_play = OSU" "sc_mode second_play = OSU" "sc_beatmap first_play = sc_beatmap sample_score"
  "sc_beatmap second_play = sc_beatmap sample_score" "sc_user first_play = sc_user sample_score"
  "sc_user second_play = sc_user sample_score" "sc_pp first_play = 50" "sc_pp second_play = 80"
  "sc_total_score first_play = 700000" "sc_total_score second_play = 900000"
  by (simp_all add: first_play_def second_play_def sample_score_def)

lemma plays_count:
  "counts_for_pp std_config v r (\<lambda>_. Some (ranked_map RANKED)) first_play = Inr True"
  "counts_for_pp std_config v r (\<lambda>_. Some (ranked_map RANKED)) second_play = Inr True"
  "counts_for_total std_config v r (\<lambda>_. Some (ranked_map RANKED)) first_play = Inr True"
  "counts_for_total std_config v r (\<lambda>_. Some (ranked_map RANKED)) second_play = Inr True"
  by (simp_all add: counts_for_pp_def counts_for_total_def plays_fields ranked_map_def no_mods_pp RELAX_AP_MODES_def
      has_pp_def has_leaderboard_def)


lemma rebuilt_totals_keep_every_mod_set_witness:
  "\<exists>rows. build_total_score_best_scores std_config no_validator DEFAULT_RANKED_MODS (\<lambda>_. Some (ranked_map RANKED))
      [first_play, second_play] = Inr rows \<and>
     map tb_total (filter (\<lambda>r. tb_beatmap r = sc_beatmap sample_score \<and> tb_mods r = []) rows) = [900000]"
proof -
  obtain rows where rows: "build_total_score_best_scores std_config no_validator DEFAULT_RANKED_MODS
      (\<lambda>_. Some (ranked_map RANKED)) [first_play, second_play] = Inr rows"
    by (simp add: build_total_score_best_scores_def plays_count)
  from rebuilt_totals_keep_every_mod_set [OF rows, of "sc_beatmap sample_score" "[]"] rows show ?thesis
    by (simp add: plays_count plays_fields mod_to_save_def)
qed

lemma first_playtime: "calculate_playtime first_play 100 = Inr (100, True)"
  by (simp add: calculate_playtime_def get_play_length_def plays_fields get_speed_rate_def)
    (simp add: first_play_def sample_score_def py_int_def)

lemma first_recalculated:
  "\<exists>st' best'. recalculated_score std_config no_validator DEFAULT_RANKED_MODS (\<lambda>_. Some (ranked_map LOVED)) first_play
     (sample_stats, []) = Inr (st', best')"
  by (simp add: recalculated_score_def ranked_map_def first_playtime has_pp_def std_config_simps)

lemma recalculation_counts_otherwise_witness:
  "\<exists>st' best'. recalculated_score std_config no_validator DEFAULT_RANKED_MODS (\<lambda>_. Some (ranked_map LOVED)) first_play
     (sample_stats, []) = Inr (st', best') \<and>
   ranked_score (update_counters first_play 700000 700000 True None (100, True) sample_stats) = ranked_score st' + 700000"
proof -
  obtain st' best' where run: "recalculated_score std_config no_validator DEFAULT_RANKED_MODS (\<lambda>_. Some (ranked_map LOVED))
      first_play (sample_stats, []) = Inr (st', best')" using first_recalculated by blast
  have d: "display_score std_config first_play = 700000"
    by (simp add: standard_display std_config_def plays_fields)
  have len: "calculate_playtime first_play (map_length (ranked_map LOVED)) = Inr (100, True)"
    by (simp add: ranked_map_def first_playtime)
  have status: "map_status (ranked_map LOVED) = LOVED" by (simp add: ranked_map_def)
  from recalculation_counts_otherwise [OF refl len run] run show ?thesis
    by (simp add: d status loved_gates std_config_simps plays_fields)
qed

lemma recalculated_statistics_spec_witness:
  "\<exists>st'. recalculate_statistics std_config no_validator DEFAULT_RANKED_MODS (\<lambda>_. Some (ranked_map LOVED)) [] [first_play]
      sample_stats = Inr st' \<and> play_count st' = 1 \<and> us_total_score st' = 700000 \<and> ranked_score st' = 0"
proof -
  obtain st' where run: "recalculate_statistics std_config no_validator DEFAULT_RANKED_MODS (\<lambda>_. Some (ranked_map LOVED)) []
      [first_play] sample_stats = Inr st'"
    by (simp add: recalculate_statistics_def recalculated_score_def ranked_map_def first_playtime has_pp_def std_config_simps)
  have d: "display_score std_config first_play = 700000"
    by (simp add: standard_display std_config_def plays_fields)
  have none: "\<not> ranked_pass std_config no_validator DEFAULT_RANKED_MODS (\<lambda>_. Some (ranked_map LOVED)) first_play"
    by (simp add: ranked_pass_def ranked_map_def has_pp_def std_config_simps)
  from recalculated_statistics_spec [OF run] obtain tops where
    tops: "best_plays std_config [] tops" "ranked_score st' = ranked_total std_config tops"
    and counts: "play_count st' = 1" "us_total_score st' = 700000"
    by (auto simp: none on_map_def d)
  have "x \<notin> set tops" for x
    using tops(1) by (cases x) (auto simp: best_plays_def split: option.splits)
  then have "tops = []" by (cases tops) auto
  with run tops(2) counts show ?thesis by (auto simp: ranked_total_def)
qed

section \<open>Which players are recalculated\<close>

text \<open>The filters of \<^verbatim>\<open>PerformanceConfig\<close> and \<^verbatim>\<open>LeaderboardConfig\<close>, sets given as lists. A
  target is a player and mode with the scores to recalculate, or None for all of them.\<close>

record target_config =
  tc_users :: "int list"
  tc_modes :: "game_mode list"
  tc_mods :: "string list"
  tc_maps :: "int list"
  tc_sets :: "int list"

type_synonym targets = "((int \<times> game_mode) \<times> int set option) list"

definition BANCHOBOT_ID :: int where "BANCHOBOT_ID = 2"

definition score_has_required_mod :: "api_mod list \<Rightarrow> string list \<Rightarrow> bool" where
  "score_has_required_mod mods required \<longleftrightarrow>
     required = [] \<or> list_ex (\<lambda>m. acronym m \<noteq> [] \<and> str_upper (acronym m) \<in> set required) mods"

text \<open>\<open>set_of\<close> gives the mapset of a map, for the join with the beatmap table.\<close>

definition score_matches :: "target_config \<Rightarrow> (int \<Rightarrow> int option) \<Rightarrow> score_row \<Rightarrow> bool" where
  "score_matches c set_of s \<longleftrightarrow>
     sc_passed s \<and>
     (tc_users c \<noteq> [] \<longrightarrow> sc_user s \<in> set (tc_users c)) \<and>
     (tc_modes c \<noteq> [] \<longrightarrow> sc_mode s \<in> set (tc_modes c)) \<and>
     (tc_maps c \<noteq> [] \<longrightarrow> sc_beatmap s \<in> set (tc_maps c)) \<and>
     (tc_sets c \<noteq> [] \<longrightarrow> (case set_of (sc_beatmap s) of None \<Rightarrow> False | Some b \<Rightarrow> b \<in> set (tc_sets c))) \<and>
     sc_user s \<noteq> BANCHOBOT_ID \<and> score_has_required_mod (sc_mods s) (tc_mods c)"

definition add_target :: "score_row \<Rightarrow> targets \<Rightarrow> targets" where
  "add_target s t =
     (case map_of t (sc_user s, sc_mode s) of
        Some (Some bucket) \<Rightarrow> dict_set t (sc_user s, sc_mode s) (Some (insert (sc_id s) bucket))
      | _ \<Rightarrow> dict_set t (sc_user s, sc_mode s) (Some {sc_id s}))"

definition populate_targets_from_scores ::
  "target_config \<Rightarrow> (int \<Rightarrow> int option) \<Rightarrow> score_row list \<Rightarrow> targets \<Rightarrow> targets" where
  "populate_targets_from_scores c set_of scores t = fold add_target (filter (score_matches c set_of) scores) t"

definition default_target :: "int \<times> game_mode \<Rightarrow> targets \<Rightarrow> targets" where
  "default_target k t = (case map_of t k of None \<Rightarrow> dict_set t k None | Some _ \<Rightarrow> t)"

definition statistics_keys ::
  "target_config \<Rightarrow> user_statistics list \<Rightarrow> int list \<Rightarrow> (int \<times> game_mode) list" where
  "statistics_keys c stats users =
     map (\<lambda>st. (us_user st, us_mode st)) (filter (\<lambda>st. us_user st \<noteq> BANCHOBOT_ID \<and>
       (users \<noteq> [] \<longrightarrow> us_user st \<in> set users) \<and> (tc_modes c \<noteq> [] \<longrightarrow> us_mode st \<in> set (tc_modes c))) stats)"

definition populate_targets_from_statistics ::
  "target_config \<Rightarrow> user_statistics list \<Rightarrow> int list \<Rightarrow> targets \<Rightarrow> targets" where
  "populate_targets_from_statistics c stats users t = fold default_target (statistics_keys c stats users) t"

definition determine_targets ::
  "target_config \<Rightarrow> (int \<Rightarrow> int option) \<Rightarrow> score_row list \<Rightarrow> user_statistics list \<Rightarrow> targets" where
  "determine_targets c set_of scores stats =
     (let filtered = tc_mods c \<noteq> [] \<or> tc_maps c \<noteq> [] \<or> tc_sets c \<noteq> [];
          t = (if filtered then populate_targets_from_scores c set_of scores [] else []);
          t = (if tc_users c \<noteq> [] \<and> \<not> filtered then populate_targets_from_statistics c stats (tc_users c) t
               else if t = [] then populate_targets_from_statistics c stats [] t else t);
          t = (if tc_users c \<noteq> [] then filter (\<lambda>(k, _). fst k \<in> set (tc_users c)) t else t);
          t = (if tc_modes c \<noteq> [] then filter (\<lambda>(k, _). snd k \<in> set (tc_modes c)) t else t)
      in filter (\<lambda>(k, _). fst k \<noteq> BANCHOBOT_ID) t)"

lemma default_targets_new:
  "distinct ks \<Longrightarrow> set ks \<inter> fst ` set t = {} \<Longrightarrow> fold default_target ks t = t @ map (\<lambda>k. (k, None)) ks"
proof (induction ks arbitrary: t)
  case (Cons k ks)
  have "dict_set t k None = t @ [(k, None)]" if "k \<notin> fst ` set t"
    using that by (induction t) auto
  moreover have "map_of t k = None" using Cons.prems by (simp add: map_of_eq_None_iff)
  ultimately have "default_target k t = t @ [(k, None)]"
    using Cons.prems by (simp add: default_target_def)
  with Cons show ?case by auto
qed simp

text \<open>A filter that matches no score selects everybody: when mods, maps or mapsets are asked
  for and no passed score has them, the targets are all scores of every player and mode with
  statistics, cut down only by the user and mode filters.\<close>

theorem unmatched_filter_targets_everyone:
  assumes asked: "tc_mods c \<noteq> [] \<or> tc_maps c \<noteq> [] \<or> tc_sets c \<noteq> []"
    and none: "list_all (\<lambda>s. \<not> score_matches c set_of s) scores"
    and keys: "distinct (map (\<lambda>st. (us_user st, us_mode st)) stats)"
  shows "determine_targets c set_of scores stats =
    map (\<lambda>st. ((us_user st, us_mode st), None)) (filter (\<lambda>st. us_user st \<noteq> BANCHOBOT_ID \<and>
      (tc_users c \<noteq> [] \<longrightarrow> us_user st \<in> set (tc_users c)) \<and> (tc_modes c \<noteq> [] \<longrightarrow> us_mode st \<in> set (tc_modes c))) stats)"
proof -
  have empty: "populate_targets_from_scores c set_of scores [] = []"
    using none by (simp add: populate_targets_from_scores_def list_all_iff filter_False)
  have dist: "distinct (statistics_keys c stats [])"
    using keys unfolding statistics_keys_def by (rule distinct_map_filter)
  have "populate_targets_from_statistics c stats [] [] = map (\<lambda>k. (k, None)) (statistics_keys c stats [])"
    using default_targets_new [OF dist, of "[]"] by (simp add: populate_targets_from_statistics_def)
  moreover have "(tc_mods c \<noteq> [] \<or> tc_maps c \<noteq> [] \<or> tc_sets c \<noteq> []) = True" using asked by blast
  ultimately show ?thesis
    unfolding determine_targets_def Let_def statistics_keys_def
    by (cases "tc_users c = []"; cases "tc_modes c = []") (simp_all add: empty filter_map o_def conj_ac)
qed

lemma unmatched_filter_targets_everyone_witness:
  "determine_targets \<lparr>tc_users = [], tc_modes = [], tc_mods = [''FL''], tc_maps = [], tc_sets = []\<rparr> (\<lambda>_. None)
     [first_play] [sample_stats] = [((7, OSU), None)]"
  by (subst unmatched_filter_targets_everyone)
    (simp_all add: score_matches_def score_has_required_mod_def plays_fields sample_stats_def BANCHOBOT_ID_def)

end
