(* ===== verification/RecalcJobs.thy ===== *)
theory RecalcJobs
  imports Recalculate
begin

text \<open>
  The jobs of the recalculation tool (\<^verbatim>\<open>src/tools/recalculate.py\<close>): the least-recently-used
  cache of map files, the retry loops around the pp calculator and the map servers, and the
  transactions that rebuild a player's pp, a player's leaderboard rows or the rating of a map.
  The answers of the servers and the calculator are arguments: one answer for each turn of a
  loop. A loop that never ends is the None of \<open>partial_function\<close>; its termination is proved
  from the answers. Jobs run one after the other; the semaphore, the CSV report, log lines
  and the time slept are not modelled.
\<close>

section \<open>The cache of map files\<close>

text \<open>\<^verbatim>\<open>BeatmapCacheManager\<close>; \<open>lru_cleared\<close> records the maps handed to
  \<^verbatim>\<open>clear_cached_beatmap_raws\<close>.\<close>

record lru =
  lru_max :: int
  lru_additional :: int
  lru_ids :: "int list"
  lru_set :: "int set"
  lru_cleared :: "int list"

definition add_beatmap :: "int \<Rightarrow> lru \<Rightarrow> lru" where
  "add_beatmap b c =
     (if lru_max c \<le> 0 then c
      else if b \<in> lru_set c then c\<lparr>lru_ids := remove1 b (lru_ids c) @ [b]\<rparr>
      else
        let ids = lru_ids c @ [b]; known = insert b (lru_set c);
            threshold = lru_max c + max 0 (lru_additional c)
        in if int (length ids) > threshold then
             (let n = nat (max 1 (lru_additional c)); gone = take n ids
              in c\<lparr>lru_ids := drop n ids, lru_set := known - set gone, lru_cleared := lru_cleared c @ gone\<rparr>)
           else c\<lparr>lru_ids := ids, lru_set := known\<rparr>)"

definition new_cache :: "int \<Rightarrow> int \<Rightarrow> lru" where
  "new_cache max_count additional =
     \<lparr>lru_max = max_count, lru_additional = additional, lru_ids = [], lru_set = {}, lru_cleared = []\<rparr>"

text \<open>\<open>remdups\<close> keeps the last occurrence of each map: the maps by time of last use.\<close>

definition lru_ok :: "int list \<Rightarrow> lru \<Rightarrow> bool" where
  "lru_ok used c \<longleftrightarrow>
     suffix (lru_ids c) (remdups used) \<and> lru_set c = set (lru_ids c) \<and>
     int (length (lru_ids c)) \<le> lru_max c + max 0 (lru_additional c)"

lemma remdups_snoc: "remdups (xs @ [x]) = filter (\<lambda>y. y \<noteq> x) (remdups xs) @ [x]"
  by (induction xs) auto

lemma suffix_filter: "suffix xs ys \<Longrightarrow> suffix (filter P xs) (filter P ys)"
  by (auto simp: suffix_def)

lemma suffix_snoc: "suffix xs ys \<Longrightarrow> suffix (xs @ [x]) (ys @ [x])"
  by (auto simp: suffix_def)

lemma lru_ok_add:
  assumes "lru_ok used c" and max: "0 < lru_max c"
  shows "lru_ok (used @ [b]) (add_beatmap b c) \<and> lru_max (add_beatmap b c) = lru_max c \<and>
    lru_additional (add_beatmap b c) = lru_additional c \<and> b \<in> set (lru_ids (add_beatmap b c))"
proof -
  have suf: "suffix (lru_ids c) (remdups used)" and known: "lru_set c = set (lru_ids c)"
    and len: "int (length (lru_ids c)) \<le> lru_max c + max 0 (lru_additional c)"
    using assms(1) by (simp_all add: lru_ok_def)
  have dist: "distinct (lru_ids c)" using suf by (metis distinct_append distinct_remdups suffix_def)
  have step: "suffix (filter (\<lambda>y. y \<noteq> b) (lru_ids c) @ [b]) (remdups (used @ [b]))"
    unfolding remdups_snoc by (intro suffix_snoc suffix_filter suf)
  show ?thesis
  proof (cases "b \<in> set (lru_ids c)")
    case True
    have "remove1 b (lru_ids c) = filter (\<lambda>y. y \<noteq> b) (lru_ids c)"
      using dist by (simp add: distinct_remove1_removeAll removeAll_filter_not_eq neq_commute)
    moreover have "length (remove1 b (lru_ids c) @ [b]) = length (lru_ids c)"
      using True length_pos_if_in_set [OF True] by (simp add: length_remove1)
    ultimately show ?thesis
      using True step known len max by (auto simp: add_beatmap_def lru_ok_def)
  next
    case False
    then have ids: "filter (\<lambda>y. y \<noteq> b) (lru_ids c) @ [b] = lru_ids c @ [b]" by (auto simp: filter_id_conv)
    show ?thesis
    proof (cases "int (length (lru_ids c @ [b])) > lru_max c + max 0 (lru_additional c)")
      case evict: True
      let ?n = "nat (max 1 (lru_additional c))" and ?ids = "lru_ids c @ [b]"
      have n: "?n \<le> length (lru_ids c)" using evict max by auto
      then have drop: "drop ?n ?ids = drop ?n (lru_ids c) @ [b]" by simp
      have "suffix (drop ?n ?ids) (remdups (used @ [b]))"
        using step unfolding ids by (meson suffix_drop suffix_order.trans)
      moreover have "insert b (set (lru_ids c)) - set (take ?n ?ids) = set (drop ?n ?ids)"
      proof -
        have "distinct ?ids" using dist False by simp
        then have "set (take ?n ?ids) \<inter> set (drop ?n ?ids) = {}" by (metis append_take_drop_id distinct_append)
        moreover have "insert b (set (lru_ids c)) = set (take ?n ?ids) \<union> set (drop ?n ?ids)"
          by (metis append_take_drop_id set_append Un_commute Un_insert_left list.set(2) empty_set sup_bot.left_neutral)
        ultimately show ?thesis by blast
      qed
      moreover have "int (length (drop ?n ?ids)) \<le> lru_max c + max 0 (lru_additional c)"
        using len by simp
      ultimately show ?thesis
        using evict False max known drop by (simp add: add_beatmap_def lru_ok_def Let_def)
    next
      case keep: False
      with False step known max show ?thesis
        unfolding ids by (simp add: add_beatmap_def lru_ok_def Let_def)
    qed
  qed
qed

text \<open>The map cache is least recently used: after any sequence of uses it holds the most
  recently used maps, each once, in order of last use, never more than its bound, its set is
  that of its list, and the map just used is always kept.\<close>

theorem cache_keeps_most_recent:
  fixes additional :: int
  assumes "0 < max_count" and "bs \<noteq> []"
  defines "c \<equiv> fold add_beatmap bs (new_cache max_count additional)"
  shows "suffix (lru_ids c) (remdups bs) \<and> lru_set c = set (lru_ids c) \<and>
    int (length (lru_ids c)) \<le> max_count + max 0 additional \<and> last bs \<in> set (lru_ids c)"
proof -
  have ok: "lru_ok bs (fold add_beatmap bs (new_cache max_count additional)) \<and>
      lru_max (fold add_beatmap bs (new_cache max_count additional)) = max_count \<and>
      lru_additional (fold add_beatmap bs (new_cache max_count additional)) = additional" for bs
  proof (induction bs rule: rev_induct)
    case (snoc b bs)
    then show ?case using lru_ok_add [of bs _ b] assms(1) by simp
  qed (use assms(1) in \<open>simp add: lru_ok_def new_cache_def\<close>)
  obtain bs' b where bs: "bs = bs' @ [b]" using assms(2) by (cases bs rule: rev_cases) auto
  have "b \<in> set (lru_ids c)"
    using lru_ok_add [of bs' "fold add_beatmap bs' (new_cache max_count additional)" b] ok [of bs'] assms(1)
    by (simp add: c_def bs)
  moreover have "lru_ok bs c" "lru_max c = max_count" "lru_additional c = additional"
    using ok [of bs] by (simp_all add: c_def)
  ultimately show ?thesis unfolding lru_ok_def by (simp add: bs)
qed

lemma cache_keeps_most_recent_witness:
  "suffix (lru_ids (fold add_beatmap [5, 6, 5, 7, 8] (new_cache 2 1))) [6, 5, 7, 8] \<and>
   lru_ids (fold add_beatmap [5, 6, 5, 7, 8] (new_cache 2 1)) = [5, 7, 8]"
  using cache_keeps_most_recent [of 2 "[5, 6, 5, 7, 8]" 1]
  by (simp add: new_cache_def add_beatmap_def)

section \<open>Retrying\<close>

text \<open>The exceptions the retry loops tell apart: HTTP 429, any other \<^verbatim>\<open>HTTPError\<close>,
  \<^verbatim>\<open>NoBeatmapError\<close>, \<^verbatim>\<open>CalculateError\<close>, a timeout, and the rest.\<close>

datatype failure = Rate_limited | Http_error | No_beatmap | Calculate_error | Timed_out | Other_failure

text \<open>\<^verbatim>\<open>_retry_wait_seconds\<close>: the status of the response, its \<^verbatim>\<open>Retry-After\<close> header if any, read
  as a number or as a date (the seconds until then).\<close>

datatype retry_after = Seconds real | Until real | Unreadable

definition retry_wait_seconds :: "int option \<Rightarrow> retry_after option \<Rightarrow> real option" where
  "retry_wait_seconds status header =
     (if status \<noteq> Some 429 then None
      else case header of
        None \<Rightarrow> Some 5
      | Some (Seconds x) \<Rightarrow> Some (max x 1)
      | Some (Until d) \<Rightarrow> Some (max d 1)
      | Some Unreadable \<Rightarrow> Some 5)"

lemma retry_wait_at_least: "retry_wait_seconds status header = Some w \<Longrightarrow> 1 \<le> w"
  by (auto simp: retry_wait_seconds_def split: if_splits option.splits retry_after.splits)

text \<open>What one turn of a loop decides: sleep and try again without counting the attempt, count
  it and try again, or end with an answer.\<close>

datatype 'x verdict = Wait | Retry | Finished 'x

text \<open>A loop \<^verbatim>\<open>while attempts > 0\<close> over the turns of \<open>step\<close>; it ends with None when the attempts
  are used up, and may run for ever, which is the outer None.\<close>

partial_function (option) retry_loop ::
  "(nat \<Rightarrow> 'x verdict) \<Rightarrow> (nat \<Rightarrow> 'c \<Rightarrow> 'c) \<Rightarrow> nat \<Rightarrow> nat \<Rightarrow> 'c \<Rightarrow> ('x option \<times> 'c) option" where
  "retry_loop step upd i attempts c =
     (if attempts = 0 then Some (None, c)
      else case step i of
        Wait \<Rightarrow> retry_loop step upd (Suc i) attempts (upd i c)
      | Retry \<Rightarrow> retry_loop step upd (Suc i) (attempts - 1) (upd i c)
      | Finished x \<Rightarrow> Some (Some x, upd i c))"

lemmas retry_loop_unfold = retry_loop.simps [of step upd i attempts c] for step upd i attempts c

lemma retry_loop_waits:
  "(\<And>j. i \<le> j \<Longrightarrow> j < i + n \<Longrightarrow> step j = Wait) \<Longrightarrow>
   \<exists>c'. retry_loop step upd i attempts c = retry_loop step upd (i + n) attempts c'"
proof (induction n arbitrary: i c)
  case (Suc n)
  show ?case
  proof (cases "attempts = 0")
    case True
    then show ?thesis by (metis retry_loop_unfold)
  next
    case False
    have "step i = Wait" using Suc.prems by simp
    with False have "retry_loop step upd i attempts c = retry_loop step upd (Suc i) attempts (upd i c)"
      by (subst retry_loop_unfold) simp
    moreover have "\<exists>c'. retry_loop step upd (Suc i) attempts (upd i c) = retry_loop step upd (Suc i + n) attempts c'"
      by (rule Suc.IH) (use Suc.prems in auto)
    ultimately show ?thesis by simp
  qed
qed auto

lemma retry_loop_returns:
  assumes "\<And>n. \<exists>i \<ge> n. step i \<noteq> Wait"
  shows "\<exists>r. retry_loop step upd i attempts c = Some r"
proof (induction attempts arbitrary: i c)
  case 0
  then show ?case by (simp add: retry_loop_unfold)
next
  case (Suc k)
  obtain j where j: "i \<le> j" "step j \<noteq> Wait" "\<And>m. i \<le> m \<Longrightarrow> m < j \<Longrightarrow> step m = Wait"
  proof -
    obtain j where "i \<le> j \<and> step j \<noteq> Wait" using assms by blast
    from LeastI [of "\<lambda>j. i \<le> j \<and> step j \<noteq> Wait", OF this] that [of "LEAST j. i \<le> j \<and> step j \<noteq> Wait"] show ?thesis
      by (metis (mono_tags, lifting) not_less_Least)
  qed
  then obtain c' where "retry_loop step upd i (Suc k) c = retry_loop step upd j (Suc k) c'"
    using retry_loop_waits [of i "j - i" step upd "Suc k" c] by auto
  moreover have "\<exists>r. retry_loop step upd j (Suc k) c' = Some r"
  proof (cases "step j")
    case Retry
    then have "retry_loop step upd j (Suc k) c' = retry_loop step upd (Suc j) k (upd j c')"
      by (subst retry_loop_unfold) simp
    then show ?thesis using Suc.IH by simp
  next
    case (Finished x)
    then show ?thesis by (subst retry_loop_unfold) simp
  qed (use j in simp)
  ultimately show ?case by simp
qed

lemma retry_loop_waiting:
  assumes "\<And>j. step j = Wait" and "0 < attempts"
  shows "retry_loop step upd i attempts c = None"
proof -
  have "0 < attempts \<longrightarrow> (\<exists>j. step j \<noteq> Wait)" if "retry_loop step upd i attempts c = Some r" for r
  proof (rule retry_loop.raw_induct [of "\<lambda>step upd i attempts c r. 0 < attempts \<longrightarrow> (\<exists>j. step j \<noteq> Wait)", OF _ that], goal_cases)
    case (1 rec step upd i attempts c r)
    then show ?case by (cases "step i = Wait") (auto split: if_splits)
  qed
  with assms show ?thesis by (cases "retry_loop step upd i attempts c") auto
qed

text \<open>Failed attempts count: an answer needs at most as many turns that are not waits as there
  were attempts.\<close>

lemma retry_loop_gives_up:
  "(\<And>j. i \<le> j \<Longrightarrow> j < i + attempts \<Longrightarrow> step j = Retry) \<Longrightarrow>
   \<exists>c'. retry_loop step upd i attempts c = Some (None, c')"
proof (induction attempts arbitrary: i c)
  case (Suc k)
  then have "step i = Retry" by simp
  moreover have "\<exists>c'. retry_loop step upd (Suc i) k (upd i c) = Some (None, c')"
    by (rule Suc.IH) (use Suc.prems in auto)
  ultimately show ?case by (subst retry_loop_unfold) simp
qed (simp add: retry_loop_unfold)

section \<open>The pp of one score\<close>

text \<open>What the outside world answers in one turn: the map row, the map file, the pp.\<close>

record attempt =
  at_beatmap :: "failure + map_row"
  at_raw :: "failure option"
  at_pp :: "failure + real"

datatype pp_answer = New_pp real | No_pp | Raised

definition pp_gate :: "config \<Rightarrow> validator \<Rightarrow> ranked_mods \<Rightarrow> score_row \<Rightarrow> map_row \<Rightarrow> py_error + bool" where
  "pp_gate cfg validate ranked_tbl s bm =
     (if \<not> (has_pp (map_status bm) \<or> enable_all_beatmap_pp cfg) then Inr False
      else py_bind (mods_can_get_pp cfg validate ranked_tbl (mode_int (sc_mode s)) (sc_mods s)) (\<lambda>can.
        Inr (can \<and> \<not> (sc_mode s \<in> RELAX_AP_MODES \<and> sc_accuracy s < 0.75))))"

definition pp_turn :: "config \<Rightarrow> validator \<Rightarrow> ranked_mods \<Rightarrow> score_row \<Rightarrow> attempt \<Rightarrow> pp_answer verdict" where
  "pp_turn cfg validate ranked_tbl s a =
     (case at_beatmap a of
        Inl Rate_limited \<Rightarrow> Wait
      | Inl Http_error \<Rightarrow> Retry
      | Inl _ \<Rightarrow> Finished Raised
      | Inr bm \<Rightarrow>
          (case pp_gate cfg validate ranked_tbl s bm of
             Inl _ \<Rightarrow> Finished Raised
           | Inr can \<Rightarrow>
               if \<not> can then Finished (New_pp 0)
               else case (case at_raw a of Some f \<Rightarrow> Inl f | None \<Rightarrow> at_pp a) of
                 Inr pp \<Rightarrow> Finished (New_pp pp)
               | Inl Rate_limited \<Rightarrow> Wait
               | Inl Http_error \<Rightarrow> Retry
               | Inl Calculate_error \<Rightarrow> Retry
               | Inl _ \<Rightarrow> Finished No_pp))"

text \<open>The map is noted as used once its file was read.\<close>

definition pp_turn_cache ::
  "config \<Rightarrow> validator \<Rightarrow> ranked_mods \<Rightarrow> score_row \<Rightarrow> attempt \<Rightarrow> lru option \<Rightarrow> lru option" where
  "pp_turn_cache cfg validate ranked_tbl s a cache =
     (case at_beatmap a of
        Inl _ \<Rightarrow> cache
      | Inr bm \<Rightarrow> if pp_gate cfg validate ranked_tbl s bm = Inr True \<and> at_raw a = None
                 then map_option (add_beatmap (sc_beatmap s)) cache else cache)"

definition recalc_score_pp ::
  "config \<Rightarrow> validator \<Rightarrow> ranked_mods \<Rightarrow> (nat \<Rightarrow> attempt) \<Rightarrow> score_row \<Rightarrow> lru option \<Rightarrow> (pp_answer \<times> lru option) option" where
  "recalc_score_pp cfg validate ranked_tbl env s cache =
     map_option (\<lambda>(answer, cache). (case answer of None \<Rightarrow> No_pp | Some x \<Rightarrow> x, cache))
       (retry_loop (\<lambda>i. pp_turn cfg validate ranked_tbl s (env i))
          (\<lambda>i. pp_turn_cache cfg validate ranked_tbl s (env i)) 0 10 cache)"

definition rate_limited :: "attempt \<Rightarrow> bool" where
  "rate_limited a \<longleftrightarrow>
     at_beatmap a = Inl Rate_limited \<or> at_raw a = Some Rate_limited \<or> at_pp a = Inl Rate_limited"

lemma pp_turn_Wait: "pp_turn cfg validate ranked_tbl s a = Wait \<Longrightarrow> rate_limited a"
  by (auto simp: pp_turn_def rate_limited_def split: sum.splits failure.splits if_splits option.splits)

text \<open>C33: recalculating a score always ends if the servers are not rate limiting for ever: any
  sequence of answers in which attempts that are not rate limited keep coming leads to an
  answer.\<close>

theorem recalc_score_pp_returns:
  assumes "\<And>n. \<exists>i \<ge> n. \<not> rate_limited (env i)"
  shows "\<exists>r. recalc_score_pp cfg validate ranked_tbl env s cache = Some r"
proof -
  have "\<exists>i \<ge> n. pp_turn cfg validate ranked_tbl s (env i) \<noteq> Wait" for n
    using assms pp_turn_Wait by blast
  then obtain r where "retry_loop (\<lambda>i. pp_turn cfg validate ranked_tbl s (env i))
      (\<lambda>i. pp_turn_cache cfg validate ranked_tbl s (env i)) 0 10 cache = Some r"
    using retry_loop_returns by meson
  then show ?thesis by (simp add: recalc_score_pp_def)
qed


definition answering :: attempt where
  "answering = \<lparr>at_beatmap = Inr (ranked_map RANKED), at_raw = None, at_pp = Inr 120\<rparr>"

definition refusing :: "failure \<Rightarrow> attempt" where
  "refusing f = \<lparr>at_beatmap = Inl f, at_raw = None, at_pp = Inr 0\<rparr>"

lemma recalc_score_pp_returns_witness:
  "\<exists>r. recalc_score_pp std_config no_validator DEFAULT_RANKED_MODS
     (\<lambda>i. if even i then refusing Rate_limited else answering) first_play None = Some r"
proof (rule recalc_score_pp_returns)
  show "\<exists>i \<ge> n. \<not> rate_limited (if even (i :: nat) then refusing Rate_limited else answering)" for n
    by (rule exI [of _ "2 * n + 1"]) (simp add: rate_limited_def answering_def)
qed


section \<open>The jobs\<close>

definition apply_pp :: "pp_answer \<Rightarrow> score_row \<Rightarrow> score_row" where
  "apply_pp answer s = (case answer of New_pp pp \<Rightarrow> s\<lparr>sc_pp := pp\<rparr> | _ \<Rightarrow> s)"

text \<open>The loop over the scores, in the order of the table: the selected ones get their new pp.
  The inner None is an exception that ends the job.\<close>

fun recalc_scores ::
  "(score_row \<Rightarrow> 'c \<Rightarrow> (pp_answer \<times> 'c) option) \<Rightarrow> (score_row \<Rightarrow> bool) \<Rightarrow> score_row list \<Rightarrow> 'c
     \<Rightarrow> (score_row list option \<times> 'c) option" where
  "recalc_scores run selected [] c = Some (Some [], c)"
| "recalc_scores run selected (s # ss) c =
     (case (if selected s then run s c else Some (No_pp, c)) of
        None \<Rightarrow> None
      | Some (Raised, c) \<Rightarrow> Some (None, c)
      | Some (answer, c) \<Rightarrow>
          map_option (\<lambda>(rest, c). (map_option (\<lambda>ss. apply_pp answer s # ss) rest, c)) (recalc_scores run selected ss c))"

definition is_mine :: "int \<Rightarrow> game_mode \<Rightarrow> score_row \<Rightarrow> bool" where
  "is_mine user mode s \<longleftrightarrow> sc_user s = user \<and> sc_mode s = mode"

text \<open>\<^verbatim>\<open>target_set and score.id not in target_set\<close>: without a filter, or with no passed score at
  all, every passed score is taken.\<close>

definition selected_score :: "int \<Rightarrow> game_mode \<Rightarrow> int set option \<Rightarrow> score_row \<Rightarrow> bool" where
  "selected_score user mode filt s \<longleftrightarrow>
     is_mine user mode s \<and> sc_passed s \<and> (case filt of None \<Rightarrow> True | Some t \<Rightarrow> sc_id s \<in> t)"

definition stats_of :: "int \<Rightarrow> game_mode \<Rightarrow> user_statistics \<Rightarrow> bool" where
  "stats_of user mode st \<longleftrightarrow> us_user st = user \<and> us_mode st = mode"

text \<open>\<^verbatim>\<open>recalculate_user_mode_performance\<close>. Everything is one transaction: an exception or a dry
  run rolls it back.\<close>

definition performance_job ::
  "config \<Rightarrow> validator \<Rightarrow> ranked_mods \<Rightarrow> bool \<Rightarrow> (int \<Rightarrow> nat \<Rightarrow> attempt) \<Rightarrow> int \<Rightarrow> game_mode \<Rightarrow> int set option
     \<Rightarrow> lru option \<Rightarrow> game_db \<Rightarrow> (lru option \<times> game_db) option" where
  "performance_job cfg validate ranked_tbl dry_run env user mode filt cache db =
     (case find (stats_of user mode) (gd_stats db) of
        None \<Rightarrow> Some (cache, db)
      | Some st \<Rightarrow>
          if filt = Some {} then Some (cache, db)
          else case recalc_scores (\<lambda>s. recalc_score_pp cfg validate ranked_tbl (env (sc_id s)) s)
                      (selected_score user mode filt) (gd_scores db) cache of
            None \<Rightarrow> None
          | Some (None, cache) \<Rightarrow> Some (cache, db)
          | Some (Some scores, cache) \<Rightarrow>
              let mine = filter (is_mine user mode) scores in
              case build_best_scores cfg validate ranked_tbl (gd_maps db) user mode (filter sc_passed mine) of
                Inl _ \<Rightarrow> Some (cache, db)
              | Inr rows \<Rightarrow>
                  let best = filter (\<lambda>b. \<not> (bs_user b = user \<and> bs_mode b = mode)) (gd_best db) @ rows in
                  case recalculate_statistics cfg validate ranked_tbl (gd_maps db) best mine st of
                    Inl _ \<Rightarrow> Some (cache, db)
                  | Inr st' \<Rightarrow>
                      Some (cache,
                        if dry_run then db
                        else db\<lparr>gd_scores := scores, gd_best := best,
                                gd_stats := update_first (stats_of user mode) (\<lambda>_. st') (gd_stats db)\<rparr>))"

text \<open>\<^verbatim>\<open>recalculate_user_mode_leaderboard\<close>.\<close>

definition leaderboard_job ::
  "config \<Rightarrow> validator \<Rightarrow> ranked_mods \<Rightarrow> bool \<Rightarrow> int \<Rightarrow> game_mode \<Rightarrow> int set option \<Rightarrow> game_db \<Rightarrow> game_db" where
  "leaderboard_job cfg validate ranked_tbl dry_run user mode filt db =
     (case find (stats_of user mode) (gd_stats db) of
        None \<Rightarrow> db
      | Some st \<Rightarrow>
          if filt = Some {} then db
          else
            let mine = filter (is_mine user mode) (gd_scores db) in
            case build_total_score_best_scores cfg validate ranked_tbl (gd_maps db) (filter sc_passed mine) of
              Inl _ \<Rightarrow> db
            | Inr rows \<Rightarrow>
                let totals = filter (\<lambda>r. \<not> (tb_user r = user \<and> tb_mode r = mode)) (gd_totals db) @ rows in
                case recalculate_statistics cfg validate ranked_tbl (gd_maps db) (gd_best db) mine st of
                  Inl _ \<Rightarrow> db
                | Inr st' \<Rightarrow>
                    if dry_run then db
                    else db\<lparr>gd_totals := totals,
                            gd_stats := update_first (stats_of user mode) (\<lambda>_. st') (gd_stats db)\<rparr>)"

text \<open>\<^verbatim>\<open>recalculate_beatmap_rating\<close>: the star rating of one map.\<close>

record rated_map =
  rm_id :: int
  rm_deleted :: bool
  rm_rating :: real

definition rating_turn :: "failure + real \<Rightarrow> real option verdict" where
  "rating_turn a =
     (case a of
        Inr stars \<Rightarrow> Finished (Some stars)
      | Inl Rate_limited \<Rightarrow> Wait
      | Inl Http_error \<Rightarrow> Retry
      | Inl Calculate_error \<Rightarrow> Retry
      | Inl _ \<Rightarrow> Finished None)"

definition rating_turn_cache :: "int \<Rightarrow> failure + real \<Rightarrow> lru option \<Rightarrow> lru option" where
  "rating_turn_cache b a cache =
     (case a of Inl _ \<Rightarrow> cache | Inr _ \<Rightarrow> map_option (add_beatmap b) cache)"

definition rating_job ::
  "bool \<Rightarrow> (nat \<Rightarrow> failure + real) \<Rightarrow> int \<Rightarrow> lru option \<Rightarrow> rated_map list \<Rightarrow> (lru option \<times> rated_map list) option" where
  "rating_job dry_run env b cache maps =
     (case find (\<lambda>m. rm_id m = b) maps of
        None \<Rightarrow> Some (cache, maps)
      | Some m \<Rightarrow>
          if rm_deleted m then Some (cache, maps)
          else case retry_loop (\<lambda>i. rating_turn (env i)) (\<lambda>i. rating_turn_cache b (env i)) 0 10 cache of
            None \<Rightarrow> None
          | Some (Some (Some stars), cache) \<Rightarrow>
              Some (cache, if dry_run then maps else update_first (\<lambda>m. rm_id m = b) (\<lambda>m. m\<lparr>rm_rating := stars\<rparr>) maps)
          | Some (_, cache) \<Rightarrow> Some (cache, maps))"

section \<open>What a job may change\<close>

lemma apply_pp_core:
  "sc_user (apply_pp a s) = sc_user s" "sc_mode (apply_pp a s) = sc_mode s" "sc_passed (apply_pp a s) = sc_passed s"
  "sc_id (apply_pp a s) = sc_id s" "(apply_pp a s)\<lparr>sc_pp := x\<rparr> = s\<lparr>sc_pp := x\<rparr>"
  by (simp_all add: apply_pp_def split: pp_answer.split)

lemma recalc_scores_frame:
  "recalc_scores run selected ss c = Some (Some ss', c') \<Longrightarrow>
   (\<And>s. selected s \<Longrightarrow> P s) \<Longrightarrow> (\<And>a s. P (apply_pp a s) = P s) \<Longrightarrow>
   map (\<lambda>s. s\<lparr>sc_pp := 0\<rparr>) ss' = map (\<lambda>s. s\<lparr>sc_pp := 0\<rparr>) ss \<and> filter (\<lambda>s. \<not> P s) ss' = filter (\<lambda>s. \<not> P s) ss"
proof (induction ss arbitrary: c ss')
  case (Cons s ss)
  obtain a c1 where a: "(if selected s then run s c else Some (No_pp, c)) = Some (a, c1)" "a \<noteq> Raised"
    using Cons.prems(1) by (auto split: option.splits pp_answer.splits if_splits)
  with Cons.prems(1) obtain ss1 where rest: "recalc_scores run selected ss c1 = Some (Some ss1, c')"
    and ss': "ss' = apply_pp a s # ss1"
    by (cases a) auto
  have "\<not> P s \<Longrightarrow> apply_pp a s = s"
    using a(1) Cons.prems(2) by (auto simp: apply_pp_def split: if_splits)
  with Cons.IH [OF rest Cons.prems(2,3)] Cons.prems(3) show ?case
    by (auto simp: ss' apply_pp_core)
qed simp

text \<open>The rows another player owns, and everything the job has no business with, stay as they
  were.\<close>

lemma build_best_scores_mine:
  "build_best_scores cfg validate ranked_tbl maps user mode ss = Inr rows \<Longrightarrow>
   list_all (\<lambda>b. bs_user b = user \<and> bs_mode b = mode) rows"
proof -
  have keep: "list_all (\<lambda>x. bs_user (snd x) = user \<and> bs_mode (snd x) = mode) (fold (note_best user mode) ss d)"
    if "list_all (\<lambda>x. bs_user (snd x) = user \<and> bs_mode (snd x) = mode) d" for ss d
    using that
  proof (induction ss arbitrary: d)
    case (Cons s ss)
    have "list_all (\<lambda>x. bs_user (snd x) = user \<and> bs_mode (snd x) = mode) (note_best user mode s d)"
      using Cons.prems by (auto simp: note_best_def list_all_iff best_for_def split: option.split dest!: dict_set_entries)
    then show ?case using Cons.IH by simp
  qed simp
  assume "build_best_scores cfg validate ranked_tbl maps user mode ss = Inr rows"
  then have "rows = map snd (fold (note_best user mode) (filter (\<lambda>s. counts_for_pp cfg validate ranked_tbl maps s = Inr True) ss) [])"
    by (auto simp: build_best_scores_def py_bind_Inr_iff fold_counted_Inr)
  then show ?thesis using keep [of "[]"] by (simp add: list.pred_map o_def)
qed

lemma performance_job_cases:
  assumes "performance_job cfg validate ranked_tbl dry_run env user mode filt cache db = Some (cache', db')"
  obtains "db' = db"
  | st scores rows st' where "find (stats_of user mode) (gd_stats db) = Some st" "filt \<noteq> Some {}" "\<not> dry_run"
    "recalc_scores (\<lambda>s. recalc_score_pp cfg validate ranked_tbl (env (sc_id s)) s) (selected_score user mode filt)
       (gd_scores db) cache = Some (Some scores, cache')"
    "build_best_scores cfg validate ranked_tbl (gd_maps db) user mode (filter sc_passed (filter (is_mine user mode) scores)) = Inr rows"
    "recalculate_statistics cfg validate ranked_tbl (gd_maps db)
       (filter (\<lambda>b. \<not> (bs_user b = user \<and> bs_mode b = mode)) (gd_best db) @ rows) (filter (is_mine user mode) scores) st = Inr st'"
    "db' = db\<lparr>gd_scores := scores, gd_best := filter (\<lambda>b. \<not> (bs_user b = user \<and> bs_mode b = mode)) (gd_best db) @ rows,
       gd_stats := update_first (stats_of user mode) (\<lambda>_. st') (gd_stats db)\<rparr>"
  using assms unfolding performance_job_def
  by (fastforce split: option.splits sum.splits if_splits simp: Let_def)

lemma recalculated_play_frame:
  "us_user (recalculated_play cfg s p st) = us_user st" "us_mode (recalculated_play cfg s p st) = us_mode st"
  "last_played (recalculated_play cfg s p st) = last_played st"
  by (simp_all add: recalculated_play_def Let_def)

lemma add_grade_other: "us_user (add_grade d r st) = us_user st" "us_mode (add_grade d r st) = us_mode st"
  "last_played (add_grade d r st) = last_played st"
  by (simp_all add: add_grade_def split: rank.split)

lemma recalculated_best_frame:
  "recalculated_best cfg s (st, best) = (st', best') \<Longrightarrow>
   us_user st' = us_user st \<and> us_mode st' = us_mode st \<and> last_played st' = last_played st"
  by (auto simp: recalculated_best_def Let_def add_grade_other split: if_splits option.splits)

lemma recalculated_frame:
  assumes run: "recalculated_score cfg validate ranked_tbl maps s (st, best) = Inr (st', best')"
  shows "us_user st' = us_user st \<and> us_mode st' = us_mode st \<and> last_played st' = last_played st"
proof (cases "maps (sc_beatmap s)")
  case None
  with run show ?thesis by (simp add: recalculated_score_def)
next
  case (Some bm)
  show ?thesis
  proof (rule recalculated_score_known [OF run Some])
    fix played can
    assume res: "(st', best') = (if can \<and> sc_passed s then recalculated_best cfg s (recalculated_play cfg s played st, best)
      else (recalculated_play cfg s played st, best))"
    show ?thesis
    proof (cases "can \<and> sc_passed s")
      case True
      with res have "recalculated_best cfg s (recalculated_play cfg s played st, best) = (st', best')" by simp
      from recalculated_best_frame [OF this] show ?thesis by (simp add: recalculated_play_frame)
    next
      case False
      with res show ?thesis by (simp only: if_False prod.inject recalculated_play_frame simp_thms)
    qed
  qed
qed

lemma fold_recalculated_frame:
  "fold_scores (recalculated_score cfg validate ranked_tbl maps) ss (st, best) = Inr (st', best') \<Longrightarrow>
   us_user st' = us_user st \<and> us_mode st' = us_mode st \<and> last_played st' = last_played st"
proof (induction ss arbitrary: st best)
  case (Cons s ss)
  from Cons.prems obtain st1 best1 where step: "recalculated_score cfg validate ranked_tbl maps s (st, best) = Inr (st1, best1)"
    and "fold_scores (recalculated_score cfg validate ranked_tbl maps) ss (st1, best1) = Inr (st', best')"
    by (auto simp: py_bind_Inr_iff)
  with Cons.IH recalculated_frame [OF step] show ?case by metis
qed simp

lemma recalculate_statistics_frame:
  "recalculate_statistics cfg validate ranked_tbl maps best ss st = Inr st' \<Longrightarrow>
   us_user st' = us_user st \<and> us_mode st' = us_mode st \<and> last_played st' = last_played st"
proof -
  assume "recalculate_statistics cfg validate ranked_tbl maps best ss st = Inr st'"
  then obtain st1 best1 where "fold_scores (recalculated_score cfg validate ranked_tbl maps) ss
      (reset_statistics (calculate_user_pp best (us_user st) (us_mode st)) st, []) = Inr (st1, best1)"
    and st': "st' = st1\<lparr>level_current := calculate_score_to_level (us_total_score st1)\<rparr>"
    by (auto simp: recalculate_statistics_def py_bind_Inr_iff)
  from fold_recalculated_frame [OF this(1)] show ?thesis by (simp add: st' reset_statistics_def)
qed

text \<open>Recalculating the pp of a player in a mode changes nothing else: the rows of other
  players and modes stay, scores change in their pp only, totals, points and tokens are
  untouched, and a dry run leaves the database as it was.\<close>

theorem performance_job_touches_one_player:
  assumes "performance_job cfg validate ranked_tbl dry_run env user mode filt cache db = Some (cache', db')"
  shows "filter (\<lambda>s. \<not> is_mine user mode s) (gd_scores db') = filter (\<lambda>s. \<not> is_mine user mode s) (gd_scores db) \<and>
    map (\<lambda>s. s\<lparr>sc_pp := 0\<rparr>) (gd_scores db') = map (\<lambda>s. s\<lparr>sc_pp := 0\<rparr>) (gd_scores db) \<and>
    filter (\<lambda>b. \<not> (bs_user b = user \<and> bs_mode b = mode)) (gd_best db') =
      filter (\<lambda>b. \<not> (bs_user b = user \<and> bs_mode b = mode)) (gd_best db) \<and>
    filter (\<lambda>st. \<not> stats_of user mode st) (gd_stats db') = filter (\<lambda>st. \<not> stats_of user mode st) (gd_stats db) \<and>
    db' = db\<lparr>gd_scores := gd_scores db', gd_best := gd_best db', gd_stats := gd_stats db'\<rparr> \<and>
    (dry_run \<longrightarrow> db' = db)"
proof (cases rule: performance_job_cases [OF assms])
  case (2 st scores rows st')
  have scores: "map (\<lambda>s. s\<lparr>sc_pp := 0\<rparr>) scores = map (\<lambda>s. s\<lparr>sc_pp := 0\<rparr>) (gd_scores db) \<and>
      filter (\<lambda>s. \<not> is_mine user mode s) scores = filter (\<lambda>s. \<not> is_mine user mode s) (gd_scores db)"
    by (rule recalc_scores_frame [OF 2(4)]) (simp_all add: selected_score_def is_mine_def apply_pp_core)
  have mine: "filter (\<lambda>b. \<not> (bs_user b = user \<and> bs_mode b = mode)) rows = []"
    using build_best_scores_mine [OF 2(5)] by (auto simp: list_all_iff filter_empty_conv)
  have "stats_of user mode st" using find_SomeD [OF 2(1)] by simp
  then have "stats_of user mode st'" using recalculate_statistics_frame [OF 2(6)] by (simp add: stats_of_def)
  then have "filter (\<lambda>st. \<not> stats_of user mode st) (update_first (stats_of user mode) (\<lambda>_. st') (gd_stats db)) =
      filter (\<lambda>st. \<not> stats_of user mode st) (gd_stats db)"
    by (intro filter_update_first) simp_all
  with scores mine show ?thesis by (simp add: 2)
qed simp

section \<open>Recalculating twice\<close>

lemma retry_loop_answer:
  fixes c c' :: 'c and step :: "nat \<Rightarrow> 'x verdict"
  assumes "retry_loop step upd i k c = Some r"
  shows "\<exists>c''. retry_loop step upd' i k c' = Some (fst r, c'')"
proof -
  define P where "P = (\<lambda>(step :: nat \<Rightarrow> 'x verdict) (upd :: nat \<Rightarrow> 'c \<Rightarrow> 'c) (i :: nat) (k :: nat) (c :: 'c) (r :: 'x option \<times> 'c).
    \<forall>upd' (c' :: 'c). \<exists>c''. retry_loop step upd' i k c' = Some (fst r, c''))"
  have "P step upd i k c r"
  proof (rule retry_loop.raw_induct [of P, OF _ assms], goal_cases)
    case (1 rec step upd i k c r)
    show ?case
      unfolding P_def
    proof (intro allI)
      fix upd' :: "nat \<Rightarrow> 'c \<Rightarrow> 'c" and c' :: 'c
      show "\<exists>c''. retry_loop step upd' i k c' = Some (fst r, c'')"
        using 1(2) by (subst retry_loop_unfold) (auto simp: P_def split: if_splits verdict.splits dest!: 1(1))
    qed
  qed
  then show ?thesis by (simp add: P_def)
qed

lemma pp_turn_pp: "pp_turn cfg validate ranked_tbl (apply_pp x s) a = pp_turn cfg validate ranked_tbl s a"
proof -
  have "pp_gate cfg validate ranked_tbl (apply_pp x s) = pp_gate cfg validate ranked_tbl s"
    by (cases x) (simp_all add: pp_gate_def apply_pp_def fun_eq_iff)
  then show ?thesis by (simp only: pp_turn_def)
qed

lemma recalc_score_pp_again:
  assumes "recalc_score_pp cfg validate ranked_tbl env s c = Some (answer, c1)"
  shows "\<exists>c3. recalc_score_pp cfg validate ranked_tbl env (apply_pp x s) c2 = Some (answer, c3)"
proof -
  let ?turn = "\<lambda>i. pp_turn cfg validate ranked_tbl s (env i)"
  from assms obtain r where run: "retry_loop ?turn (\<lambda>i. pp_turn_cache cfg validate ranked_tbl s (env i)) 0 10 c = Some r"
    and answer: "answer = (case fst r of None \<Rightarrow> No_pp | Some x \<Rightarrow> x)"
    by (auto simp: recalc_score_pp_def)
  obtain c3 where "retry_loop ?turn (\<lambda>i. pp_turn_cache cfg validate ranked_tbl (apply_pp x s) (env i)) 0 10 c2 = Some (fst r, c3)"
    using retry_loop_answer [OF run] by blast
  then show ?thesis by (simp add: recalc_score_pp_def pp_turn_pp answer)
qed

lemma apply_pp_twice: "apply_pp a (apply_pp a s) = apply_pp a s"
  by (simp add: apply_pp_def split: pp_answer.split)

lemma recalc_scores_again:
  assumes "recalc_scores (\<lambda>s. recalc_score_pp cfg validate ranked_tbl (env (sc_id s)) s) (selected_score user mode filt) ss c = Some (Some ss', c1)"
  shows "\<exists>c3. recalc_scores (\<lambda>s. recalc_score_pp cfg validate ranked_tbl (env (sc_id s)) s) (selected_score user mode filt) ss' c2 = Some (Some ss', c3)"
  using assms
proof (induction ss arbitrary: c ss' c2)
  case (Cons s ss)
  let ?run = "\<lambda>s. recalc_score_pp cfg validate ranked_tbl (env (sc_id s)) s" and ?sel = "selected_score user mode filt"
  obtain a c4 where a: "(if ?sel s then ?run s c else Some (No_pp, c)) = Some (a, c4)" "a \<noteq> Raised"
    using Cons.prems by (auto split: option.splits pp_answer.splits if_splits)
  with Cons.prems obtain ss1 where rest: "recalc_scores ?run ?sel ss c4 = Some (Some ss1, c1)" and ss': "ss' = apply_pp a s # ss1"
    by (cases a) auto
  have sel: "?sel (apply_pp a s) = ?sel s" by (simp add: selected_score_def is_mine_def apply_pp_core split: option.split)
  have "\<exists>c5. (if ?sel (apply_pp a s) then ?run (apply_pp a s) c2 else Some (No_pp, c2)) = Some (a, c5)"
  proof (cases "?sel s")
    case True
    with a have "recalc_score_pp cfg validate ranked_tbl (env (sc_id s)) s c = Some (a, c4)" by simp
    from recalc_score_pp_again [OF this] True show ?thesis by (simp only: sel if_True apply_pp_core)
  next
    case False
    with a sel show ?thesis by simp
  qed
  then obtain c5 where again: "(if ?sel (apply_pp a s) then ?run (apply_pp a s) c2 else Some (No_pp, c2)) = Some (a, c5)" by blast
  obtain c6 where "recalc_scores ?run ?sel ss1 c5 = Some (Some ss1, c6)" using Cons.IH [OF rest] by blast
  with again a(2) show ?case
    unfolding ss' recalc_scores.simps by (cases a) (simp_all only: option.case prod.case pp_answer.case, simp_all add: apply_pp_twice)
qed simp

lemma level_commutes:
  "recalculated_score cfg validate ranked_tbl maps s (st\<lparr>level_current := l\<rparr>, best) =
     map_sum id (\<lambda>(st, best). (st\<lparr>level_current := l\<rparr>, best)) (recalculated_score cfg validate ranked_tbl maps s (st, best))"
proof (cases "maps (sc_beatmap s)")
  case (Some bm)
  have play: "recalculated_play cfg s p (st\<lparr>level_current := l\<rparr>) = (recalculated_play cfg s p st)\<lparr>level_current := l\<rparr>" for p
    by (simp add: recalculated_play_def Let_def)
  have grade: "add_grade d r (st\<lparr>level_current := l\<rparr>) = (add_grade d r st)\<lparr>level_current := l\<rparr>" for d r st
    by (simp add: add_grade_def split: rank.split)
  have swap: "st\<lparr>level_current := l, ranked_score := x\<rparr> = st\<lparr>ranked_score := x, level_current := l\<rparr>"
    "st\<lparr>level_current := l, maximum_combo := x\<rparr> = st\<lparr>maximum_combo := x, level_current := l\<rparr>" for st x
    by simp_all
  have best: "recalculated_best cfg s (st\<lparr>level_current := l\<rparr>, best) =
      (\<lambda>(st, best). (st\<lparr>level_current := l\<rparr>, best)) (recalculated_best cfg s (st, best))" for st
    by (auto simp: recalculated_best_def Let_def swap grade split: option.split)
  show ?thesis
  proof (cases "calculate_playtime s (map_length bm)")
    case (Inr p)
    let ?can = "if has_pp (map_status bm) \<or> enable_all_beatmap_pp cfg
      then mods_can_get_pp cfg validate ranked_tbl (mode_int (sc_mode s)) (sc_mods s) else Inr False"
    have eq: "recalculated_score cfg validate ranked_tbl maps s (st, best) = py_bind ?can (\<lambda>ranked. Inr (if ranked \<and> sc_passed s
        then recalculated_best cfg s (recalculated_play cfg s p st, best) else (recalculated_play cfg s p st, best)))" for st
      unfolding recalculated_score_def by (simp only: prod.case Some option.case Inr py_bind_simps Let_def)
    show ?thesis
      unfolding eq play by (cases ?can) (simp_all only: py_bind_simps map_sum.simps id_apply best if_distrib [of "\<lambda>(st, best). (st\<lparr>level_current := l\<rparr>, best)"] prod.case)
  qed (simp add: recalculated_score_def Some)
qed (simp add: recalculated_score_def)

lemma fold_level_commutes:
  "fold_scores (recalculated_score cfg validate ranked_tbl maps) ss (st\<lparr>level_current := l\<rparr>, best) =
     map_sum id (\<lambda>(st, best). (st\<lparr>level_current := l\<rparr>, best))
       (fold_scores (recalculated_score cfg validate ranked_tbl maps) ss (st, best))"
proof (induction ss arbitrary: st best)
  case (Cons s ss)
  show ?case
  proof (cases "recalculated_score cfg validate ranked_tbl maps s (st, best)")
    case (Inr r)
    then show ?thesis using Cons.IH by (cases r) (simp add: level_commutes)
  qed (simp add: level_commutes)
qed simp

lemma recalculate_statistics_again:
  assumes "recalculate_statistics cfg validate ranked_tbl maps best ss st = Inr st'"
  shows "recalculate_statistics cfg validate ranked_tbl maps best ss st' = Inr st'"
proof -
  let ?pp = "calculate_user_pp best (us_user st) (us_mode st)"
  from assms obtain st1 best1 where
    loop: "fold_scores (recalculated_score cfg validate ranked_tbl maps) ss (reset_statistics ?pp st, []) = Inr (st1, best1)"
    and st': "st' = st1\<lparr>level_current := calculate_score_to_level (us_total_score st1)\<rparr>"
    by (auto simp: recalculate_statistics_def py_bind_Inr_iff)
  have same: "us_user st' = us_user st" "us_mode st' = us_mode st" "last_played st' = last_played st"
    using recalculate_statistics_frame [OF assms] by simp_all
  have "reset_statistics ?pp st' = (reset_statistics ?pp st)\<lparr>level_current := level_current st'\<rparr>"
    using same by (cases st; cases st') (simp add: reset_statistics_def)
  then have "fold_scores (recalculated_score cfg validate ranked_tbl maps) ss (reset_statistics ?pp st', []) =
      Inr (st1\<lparr>level_current := level_current st'\<rparr>, best1)"
    by (simp add: fold_level_commutes loop)
  then have "recalculate_statistics cfg validate ranked_tbl maps best ss st' =
      Inr (st1\<lparr>level_current := calculate_score_to_level (us_total_score st1)\<rparr>)"
    unfolding recalculate_statistics_def same by (simp add: st')
  then show ?thesis by (simp only: st')
qed

text \<open>C30: recalculation is idempotent: with the same answers from outside, a second run of a job
  that changed the database changes nothing.\<close>

theorem performance_job_idempotent:
  assumes run: "performance_job cfg validate ranked_tbl False env user mode filt cache db = Some (cache1, db1)"
    and changed: "db1 \<noteq> db"
  shows "\<exists>cache2. performance_job cfg validate ranked_tbl False env user mode filt cache' db1 = Some (cache2, db1)"
proof (cases rule: performance_job_cases [OF run])
  case (2 st scores rows st')
  let ?other = "\<lambda>b. \<not> (bs_user b = user \<and> bs_mode b = mode)"
  obtain c3 where scores: "recalc_scores (\<lambda>s. recalc_score_pp cfg validate ranked_tbl (env (sc_id s)) s)
      (selected_score user mode filt) scores cache' = Some (Some scores, c3)"
    using recalc_scores_again [OF 2(4)] by blast
  have "filter ?other rows = []"
    using build_best_scores_mine [OF 2(5)] by (auto simp: list_all_iff filter_empty_conv)
  then have best: "filter ?other (filter ?other (gd_best db) @ rows) @ rows = filter ?other (gd_best db) @ rows" by simp
  have "stats_of user mode st" using find_SomeD [OF 2(1)] by simp
  then have mine: "stats_of user mode st'" using recalculate_statistics_frame [OF 2(6)] by (simp add: stats_of_def)
  have found: "find (stats_of user mode) (gd_stats db1) = Some st'"
    using 2(1) mine by (simp add: 2(7) find_update_first)
  have rows: "build_best_scores cfg validate ranked_tbl (gd_maps db1) user mode
      (filter sc_passed (filter (is_mine user mode) scores)) = Inr rows" using 2(5) by (simp add: 2(7))
  have gd: "gd_scores db1 = scores" "gd_best db1 = filter ?other (gd_best db) @ rows" "gd_maps db1 = gd_maps db"
    by (simp_all add: 2(7))
  have "performance_job cfg validate ranked_tbl False env user mode filt cache' db1 =
      Some (c3, db1\<lparr>gd_scores := scores, gd_best := gd_best db1,
        gd_stats := update_first (stats_of user mode) (\<lambda>_. st') (gd_stats db1)\<rparr>)"
    using 2(2) unfolding performance_job_def found option.case gd scores prod.case Let_def rows [unfolded gd] sum.case best
      recalculate_statistics_again [OF 2(6)] by simp
  also have "\<dots> = Some (c3, db1)" using gd by (simp add: update_first_same [OF found])
  finally show ?thesis by blast
qed (use changed in simp)

section \<open>A concrete job\<close>

definition job_db :: game_db where
  "job_db = (sample_game RANKED)\<lparr>gd_scores := [first_play], gd_stats := [sample_stats]\<rparr>"

lemma first_gates:
  "pp_gate std_config v r first_play (ranked_map RANKED) = Inr True"
  by (simp add: pp_gate_def ranked_map_def has_pp_def plays_fields no_mods_pp RELAX_AP_MODES_def)

lemma job_answer:
  "recalc_score_pp std_config no_validator DEFAULT_RANKED_MODS (\<lambda>_. answering) first_play None = Some (New_pp 120, None)"
  unfolding recalc_score_pp_def
  by (subst retry_loop_unfold)
    (simp add: pp_turn_def pp_turn_cache_def answering_def first_gates)

lemma job_runs:
  "\<exists>db1. performance_job std_config no_validator DEFAULT_RANKED_MODS False (\<lambda>_ _. answering) 7 OSU None None job_db = Some (None, db1) \<and>
     map sc_pp (gd_scores db1) = [120]"
proof -
  let ?s = "first_play\<lparr>sc_pp := 120\<rparr>"
  have st: "stats_of 7 OSU sample_stats" by (simp add: stats_of_def sample_stats_def)
  have mine: "is_mine 7 OSU first_play" "is_mine 7 OSU ?s" by (simp_all add: is_mine_def first_play_def sample_score_def)
  have sel: "selected_score 7 OSU None first_play" by (simp add: selected_score_def mine plays_fields)
  have fields: "sc_mods ?s = []" "sc_passed ?s" "sc_mode ?s = OSU" "sc_beatmap ?s = 42" "sc_pp ?s = 120"
    by (simp_all add: first_play_def sample_score_def)
  have gd: "gd_scores job_db = [first_play]" "gd_stats job_db = [sample_stats]" "gd_best job_db = []"
    "gd_maps job_db 42 = Some (ranked_map RANKED)"
    by (simp_all add: job_db_def sample_game_def ranked_map_def)
  have scores: "recalc_scores (\<lambda>s. recalc_score_pp std_config no_validator DEFAULT_RANKED_MODS (\<lambda>_. answering) s)
      (selected_score 7 OSU None) [first_play] None = Some (Some [?s], None)"
    by (simp add: sel job_answer apply_pp_def)
  have counts: "counts_for_pp std_config no_validator DEFAULT_RANKED_MODS (gd_maps job_db) ?s = Inr True"
    by (simp only: counts_for_pp_def fields gd option.case if_True if_False not_True_eq_False py_bind_simps no_mods_pp)
      (simp add: ranked_map_def has_pp_def RELAX_AP_MODES_def)
  have rows: "build_best_scores std_config no_validator DEFAULT_RANKED_MODS (gd_maps job_db) 7 OSU [?s] =
      Inr [best_for 7 OSU ?s]"
    unfolding build_best_scores_def fold_counted.simps counts by (simp add: note_best_def)
  have "\<exists>p. calculate_playtime ?s l = Inr p" for l
    by (simp add: calculate_playtime_def get_play_length_def plays_fields get_speed_rate_def) (rule exI [of _ True], simp)
  then obtain p where p: "calculate_playtime ?s (map_length (ranked_map RANKED)) = Inr p" by blast
  have "\<exists>st1 b1. recalculated_score std_config no_validator DEFAULT_RANKED_MODS (gd_maps job_db) ?s a = Inr (st1, b1)" for a
    unfolding recalculated_score_def
    by (cases a) (auto simp only: prod.case fields gd option.case p py_bind_simps Let_def no_mods_pp recalculated_best_def split: if_splits)
  then have step: "\<exists>r. recalculated_score std_config no_validator DEFAULT_RANKED_MODS (gd_maps job_db) ?s a = Inr r" for a
    by (metis surj_pair)
  have "\<exists>st'. recalculate_statistics std_config no_validator DEFAULT_RANKED_MODS (gd_maps job_db) best [?s] sample_stats = Inr st'" for best
  proof -
    obtain r where "recalculated_score std_config no_validator DEFAULT_RANKED_MODS (gd_maps job_db) ?s
        (reset_statistics (calculate_user_pp best (us_user sample_stats) (us_mode sample_stats)) sample_stats, []) = Inr r"
      using step [of "(reset_statistics (calculate_user_pp best (us_user sample_stats) (us_mode sample_stats)) sample_stats, [])"]
      by (elim exE)
    then show ?thesis
      unfolding recalculate_statistics_def fold_scores.simps by (cases r) (simp only: py_bind_simps prod.case, blast)
  qed
  then obtain st' where stats: "recalculate_statistics std_config no_validator DEFAULT_RANKED_MODS (gd_maps job_db)
      [best_for 7 OSU ?s] [?s] sample_stats = Inr st'" by blast
  have "performance_job std_config no_validator DEFAULT_RANKED_MODS False (\<lambda>_ _. answering) 7 OSU None None job_db =
    Some (None, job_db\<lparr>gd_scores := [?s], gd_best := [best_for 7 OSU ?s], gd_stats := [st']\<rparr>)"
    by (simp add: performance_job_def gd st scores mine fields(2) rows stats del: recalc_scores.simps)
  then show ?thesis using fields(5) by simp
qed

lemma performance_job_touches_one_player_witness:
  "\<exists>db1. performance_job std_config no_validator DEFAULT_RANKED_MODS False (\<lambda>_ _. answering) 7 OSU None None job_db = Some (None, db1) \<and>
     map sc_pp (gd_scores db1) = [120] \<and> gd_totals db1 = gd_totals job_db"
proof -
  obtain db1 where run: "performance_job std_config no_validator DEFAULT_RANKED_MODS False (\<lambda>_ _. answering) 7 OSU None None job_db = Some (None, db1)"
    "map sc_pp (gd_scores db1) = [120]" using job_runs by (elim exE conjE)
  from performance_job_touches_one_player [OF run(1)]
  have "db1 = job_db\<lparr>gd_scores := gd_scores db1, gd_best := gd_best db1, gd_stats := gd_stats db1\<rparr>"
    by (elim conjE)
  then have "gd_totals db1 = gd_totals (job_db\<lparr>gd_scores := gd_scores db1, gd_best := gd_best db1, gd_stats := gd_stats db1\<rparr>)"
    by (rule arg_cong)
  then have "gd_totals db1 = gd_totals job_db" by simp
  with run show ?thesis by (intro exI [of _ db1] conjI)
qed

lemma performance_job_idempotent_witness:
  "\<exists>db1 cache2. performance_job std_config no_validator DEFAULT_RANKED_MODS False (\<lambda>_ _. answering) 7 OSU None None job_db = Some (None, db1) \<and>
     db1 \<noteq> job_db \<and>
     performance_job std_config no_validator DEFAULT_RANKED_MODS False (\<lambda>_ _. answering) 7 OSU None None db1 = Some (cache2, db1)"
proof -
  obtain db1 where run: "performance_job std_config no_validator DEFAULT_RANKED_MODS False (\<lambda>_ _. answering) 7 OSU None None job_db = Some (None, db1)"
    "map sc_pp (gd_scores db1) = [120]" using job_runs by (elim exE conjE)
  have "map sc_pp (gd_scores job_db) = [50]" by (simp add: job_db_def plays_fields)
  with run have new: "db1 \<noteq> job_db" by auto
  obtain cache2 where "performance_job std_config no_validator DEFAULT_RANKED_MODS False (\<lambda>_ _. answering) 7 OSU None None db1 = Some (cache2, db1)"
    using performance_job_idempotent [OF run(1) new, of None] by (elim exE)
  with run(1) new show ?thesis by (intro exI [of _ db1] exI [of _ cache2] conjI)
qed

end
