(* ===== verification/PlaylistScores.thy ===== *)
theory PlaylistScores
  imports Processing KeepBest "HOL-Library.Product_Lexorder"
begin

text \<open>
  The rows that playing in rooms keeps: the best score of a player on a playlist item
  (\<^verbatim>\<open>src/app/database/playlist_best_score.py\<close>) and the player's sums for the room
  (\<^verbatim>\<open>src/app/database/item_attempts_count.py\<close>). The table is an instance of the keep-best
  contract of \<open>KeepBest\<close>, with passing first and the total second as the value of a row.
\<close>

section \<open>State\<close>

text \<open>\<^verbatim>\<open>PlaylistBestScore\<close>, and the row of \<^verbatim>\<open>ItemAttemptsCount\<close>. A row names its score by the
  identifier; \<^verbatim>\<open>row.score\<close> looks it up.\<close>

record playlist_best =
  pl_user :: int
  pl_score :: int
  pl_room :: int
  pl_item :: int
  pl_total :: int
  pl_attempts :: int

record attempts_row =
  at_room :: int
  at_user :: int
  at_accuracy :: real
  at_attempts :: int
  at_completed :: int
  at_pp :: real
  at_total :: int

section \<open>The best score of a playlist item\<close>

definition is_row_of :: "int \<Rightarrow> int \<Rightarrow> int \<Rightarrow> playlist_best \<Rightarrow> bool" where
  "is_row_of room item user r \<longleftrightarrow> pl_room r = room \<and> pl_item r = item \<and> pl_user r = user"

text \<open>A pass beats a fail; between two passes or two fails the greater total wins.\<close>

definition should_replace :: "bool \<Rightarrow> bool \<Rightarrow> int \<Rightarrow> int \<Rightarrow> bool" where
  "should_replace prev_passed new_passed prev_total total_score =
     (if \<not> prev_passed \<and> new_passed then True
      else if prev_passed = new_passed \<and> prev_total < total_score then True
      else False)"

definition find_score :: "score_row list \<Rightarrow> int \<Rightarrow> py_error + score_row" where
  "find_score scores sid = (case score_by_id scores sid of None \<Rightarrow> Inl AttributeError | Some s \<Rightarrow> Inr s)"

text \<open>The table part of \<^verbatim>\<open>process_playlist_best_score\<close>.\<close>

definition update_playlist_best ::
  "int \<Rightarrow> int \<Rightarrow> int \<Rightarrow> int \<Rightarrow> int \<Rightarrow> score_row list \<Rightarrow> playlist_best list \<Rightarrow> py_error + playlist_best list" where
  "update_playlist_best room item user sid total_score scores rows =
     (case find (is_row_of room item user) rows of
        None \<Rightarrow> Inr (rows @ [\<lparr>pl_user = user, pl_score = sid, pl_room = room, pl_item = item,
                              pl_total = total_score, pl_attempts = 1\<rparr>])
      | Some previous \<Rightarrow>
          let new_passed = (case score_by_id scores sid of None \<Rightarrow> False | Some s \<Rightarrow> sc_passed s) in
          py_bind (find_score scores (pl_score previous)) (\<lambda>prev.
            let row = (if should_replace (sc_passed prev) new_passed (pl_total previous) total_score
                       then previous\<lparr>pl_score := sid, pl_total := total_score\<rparr> else previous)
            in Inr (update_first (is_row_of room item user)
                      (\<lambda>_. row\<lparr>pl_attempts := pl_attempts row + 1\<rparr>) rows)))"

text \<open>The Redis counter of players still in the game, one less if it exists.\<close>

definition decr_players :: "int \<Rightarrow> (int \<Rightarrow> int option) \<Rightarrow> (int \<Rightarrow> int option)" where
  "decr_players room players =
     (case players room of None \<Rightarrow> players | Some n \<Rightarrow> players(room \<mapsto> n - 1))"

definition process_playlist_best_score ::
  "int \<Rightarrow> int \<Rightarrow> int \<Rightarrow> int \<Rightarrow> int \<Rightarrow> score_row list \<Rightarrow> playlist_best list \<times> (int \<Rightarrow> int option)
     \<Rightarrow> py_error + playlist_best list \<times> (int \<Rightarrow> int option)" where
  "process_playlist_best_score room item user sid total_score scores st =
     py_bind (update_playlist_best room item user sid total_score scores (fst st)) (\<lambda>rows.
       Inr (rows, decr_players room (snd st)))"

text \<open>\<^verbatim>\<open>get_position\<close>: the row number of a score among the rows of its item by falling total.\<close>

definition item_ranking :: "int \<Rightarrow> int \<Rightarrow> playlist_best list \<Rightarrow> playlist_best list" where
  "item_ranking room item rows =
     sort_key (\<lambda>r. - pl_total r) (filter (\<lambda>r. pl_item r = item \<and> pl_room r = room) rows)"

fun row_number :: "('a \<Rightarrow> bool) \<Rightarrow> 'a list \<Rightarrow> nat" where
  "row_number P [] = 0"
| "row_number P (x # xs) = (if P x then 1 else case row_number P xs of 0 \<Rightarrow> 0 | n \<Rightarrow> n + 1)"

definition get_position :: "int \<Rightarrow> int \<Rightarrow> int \<Rightarrow> playlist_best list \<Rightarrow> nat" where
  "get_position room item sid rows = row_number (\<lambda>r. pl_score r = sid) (item_ranking room item rows)"


section \<open>What a room keeps of a player\<close>

definition is_attempts_of :: "int \<Rightarrow> int \<Rightarrow> attempts_row \<Rightarrow> bool" where
  "is_attempts_of room user a \<longleftrightarrow> at_room a = room \<and> at_user a = user"

definition room_rows :: "int \<Rightarrow> int \<Rightarrow> playlist_best list \<Rightarrow> playlist_best list" where
  "room_rows room user rows = filter (\<lambda>r. pl_room r = room \<and> pl_user r = user) rows"

fun row_scores :: "score_row list \<Rightarrow> playlist_best list \<Rightarrow> py_error + score_row list" where
  "row_scores scores [] = Inr []"
| "row_scores scores (r # rs) =
     py_bind (find_score scores (pl_score r)) (\<lambda>s. py_bind (row_scores scores rs) (\<lambda>ss. Inr (s # ss)))"

text \<open>\<^verbatim>\<open>ItemAttemptsCount.update\<close>: the sums over the player's rows of the room, the accuracy averaged
  over the passed ones.\<close>

definition attempts_update :: "score_row list \<Rightarrow> playlist_best list \<Rightarrow> attempts_row \<Rightarrow> py_error + attempts_row" where
  "attempts_update scores rows a =
     (let mine = room_rows (at_room a) (at_user a) rows in
      py_bind (row_scores scores mine) (\<lambda>ss.
        let passed = filter sc_passed ss; completed = int (length passed)
        in Inr (a\<lparr>at_attempts := sum_list (map pl_attempts mine), at_total := sum_list (map pl_total mine),
                  at_pp := sum_list (map sc_pp ss), at_completed := completed,
                  at_accuracy := (if 0 < completed then sum_list (map sc_accuracy passed) / of_int completed else 0)\<rparr>)))"

text \<open>\<^verbatim>\<open>get_or_create\<close>: a missing row is committed before the sums are taken.\<close>

definition attempts_get_or_create ::
  "int \<Rightarrow> int \<Rightarrow> score_row list \<Rightarrow> playlist_best list \<Rightarrow> attempts_row list \<Rightarrow> (py_error + attempts_row) \<times> attempts_row list" where
  "attempts_get_or_create room user scores rows tbl =
     (let fresh = \<lparr>at_room = room, at_user = user, at_accuracy = 0, at_attempts = 0, at_completed = 0, at_pp = 0, at_total = 0\<rparr>;
          (a, tbl) = (case find (is_attempts_of room user) tbl of None \<Rightarrow> (fresh, tbl @ [fresh]) | Some a \<Rightarrow> (a, tbl))
      in case attempts_update scores rows a of
           Inl e \<Rightarrow> (Inl e, tbl)
         | Inr a \<Rightarrow> (Inr a, update_first (is_attempts_of room user) (\<lambda>_. a) tbl))"

text \<open>The place of a player in a room: rows are numbered within each room, but the row is then
  looked up by the player alone. Without an order the answer lists the partitions one after
  the other, by room identifier.\<close>

definition room_ranking :: "int \<Rightarrow> attempts_row list \<Rightarrow> attempts_row list" where
  "room_ranking room tbl = sort_key (\<lambda>a. - at_total a) (filter (\<lambda>a. at_room a = room) tbl)"

definition attempts_position :: "attempts_row list \<Rightarrow> attempts_row \<Rightarrow> nat" where
  "attempts_position tbl self =
     (case filter (\<lambda>n. n \<noteq> 0) (map (\<lambda>room. row_number (\<lambda>a. at_user a = at_user self) (room_ranking room tbl))
             (sort (remdups (map at_room tbl)))) of
        [] \<Rightarrow> 0
      | n # _ \<Rightarrow> n)"

section \<open>The row of a player and item\<close>

text \<open>A finished play: the arguments of \<^verbatim>\<open>process_playlist_best_score\<close>.\<close>

record item_play =
  ip_room :: int
  ip_item :: int
  ip_user :: int
  ip_score :: int
  ip_total :: int

fun submit_plays :: "score_row list \<Rightarrow> item_play list \<Rightarrow> playlist_best list \<Rightarrow> py_error + playlist_best list" where
  "submit_plays scores [] rows = Inr rows"
| "submit_plays scores (p # ps) rows =
     py_bind (update_playlist_best (ip_room p) (ip_item p) (ip_user p) (ip_score p) (ip_total p) scores rows)
       (submit_plays scores ps)"

definition has_passed :: "score_row list \<Rightarrow> int \<Rightarrow> bool" where
  "has_passed scores sid = (case score_by_id scores sid of None \<Rightarrow> False | Some s \<Rightarrow> sc_passed s)"

definition play_key :: "item_play \<Rightarrow> int \<times> int \<times> int" where
  "play_key p = (ip_room p, ip_item p, ip_user p)"

definition play_value :: "score_row list \<Rightarrow> item_play \<Rightarrow> bool \<times> int" where
  "play_value scores p = (has_passed scores (ip_score p), ip_total p)"

definition row_value :: "score_row list \<Rightarrow> playlist_best \<Rightarrow> bool \<times> int" where
  "row_value scores r = (has_passed scores (pl_score r), pl_total r)"

fun rows_at :: "int \<times> int \<times> int \<Rightarrow> playlist_best list \<Rightarrow> playlist_best list" where
  "rows_at (room, item, user) rows = filter (is_row_of room item user) rows"

text \<open>The step without the failing lookup, which every row backed by a score makes equal.\<close>

definition keep_play :: "score_row list \<Rightarrow> item_play \<Rightarrow> playlist_best list \<Rightarrow> playlist_best list" where
  "keep_play scores p rows =
     (let mine = is_row_of (ip_room p) (ip_item p) (ip_user p) in
      if find mine rows = None
      then rows @ [\<lparr>pl_user = ip_user p, pl_score = ip_score p, pl_room = ip_room p, pl_item = ip_item p,
                   pl_total = ip_total p, pl_attempts = 1\<rparr>]
      else update_first mine
             (\<lambda>r. (if row_value scores r < play_value scores p then r\<lparr>pl_score := ip_score p, pl_total := ip_total p\<rparr> else r)
                   \<lparr>pl_attempts := pl_attempts r + 1\<rparr>) rows)"

definition rows_scored :: "score_row list \<Rightarrow> playlist_best list \<Rightarrow> bool" where
  "rows_scored scores rows \<longleftrightarrow> (\<forall>r \<in> set rows. score_by_id scores (pl_score r) \<noteq> None)"

lemma should_replace_iff: "should_replace a b m n \<longleftrightarrow> (a, m) < (b, n)"
  by (auto simp: should_replace_def)

lemma find_set: "find P xs = Some y \<Longrightarrow> y \<in> set xs \<and> P y"
  by (auto simp: find_Some_iff)

lemma update_is_keep:
  assumes "rows_scored scores rows"
  shows "update_playlist_best (ip_room p) (ip_item p) (ip_user p) (ip_score p) (ip_total p) scores rows = Inr (keep_play scores p rows)"
proof (cases "find (is_row_of (ip_room p) (ip_item p) (ip_user p)) rows")
  case None
  then show ?thesis by (simp add: update_playlist_best_def keep_play_def)
next
  case (Some r)
  then obtain s where s: "score_by_id scores (pl_score r) = Some s"
    using assms find_set [OF Some] by (auto simp: rows_scored_def)
  have "update_first (is_row_of (ip_room p) (ip_item p) (ip_user p))
          (\<lambda>_. (if row_value scores r < play_value scores p then r\<lparr>pl_score := ip_score p, pl_total := ip_total p\<rparr> else r)
                   \<lparr>pl_attempts := pl_attempts r + 1\<rparr>) rows = keep_play scores p rows"
    using update_first_const [OF Some, of "\<lambda>r. (if row_value scores r < play_value scores p
        then r\<lparr>pl_score := ip_score p, pl_total := ip_total p\<rparr> else r)\<lparr>pl_attempts := pl_attempts r + 1\<rparr>"]
    by (simp add: keep_play_def Some)
  moreover have "should_replace (sc_passed s) (case score_by_id scores (ip_score p) of None \<Rightarrow> False | Some s \<Rightarrow> sc_passed s)
      (pl_total r) (ip_total p) \<longleftrightarrow> row_value scores r < play_value scores p"
    by (simp add: should_replace_iff row_value_def play_value_def has_passed_def s)
  ultimately show ?thesis
    by (cases "row_value scores r < play_value scores p") (simp_all add: update_playlist_best_def Some find_score_def s)
qed

lemma keep_play_scored:
  "rows_scored scores rows \<Longrightarrow> score_by_id scores (ip_score p) \<noteq> None \<Longrightarrow> rows_scored scores (keep_play scores p rows)"
  by (auto simp: rows_scored_def keep_play_def Let_def dest!: update_first_set split: if_splits)

lemma submit_plays_fold:
  "rows_scored scores rows \<Longrightarrow> list_all (\<lambda>p. score_by_id scores (ip_score p) \<noteq> None) ps \<Longrightarrow>
   submit_plays scores ps rows = Inr (fold (keep_play scores) ps rows)"
  by (induction ps arbitrary: rows) (simp_all add: update_is_keep keep_play_scored del: not_None_eq)

lemma is_row_of_updates [simp]:
  "is_row_of room item user (r\<lparr>pl_score := s\<rparr>) = is_row_of room item user r"
  "is_row_of room item user (r\<lparr>pl_total := t\<rparr>) = is_row_of room item user r"
  "is_row_of room item user (r\<lparr>pl_attempts := n\<rparr>) = is_row_of room item user r"
  by (simp_all add: is_row_of_def)

lemma row_value_updates [simp]:
  "row_value scores (r\<lparr>pl_score := ip_score p, pl_total := ip_total p\<rparr>) = play_value scores p"
  "row_value scores (r\<lparr>pl_attempts := n\<rparr>) = row_value scores r"
  by (simp_all add: row_value_def play_value_def)

lemma keep_play_other:
  "k \<noteq> play_key p \<Longrightarrow> rows_at k (keep_play scores p rows) = rows_at k rows"
proof (cases k)
  case (fields room item user)
  assume k: "k \<noteq> play_key p"
  have other: "is_row_of (ip_room p) (ip_item p) (ip_user p) r \<Longrightarrow> \<not> is_row_of room item user r" for r
    using k fields by (auto simp: is_row_of_def play_key_def)
  then show ?thesis
    by (auto simp: fields keep_play_def Let_def is_row_of_def [of room item user "playlist_best.make _ _ _ _ _ _"] 
        intro!: filter_update_first)
      (use k fields in \<open>auto simp: is_row_of_def play_key_def\<close>)
qed

lemma keep_play_mine:
  "rows_at (play_key p) (keep_play scores p rows) =
     (case rows_at (play_key p) rows of
        [] \<Rightarrow> [\<lparr>pl_user = ip_user p, pl_score = ip_score p, pl_room = ip_room p, pl_item = ip_item p,
                pl_total = ip_total p, pl_attempts = 1\<rparr>]
      | r # rs \<Rightarrow> (if row_value scores r < play_value scores p then r\<lparr>pl_score := ip_score p, pl_total := ip_total p\<rparr> else r)
                   \<lparr>pl_attempts := pl_attempts r + 1\<rparr> # rs)"
proof (cases "rows_at (play_key p) rows")
  case Nil
  then have "find (is_row_of (ip_room p) (ip_item p) (ip_user p)) rows = None"
    by (auto simp: play_key_def find_None_iff filter_empty_conv)
  with Nil show ?thesis by (simp add: keep_play_def play_key_def is_row_of_def)
next
  case (Cons r rs)
  then have "find (is_row_of (ip_room p) (ip_item p) (ip_user p)) rows \<noteq> None"
    by (simp add: play_key_def find_hd_filter)
  with Cons show ?thesis
    by (simp add: keep_play_def play_key_def filter_update_first_hd Let_def del: not_None_eq)
qed

interpretation playlist_table: keep_best rows_at "row_value scores" play_key "play_value scores" "keep_play scores" for scores
proof (unfold_locales, goal_cases)
  case (1 k s t)
  then show ?case by (rule keep_play_other)
next
  case (2 s t)
  then show ?case by (simp add: keep_play_mine row_value_def play_value_def)
next
  case (3 s t r)
  then show ?case
    by (auto simp: keep_play_mine max_def not_less)
qed

lemma attempts_counted:
  "map pl_attempts (rows_at k rows) = [n] \<Longrightarrow>
   map pl_attempts (rows_at k (fold (keep_play scores) ps rows)) = [n + int (length (filter (\<lambda>p. play_key p = k) ps))]"
proof (induction ps arbitrary: rows n)
  case (Cons p ps)
  show ?case
  proof (cases "play_key p = k")
    case True
    with Cons.prems have "map pl_attempts (rows_at k (keep_play scores p rows)) = [n + 1]"
      by (auto simp: keep_play_mine)
    from Cons.IH [OF this] True show ?thesis by simp
  next
    case False
    with Cons keep_play_other [of k p scores rows] show ?thesis by simp
  qed
qed simp

lemma attempts_counted_new:
  "rows_at k rows = [] \<Longrightarrow>
   map pl_attempts (rows_at k (fold (keep_play scores) ps rows)) =
     (case filter (\<lambda>p. play_key p = k) ps of [] \<Rightarrow> [] | qs \<Rightarrow> [int (length qs)])"
proof (induction ps arbitrary: rows)
  case (Cons p ps)
  show ?case
  proof (cases "play_key p = k")
    case True
    with Cons.prems have "map pl_attempts (rows_at k (keep_play scores p rows)) = [1]"
      by (auto simp: keep_play_mine)
    from attempts_counted [OF this] True show ?thesis by simp
  next
    case False
    with Cons keep_play_other [of k p scores rows] show ?thesis by simp
  qed
qed simp

text \<open>C26: whatever the players submit for the items of a room, the table has one row per player
  and item once the player has played it; the row holds the best play, where a pass beats every
  fail and totals decide otherwise, and counts all of the player's plays of the item.\<close>

theorem playlist_row_keeps_best:
  assumes "list_all (\<lambda>p. score_by_id scores (ip_score p) \<noteq> None) ps"
  shows "\<exists>rows. submit_plays scores ps [] = Inr rows \<and>
           map (row_value scores) (filter (is_row_of room item user) rows) =
             (case map (play_value scores) (filter (\<lambda>p. play_key p = (room, item, user)) ps) of
                [] \<Rightarrow> [] | v # vs \<Rightarrow> [Max (set (v # vs))]) \<and>
           map pl_attempts (filter (is_row_of room item user) rows) =
             (case filter (\<lambda>p. play_key p = (room, item, user)) ps of [] \<Rightarrow> [] | qs \<Rightarrow> [int (length qs)])"
proof -
  have "rows_scored scores []" by (simp add: rows_scored_def)
  from submit_plays_fold [OF this assms]
  have run: "submit_plays scores ps [] = Inr (fold (keep_play scores) ps [])" .
  have empty: "rows_at (room, item, user) [] = []" by simp
  from playlist_table.keeps_maximum [OF this, of scores ps] attempts_counted_new [OF this, of scores ps] run
  show ?thesis by (simp only: rows_at.simps foldl_max_Max sum.inject ex_simps simp_thms)
qed

lemma playlist_row_keeps_best_witness:
  "\<exists>rows. submit_plays [sample_score\<lparr>sc_id := 1, sc_passed := False\<rparr>, sample_score\<lparr>sc_id := 2, sc_passed := True\<rparr>]
      [\<lparr>ip_room = 3, ip_item = 0, ip_user = 7, ip_score = 1, ip_total = 900\<rparr>,
       \<lparr>ip_room = 3, ip_item = 0, ip_user = 7, ip_score = 2, ip_total = 500\<rparr>] [] = Inr rows \<and>
     map pl_attempts (filter (is_row_of 3 0 7) rows) = [2]"
  using playlist_row_keeps_best [of "[sample_score\<lparr>sc_id := 1, sc_passed := False\<rparr>, sample_score\<lparr>sc_id := 2, sc_passed := True\<rparr>]"
      "[\<lparr>ip_room = 3, ip_item = 0, ip_user = 7, ip_score = 1, ip_total = 900\<rparr>,
        \<lparr>ip_room = 3, ip_item = 0, ip_user = 7, ip_score = 2, ip_total = 500\<rparr>]" 3 0 7]
  by (auto simp: score_by_id_def play_key_def)

section \<open>Places\<close>

lemma row_number_sorted:
  fixes f :: "'a \<Rightarrow> int"
  assumes "sorted_wrt (\<lambda>a b. f b < f a) xs" and "x \<in> set xs" and "P x" and "\<And>y. y \<in> set xs \<Longrightarrow> P y \<Longrightarrow> y = x"
  shows "row_number P xs = Suc (length (filter (\<lambda>y. f x < f y) xs))"
  using assms
proof (induction xs)
  case (Cons a xs)
  show ?case
  proof (cases "P a")
    case True
    then have "a = x" using Cons.prems(4) by simp
    moreover have "filter (\<lambda>y. f a < f y) xs = []"
      using Cons.prems(1) by (auto simp: filter_empty_conv)
    ultimately show ?thesis using True by simp
  next
    case False
    then have x: "x \<in> set xs" using Cons.prems(2,3) by auto
    have "row_number P xs = Suc (length (filter (\<lambda>y. f x < f y) xs))"
    proof (rule Cons.IH [OF _ x Cons.prems(3)])
      show "sorted_wrt (\<lambda>a b. f b < f a) xs" using Cons.prems(1) by simp
      show "y = x" if "y \<in> set xs" "P y" for y using Cons.prems(4) [of y] that by simp
    qed
    moreover have "f x < f a" using Cons.prems(1) x by simp
    ultimately show ?thesis using False by simp
  qed
qed simp

text \<open>When no two rows of an item have the same total, the position shown with a score is one
  more than the number of rows with a greater total, and 0 for a score without a row. Whether a
  play passed does not matter for the place, although it decides which play a row keeps.\<close>

theorem playlist_position_spec:
  assumes "distinct (map pl_total (filter (\<lambda>r. pl_item r = item \<and> pl_room r = room) rows))"
    and "distinct (map pl_score rows)"
  shows "get_position room item sid rows =
     (case find (\<lambda>r. pl_score r = sid) (filter (\<lambda>r. pl_item r = item \<and> pl_room r = room) rows) of
        None \<Rightarrow> 0
      | Some mine \<Rightarrow> Suc (length (filter (\<lambda>r. pl_item r = item \<and> pl_room r = room \<and> pl_total mine < pl_total r) rows)))"
proof -
  let ?in = "filter (\<lambda>r. pl_item r = item \<and> pl_room r = room) rows"
  have none: "row_number P xs = 0" if "\<forall>x \<in> set xs. \<not> P x" for P :: "playlist_best \<Rightarrow> bool" and xs
    using that by (induction xs) auto
  have set_rank: "set (item_ranking room item rows) = set ?in" by (simp add: item_ranking_def)
  show ?thesis
  proof (cases "find (\<lambda>r. pl_score r = sid) ?in")
    case None
    then have "\<forall>r \<in> set (item_ranking room item rows). pl_score r \<noteq> sid"
      unfolding set_rank by (auto simp: find_None_iff)
    from none [OF this] None show ?thesis by (simp add: get_position_def)
  next
    case (Some mine)
    then have mine: "mine \<in> set ?in" "pl_score mine = sid" by (auto dest: find_set)
    have "sorted (map (\<lambda>r. - pl_total r) (item_ranking room item rows))"
      by (simp add: item_ranking_def)
    moreover have "distinct (map (\<lambda>r. - pl_total r) (item_ranking room item rows))"
    proof -
      have "mset (map (\<lambda>r. - pl_total r) (item_ranking room item rows)) = mset (map uminus (map pl_total ?in))"
        by (simp add: item_ranking_def comp_def)
      moreover have "distinct (map uminus (map pl_total ?in))"
        using assms(1) by (subst distinct_map) (simp add: inj_on_def del: map_map)
      ultimately show ?thesis by (metis mset_eq_imp_distinct_iff)
    qed
    ultimately have "sorted_wrt (<) (map (\<lambda>r. - pl_total r) (item_ranking room item rows))"
      by (simp add: strict_sorted_iff)
    then have sorted: "sorted_wrt (\<lambda>a b. pl_total b < pl_total a) (item_ranking room item rows)"
      by (simp add: sorted_wrt_map)
    have only: "y = mine" if "y \<in> set (item_ranking room item rows)" "pl_score y = sid" for y
    proof -
      have "y \<in> set rows" "mine \<in> set rows" using that(1) mine(1) unfolding set_rank by simp_all
      with assms(2) mine(2) that(2) show ?thesis by (auto simp: distinct_map dest: inj_onD)
    qed
    have "row_number (\<lambda>r. pl_score r = sid) (item_ranking room item rows) =
        Suc (length (filter (\<lambda>y. pl_total mine < pl_total y) (item_ranking room item rows)))"
    proof (rule row_number_sorted [OF sorted])
      show "mine \<in> set (item_ranking room item rows)" using mine(1) by (simp only: set_rank)
    qed (use mine(2) only in simp_all)
    moreover have "length (filter P (item_ranking room item rows)) = length (filter P ?in)" for P
      by (metis item_ranking_def mset_filter mset_sort size_mset)
    ultimately show ?thesis by (simp add: get_position_def Some conj_ac)
  qed
qed


lemma playlist_position_spec_witness:
  "get_position 3 0 2
     [\<lparr>pl_user = 7, pl_score = 1, pl_room = 3, pl_item = 0, pl_total = 900, pl_attempts = 1\<rparr>,
      \<lparr>pl_user = 8, pl_score = 2, pl_room = 3, pl_item = 0, pl_total = 500, pl_attempts = 1\<rparr>] = 2"
  by (subst playlist_position_spec) simp_all

section \<open>Attempts in a room\<close>

lemma find_in_room:
  "is_row_of room item user r \<Longrightarrow> pl_room r = room \<and> pl_user r = user"
  by (simp add: is_row_of_def)

lemma keep_play_attempts:
  "sum_list (map pl_attempts (room_rows room user (keep_play scores p rows))) =
     sum_list (map pl_attempts (room_rows room user rows)) + (if ip_room p = room \<and> ip_user p = user then 1 else 0)"
proof (cases "find (is_row_of (ip_room p) (ip_item p) (ip_user p)) rows = None")
  case True
  then show ?thesis by (simp add: room_rows_def keep_play_def)
next
  case False
  show ?thesis
    unfolding room_rows_def keep_play_def Let_def if_not_P [OF False]
    by (rule sum_update_first [OF False]) (auto simp: is_row_of_def)
qed

lemma plays_attempts:
  "sum_list (map pl_attempts (room_rows room user (fold (keep_play scores) ps rows))) =
     sum_list (map pl_attempts (room_rows room user rows)) +
     int (length (filter (\<lambda>p. ip_room p = room \<and> ip_user p = user) ps))"
  by (induction ps arbitrary: rows) (simp_all add: keep_play_attempts)

lemma attempts_row_sums:
  assumes "attempts_get_or_create room user scores rows tbl = (Inr a, tbl')"
  shows "at_attempts a = sum_list (map pl_attempts (room_rows room user rows)) \<and> is_attempts_of room user a \<and> a \<in> set tbl'"
proof -
  obtain a0 tbl0 where start: "attempts_update scores rows a0 = Inr a" "is_attempts_of room user a0"
    "find (is_attempts_of room user) tbl0 \<noteq> None" "tbl' = update_first (is_attempts_of room user) (\<lambda>_. a) tbl0"
  proof (cases "find (is_attempts_of room user) tbl")
    case None
    let ?fresh = "\<lparr>at_room = room, at_user = user, at_accuracy = 0, at_attempts = 0, at_completed = 0, at_pp = 0, at_total = 0\<rparr>"
    have fresh: "is_attempts_of room user ?fresh" by (simp add: is_attempts_of_def)
    then have "find (is_attempts_of room user) (tbl @ [?fresh]) \<noteq> None" by (auto simp: find_None_iff)
    with assms None fresh show thesis
      by (intro that [of ?fresh "tbl @ [?fresh]"]) (auto simp: attempts_get_or_create_def Let_def split: sum.splits)
  next
    case (Some a1)
    with assms find_set [OF Some] show thesis
      by (intro that [of a1 tbl]) (auto simp: attempts_get_or_create_def Let_def split: sum.splits)
  qed
  from start update_first_there [OF start(3), of a] show ?thesis
    by (auto simp: attempts_update_def Let_def py_bind_Inr_iff is_attempts_of_def)
qed

text \<open>The attempts a room shows for a player are the plays the player has submitted for all of
  its items together, whatever the order of the plays.\<close>

theorem room_attempts_count_plays:
  assumes "list_all (\<lambda>p. score_by_id scores (ip_score p) \<noteq> None) ps"
    and "submit_plays scores ps [] = Inr rows"
    and "attempts_get_or_create room user scores rows tbl = (Inr a, tbl')"
  shows "at_attempts a = int (length (filter (\<lambda>p. ip_room p = room \<and> ip_user p = user) ps))"
proof -
  have rows: "rows = fold (keep_play scores) ps []"
    using submit_plays_fold [OF _ assms(1), of "[]"] assms(2) by (simp add: rows_scored_def)
  show ?thesis
    using attempts_row_sums [OF assms(3)] plays_attempts [of room user scores ps "[]"] by (simp add: rows room_rows_def)
qed

text \<open>The place in a room is looked up without the room.\<close>

lemma room_position_of_another_room:
  "attempts_position
     [\<lparr>at_room = 1, at_user = 7, at_accuracy = 1, at_attempts = 1, at_completed = 1, at_pp = 0, at_total = 900\<rparr>,
      \<lparr>at_room = 2, at_user = 8, at_accuracy = 1, at_attempts = 1, at_completed = 1, at_pp = 0, at_total = 800\<rparr>,
      \<lparr>at_room = 2, at_user = 7, at_accuracy = 1, at_attempts = 1, at_completed = 1, at_pp = 0, at_total = 700\<rparr>]
     \<lparr>at_room = 2, at_user = 7, at_accuracy = 1, at_attempts = 1, at_completed = 1, at_pp = 0, at_total = 700\<rparr> = 1"
  by (simp add: attempts_position_def room_ranking_def)

end
