(* ===== verification/Weeks.thy ===== *)
theory Weeks
  imports Calendar "HOL-Library.Product_Lexorder"
begin

text \<open>
  The days of a year and the ISO weeks, as \<^verbatim>\<open>datetime.isocalendar\<close> counts them, and the two
  comparisons of weeks of \<^verbatim>\<open>src/app/utils.py\<close>. The theorems show that these comparisons, which
  look at year and week numbers, are the same as counting weeks without years.
\<close>

section \<open>Years\<close>

definition year_of :: "day \<Rightarrow> nat" where
  "year_of n = fst (civil n)"

definition month_offset :: "nat \<Rightarrow> nat \<Rightarrow> nat" where
  "month_offset y m = sum_list (map (days_in_month y) [1..<m])"

definition day_of_year :: "day \<Rightarrow> nat" where
  "day_of_year n = (case civil n of (y, m, d) \<Rightarrow> month_offset y m + d)"

definition year_days :: "nat \<Rightarrow> nat" where
  "year_days y = month_offset y 13"

lemma month_offset_Suc: "1 \<le> m \<Longrightarrow> month_offset y (Suc m) = month_offset y m + days_in_month y m"
  by (simp add: month_offset_def)

lemma month_offset_mono: "m \<le> m' \<Longrightarrow> month_offset y m \<le> month_offset y m'"
proof (rule lift_Suc_mono_le [of "month_offset y"])
  show "month_offset y k \<le> month_offset y (Suc k)" for k by (simp add: month_offset_def)
qed

lemma year_days: "year_days y = (if leap_year y then 366 else 365)"
  by (simp add: year_days_def month_offset_def upt_rec days_in_month_def)

lemma next_year_day:
  "year_of (Suc n) = (if day_of_year n = year_days (year_of n) then Suc (year_of n) else year_of n) \<and>
   day_of_year (Suc n) = (if day_of_year n = year_days (year_of n) then 1 else Suc (day_of_year n))"
proof -
  obtain y m d where c: "civil n = (y, m, d)" by (cases "civil n")
  then have v: "1 \<le> m" "m \<le> 12" "1 \<le> d" "d \<le> days_in_month y m" using civil_valid [of n] by simp_all
  have total: "month_offset y (Suc m) \<le> year_days y"
    unfolding year_days_def using v(2) by (intro month_offset_mono) simp
  have last: "year_days y = month_offset y 12 + 31"
    using month_offset_Suc [of 12 y] by (simp add: year_days_def days_in_month_def)
  consider "d < days_in_month y m" | "d = days_in_month y m" "m < 12" | "m = 12" "d = 31"
  proof (cases "d < days_in_month y m")
    case False
    with v(4) have "d = days_in_month y m" by simp
    moreover from this have "m = 12 \<Longrightarrow> d = 31" by (simp add: days_in_month_def)
    ultimately show thesis using that(2,3) v(2) by (cases "m < 12") auto
  qed (rule that(1))
  then show ?thesis
  proof cases
    case 1
    then have "month_offset y m + d \<noteq> year_days y" using total month_offset_Suc [OF v(1), of y] by simp
    with 1 c show ?thesis by (simp add: year_of_def day_of_year_def)
  next
    case 2
    have "month_offset y (Suc (Suc m)) \<le> year_days y"
      unfolding year_days_def using 2(2) by (intro month_offset_mono) simp
    then have "month_offset y m + d \<noteq> year_days y"
      using 2 month_offset_Suc [OF v(1), of y] month_offset_Suc [of "Suc m" y] days_in_month_le(2) [of y "Suc m"] by simp
    with 2 c v month_offset_Suc [OF v(1), of y] show ?thesis by (simp add: year_of_def day_of_year_def)
  next
    case 3
    with c last show ?thesis by (simp add: year_of_def day_of_year_def days_in_month_def month_offset_def)
  qed
qed

lemma day_of_year_range: "1 \<le> day_of_year n \<and> day_of_year n \<le> year_days (year_of n)"
proof (induction n)
  case 0
  show ?case by (simp add: day_of_year_def year_of_def month_offset_def year_days)
next
  case (Suc n)
  then show ?case using next_year_day [of n] by (auto simp: year_days)
qed

lemma same_year: "day_of_year n + k \<le> year_days (year_of n) \<Longrightarrow>
   year_of (n + k) = year_of n \<and> day_of_year (n + k) = day_of_year n + k"
proof (induction k)
  case (Suc k)
  then have "year_of (n + k) = year_of n" "day_of_year (n + k) = day_of_year n + k" by simp_all
  with next_year_day [of "n + k"] Suc.prems show ?case by simp
qed simp

lemma following_year:
  assumes "year_days (year_of n) < day_of_year n + k" and "k \<le> 365"
  shows "year_of (n + k) = Suc (year_of n) \<and> day_of_year (n + k) = day_of_year n + k - year_days (year_of n)"
proof -
  let ?j = "year_days (year_of n) - day_of_year n"
  have range: "1 \<le> day_of_year n" "day_of_year n \<le> year_days (year_of n)" using day_of_year_range by auto
  have "year_of (n + ?j) = year_of n" "day_of_year (n + ?j) = year_days (year_of n)"
    using same_year [of n ?j] range by simp_all
  then have jan1: "year_of (n + Suc ?j) = Suc (year_of n)" "day_of_year (n + Suc ?j) = 1"
    using next_year_day [of "n + ?j"] by simp_all
  have k: "n + k = n + Suc ?j + (k - Suc ?j)" using assms range by simp
  have "?j + 1 \<le> k" using assms range by simp
  then have "1 + (k - Suc ?j) \<le> year_days (Suc (year_of n))"
    using assms(2) year_days [of "Suc (year_of n)"] by (simp split: if_splits)
  then have "year_of (n + k) = Suc (year_of n)" "day_of_year (n + k) = 1 + (k - Suc ?j)"
    using same_year [of "n + Suc ?j" "k - Suc ?j"] jan1 unfolding k by simp_all
  then show ?thesis using assms range by simp
qed

lemma year_of_mono: "m \<le> n \<Longrightarrow> year_of m \<le> year_of n"
proof (rule lift_Suc_mono_le [of year_of])
  show "year_of n \<le> year_of (Suc n)" for n using next_year_day [of n] by simp
qed

lemma same_year_distance:
  assumes "m \<le> n" and "year_of m = year_of n"
  shows "day_of_year n = day_of_year m + (n - m)"
  using assms
proof (induction "n - m" arbitrary: n)
  case 0
  then show ?case by simp
next
  case (Suc k)
  then obtain n' where n: "n = Suc n'" "m \<le> n'" by (cases n) auto
  have "year_of n' = year_of m"
    using year_of_mono [OF n(2)] year_of_mono [of n' n] Suc.prems n by simp
  with Suc n have "day_of_year n' = day_of_year m + (n' - m)" by simp
  with next_year_day [of n'] \<open>year_of n' = year_of m\<close> Suc.prems n show ?case by (auto split: if_splits)
qed

section \<open>ISO weeks\<close>

text \<open>Weeks run from Monday to Sunday; 1 January 1970 was a Thursday. A week has the year its
  Thursday falls in, and is numbered by the place of that Thursday among the Thursdays of the
  year (\<^verbatim>\<open>datetime.isocalendar\<close>).\<close>

definition week_index :: "day \<Rightarrow> nat" where
  "week_index n = (n + 3) div 7"

definition iso_week :: "nat \<Rightarrow> nat \<times> nat" where
  "iso_week i = (year_of (7 * i), (day_of_year (7 * i) - 1) div 7 + 1)"

definition isocalendar :: "day \<Rightarrow> nat \<times> nat" where
  "isocalendar n = iso_week (week_index n)"

text \<open>\<^verbatim>\<open>datetime(y, m, d)\<close> for years from 1970 on.\<close>

definition day_number :: "nat \<Rightarrow> nat \<Rightarrow> nat \<Rightarrow> day" where
  "day_number y m d = sum_list (map year_days [1970..<y]) + month_offset y m + d - 1"

definition are_same_weeks :: "day \<Rightarrow> day \<Rightarrow> bool" where
  "are_same_weeks a b \<longleftrightarrow> isocalendar a = isocalendar b"

definition are_adjacent_weeks :: "day \<Rightarrow> day \<Rightarrow> bool" where
  "are_adjacent_weeks a b =
     (let (y1, w1) = min (isocalendar a) (isocalendar b);
          (y2, w2) = max (isocalendar a) (isocalendar b)
      in if y1 = y2 \<and> int w2 - int w1 = 1 then True
         else if y2 = y1 + 1 \<and> w2 = 1 then w1 = snd (isocalendar (day_number y1 12 28))
         else False)"

lemma iso_week_Suc:
  "iso_week (Suc i) =
     (if day_of_year (7 * i) + 7 \<le> year_days (year_of (7 * i)) then (fst (iso_week i), Suc (snd (iso_week i)))
      else (Suc (fst (iso_week i)), 1))"
proof (cases "day_of_year (7 * i) + 7 \<le> year_days (year_of (7 * i))")
  case True
  from same_year [OF this] day_of_year_range [of "7 * i"]
  have "year_of (7 * Suc i) = year_of (7 * i)" "day_of_year (7 * Suc i) = day_of_year (7 * i) + 7"
    by (simp_all add: add.commute)
  moreover have "(day_of_year (7 * i) + 7 - 1) div 7 = Suc ((day_of_year (7 * i) - 1) div 7)"
  proof -
    have "day_of_year (7 * i) + 7 - 1 = (day_of_year (7 * i) - 1) + 7" using day_of_year_range [of "7 * i"] by simp
    then show ?thesis by simp
  qed
  ultimately show ?thesis using True by (simp add: iso_week_def)
next
  case False
  then have "year_of (7 * i + 7) = Suc (year_of (7 * i)) \<and> day_of_year (7 * i + 7) = day_of_year (7 * i) + 7 - year_days (year_of (7 * i))"
    by (intro following_year) simp_all
  moreover have "(day_of_year (7 * i) + 7 - year_days (year_of (7 * i)) - 1) div 7 = 0"
    using day_of_year_range [of "7 * i"] by auto
  ultimately show ?thesis using False by (simp add: iso_week_def add.commute)
qed

lemma iso_week_less: "i < j \<Longrightarrow> iso_week i < iso_week j"
proof (rule lift_Suc_mono_less [of iso_week])
  show "iso_week k < iso_week (Suc k)" for k
    unfolding iso_week_Suc by (cases "iso_week k") simp
qed

lemma iso_week_inj: "iso_week i = iso_week j \<longleftrightarrow> i = j"
  by (metis iso_week_less linorder_neqE_nat less_irrefl)

lemma new_year: "year_of (day_number (1970 + k) 1 1) = 1970 + k \<and> day_of_year (day_number (1970 + k) 1 1) = 1"
proof (induction k)
  case 0
  show ?case by (simp add: day_number_def month_offset_def year_of_def day_of_year_def)
next
  case (Suc k)
  let ?n = "day_number (1970 + k) 1 1"
  have pos: "1 \<le> year_days (1970 + k)" by (simp add: year_days)
  have "year_of (?n + (year_days (1970 + k) - 1)) = 1970 + k"
    "day_of_year (?n + (year_days (1970 + k) - 1)) = year_days (1970 + k)"
    using same_year [of ?n "year_days (1970 + k) - 1"] Suc pos by simp_all
  moreover have "Suc (?n + (year_days (1970 + k) - 1)) = day_number (1970 + Suc k) 1 1"
    using pos by (simp add: day_number_def month_offset_def upt_Suc_append [of 1970 "1970 + k", simplified])
  ultimately show ?case using next_year_day [of "?n + (year_days (1970 + k) - 1)"] by simp
qed

lemma december_28:
  assumes "1970 \<le> y"
  shows "year_of (day_number y 12 28) = y" and "day_of_year (day_number y 12 28) = year_days y - 3"
proof -
  obtain k where k: "y = 1970 + k" using assms le_Suc_ex by blast
  have off: "year_days y = month_offset y 12 + 31"
    using month_offset_Suc [of 12 y] by (simp add: year_days_def days_in_month_def)
  have "month_offset y 1 = 0" by (simp add: month_offset_def)
  then have "day_number y 12 28 = day_number y 1 1 + (month_offset y 12 + 27)"
    by (simp add: day_number_def)
  with same_year [of "day_number y 1 1" "month_offset y 12 + 27"] new_year [of k] off k
  show "year_of (day_number y 12 28) = y" "day_of_year (day_number y 12 28) = year_days y - 3"
    by simp_all
qed

lemma same_year_index:
  assumes "year_of a = year_of b" and "day_of_year a \<le> day_of_year b + 3" and "day_of_year b \<le> day_of_year a + 3"
  shows "a \<le> b + 3 \<and> b \<le> a + 3"
proof (cases "a \<le> b")
  case True
  with same_year_distance [OF this assms(1)] assms(3) show ?thesis by simp
next
  case False
  with same_year_distance [of b a] assms show ?thesis by simp
qed

lemma before_in_year:
  assumes "t \<le> d" and "d \<le> t + 3" and "3 < day_of_year d"
  shows "year_of t = year_of d \<and> day_of_year d \<le> day_of_year t + 3"
proof -
  obtain k where d: "d = t + k" using assms(1) le_Suc_ex by blast
  show ?thesis
  proof (cases "day_of_year t + k \<le> year_days (year_of t)")
    case True
    from same_year [OF this] d assms(2) show ?thesis by simp
  next
    case False
    with following_year [of t k] d assms(2,3) day_of_year_range [of t] show ?thesis by auto
  qed
qed

text \<open>The last week of a year is the one its 28 December lies in.\<close>

lemma last_week:
  "year_days (year_of (7 * i)) < day_of_year (7 * i) + 7 \<longleftrightarrow> week_index (day_number (year_of (7 * i)) 12 28) = i"
proof -
  let ?y = "year_of (7 * i)" and ?d = "day_number (year_of (7 * i)) 12 28"
  have y: "1970 \<le> ?y" using year_of_mono [of 0 "7 * i"] by (simp add: year_of_def)
  note dec = december_28 [OF y]
  have yd: "365 \<le> year_days ?y" by (simp add: year_days)
  show ?thesis
  proof
    assume late: "year_days ?y < day_of_year (7 * i) + 7"
    have "7 * i \<le> ?d + 3 \<and> ?d \<le> 7 * i + 3"
      using late dec day_of_year_range [of "7 * i"] yd by (intro same_year_index) simp_all
    then have "i * 7 \<le> ?d + 3" "?d + 3 < Suc i * 7" by simp_all
    then show "week_index ?d = i" unfolding week_index_def by (rule div_nat_eqI [of 7, unfolded mult.commute [of 7]])
  next
    assume "week_index ?d = i"
    then have near: "7 * i \<le> ?d + 3" "?d \<le> 7 * i + 3" by (auto simp: week_index_def)
    show "year_days ?y < day_of_year (7 * i) + 7"
    proof (cases "7 * i \<le> ?d")
      case True
      from same_year_distance [OF this] dec near yd show ?thesis by simp
    next
      case False
      from same_year_distance [of ?d "7 * i"] False dec near yd show ?thesis by simp
    qed
  qed
qed

lemma next_week_iff:
  assumes "i \<le> j"
  shows "(fst (iso_week i) = fst (iso_week j) \<and> int (snd (iso_week j)) - int (snd (iso_week i)) = 1 \<or>
          fst (iso_week j) = fst (iso_week i) + 1 \<and> snd (iso_week j) = 1 \<and>
          snd (iso_week i) = snd (isocalendar (day_number (fst (iso_week i)) 12 28))) \<longleftrightarrow> j = Suc i"
    (is "?same \<or> ?next \<longleftrightarrow> _")
proof -
  let ?y = "year_of (7 * i)" and ?d = "day_number (year_of (7 * i)) 12 28"
  have y: "fst (iso_week i) = ?y" by (simp add: iso_week_def)
  have in_year: "fst (isocalendar ?d) = ?y \<and> year_days ?y < day_of_year (7 * week_index ?d) + 7"
  proof -
    let ?t = "7 * week_index ?d"
    have "1970 \<le> ?y" using year_of_mono [of 0 "7 * i"] by (simp add: year_of_def)
    note dec = december_28 [OF this]
    have yd: "365 \<le> year_days ?y" by (simp add: year_days)
    have near: "?t \<le> ?d + 3" "?d \<le> ?t + 3" by (simp_all add: week_index_def)
    have "year_of ?t = ?y \<and> day_of_year ?d \<le> day_of_year ?t + 3"
    proof (cases "?d \<le> ?t")
      case True
      with same_year [of ?d "?t - ?d"] near dec yd show ?thesis by simp
    next
      case False
      with before_in_year [of ?t ?d] near dec yd show ?thesis by simp
    qed
    with dec yd show ?thesis by (auto simp: isocalendar_def iso_week_def)
  qed
  show ?thesis
  proof
    assume "j = Suc i"
    then show "?same \<or> ?next"
      using iso_week_Suc [of i] last_week [of i] y by (auto simp: isocalendar_def not_le)
  next
    assume "?same \<or> ?next"
    then show "j = Suc i"
    proof
      assume ?same
      then have "iso_week j = (fst (iso_week i), Suc (snd (iso_week i)))" by (simp add: prod_eq_iff)
      then have "iso_week j \<le> iso_week (Suc i)" unfolding iso_week_Suc by simp
      moreover have "i \<noteq> j" using \<open>?same\<close> by auto
      ultimately show ?thesis using assms iso_week_less [of "Suc i" j] by (metis Suc_lessI le_neq_implies_less leD)
    next
      assume n: ?next
      then have "iso_week i = isocalendar ?d" using in_year y by (simp add: prod_eq_iff)
      then have "week_index ?d = i" by (simp add: isocalendar_def iso_week_inj)
      then have "iso_week (Suc i) = iso_week j"
        using n last_week [of i] iso_week_Suc [of i] by (simp add: prod_eq_iff)
      then show ?thesis by (simp add: iso_week_inj)
    qed
  qed
qed

lemma iso_week_le: "iso_week i \<le> iso_week j \<longleftrightarrow> i \<le> j"
  by (metis iso_week_less leD leI order_less_imp_le order_refl le_neq_implies_less)

theorem adjacent_weeks_iff:
  "are_adjacent_weeks a b \<longleftrightarrow> week_index a = Suc (week_index b) \<or> week_index b = Suc (week_index a)"
proof (cases "week_index a \<le> week_index b")
  case True
  then have "are_adjacent_weeks a b \<longleftrightarrow> week_index b = Suc (week_index a)"
    unfolding next_week_iff [OF True, symmetric]
    by (auto simp: are_adjacent_weeks_def isocalendar_def min_def max_def iso_week_le split: prod.splits)
  with True show ?thesis by auto
next
  case False
  then have le: "week_index b \<le> week_index a" by simp
  with False have "are_adjacent_weeks a b \<longleftrightarrow> week_index a = Suc (week_index b)"
    unfolding next_week_iff [OF le, symmetric]
    by (auto simp: are_adjacent_weeks_def isocalendar_def min_def max_def iso_week_le split: prod.splits)
  with False show ?thesis by auto
qed

theorem same_weeks_iff: "are_same_weeks a b \<longleftrightarrow> week_index a = week_index b"
  by (simp add: are_same_weeks_def isocalendar_def iso_week_inj)

end
