(* ===== verification/DailyChallenge.thy ===== *)
theory DailyChallenge
  imports PlaylistScores Weeks Points
begin

text \<open>
  The daily challenge: what a completed challenge and the closing of its room do to a player's
  statistics (\<^verbatim>\<open>src/app/database/daily_challenge.py\<close>, \<^verbatim>\<open>process_daily_challenge_top\<close> of
  \<^verbatim>\<open>src/app/tasks/daily_challenge.py\<close>). The theorems compare the counters with reference
  definitions: the length of the last run of challenges, and of the run of ISO weeks.
\<close>

section \<open>State\<close>

text \<open>\<^verbatim>\<open>DailyChallengeStats\<close>.\<close>

record daily_stats =
  daily_streak_best :: int
  daily_streak_current :: int
  last_update :: "moment option"
  last_day_streak :: "moment option"
  last_weekly_streak :: "moment option"
  ds_playcount :: int
  top_10p_placements :: int
  top_50p_placements :: int
  weekly_streak_best :: int
  weekly_streak_current :: int

definition new_daily_stats :: daily_stats where
  "new_daily_stats =
     \<lparr>daily_streak_best = 0, daily_streak_current = 0, last_update = None, last_day_streak = None,
      last_weekly_streak = None, ds_playcount = 0, top_10p_placements = 0, top_50p_placements = 0,
      weekly_streak_best = 0, weekly_streak_current = 0\<rparr>"

datatype room_category = NORMAL | SPOTLIGHT | FEATURED_ARTIST | DAILY_CHALLENGE_ROOM | REALTIME

text \<open>The columns of \<^verbatim>\<open>Room\<close> and \<^verbatim>\<open>Playlist\<close> that playing in rooms reads.\<close>

record room =
  rm_id :: int
  rm_category :: room_category
  rm_ends_at :: "moment option"
  rm_max_attempts :: "int option"

record playlist_item =
  it_id :: int
  it_room :: int
  it_ruleset :: int
  it_beatmap :: int
  it_freestyle :: bool
  it_expired :: bool
  it_played_at :: "moment option"

text \<open>The statistics rows by player, and two groups of Redis keys: the rooms already closed and
  the days on which no streak is cut. The first kind expires after 30 days, long after its room
  has stopped being a candidate.\<close>

record daily_db =
  dd_stats :: "int \<Rightarrow> daily_stats option"
  dd_closed :: "int list"
  dd_frozen :: "day list"

section \<open>A finished daily challenge\<close>

definition date_is :: "moment option \<Rightarrow> day \<Rightarrow> bool" where
  "date_is t d \<longleftrightarrow> (case t of None \<Rightarrow> False | Some t \<Rightarrow> date_of t = d)"

definition count_day :: "moment \<Rightarrow> daily_stats \<Rightarrow> daily_stats" where
  "count_day now st =
     (let st = st\<lparr>ds_playcount := ds_playcount st + 1\<rparr> in
      case last_day_streak st of
        None \<Rightarrow> st\<lparr>daily_streak_best := 1, daily_streak_current := 1\<rparr>
      | Some before \<Rightarrow>
          if date_of before = date_of now then st\<lparr>ds_playcount := ds_playcount st - 1\<rparr>
          else
            let st = st\<lparr>daily_streak_current := daily_streak_current st + 1\<rparr>
            in if daily_streak_current st > daily_streak_best st
               then st\<lparr>daily_streak_best := daily_streak_current st\<rparr> else st)"

definition count_week :: "moment \<Rightarrow> daily_stats \<Rightarrow> daily_stats" where
  "count_week now st =
     (case last_weekly_streak st of
        None \<Rightarrow> st\<lparr>weekly_streak_current := 1, weekly_streak_best := 1\<rparr>
      | Some before \<Rightarrow>
          if are_same_weeks (date_of before) (date_of now) then st
          else if are_adjacent_weeks (date_of before) (date_of now) then
            let st = st\<lparr>weekly_streak_current := weekly_streak_current st + 1\<rparr>
            in if weekly_streak_current st > weekly_streak_best st
               then st\<lparr>weekly_streak_best := weekly_streak_current st\<rparr> else st
          else st\<lparr>weekly_streak_current := 1\<rparr>)"

definition count_daily_play :: "moment \<Rightarrow> daily_stats \<Rightarrow> daily_stats" where
  "count_daily_play now st =
     (count_week now (count_day now st))
       \<lparr>last_update := Some now, last_day_streak := Some now, last_weekly_streak := Some now\<rparr>"

definition POINTS_DAILY_CHALLENGE :: int where "POINTS_DAILY_CHALLENGE = 30"

definition daily_challenge_key :: "int \<Rightarrow> day \<Rightarrow> string" where
  "daily_challenge_key user d = ''daily_challenge:'' @ int_str user @ '':'' @ isoformat d"

text \<open>\<^verbatim>\<open>process_daily_challenge_score\<close>: nothing happens unless the player's row of item 0 of the
  room points at a passed score.\<close>

definition process_daily_challenge_score ::
  "moment \<Rightarrow> int \<Rightarrow> int \<Rightarrow> score_row list \<Rightarrow> playlist_best list \<Rightarrow> daily_db \<times> points_db
     \<Rightarrow> py_error + daily_db \<times> points_db" where
  "process_daily_challenge_score now user room scores rows st =
     (case find (is_row_of room 0 user) rows of
        None \<Rightarrow> Inr st
      | Some row \<Rightarrow>
          py_bind (find_score scores (pl_score row)) (\<lambda>score.
            if \<not> sc_passed score then Inr st
            else
              let (db, points) = st;
                  stats = (case dd_stats db user of None \<Rightarrow> new_daily_stats | Some s \<Rightarrow> s)
              in Inr (db\<lparr>dd_stats := (dd_stats db)(user \<mapsto> count_daily_play now stats)\<rparr>,
                      snd (award now user POINTS_DAILY_CHALLENGE (reason_value DAILY_CHALLENGE) (Some (int_str room))
                             (Some (daily_challenge_key user (date_of now))) points))))"

section \<open>Closing a daily challenge\<close>

text \<open>The room to close: of the daily rooms that ended in the last 24 hours, the latest whose last
  day is over.\<close>

definition room_to_close :: "moment \<Rightarrow> room list \<Rightarrow> room option" where
  "room_to_close now rooms =
     find (\<lambda>r. case rm_ends_at r of None \<Rightarrow> False | Some e \<Rightarrow> date_of e < date_of now)
       (sort_key (\<lambda>r. - int (case rm_ends_at r of None \<Rightarrow> 0 | Some e \<Rightarrow> e))
         (filter (\<lambda>r. rm_category r = DAILY_CHALLENGE_ROOM \<and>
                      (case rm_ends_at r of None \<Rightarrow> False | Some e \<Rightarrow> now < e + day_seconds \<and> e < now)) rooms))"

definition passed_rows :: "int \<Rightarrow> score_row list \<Rightarrow> playlist_best list \<Rightarrow> playlist_best list" where
  "passed_rows room scores rows =
     sort_key (\<lambda>r. - pl_total r)
       (filter (\<lambda>r. pl_room r = room \<and> pl_item r = 0 \<and> has_passed scores (pl_score r)) rows)"

definition placement :: "moment \<Rightarrow> nat \<Rightarrow> nat \<Rightarrow> daily_stats \<Rightarrow> daily_stats" where
  "placement now field i st =
     (let rank = int i + 1;
          st = (if \<not> date_is (last_update st) (date_of now) then
                  let st = (if rank \<le> \<lceil>real field * 0.1\<rceil> then st\<lparr>top_10p_placements := top_10p_placements st + 1\<rparr> else st)
                  in if rank \<le> \<lceil>real field * 0.5\<rceil> then st\<lparr>top_50p_placements := top_50p_placements st + 1\<rparr> else st
                else st)
      in st\<lparr>last_update := Some now\<rparr>)"

fun close_participants ::
  "moment \<Rightarrow> nat \<Rightarrow> nat \<Rightarrow> playlist_best list \<Rightarrow> (int \<Rightarrow> daily_stats option) \<times> int list
     \<Rightarrow> (int \<Rightarrow> daily_stats option) \<times> int list" where
  "close_participants now field i [] acc = acc"
| "close_participants now field i (r # rs) (stats, participated) =
     (case stats (pl_user r) of
        None \<Rightarrow> close_participants now field (i + 1) rs (stats, participated)
      | Some st \<Rightarrow>
          close_participants now field (i + 1) rs
            (stats(pl_user r \<mapsto> placement now field i st), participated @ [pl_user r]))"

definition close_absent :: "moment \<Rightarrow> day \<Rightarrow> daily_stats \<Rightarrow> daily_stats" where
  "close_absent now room_day st =
     (if (case last_day_streak st of None \<Rightarrow> False | Some t \<Rightarrow> room_day < date_of t) then
        (let st = st\<lparr>daily_streak_current := 1\<rparr>;
             st = (if daily_streak_best st < 1 then st\<lparr>daily_streak_best := 1\<rparr> else st)
         in st\<lparr>last_update := Some now\<rparr>)
      else
        (let st = st\<lparr>daily_streak_current := 0\<rparr>;
             st = (case last_weekly_streak st of
                     None \<Rightarrow> st
                   | Some t \<Rightarrow>
                       if are_same_weeks (date_of t) (date_of now) \<or> are_same_weeks (date_of t) (date_of now - 7) then st
                       else st\<lparr>weekly_streak_current := 0\<rparr>)
         in st\<lparr>last_update := Some now\<rparr>))"

definition close_absents :: "moment \<Rightarrow> day \<Rightarrow> int list \<Rightarrow> (int \<Rightarrow> daily_stats option) \<Rightarrow> (int \<Rightarrow> daily_stats option)" where
  "close_absents now room_day users stats =
     fold (\<lambda>u stats. case stats u of None \<Rightarrow> stats | Some st \<Rightarrow> stats(u \<mapsto> close_absent now room_day st)) users stats"

definition process_daily_challenge_top ::
  "moment \<Rightarrow> room list \<Rightarrow> int list \<Rightarrow> score_row list \<Rightarrow> playlist_best list \<Rightarrow> daily_db \<Rightarrow> daily_db" where
  "process_daily_challenge_top now rooms users scores rows db =
     (case room_to_close now rooms of
        None \<Rightarrow> db
      | Some room \<Rightarrow>
          if rm_id room \<in> set (dd_closed db) then db
          else
            let db = db\<lparr>dd_closed := rm_id room # dd_closed db\<rparr>;
                room_day = (case rm_ends_at room of None \<Rightarrow> 0 | Some e \<Rightarrow> date_of e);
                passed = passed_rows (rm_id room) scores rows;
                (stats, participated) = close_participants now (length passed) 0 passed (dd_stats db, [])
            in if room_day \<in> set (dd_frozen db) then db\<lparr>dd_stats := stats\<rparr>
               else db\<lparr>dd_stats := close_absents now room_day (filter (\<lambda>u. u \<notin> set participated) users) stats\<rparr>)"

section \<open>The counters agree\<close>

definition stats_ok :: "daily_stats \<Rightarrow> bool" where
  "stats_ok st \<longleftrightarrow>
     0 \<le> daily_streak_current st \<and> daily_streak_current st \<le> daily_streak_best st \<and>
     0 \<le> weekly_streak_current st \<and> weekly_streak_current st \<le> weekly_streak_best st \<and>
     0 \<le> top_10p_placements st \<and> top_10p_placements st \<le> top_50p_placements st \<and> 0 \<le> ds_playcount st \<and>
     (last_day_streak st \<noteq> None \<longrightarrow> 1 \<le> daily_streak_best st) \<and>
     (last_weekly_streak st \<noteq> None \<longrightarrow> 1 \<le> weekly_streak_best st) \<and>
     (last_day_streak st = None \<longleftrightarrow> last_weekly_streak st = None) \<and>
     (last_day_streak st = None \<longrightarrow> daily_streak_best st = 0 \<and> weekly_streak_best st = 0)"

lemma new_daily_stats_ok: "stats_ok new_daily_stats"
  by (simp add: stats_ok_def new_daily_stats_def)

lemma count_daily_play_ok: "stats_ok st \<Longrightarrow> stats_ok (count_daily_play now st)"
  by (auto simp: stats_ok_def count_daily_play_def count_day_def count_week_def Let_def split: option.splits)

lemma top_shares: "\<lceil>real n * 0.1\<rceil> \<le> \<lceil>real n * 0.5\<rceil>"
  by (rule ceiling_mono) simp

lemma placement_ok: "stats_ok st \<Longrightarrow> stats_ok (placement now field i st)"
  using top_shares [of field] by (auto simp: stats_ok_def placement_def Let_def)

lemma close_absent_ok: "stats_ok st \<Longrightarrow> stats_ok (close_absent now room_day st)"
  by (auto simp: stats_ok_def close_absent_def Let_def split: option.splits)

definition all_stats_ok :: "(int \<Rightarrow> daily_stats option) \<Rightarrow> bool" where
  "all_stats_ok stats \<longleftrightarrow> (\<forall>u st. stats u = Some st \<longrightarrow> stats_ok st)"

lemma close_participants_ok:
  "all_stats_ok (fst acc) \<Longrightarrow> all_stats_ok (fst (close_participants now field i rs acc))"
proof (induction rs arbitrary: i acc)
  case (Cons r rs)
  obtain stats seen where acc: "acc = (stats, seen)" by (cases acc)
  have "all_stats_ok (stats(pl_user r \<mapsto> placement now field i st))" if "stats (pl_user r) = Some st" for st
    using Cons.prems that placement_ok [of st] by (auto simp: all_stats_ok_def acc)
  with Cons.prems Cons.IH show ?case
    by (cases "stats (pl_user r)") (fastforce simp: acc)+
qed simp

lemma close_absents_ok: "all_stats_ok stats \<Longrightarrow> all_stats_ok (close_absents now room_day users stats)"
  unfolding close_absents_def
proof (induction users arbitrary: stats)
  case (Cons u users)
  have "all_stats_ok (case stats u of None \<Rightarrow> stats | Some st \<Rightarrow> stats(u \<mapsto> close_absent now room_day st))"
    using Cons.prems close_absent_ok by (auto simp: all_stats_ok_def split: option.split)
  with Cons.IH show ?case by simp
qed simp

lemma process_top_ok:
  "all_stats_ok (dd_stats db) \<Longrightarrow> all_stats_ok (dd_stats (process_daily_challenge_top now rooms users scores rows db))"
  using close_participants_ok [of "(dd_stats db, [])"] close_absents_ok
  by (auto simp: process_daily_challenge_top_def Let_def split: option.splits prod.splits) (metis fst_conv)+

lemma process_score_ok:
  assumes "all_stats_ok (dd_stats (fst st))" and "process_daily_challenge_score now user room scores rows st = Inr st'"
  shows "all_stats_ok (dd_stats (fst st'))"
proof -
  obtain db points where st: "st = (db, points)" by (cases st)
  have "stats_ok (case dd_stats db user of None \<Rightarrow> new_daily_stats | Some s \<Rightarrow> s)"
    using assms(1) by (auto simp: st all_stats_ok_def new_daily_stats_ok split: option.split)
  from count_daily_play_ok [OF this, of now] assms show ?thesis
    by (auto simp: st process_daily_challenge_score_def all_stats_ok_def py_bind_Inr_iff Let_def
        split: option.splits if_splits)
qed

text \<open>What can happen to the statistics: a finished challenge, or the closing job, at any time and
  whatever the tables hold.\<close>

inductive daily_step :: "daily_db \<times> points_db \<Rightarrow> daily_db \<times> points_db \<Rightarrow> bool" where
  played: "process_daily_challenge_score now user room scores rows st = Inr st' \<Longrightarrow> daily_step st st'"
| closed: "daily_step (db, points) (process_daily_challenge_top now rooms users scores rows db, points)"

definition empty_daily :: daily_db where
  "empty_daily = \<lparr>dd_stats = (\<lambda>_. None), dd_closed = [], dd_frozen = []\<rparr>"

text \<open>C25: whatever sequence of finished challenges and closing jobs runs, no current streak
  exceeds the best one, a place in the top tenth is also one in the top half, and no counter is
  negative.\<close>

theorem daily_counters_agree:
  assumes "daily_step\<^sup>*\<^sup>* (empty_daily, points) (db, points')" and "dd_stats db user = Some st"
  shows "0 \<le> daily_streak_current st \<and> daily_streak_current st \<le> daily_streak_best st \<and>
         0 \<le> weekly_streak_current st \<and> weekly_streak_current st \<le> weekly_streak_best st \<and>
         0 \<le> top_10p_placements st \<and> top_10p_placements st \<le> top_50p_placements st \<and> 0 \<le> ds_playcount st"
proof -
  have "all_stats_ok (dd_stats (fst s'))" if "daily_step\<^sup>*\<^sup>* s s'" "all_stats_ok (dd_stats (fst s))" for s s'
    using that by (induction rule: rtranclp_induct) (auto elim!: daily_step.cases intro: process_top_ok process_score_ok)
  from this [OF assms(1)] assms(2) show ?thesis
    by (auto simp: all_stats_ok_def empty_daily_def stats_ok_def)
qed

text \<open>Closing is idempotent: the job runs at one minute past midnight and at every start of
  the server, and a room that has been closed is never closed again, so that no restart counts a
  placement or cuts a streak twice.\<close>

theorem closing_is_idempotent:
  assumes "room_to_close later rooms = room_to_close now rooms"
  shows "process_daily_challenge_top later rooms users' scores' rows' (process_daily_challenge_top now rooms users scores rows db) =
         process_daily_challenge_top now rooms users scores rows db"
  using assms
  by (auto simp: process_daily_challenge_top_def Let_def split: option.split prod.split)

section \<open>Streaks\<close>

text \<open>What a player does on a day: the plays that complete the day's challenge, and whether there
  was a challenge at all and whether the day is frozen. The day is closed on the next one, before
  that day's plays.\<close>

record challenge_day =
  cd_day :: day
  cd_room :: bool
  cd_frozen :: bool
  cd_plays :: "moment list"
  cd_close :: moment
  cd_rank :: nat
  cd_field :: nat

definition close_day :: "challenge_day \<Rightarrow> daily_stats \<Rightarrow> daily_stats" where
  "close_day d st =
     (if \<not> cd_room d then st
      else if cd_plays d \<noteq> [] then placement (cd_close d) (cd_field d) (cd_rank d) st
      else if cd_frozen d then st
      else close_absent (cd_close d) (cd_day d) st)"

definition run_day :: "challenge_day \<Rightarrow> daily_stats \<Rightarrow> daily_stats" where
  "run_day d st = close_day d (fold count_daily_play (cd_plays d) st)"

fun days_ok :: "challenge_day list \<Rightarrow> bool" where
  "days_ok [] = True"
| "days_ok (d # ds) \<longleftrightarrow>
     (\<forall>t \<in> set (cd_plays d). date_of t = cd_day d) \<and> (cd_plays d \<noteq> [] \<longrightarrow> cd_room d) \<and>
     date_of (cd_close d) = cd_day d + 1 \<and>
     (case ds of [] \<Rightarrow> True | e # _ \<Rightarrow> cd_day d < cd_day e) \<and> days_ok ds"

text \<open>The reference: the length of the last run of challenges played, where days without a
  challenge and frozen days do not break the run.\<close>

definition streak_after :: "challenge_day \<Rightarrow> int \<Rightarrow> int" where
  "streak_after d n = (if cd_plays d \<noteq> [] then n + 1 else if cd_room d \<and> \<not> cd_frozen d then 0 else n)"

fun streaks :: "int \<Rightarrow> challenge_day list \<Rightarrow> int list" where
  "streaks n [] = [n]"
| "streaks n (d # ds) = n # streaks (streak_after d n) ds"

definition played_before :: "daily_stats \<Rightarrow> day \<Rightarrow> bool" where
  "played_before st d \<longleftrightarrow> (case last_day_streak st of None \<Rightarrow> True | Some t \<Rightarrow> date_of t < d)"

lemma played_before_mono: "played_before st d \<Longrightarrow> d \<le> e \<Longrightarrow> played_before st e"
  by (auto simp: played_before_def split: option.splits)

lemma count_again:
  "date_is (last_day_streak st) d \<Longrightarrow> date_of t = d \<Longrightarrow>
   daily_streak_current (count_daily_play t st) = daily_streak_current st \<and>
   daily_streak_best (count_daily_play t st) = daily_streak_best st \<and>
   ds_playcount (count_daily_play t st) = ds_playcount st \<and> date_is (last_day_streak (count_daily_play t st)) d"
  by (auto simp: count_daily_play_def count_day_def count_week_def date_is_def Let_def split: option.splits)

lemma count_more:
  "date_is (last_day_streak st) d \<Longrightarrow> \<forall>t \<in> set ts. date_of t = d \<Longrightarrow>
   daily_streak_current (fold count_daily_play ts st) = daily_streak_current st \<and>
   daily_streak_best (fold count_daily_play ts st) = daily_streak_best st \<and>
   ds_playcount (fold count_daily_play ts st) = ds_playcount st \<and> date_is (last_day_streak (fold count_daily_play ts st)) d"
proof (induction ts arbitrary: st)
  case (Cons t ts)
  then show ?case using count_again [of st d t] by simp
qed simp

definition streak_is :: "daily_stats \<Rightarrow> int \<Rightarrow> int \<Rightarrow> int \<Rightarrow> bool" where
  "streak_is st n best cnt \<longleftrightarrow>
     daily_streak_current st = n \<and> daily_streak_best st = best \<and> ds_playcount st = cnt \<and> 0 \<le> n \<and> n \<le> best \<and>
     (last_day_streak st = None \<longrightarrow> n = 0 \<and> best = 0)"

lemma count_first:
  "played_before st (date_of t) \<Longrightarrow> streak_is st n best cnt \<Longrightarrow>
   streak_is (count_daily_play t st) (n + 1) (max best (n + 1)) (cnt + 1) \<and>
   date_is (last_day_streak (count_daily_play t st)) (date_of t)"
  by (auto simp: count_daily_play_def count_day_def count_week_def date_is_def played_before_def streak_is_def Let_def
      split: option.splits)

lemma plays_of_day:
  assumes "played_before st d" and "streak_is st n best cnt" and "\<forall>t \<in> set ts. date_of t = d" and "ts \<noteq> []"
  shows "streak_is (fold count_daily_play ts st) (n + 1) (max best (n + 1)) (cnt + 1) \<and>
         date_is (last_day_streak (fold count_daily_play ts st)) d"
proof -
  obtain t ts' where ts: "ts = t # ts'" "date_of t = d" using assms(3,4) by (cases ts) auto
  from count_first [of st t n best cnt] assms(1,2) ts
  have first: "streak_is (count_daily_play t st) (n + 1) (max best (n + 1)) (cnt + 1)"
    "date_is (last_day_streak (count_daily_play t st)) d" by auto
  from count_more [OF this(2), of ts'] assms(3) first show ?thesis
    by (auto simp: ts streak_is_def date_is_def split: option.splits)
qed

lemma placement_streak:
  "streak_is (placement now f i st) n best cnt = streak_is st n best cnt"
  "last_day_streak (placement now f i st) = last_day_streak st"
  by (simp_all add: placement_def streak_is_def Let_def)

lemma absent_streak:
  "played_before st (Suc d) \<Longrightarrow> streak_is st n best cnt \<Longrightarrow> streak_is (close_absent now d st) 0 best cnt"
  "last_day_streak (close_absent now d st) = last_day_streak st"
  by (auto simp: close_absent_def streak_is_def played_before_def Let_def split: option.splits)

lemma run_day_streak:
  assumes "days_ok [d]" and "played_before st (cd_day d)" and "streak_is st n best cnt"
  shows "streak_is (run_day d st) (streak_after d n) (max best (streak_after d n))
           (cnt + (if cd_plays d \<noteq> [] then 1 else 0)) \<and> played_before (run_day d st) (Suc (cd_day d))"
proof (cases "cd_plays d = []")
  case True
  have "played_before st (Suc (cd_day d))" using assms(2) by (auto simp: played_before_def split: option.splits)
  with True assms(3) absent_streak show ?thesis
    by (auto simp: run_day_def close_day_def streak_after_def max_def)
      (auto simp: played_before_def streak_is_def)
next
  case False
  from plays_of_day [OF assms(2,3) _ this] assms(1)
  have "streak_is (fold count_daily_play (cd_plays d) st) (n + 1) (max best (n + 1)) (cnt + 1)"
    "date_is (last_day_streak (fold count_daily_play (cd_plays d) st)) (cd_day d)" by auto
  with False assms(1) show ?thesis
    by (auto simp: run_day_def close_day_def streak_after_def placement_streak played_before_def date_is_def
        split: option.splits)
qed

lemma streaks_not_Nil [simp]: "streaks n ds \<noteq> []"
  by (cases ds) auto

lemma foldl_max_streaks: "foldl max (max best n) (streaks n ds) = foldl max best (streaks n ds)"
  by (cases ds) (simp_all add: max.assoc)

lemma run_days_streak:
  assumes "days_ok ds" and "case ds of [] \<Rightarrow> True | d # _ \<Rightarrow> played_before st (cd_day d)" and "streak_is st n best cnt"
  shows "streak_is (fold run_day ds st) (List.last (streaks n ds)) (foldl max best (streaks n ds))
           (cnt + int (length (filter (\<lambda>d. cd_plays d \<noteq> []) ds)))"
  using assms
proof (induction ds arbitrary: st n best cnt)
  case Nil
  then show ?case by (auto simp: streak_is_def max_def)
next
  case (Cons d ds)
  note prems = Cons.prems(1)
  have d: "days_ok [d]" using Cons.prems(1) by simp
  from run_day_streak [OF d _ Cons.prems(3)] Cons.prems(2)
  have step: "streak_is (run_day d st) (streak_after d n) (max best (streak_after d n))
           (cnt + (if cd_plays d \<noteq> [] then 1 else 0))" "played_before (run_day d st) (Suc (cd_day d))" by auto
  have "case ds of [] \<Rightarrow> True | e # _ \<Rightarrow> played_before (run_day d st) (cd_day e)"
  proof (cases ds)
    case (Cons e es)
    with prems have "Suc (cd_day d) \<le> cd_day e" by simp
    from played_before_mono [OF step(2) this] show ?thesis by (simp add: Cons)
  qed simp
  from Cons.IH [OF _ this step(1)] Cons.prems(1)
  have "streak_is (fold run_day (d # ds) st) (List.last (streaks (streak_after d n) ds))
      (foldl max (max best (streak_after d n)) (streaks (streak_after d n) ds))
      (cnt + (if cd_plays d \<noteq> [] then 1 else 0) + int (length (filter (\<lambda>d. cd_plays d \<noteq> []) ds)))" by simp
  moreover have "max best n = best" using Cons.prems(3) by (simp add: streak_is_def)
  ultimately show ?case
    by (cases "cd_plays d = []") (simp_all add: foldl_max_streaks add.assoc)
qed


text \<open>A witness of the two theorems above: a player who plays two days, misses a frozen one, plays
  again twice on a day, and misses the last.\<close>

definition sample_days :: "challenge_day list" where
  "sample_days =
     [\<lparr>cd_day = 20000, cd_room = True, cd_frozen = False, cd_plays = [1728000010], cd_close = 1728086460, cd_rank = 0, cd_field = 4\<rparr>,
      \<lparr>cd_day = 20001, cd_room = True, cd_frozen = True, cd_plays = [], cd_close = 1728172860, cd_rank = 0, cd_field = 4\<rparr>,
      \<lparr>cd_day = 20002, cd_room = True, cd_frozen = False, cd_plays = [1728172900, 1728172999], cd_close = 1728259260, cd_rank = 3, cd_field = 4\<rparr>,
      \<lparr>cd_day = 20004, cd_room = True, cd_frozen = False, cd_plays = [], cd_close = 1728432060, cd_rank = 0, cd_field = 4\<rparr>]"


section \<open>Closing, player by player\<close>

lemma close_participants_other:
  "u \<notin> pl_user ` set rs \<Longrightarrow> fst (close_participants now n i rs (stats, seen)) u = stats u"
proof (induction rs arbitrary: i stats seen)
  case (Cons r rs)
  then show ?case by (cases "stats (pl_user r)") auto
qed simp

lemma close_participants_seen:
  "set (snd (close_participants now n i rs (stats, seen))) = set seen \<union> (pl_user ` set rs \<inter> dom stats)"
proof (induction rs arbitrary: i stats seen)
  case (Cons r rs)
  show ?case
  proof (cases "stats (pl_user r)")
    case (Some y)
    then have same: "dom (stats(pl_user r \<mapsto> x)) = dom stats" for x by (auto simp: dom_def)
    show ?thesis
      unfolding close_participants.simps Some option.simps Cons.IH same
      using Some by (auto intro: domI [of stats "pl_user r"])
  qed (use Cons.IH [of "Suc i" stats seen] in \<open>simp add: domIff\<close>)
qed simp

lemma close_participants_at:
  assumes "distinct (map pl_user rs)" and "j < length rs" and "stats (pl_user (rs ! j)) = Some st"
  shows "fst (close_participants now n i rs (stats, seen)) (pl_user (rs ! j)) = Some (placement now n (i + j) st)"
  using assms
proof (induction rs arbitrary: i j stats seen)
  case (Cons r rs)
  show ?case
  proof (cases j)
    case 0
    with Cons.prems close_participants_other [of "pl_user r" rs] show ?thesis by simp
  next
    case (Suc k)
    with Cons.prems have "pl_user (rs ! k) \<in> pl_user ` set rs" "pl_user r \<notin> pl_user ` set rs" by simp_all
    then have "pl_user (rs ! k) \<noteq> pl_user r" by metis
    with Suc Cons.prems Cons.IH [of k _ "Suc i"] show ?thesis
      by (cases "stats (pl_user r)") simp_all
  qed
qed simp

lemma close_absents_at:
  "distinct users \<Longrightarrow>
   close_absents now d users stats u =
     (if u \<in> set users then map_option (close_absent now d) (stats u) else stats u)"
  unfolding close_absents_def
proof (induction users arbitrary: stats)
  case (Cons v users)
  then show ?case by (cases "stats v") auto
qed simp

text \<open>What closing a room does to each player of the server: those with a passed row of its
  item get the placement of their rank, in one of the falling totals; the others are marked absent
  unless the day is frozen; players without statistics, and everybody if the room was closed
  before, are left alone.\<close>

theorem closing_per_player:
  assumes "room_to_close now rooms = Some room" and "rm_id room \<notin> set (dd_closed db)" and "rm_ends_at room = Some e"
    and "distinct users" and "u \<in> set users" and "dd_stats db u = Some st"
    and "distinct (map pl_user (passed_rows (rm_id room) scores rows))"
  shows "dd_stats (process_daily_challenge_top now rooms users scores rows db) u =
     Some (if \<exists>r \<in> set (passed_rows (rm_id room) scores rows). pl_user r = u
           then placement now (length (passed_rows (rm_id room) scores rows))
                  (row_number (\<lambda>r. pl_user r = u) (passed_rows (rm_id room) scores rows) - 1) st
           else if date_of e \<in> set (dd_frozen db) then st
           else close_absent now (date_of e) st)"
proof -
  let ?rs = "passed_rows (rm_id room) scores rows"
  obtain stats seen where closed: "close_participants now (length ?rs) 0 ?rs (dd_stats db, []) = (stats, seen)"
    by (cases "close_participants now (length ?rs) 0 ?rs (dd_stats db, [])")
  from close_participants_seen [of now "length ?rs" 0 ?rs "dd_stats db" "[]"] closed assms(6)
  have seen: "u \<in> set seen \<longleftrightarrow> (\<exists>r \<in> set ?rs. pl_user r = u)" by (auto simp: dom_def)
  have top: "dd_stats (process_daily_challenge_top now rooms users scores rows db) u =
      (if u \<in> set seen \<or> date_of e \<in> set (dd_frozen db) then stats u
       else map_option (close_absent now (date_of e)) (stats u))"
    using assms(1-5) closed
    by (simp add: process_daily_challenge_top_def Let_def close_absents_at)
  show ?thesis
  proof (cases "\<exists>r \<in> set ?rs. pl_user r = u")
    case False
    then have "stats u = Some st" using close_participants_other [of u ?rs] closed assms(6) by (metis fst_conv imageE)
    with False seen top show ?thesis by simp
  next
    case True
    have nth: "row_number P xs = Suc k \<Longrightarrow> k < length xs \<and> P (xs ! k)" for P :: "playlist_best \<Rightarrow> bool" and xs k
    proof (induction xs arbitrary: k)
      case (Cons a xs)
      then show ?case by (cases "P a"; cases "row_number P xs") auto
    qed simp
    have pos: "\<exists>x \<in> set xs. P x \<Longrightarrow> row_number P xs \<noteq> 0" for P :: "playlist_best \<Rightarrow> bool" and xs
    proof (induction xs)
      case (Cons a xs)
      then show ?case by (cases "P a") (auto split: nat.split)
    qed simp
    from pos [OF True] obtain k where k: "row_number (\<lambda>r. pl_user r = u) ?rs = Suc k" by (cases "row_number (\<lambda>r. pl_user r = u) ?rs") auto
    from nth [OF k] have "k < length ?rs" "pl_user (?rs ! k) = u" by auto
    with close_participants_at [OF assms(7), of k "dd_stats db" st now "length ?rs" 0 "[]"] closed assms(6)
    have "stats u = Some (placement now (length ?rs) k st)" by simp
    with True k seen top show ?thesis by simp
  qed
qed

text \<open>A player who has already completed today's challenge when yesterday's is closed gets no
  placement for yesterday, whatever the rank.\<close>

lemma early_player_loses_placement:
  assumes "last_update st = Some t" and "date_of t = date_of now"
  shows "top_10p_placements (placement now field i st) = top_10p_placements st \<and>
         top_50p_placements (placement now field i st) = top_50p_placements st"
  using assms by (simp add: placement_def date_is_def)

section \<open>Weeks in a row\<close>

text \<open>What touches the weekly streak of a player over time: completed challenges, and closings that
  mark the player absent.\<close>

datatype daily_event = Completed moment | Absent moment day

fun event_time :: "daily_event \<Rightarrow> moment" where
  "event_time (Completed t) = t"
| "event_time (Absent t _) = t"

fun run_event :: "daily_event \<Rightarrow> daily_stats \<Rightarrow> daily_stats" where
  "run_event (Completed t) st = count_daily_play t st"
| "run_event (Absent t d) st = close_absent t d st"

definition week_of :: "moment \<Rightarrow> nat" where
  "week_of t = week_index (date_of t)"

fun completed_week :: "daily_event \<Rightarrow> nat option" where
  "completed_week (Completed t) = Some (week_of t)"
| "completed_week (Absent _ _) = None"

definition weeks_played :: "daily_event list \<Rightarrow> nat set" where
  "weeks_played es = set (List.map_filter completed_week es)"

text \<open>The reference: how many weeks in a row, ending with a given one, have a completed challenge.\<close>

primrec weeks_back :: "nat set \<Rightarrow> nat \<Rightarrow> int" where
  "weeks_back W 0 = (if 0 \<in> W then 1 else 0)"
| "weeks_back W (Suc w) = (if Suc w \<in> W then 1 + weeks_back W w else 0)"

lemma weeks_back_insert: "v < w \<Longrightarrow> weeks_back (insert w W) v = weeks_back W v"
  by (induction v) auto

lemma week_mono: "s \<le> t \<Longrightarrow> week_of s \<le> week_of t"
  by (simp add: week_of_def week_index_def date_of_def div_le_mono)

lemma week_before: "week_index (d - 7) = week_index d - 1"
proof (cases "7 \<le> d")
  case True
  then have "d + 3 = (d - 7 + 3) + 7" by simp
  then have "(d + 3) div 7 = Suc ((d - 7 + 3) div 7)" by simp
  then show ?thesis by (simp add: week_index_def)
next
  case False
  then have "d \<in> {0, 1, 2, 3, 4, 5, 6}" by auto
  then show ?thesis by (auto simp: week_index_def)
qed

text \<open>The weekly counter after some events, the last of them at a given time: the run up to the week
  last played, unless that week is two weeks past and a closing has already cut it.\<close>

definition week_state :: "daily_stats \<Rightarrow> nat set \<Rightarrow> moment \<Rightarrow> bool" where
  "week_state st W now \<longleftrightarrow>
     (case last_weekly_streak st of
        None \<Rightarrow> W = {}
      | Some t \<Rightarrow> t \<le> now \<and> week_of t \<in> W \<and> (\<forall>w \<in> W. w \<le> week_of t) \<and>
          (weekly_streak_current st = weeks_back W (week_of t) \<or>
           weekly_streak_current st = 0 \<and> week_of t + 2 \<le> week_of now))"

lemma week_fields:
  "last_weekly_streak (count_daily_play t st) = Some t"
  "weekly_streak_current (count_daily_play t st) =
     (case last_weekly_streak st of
        None \<Rightarrow> 1
      | Some s \<Rightarrow> if week_of s = week_of t then weekly_streak_current st
                  else if week_of t = Suc (week_of s) \<or> week_of s = Suc (week_of t) then weekly_streak_current st + 1
                  else 1)"
proof -
  have day: "last_weekly_streak (count_day t st) = last_weekly_streak st"
    "weekly_streak_current (count_day t st) = weekly_streak_current st"
    by (simp_all add: count_day_def Let_def split: option.split)
  show "last_weekly_streak (count_daily_play t st) = Some t" by (simp add: count_daily_play_def)
  show "weekly_streak_current (count_daily_play t st) =
     (case last_weekly_streak st of
        None \<Rightarrow> 1
      | Some s \<Rightarrow> if week_of s = week_of t then weekly_streak_current st
                  else if week_of t = Suc (week_of s) \<or> week_of s = Suc (week_of t) then weekly_streak_current st + 1
                  else 1)"
    by (simp add: count_daily_play_def count_week_def day same_weeks_iff adjacent_weeks_iff week_of_def Let_def disj_commute
        split: option.split)
qed

lemma completed_state:
  assumes "week_state st W now" and "now \<le> t"
  shows "week_state (count_daily_play t st) (insert (week_of t) W) t \<and>
         weekly_streak_current (count_daily_play t st) = weeks_back (insert (week_of t) W) (week_of t)"
proof (cases "last_weekly_streak st")
  case None
  with assms(1) have "W = {}" by (simp add: week_state_def)
  moreover have "weeks_back {w} w = 1" for w by (cases w) (simp_all add: weeks_back_insert [of _ _ "{}", simplified], induct_tac nat, simp_all)
  ultimately show ?thesis using None by (simp add: week_state_def week_fields)
next
  case (Some s)
  with assms have s: "s \<le> t" "week_of s \<in> W" "\<forall>w \<in> W. w \<le> week_of s" "week_of now \<le> week_of t"
    "weekly_streak_current st = weeks_back W (week_of s) \<or> weekly_streak_current st = 0 \<and> week_of s + 2 \<le> week_of now"
    using week_mono [of now t] by (auto simp: week_state_def)
  have le: "week_of s \<le> week_of t" using week_mono s(1) .
  have current: "weekly_streak_current (count_daily_play t st) = weeks_back (insert (week_of t) W) (week_of t)"
  proof (cases "week_of s = week_of t")
    case True
    with s Some show ?thesis by (auto simp: week_fields insert_absorb)
  next
    case False
    show ?thesis
    proof (cases "week_of t = Suc (week_of s)")
      case True
      with s Some show ?thesis by (auto simp: week_fields weeks_back_insert)
    next
      case later: False
      then obtain v where v: "week_of t = Suc v" "week_of s < v" using False le by (cases "week_of t") auto
      have "weeks_back (insert (week_of t) W) v = 0"
        using v s(3) by (cases v) auto
      with v False later le Some show ?thesis by (simp add: week_fields)
    qed
  qed
  with s(3) le show ?thesis by (auto simp: week_state_def week_fields intro: order_trans)
qed

lemma absent_state:
  assumes "week_state st W now" and "now \<le> t"
  shows "week_state (close_absent t d st) W t"
proof (cases "last_weekly_streak st")
  case None
  with assms show ?thesis by (simp add: week_state_def close_absent_def Let_def split: option.split)
next
  case (Some s)
  with assms have s: "s \<le> t" "week_of now \<le> week_of t"
    "weekly_streak_current st = weeks_back W (week_of s) \<or> weekly_streak_current st = 0 \<and> week_of s + 2 \<le> week_of t"
    using week_mono [of now t] by (auto simp: week_state_def)
  have stale: "week_of s + 2 \<le> week_of t"
    if "\<not> are_same_weeks (date_of s) (date_of t)" "\<not> are_same_weeks (date_of s) (date_of t - 7)"
  proof -
    have "week_of s \<noteq> week_of t" "week_of s \<noteq> week_of t - 1"
      using that by (simp_all add: same_weeks_iff week_of_def week_before)
    with week_mono [OF s(1)] show ?thesis by simp
  qed
  have "last_weekly_streak (close_absent t d st) = Some s"
    "weekly_streak_current (close_absent t d st) = weekly_streak_current st \<or>
     weekly_streak_current (close_absent t d st) = 0 \<and> week_of s + 2 \<le> week_of t"
    using stale by (auto simp: close_absent_def Some Let_def)
  with s assms Some show ?thesis by (auto simp: week_state_def)
qed

lemma weeks_played_simps:
  "weeks_played [] = {}"
  "weeks_played (e # es) = (case completed_week e of None \<Rightarrow> weeks_played es | Some w \<Rightarrow> insert w (weeks_played es))"
  by (simp_all add: weeks_played_def map_filter_def split: option.split)

lemma events_state:
  assumes "sorted (now # map event_time es)" and "week_state st W now"
  shows "week_state (fold run_event es st) (W \<union> weeks_played es) (List.last (now # map event_time es))"
  using assms
proof (induction es arbitrary: st W now)
  case (Cons e es)
  have sorted: "sorted (event_time e # map event_time es)" and le: "now \<le> event_time e" using Cons.prems(1) by auto
  show ?case
  proof (cases e)
    case (Completed t)
    with completed_state [OF Cons.prems(2)] le
    have "week_state (run_event e st) (insert (week_of t) W) (event_time e)" by simp
    from Cons.IH [OF sorted this] show ?thesis by (simp add: Completed weeks_played_simps)
  next
    case (Absent t d)
    with absent_state [OF Cons.prems(2)] le have "week_state (run_event e st) W (event_time e)" by simp
    from Cons.IH [OF sorted this] show ?thesis by (simp add: Absent weeks_played_simps)
  qed
qed (simp add: weeks_played_simps)

text \<open>C24: right after a completed challenge, the weekly streak is the number of consecutive ISO
  weeks, up to the current one, in which the player has completed a challenge, across year ends and
  whatever closings marked the player absent in between.\<close>

theorem weekly_streak_counts_weeks:
  assumes "sorted (map event_time es @ [t])"
  shows "weekly_streak_current (fold run_event (es @ [Completed t]) new_daily_stats) =
         weeks_back (weeks_played (es @ [Completed t])) (week_of t)"
proof -
  have "week_state new_daily_stats {} 0" by (simp add: week_state_def new_daily_stats_def)
  with assms events_state [of 0 es new_daily_stats "{}"]
  have "week_state (fold run_event es new_daily_stats) (weeks_played es) (List.last (0 # map event_time es))"
    by (simp add: sorted_append)
  moreover have "List.last (0 # map event_time es) \<le> t"
    using assms by (cases es rule: rev_cases) (auto simp: sorted_append)
  ultimately have "weekly_streak_current (count_daily_play t (fold run_event es new_daily_stats)) =
      weeks_back (insert (week_of t) (weeks_played es)) (week_of t)"
    using completed_state by blast
  moreover have "weeks_played (es @ [Completed t]) = insert (week_of t) (weeks_played es)"
    by (simp add: weeks_played_def map_filter_def)
  ultimately show ?thesis by simp
qed


lemma weekly_streak_counts_weeks_witness:
  "weekly_streak_current (fold run_event
      [Completed 1735603200, Completed 1735948800, Absent 1736121660 20092, Completed 1736208000] new_daily_stats) = 2"
proof -
  have weeks: "week_of 1735603200 = 2870" "week_of 1735948800 = 2870" "week_of 1736208000 = 2871"
    by (simp_all add: week_of_def week_index_def date_of_def)
  have "weeks_back {2870, 2871} 2869 = 0"
    using weeks_back.simps(2) [of "{2870, 2871}" 2868] by simp
  then have two: "weeks_back {2870, 2871} 2871 = 2"
    using weeks_back.simps(2) [of "{2870, 2871}" 2870] weeks_back.simps(2) [of "{2870, 2871}" 2869] by simp
  have "weeks_played [Completed 1735603200, Completed 1735948800, Absent 1736121660 20092, Completed 1736208000] = {2870, 2871}"
    by (auto simp: weeks_played_simps weeks)
  with two weekly_streak_counts_weeks
      [of "[Completed 1735603200, Completed 1735948800, Absent 1736121660 20092]" 1736208000]
  show ?thesis by (simp add: weeks)
qed

section \<open>Witnesses\<close>

definition daily_room :: room where
  "daily_room = \<lparr>rm_id = 5, rm_category = DAILY_CHALLENGE_ROOM, rm_ends_at = Some 1728086280, rm_max_attempts = None\<rparr>"

definition daily_row :: playlist_best where
  "daily_row = \<lparr>pl_user = 7, pl_score = 1, pl_room = 5, pl_item = 0, pl_total = 900, pl_attempts = 1\<rparr>"

lemma daily_room_closes: "room_to_close 1728086460 [daily_room] = Some daily_room"
  by (simp add: room_to_close_def daily_room_def date_of_def)

lemma closing_is_idempotent_witness:
  "process_daily_challenge_top 1728130000 [daily_room] [7] [] [] (process_daily_challenge_top 1728086460 [daily_room] [7] [] [] empty_daily) =
   process_daily_challenge_top 1728086460 [daily_room] [7] [] [] empty_daily"
proof -
  have "room_to_close 1728130000 [daily_room] = room_to_close 1728086460 [daily_room]"
    unfolding daily_room_closes by (simp add: room_to_close_def daily_room_def date_of_def)
  then show ?thesis by (rule closing_is_idempotent)
qed

lemma closing_per_player_witness:
  "dd_stats (process_daily_challenge_top 1728086460 [daily_room] [7] [sample_score\<lparr>sc_id := 1, sc_passed := True\<rparr>] [daily_row]
      (empty_daily\<lparr>dd_stats := [7 \<mapsto> count_daily_play 1728000010 new_daily_stats]\<rparr>)) 7 =
   Some (placement 1728086460 1 0 (count_daily_play 1728000010 new_daily_stats))"
proof -
  have passed: "passed_rows 5 [sample_score\<lparr>sc_id := 1, sc_passed := True\<rparr>] [daily_row] = [daily_row]"
    by (simp add: passed_rows_def daily_row_def has_passed_def score_by_id_def)
  have user: "pl_user daily_row = 7" by (simp add: daily_row_def)
  show ?thesis
    by (subst closing_per_player [OF daily_room_closes])
      (simp_all add: daily_room_def empty_daily_def passed user date_of_def)
qed

lemma daily_counters_agree_witness:
  "\<exists>db points st. daily_step\<^sup>*\<^sup>* (empty_daily, empty_points) (db, points) \<and> dd_stats db 7 = Some st \<and>
     daily_streak_current st \<le> daily_streak_best st"
proof -
  obtain db points where played: "process_daily_challenge_score 1728000010 7 5
      [sample_score\<lparr>sc_id := 1, sc_passed := True\<rparr>] [daily_row] (empty_daily, empty_points) = Inr (db, points)"
    "dd_stats db 7 = Some (count_daily_play 1728000010 new_daily_stats)"
    by (simp add: process_daily_challenge_score_def daily_row_def is_row_of_def find_score_def score_by_id_def empty_daily_def)
  have "daily_step\<^sup>*\<^sup>* (empty_daily, empty_points) (db, points)"
    using daily_step.played [OF played(1)] by (rule r_into_rtranclp)
  from this daily_counters_agree [OF this played(2)] played(2) show ?thesis by blast
qed

end
