(* ===== verification/Playlists.thy ===== *)
theory Playlists
  imports DailyChallenge
begin

text \<open>
  Playing an item of a room, from the request for a token to the tables a finished play goes
  through (\<^verbatim>\<open>src/app/router/v2/score.py\<close>), the ranking of an item, and the job that opens the
  day's room (\<^verbatim>\<open>src/app/tasks/daily_challenge.py\<close>, \<^verbatim>\<open>src/app/service/room.py\<close>). Chat channels,
  feeds, logs and the client version service are outside.
\<close>

section \<open>State\<close>

record playlist_db =
  pd_game :: game_db
  pd_rooms :: "room list"
  pd_items :: "playlist_item list"
  pd_best :: "playlist_best list"
  pd_attempts :: "attempts_row list"
  pd_players :: "int \<Rightarrow> int option"
  pd_daily :: daily_db

definition find_room :: "playlist_db \<Rightarrow> int \<Rightarrow> room option" where
  "find_room db room = find (\<lambda>r. rm_id r = room) (pd_rooms db)"

definition find_item :: "playlist_db \<Rightarrow> int \<Rightarrow> int \<Rightarrow> playlist_item option" where
  "find_item db room item = find (\<lambda>i. it_id i = item \<and> it_room i = room) (pd_items db)"

section \<open>Starting a play\<close>

text \<open>What the request brings and the services outside answer: whether the client's version is
  valid, whether the player is restricted, the error of fetching the map if there is one.\<close>

record play_request =
  pr_user :: int
  pr_restricted :: bool
  pr_ruleset :: int
  pr_ruleset_hash :: string
  pr_beatmap :: int
  pr_client_valid :: bool
  pr_fetch_error :: "py_error option"

definition next_token_id :: "score_token list \<Rightarrow> int" where
  "next_token_id tokens = foldl max 0 (map tok_id tokens) + 1"

definition check_item :: "play_request \<Rightarrow> playlist_item \<Rightarrow> py_error option" where
  "check_item rq item =
     (if it_freestyle item then None
      else if it_ruleset item \<noteq> pr_ruleset rq then Some (HTTPException 400 ''Ruleset mismatch in playlist item'')
      else if it_beatmap item \<noteq> pr_beatmap rq then Some (HTTPException 400 ''Beatmap ID mismatch in playlist item'')
      else None)"

text \<open>\<^verbatim>\<open>agg and room.max_attempts and agg.attempts >= room.max_attempts\<close>.\<close>

definition attempts_used_up :: "attempts_row option \<Rightarrow> int option \<Rightarrow> bool" where
  "attempts_used_up agg limit =
     (case (agg, limit) of (Some a, Some m) \<Rightarrow> m \<noteq> 0 \<and> m \<le> at_attempts a | _ \<Rightarrow> False)"

text \<open>The checks of the room and item, in the order of the code.\<close>

definition check_play :: "moment \<Rightarrow> int \<Rightarrow> int \<Rightarrow> play_request \<Rightarrow> playlist_db \<Rightarrow> py_error option" where
  "check_play now room item rq db =
     (case find_room db room of
        None \<Rightarrow> Some (HTTPException 404 ''Room not found'')
      | Some r \<Rightarrow>
          if (case rm_ends_at r of None \<Rightarrow> False | Some e \<Rightarrow> e < now) then Some (HTTPException 400 ''Room has ended'')
          else case find_item db room item of
            None \<Rightarrow> Some (HTTPException 404 ''Playlist not found'')
          | Some i \<Rightarrow>
              (case check_item rq i of
                 Some e \<Rightarrow> Some e
               | None \<Rightarrow>
                   if attempts_used_up (find (is_attempts_of room (pr_user rq)) (pd_attempts db)) (rm_max_attempts r)
                   then Some (HTTPException 422 ''You have reached the maximum attempts for this room'')
                   else if it_expired i then Some (HTTPException 400 ''Playlist item has expired'')
                   else if it_played_at i \<noteq> None then Some (HTTPException 400 ''Playlist item has already been played'')
                   else None))"

definition create_playlist_score ::
  "config \<Rightarrow> (game_mode \<Rightarrow> version_entry option) \<Rightarrow> moment \<Rightarrow> int \<Rightarrow> int \<Rightarrow> play_request \<Rightarrow> playlist_db
     \<Rightarrow> py_error + score_token \<times> playlist_db" where
  "create_playlist_score cfg hashes now room item rq db =
     (case from_int (pr_ruleset rq) of
        Inl ValueError \<Rightarrow> Inl (HTTPException 400 ''Invalid ruleset ID'')
      | Inl e \<Rightarrow> Inl e
      | Inr mode \<Rightarrow>
          if \<not> pr_client_valid rq then Inl (HTTPException 422 ''invalid client hash'')
          else if \<not> is_current (check_version cfg hashes mode (pr_ruleset_hash rq))
          then Inl (HTTPException 422
                 (case error_msg (check_version cfg hashes mode (pr_ruleset_hash rq)) of
                    None \<Rightarrow> ''Ruleset version check failed'' | Some m \<Rightarrow> m))
          else if pr_restricted rq then Inl (HTTPException 403 ''You are restricted from submitting multiplayer scores'')
          else case pr_fetch_error rq of
            Some e \<Rightarrow> Inl e
          | None \<Rightarrow>
              (case check_play now room item rq db of
                 Some e \<Rightarrow> Inl e
               | None \<Rightarrow>
                   let token = \<lparr>tok_id = next_token_id (gd_tokens (pd_game db)), tok_user = pr_user rq,
                                tok_beatmap = pr_beatmap rq, tok_score = None, tok_room = Some room,
                                tok_playlist_item = Some item, tok_created_at = now\<rparr>
                   in Inr (token, db\<lparr>pd_game := (pd_game db)\<lparr>gd_tokens := gd_tokens (pd_game db) @ [token]\<rparr>\<rparr>)))"

section \<open>Finishing a play\<close>

text \<open>The tables a finished play goes through once its score is submitted: the row of the item
  (committed), the daily challenge, the player's sums for the room.\<close>

definition count_play ::
  "moment \<Rightarrow> room \<Rightarrow> int \<Rightarrow> int \<Rightarrow> score_row \<Rightarrow> playlist_db \<Rightarrow> (py_error + score_row) \<times> playlist_db" where
  "count_play now room item user s db =
     (case process_playlist_best_score (rm_id room) item user (sc_id s) (sc_total_score s) (gd_scores (pd_game db))
             (pd_best db, pd_players db) of
        Inl e \<Rightarrow> (Inl e, db)
      | Inr (rows, players) \<Rightarrow>
          let db = db\<lparr>pd_best := rows, pd_players := players\<rparr> in
          case (if rm_category room = DAILY_CHALLENGE_ROOM \<and> sc_passed s
                then process_daily_challenge_score now user (rm_id room) (gd_scores (pd_game db)) rows
                       (pd_daily db, gd_points (pd_game db))
                else Inr (pd_daily db, gd_points (pd_game db))) of
            Inl e \<Rightarrow> (Inl e, db)
          | Inr (daily, points) \<Rightarrow>
              let db = db\<lparr>pd_daily := daily, pd_game := (pd_game db)\<lparr>gd_points := points\<rparr>\<rparr>;
                  (a, tbl) = attempts_get_or_create (rm_id room) user (gd_scores (pd_game db)) rows (pd_attempts db);
                  db = db\<lparr>pd_attempts := tbl\<rparr>
              in (case a of Inl e \<Rightarrow> (Inl e, db) | Inr _ \<Rightarrow> (Inr s, db)))"

definition submit_playlist_score ::
  "config \<Rightarrow> validator \<Rightarrow> ranked_mods \<Rightarrow> (score_row \<Rightarrow> real \<times> bool) \<Rightarrow> moment \<Rightarrow> nat \<times> nat \<Rightarrow> int \<Rightarrow> int
     \<Rightarrow> request \<Rightarrow> submission \<Rightarrow> int \<Rightarrow> playlist_db \<Rightarrow> (py_error + score_row) \<times> playlist_db" where
  "submit_playlist_score cfg validate ranked_tbl calc now ym room item rq info token db =
     (if rq_restricted rq then (Inl (HTTPException 403 ''You are restricted from submitting multiplayer scores''), db)
      else if find_item db room item = None then (Inl (HTTPException 404 ''Playlist item not found''), db)
      else case find_room db room of
        None \<Rightarrow> (Inl (HTTPException 404 ''Room not found''), db)
      | Some r \<Rightarrow>
          let (resp, game) = submit_score cfg validate ranked_tbl calc now ym rq info token (pd_game db);
              db = db\<lparr>pd_game := game\<rparr>
          in case resp of
               Inl e \<Rightarrow> (Inl e, db)
             | Inr (s, _) \<Rightarrow> count_play now r item (rq_user rq) s db)"

section \<open>The ranking of an item\<close>

text \<open>A page of \<^verbatim>\<open>index_playlist_scores\<close>: the rows below the cursor by falling total, the position
  of the player's own row if the page has it, and the cursor of the next page if there is one.\<close>

record playlist_page =
  pg_rows :: "playlist_best list"
  pg_own :: "(int \<times> nat) option"
  pg_total :: nat
  pg_cursor :: "int option"

definition index_playlist_scores ::
  "(int \<Rightarrow> bool) \<Rightarrow> int \<Rightarrow> int \<Rightarrow> int \<Rightarrow> int \<Rightarrow> int \<Rightarrow> playlist_db \<Rightarrow> py_error + playlist_page" where
  "index_playlist_scores hidden room item user limit cursor db =
     (case find_room db room of
        None \<Rightarrow> Inl (HTTPException 404 ''Room not found'')
      | Some _ \<Rightarrow>
          let limit = nat (max 1 (min limit 50));
              found = take (limit + 1) (sort_key (\<lambda>r. - pl_total r)
                (filter (\<lambda>r. pl_item r = item \<and> pl_room r = room \<and> pl_total r < cursor \<and> \<not> hidden (pl_user r)) (pd_best db)));
              has_more = limit < length found;
              rows = (if has_more then butlast found else found)
          in Inr \<lparr>pg_rows = rows,
                  pg_own = map_option (\<lambda>r. (pl_score r, get_position room item (pl_score r) (pd_best db)))
                             (find (\<lambda>r. pl_user r = user) rows),
                  pg_total = length rows,
                  pg_cursor = (if has_more then Some (pl_total (List.last rows)) else None)\<rparr>)"

section \<open>Starting a play: properties\<close>

text \<open>A play is only started in a room that has not ended, on an item of the room that is
  neither expired nor played, with the item's map and ruleset unless it is freestyle, and below
  the room's limit of attempts as far as finished plays count; the token is new, unused, and bound
  to player, map, room and item, and nothing else changes.\<close>

theorem play_starts_on_open_item:
  assumes "create_playlist_score cfg hashes now room item rq db = Inr (t, db')"
  shows "(\<exists>r i. find_room db room = Some r \<and> (\<forall>e. rm_ends_at r = Some e \<longrightarrow> now \<le> e) \<and>
           find_item db room item = Some i \<and> \<not> it_expired i \<and> it_played_at i = None \<and>
           (it_freestyle i \<or> it_ruleset i = pr_ruleset rq \<and> it_beatmap i = pr_beatmap rq) \<and>
           (\<forall>a m. find (is_attempts_of room (pr_user rq)) (pd_attempts db) = Some a \<longrightarrow>
                  rm_max_attempts r = Some m \<longrightarrow> m \<noteq> 0 \<longrightarrow> at_attempts a < m)) \<and>
         tok_id t \<notin> tok_id ` set (gd_tokens (pd_game db)) \<and> tok_score t = None \<and> tok_user t = pr_user rq \<and>
         tok_beatmap t = pr_beatmap rq \<and> tok_room t = Some room \<and> tok_playlist_item t = Some item \<and>
         db' = db\<lparr>pd_game := (pd_game db)\<lparr>gd_tokens := gd_tokens (pd_game db) @ [t]\<rparr>\<rparr> \<and> \<not> pr_restricted rq"
    (is "?item \<and> _")
proof -
  have check: "check_play now room item rq db = None" and restricted: "\<not> pr_restricted rq"
    and t: "t = \<lparr>tok_id = next_token_id (gd_tokens (pd_game db)), tok_user = pr_user rq,
                 tok_beatmap = pr_beatmap rq, tok_score = None, tok_room = Some room,
                 tok_playlist_item = Some item, tok_created_at = now\<rparr>"
    and db': "db' = db\<lparr>pd_game := (pd_game db)\<lparr>gd_tokens := gd_tokens (pd_game db) @ [t]\<rparr>\<rparr>"
    using assms by (auto simp: create_playlist_score_def Let_def split: sum.splits option.splits if_splits py_error.splits)
  have "next_token_id ts \<notin> tok_id ` set ts" for ts
    using foldl_max_ge [of 0 "map tok_id ts"] by (fastforce simp: next_token_id_def)
  note fresh = this
  from check obtain r i where "find_room db room = Some r" "find_item db room item = Some i"
    "\<not> (case rm_ends_at r of None \<Rightarrow> False | Some e \<Rightarrow> e < now)" "check_item rq i = None"
    "\<not> attempts_used_up (find (is_attempts_of room (pr_user rq)) (pd_attempts db)) (rm_max_attempts r)"
    "\<not> it_expired i" "it_played_at i = None"
    by (auto simp: check_play_def split: option.splits if_splits)
  then have ?item
    by (intro exI [of _ r] exI [of _ i]) (auto simp: check_item_def attempts_used_up_def split: if_splits option.splits)
  with fresh t db' restricted show ?thesis by simp
qed

text \<open>An unknown ruleset number escapes the handler that should turn it into a client error.\<close>

lemma unknown_ruleset_is_not_caught:
  "from_int (pr_ruleset rq) = Inl KeyError \<Longrightarrow> create_playlist_score cfg hashes now room item rq db = Inl KeyError"
  by (simp add: create_playlist_score_def)

section \<open>Finishing a play: properties\<close>

lemma find_map_kept: "(\<And>x. P (f x) = P x) \<Longrightarrow> find P (map f xs) = map_option f (find P xs)"
  by (induction xs) auto

lemma count_play_frame:
  "count_play now r item user s (db\<lparr>pd_items := items, pd_rooms := rooms\<rparr>) =
     (fst (count_play now r item user s db), (snd (count_play now r item user s db))\<lparr>pd_items := items, pd_rooms := rooms\<rparr>)"
  by (simp add: count_play_def Let_def split: sum.split prod.split)

lemma count_play_room:
  "rm_id r' = rm_id r \<Longrightarrow> rm_category r' = rm_category r \<Longrightarrow> count_play now r' item user s db = count_play now r item user s db"
  unfolding count_play_def by (simp only:)

text \<open>Finishing a play does not look at what starting it checked: whatever the item's map,
  ruleset, expiry and played mark, and whatever the end and the limit of attempts of the room, the
  answer and all tables are the same. A token obtained earlier, or for another map, is
  counted.\<close>

theorem finishing_ignores_the_item:
  assumes "\<And>i. it_id (f i) = it_id i \<and> it_room (f i) = it_room i"
    and "\<And>r. rm_id (g r) = rm_id r \<and> rm_category (g r) = rm_category r"
  shows "submit_playlist_score cfg validate ranked_tbl calc now ym room item rq info token
           (db\<lparr>pd_items := map f (pd_items db), pd_rooms := map g (pd_rooms db)\<rparr>) =
         (let (resp, db') = submit_playlist_score cfg validate ranked_tbl calc now ym room item rq info token db
          in (resp, db'\<lparr>pd_items := map f (pd_items db), pd_rooms := map g (pd_rooms db)\<rparr>))"
proof -
  let ?db = "db\<lparr>pd_items := map f (pd_items db), pd_rooms := map g (pd_rooms db)\<rparr>"
  have item: "find_item ?db room item = map_option f (find_item db room item)"
    unfolding find_item_def by (simp add: find_map_kept assms(1))
  have room: "find_room ?db room = map_option g (find_room db room)"
    unfolding find_room_def by (simp add: find_map_kept assms(2))
  have self: "db = db\<lparr>pd_items := pd_items db, pd_rooms := pd_rooms db\<rparr>" by simp
  show ?thesis
  proof (cases "rq_restricted rq \<or> find_item db room item = None \<or> find_room db room = None")
    case True
    then show ?thesis
      by (auto simp: submit_playlist_score_def item room split: option.split)
  next
    case False
    then obtain r where r: "find_room db room = Some r" by auto
    obtain resp game where game: "submit_score cfg validate ranked_tbl calc now ym rq info token (pd_game db) = (resp, game)"
      by fastforce
    have swap: "?db\<lparr>pd_game := game\<rparr> = db\<lparr>pd_game := game\<rparr>\<lparr>pd_items := map f (pd_items db), pd_rooms := map g (pd_rooms db)\<rparr>"
      by simp
    have frame: "count_play now (g r) item (rq_user rq) s (?db\<lparr>pd_game := game\<rparr>) =
        (fst (count_play now r item (rq_user rq) s (db\<lparr>pd_game := game\<rparr>)),
         (snd (count_play now r item (rq_user rq) s (db\<lparr>pd_game := game\<rparr>)))\<lparr>pd_items := map f (pd_items db), pd_rooms := map g (pd_rooms db)\<rparr>)" for s
      using count_play_frame [of now r item "rq_user rq" s "map g (pd_rooms db)" "map f (pd_items db)" "db\<lparr>pd_game := game\<rparr>"]
        count_play_room [of "g r" r] assms(2) unfolding swap by simp
    show ?thesis
      using False
      by (auto simp: submit_playlist_score_def item room r game frame Let_def split: sum.split prod.split)
  qed
qed

text \<open>A token counts for at most one play: once it is bound to a score, submitting it again,
  for any item of any room, is answered with an error and changes no table.\<close>

theorem bound_token_counts_no_play:
  assumes "find (\<lambda>t. tok_id t = token) (gd_tokens (pd_game db)) = Some t" and "tok_score t = Some sid" and "sid \<noteq> 0"
  shows "\<exists>e. submit_playlist_score cfg validate ranked_tbl calc now ym room item rq info token db = (Inl e, db)"
proof -
  have "\<exists>e. submit_score cfg validate ranked_tbl calc now ym rq info token (pd_game db) = (Inl e, pd_game db)"
    using assms by (auto simp: submit_score_def respond_def Let_def split: option.split)
  then show ?thesis
    by (auto simp: submit_playlist_score_def split: option.split)
qed

lemma update_best_attempts:
  assumes "update_playlist_best room item user sid points scores rows = Inr rows'"
  shows "sum_list (map pl_attempts (room_rows room user rows')) = sum_list (map pl_attempts (room_rows room user rows)) + 1"
proof (cases "find (is_row_of room item user) rows")
  case None
  with assms have "rows' = rows @ [\<lparr>pl_user = user, pl_score = sid, pl_room = room, pl_item = item, pl_total = points, pl_attempts = 1\<rparr>]"
    by (simp add: update_playlist_best_def)
  then show ?thesis by (simp add: room_rows_def)
next
  case (Some r)
  define f where "f b x = (if b then x\<lparr>pl_score := sid, pl_total := points\<rparr> else x)\<lparr>pl_attempts := pl_attempts x + 1\<rparr>" for b and x :: playlist_best
  obtain prev where prev: "find_score scores (pl_score r) = Inr prev"
    using assms Some by (auto simp: update_playlist_best_def py_bind_Inr_iff)
  let ?b = "should_replace (sc_passed prev) (case score_by_id scores sid of None \<Rightarrow> False | Some s \<Rightarrow> sc_passed s) (pl_total r) points"
  obtain b where "rows' = update_first (is_row_of room item user) (\<lambda>_. f b r) rows"
  proof (cases ?b)
    case True
    with assms Some prev show thesis by (intro that [of True]) (simp add: update_playlist_best_def f_def)
  next
    case False
    with assms Some prev show thesis by (intro that [of False]) (simp add: update_playlist_best_def f_def)
  qed
  then have rows': "rows' = update_first (is_row_of room item user) (f b) rows"
    using update_first_const [OF Some, of "f b"] by simp
  have "find (is_row_of room item user) rows \<noteq> None" using Some by simp
  from sum_update_first [OF this, of "\<lambda>r. pl_room r = room \<and> pl_user r = user" "f b" True pl_attempts]
  show ?thesis unfolding rows' room_rows_def by (auto simp: f_def is_row_of_def)
qed

text \<open>An accepted play of an item counts as exactly one attempt of its player in the room, and
  the room's counter for the player is then the sum over the items.\<close>

theorem accepted_play_is_one_attempt:
  assumes "submit_playlist_score cfg validate ranked_tbl calc now ym room item rq info token db = (Inr s, db')"
  shows "sum_list (map pl_attempts (room_rows room (rq_user rq) (pd_best db'))) =
           sum_list (map pl_attempts (room_rows room (rq_user rq) (pd_best db))) + 1 \<and>
         (\<exists>a \<in> set (pd_attempts db'). is_attempts_of room (rq_user rq) a \<and>
            at_attempts a = sum_list (map pl_attempts (room_rows room (rq_user rq) (pd_best db'))))"
proof -
  from assms obtain r tasks game where r: "find_room db room = Some r"
    and game: "submit_score cfg validate ranked_tbl calc now ym rq info token (pd_game db) = (Inr (s, tasks), game)"
    and play: "count_play now r item (rq_user rq) s (db\<lparr>pd_game := game\<rparr>) = (Inr s, db')"
    by (auto simp: submit_playlist_score_def count_play_def Let_def split: if_splits option.splits sum.splits prod.splits)
  have id: "rm_id r = room" using find_set [of _ "pd_rooms db" r] r by (auto simp: find_room_def)
  from play obtain scores a tbl where rows: "update_playlist_best room item (rq_user rq) (sc_id s) (sc_total_score s) (gd_scores game) (pd_best db) =
      Inr (pd_best db')"
    and sums: "attempts_get_or_create room (rq_user rq) scores (pd_best db') tbl = (Inr a, pd_attempts db')"
    by (auto simp: count_play_def process_playlist_best_score_def py_bind_Inr_iff Let_def id split: sum.splits prod.splits)
  have a: "at_attempts a = sum_list (map pl_attempts (room_rows room (rq_user rq) (pd_best db')))" "is_attempts_of room (rq_user rq) a"
    "a \<in> set (pd_attempts db')"
    using attempts_row_sums [OF sums] by simp_all
  with update_best_attempts [OF rows] show ?thesis by auto
qed

section \<open>Opening the day's room\<close>

text \<open>The Redis hash an administrator fills in for a day: strings, any of which may be missing.\<close>

record day_schedule =
  sch_beatmap :: "string option"
  sch_ruleset :: "string option"
  sch_required :: "string option"
  sch_allowed :: "string option"

datatype job_result = Job_idle | Job_retry | Job_opened int

text \<open>Minutes from now to two minutes before the next midnight, rounded towards zero.\<close>

definition daily_duration :: "moment \<Rightarrow> int" where
  "daily_duration now = py_int (of_int (int (start_of_utc_day (now + day_seconds)) - int now - 120) / 60)"

definition next_room_id :: "room list \<Rightarrow> int" where
  "next_room_id rooms = foldl max 0 (map rm_id rooms) + 1"

text \<open>\<^verbatim>\<open>create_playlist_room\<close> with the one item of a daily challenge. \<^verbatim>\<open>add_playlists_to_room\<close> drops an
  item without a map or whose map cannot be resolved; the first item of a room gets number 0.\<close>

definition create_daily_challenge_room ::
  "moment \<Rightarrow> (int \<Rightarrow> bool) \<Rightarrow> int \<Rightarrow> int \<Rightarrow> int \<Rightarrow> room list \<times> playlist_item list \<Rightarrow> room \<times> room list \<times> playlist_item list" where
  "create_daily_challenge_room now resolvable beatmap ruleset duration st =
     (let (rooms, items) = st;
          room = \<lparr>rm_id = next_room_id rooms, rm_category = DAILY_CHALLENGE_ROOM,
                  rm_ends_at = Some (nat (int now + 60 * duration)), rm_max_attempts = None\<rparr>;
          item = \<lparr>it_id = 0, it_room = rm_id room, it_ruleset = ruleset, it_beatmap = beatmap,
                  it_freestyle = False, it_expired = False, it_played_at = None\<rparr>
      in (room, rooms @ [room], (if beatmap \<le> 0 \<or> \<not> resolvable beatmap then items else items @ [item])))"

text \<open>\<^verbatim>\<open>json.loads\<close> of a non-empty mod list; \<open>loads\<close> is the decoder of the standard library as far as
  it decides between a value and an error.\<close>

definition load_mods :: "(string \<Rightarrow> bool) \<Rightarrow> string option \<Rightarrow> bool" where
  "load_mods loads x = (case x of None \<Rightarrow> True | Some s \<Rightarrow> s = [] \<or> loads s)"

definition daily_challenge_job ::
  "moment \<Rightarrow> (day \<Rightarrow> day_schedule option) \<Rightarrow> (string \<Rightarrow> bool) \<Rightarrow> (int \<Rightarrow> bool) \<Rightarrow> room list \<times> playlist_item list
     \<Rightarrow> job_result \<times> room list \<times> playlist_item list" where
  "daily_challenge_job now schedule loads resolvable st =
     (case schedule (date_of now) of
        None \<Rightarrow> (Job_idle, st)
      | Some sch \<Rightarrow>
          if list_ex (\<lambda>r. rm_category r = DAILY_CHALLENGE_ROOM \<and>
                (case rm_ends_at r of None \<Rightarrow> False | Some e \<Rightarrow> now < e)) (fst st) then (Job_idle, st)
          else case (sch_beatmap sch, sch_ruleset sch) of
            (Some b, Some m) \<Rightarrow>
              (case (parse_int b, parse_int m) of
                 (Inr beatmap, Inr ruleset) \<Rightarrow>
                   if load_mods loads (sch_required sch) \<and> load_mods loads (sch_allowed sch) then
                     let (room, st') = create_daily_challenge_room now resolvable beatmap ruleset (daily_duration now) st
                     in (Job_opened (rm_id room), st')
                   else (Job_retry, st)
               | _ \<Rightarrow> (Job_retry, st))
          | _ \<Rightarrow> (Job_retry, st))"

lemma next_midnight: "start_of_utc_day (now + 86400) = 86400 * date_of now + 86400"
  by (simp add: start_of_utc_day_eq date_of_def)

lemma py_int_minutes:
  "0 \<le> s \<Longrightarrow> 0 \<le> 60 * py_int (of_int s / 60) \<and> 60 * py_int (of_int s / 60) \<le> s"
  "s < 0 \<Longrightarrow> - 120 < s \<Longrightarrow> - 60 \<le> 60 * py_int (of_int s / 60) \<and> 60 * py_int (of_int s / 60) \<le> 0"
proof -
  assume "0 \<le> s"
  then have "of_int (py_int (of_int s / 60)) \<le> (of_int s / 60 :: real)" "0 \<le> py_int (of_int s / 60)"
    using py_int_le [of "of_int s / 60"] py_int_nonneg [of "of_int s / 60"] by simp_all
  moreover from this(1) have "real_of_int (60 * py_int (of_int s / 60)) \<le> of_int s" by simp
  ultimately show "0 \<le> 60 * py_int (of_int s / 60) \<and> 60 * py_int (of_int s / 60) \<le> s" by linarith
next
  assume s: "s < 0" "- 120 < s"
  then have "py_int (of_int s / 60) = \<lceil>of_int s / (60::real)\<rceil>" by (simp add: py_int_def)
  moreover have "\<lceil>of_int s / (60::real)\<rceil> \<le> 0" using s by simp
  moreover have "- 2 < of_int s / (60::real)" using s by (simp add: field_simps)
  then have "- 1 \<le> \<lceil>of_int s / (60::real)\<rceil>" by linarith
  ultimately show "- 60 \<le> 60 * py_int (of_int s / 60) \<and> 60 * py_int (of_int s / 60) \<le> 0" by simp
qed

lemma day_bounds: "86400 * date_of t \<le> t \<and> t < 86400 * date_of t + 86400"
  unfolding date_of_def using dividend_less_times_div [of 86400 t] by simp

lemma same_day: "86400 * d \<le> t \<Longrightarrow> t < 86400 * d + 86400 \<Longrightarrow> date_of t = d"
  unfolding date_of_def by (intro div_nat_eqI) simp_all

lemma daily_end:
  "date_of (nat (int now + 60 * daily_duration now)) = date_of now \<and>
   (now + 120 \<le> 86400 * date_of now + 86400 \<longrightarrow>
      now \<le> nat (int now + 60 * daily_duration now) \<and> nat (int now + 60 * daily_duration now) + 120 \<le> 86400 * date_of now + 86400)"
proof -
  let ?s = "int (86400 * date_of now + 86400) - int now - 120"
  let ?e = "nat (int now + 60 * daily_duration now)"
  have dur: "daily_duration now = py_int (of_int ?s / 60)"
    unfolding daily_duration_def next_midnight by simp
  have now: "86400 * date_of now \<le> now" "now < 86400 * date_of now + 86400" using day_bounds by simp_all
  show ?thesis
  proof (cases "0 \<le> ?s")
    case True
    from py_int_minutes(1) [OF this] have "0 \<le> 60 * daily_duration now" "60 * daily_duration now \<le> ?s"
      unfolding dur by simp_all
    then have "now \<le> ?e" "?e + 120 \<le> 86400 * date_of now + 86400" using True by linarith+
    moreover from this now have "date_of ?e = date_of now" by (intro same_day) linarith+
    ultimately show ?thesis by simp
  next
    case False
    then have "?s < 0" "- 120 < ?s" using now by simp_all
    from py_int_minutes(2) [OF this] have "- 60 \<le> 60 * daily_duration now" "60 * daily_duration now \<le> 0"
      unfolding dur by simp_all
    then have "86400 * date_of now \<le> ?e" "?e < 86400 * date_of now + 86400" using False now by linarith+
    then have "date_of ?e = date_of now" by (rule same_day)
    with False show ?thesis by simp
  qed
qed

text \<open>The room the job opens ends on the day it opens, whatever the time of the day, so that the
  closing job of the next day finds it; opened up to two minutes before midnight it ends at least
  two minutes before midnight; and while it runs, the job opens no other.\<close>

theorem daily_room_of_the_day:
  assumes "daily_challenge_job now schedule loads resolvable st = (Job_opened rid, rooms, items)"
  shows "\<exists>e. \<lparr>rm_id = rid, rm_category = DAILY_CHALLENGE_ROOM, rm_ends_at = Some e, rm_max_attempts = None\<rparr> \<in> set rooms \<and>
             rid \<notin> rm_id ` set (fst st) \<and> date_of e = date_of now \<and>
             (now + 120 \<le> 86400 * date_of now + 86400 \<longrightarrow> now \<le> e \<and> e + 120 \<le> 86400 * date_of now + 86400) \<and>
             (\<forall>later < e. daily_challenge_job later schedule loads resolvable (rooms, items) = (Job_idle, rooms, items))"
proof -
  let ?e = "nat (int now + 60 * daily_duration now)"
  from assms have rooms: "rooms = fst st @ [\<lparr>rm_id = next_room_id (fst st), rm_category = DAILY_CHALLENGE_ROOM,
      rm_ends_at = Some ?e, rm_max_attempts = None\<rparr>]" and rid: "rid = next_room_id (fst st)"
    by (auto simp: daily_challenge_job_def create_daily_challenge_room_def Let_def
        split: option.splits if_splits sum.splits prod.splits)
  have "next_room_id rs \<notin> rm_id ` set rs" for rs
    using foldl_max_ge [of 0 "map rm_id rs"] by (fastforce simp: next_room_id_def)
  moreover have "daily_challenge_job later schedule loads resolvable (rooms, items) = (Job_idle, rooms, items)" if "later < ?e" for later
    using that by (auto simp: daily_challenge_job_def rooms split: option.split)
  ultimately show ?thesis
    using daily_end [of now] by (intro exI [of _ ?e]) (simp add: rooms rid)
qed

lemma daily_room_of_the_day_witness:
  "\<exists>e. \<lparr>rm_id = 1, rm_category = DAILY_CHALLENGE_ROOM, rm_ends_at = Some e, rm_max_attempts = None\<rparr> \<in>
        set (fst (snd (daily_challenge_job 1728000301 [20000 \<mapsto> \<lparr>sch_beatmap = Some ''75'', sch_ruleset = Some ''0'',
               sch_required = None, sch_allowed = Some []\<rparr>] (\<lambda>_. False) (\<lambda>_. True) ([], []))))"
proof -
  have parsed: "parse_int ''75'' = Inr 75" "parse_int ''0'' = Inr 0"
    by (subst parse_int_digits, simp_all add: str_isdigit_def is_digit_def digits_val_def digit_val_def)+
  obtain rooms items where job: "daily_challenge_job 1728000301 [20000 \<mapsto> \<lparr>sch_beatmap = Some ''75'', sch_ruleset = Some ''0'',
      sch_required = None, sch_allowed = Some []\<rparr>] (\<lambda>_. False) (\<lambda>_. True) ([], []) = (Job_opened 1, rooms, items)"
    by (simp add: daily_challenge_job_def date_of_def parsed load_mods_def create_daily_challenge_room_def next_room_id_def Let_def)
  from daily_room_of_the_day [OF job] job show ?thesis by auto
qed

section \<open>Witnesses\<close>

definition open_room :: room where
  "open_room = \<lparr>rm_id = 3, rm_category = NORMAL, rm_ends_at = Some 1728003600, rm_max_attempts = Some 2\<rparr>"

definition open_item :: playlist_item where
  "open_item = \<lparr>it_id = 0, it_room = 3, it_ruleset = 0, it_beatmap = 75, it_freestyle = False, it_expired = False, it_played_at = None\<rparr>"

definition open_db :: playlist_db where
  "open_db = \<lparr>pd_game = sample_game RANKED, pd_rooms = [open_room], pd_items = [open_item], pd_best = [], pd_attempts = [],
              pd_players = (\<lambda>_. None), pd_daily = empty_daily\<rparr>"

definition open_request :: play_request where
  "open_request = \<lparr>pr_user = 7, pr_restricted = False, pr_ruleset = 0, pr_ruleset_hash = [], pr_beatmap = 75,
                   pr_client_valid = True, pr_fetch_error = None\<rparr>"

lemma play_starts_on_open_item_witness:
  "\<exists>t db'. create_playlist_score std_config (\<lambda>_. None) 1728000000 3 0 open_request open_db = Inr (t, db') \<and>
      tok_score t = None \<and> tok_beatmap t = 75 \<and> tok_room t = Some 3"
proof -
  have mode: "from_int 0 = Inr OSU" by (simp add: from_int_def)
  have version: "is_current (check_version std_config (\<lambda>_. None) OSU [])"
    by (simp add: check_version_def ruleset_ok_def)
  have check: "check_play 1728000000 3 0 open_request open_db = None"
    by (simp add: check_play_def open_request_def find_room_def find_item_def open_db_def open_room_def open_item_def
        check_item_def attempts_used_up_def)
  have "create_playlist_score std_config (\<lambda>_. None) 1728000000 3 0 open_request open_db \<noteq> Inl e" for e
    using check by (simp add: create_playlist_score_def mode version open_request_def Let_def)
  then obtain t db' where start: "create_playlist_score std_config (\<lambda>_. None) 1728000000 3 0 open_request open_db = Inr (t, db')"
    by (cases "create_playlist_score std_config (\<lambda>_. None) 1728000000 3 0 open_request open_db") auto
  from play_starts_on_open_item [OF start] start show ?thesis by (auto simp: open_request_def)
qed

lemma finishing_ignores_the_item_witness:
  "\<forall>cfg validate ranked_tbl calc now ym rq info token.
     submit_playlist_score cfg validate ranked_tbl calc now ym 3 0 rq info token
       (open_db\<lparr>pd_items := [open_item\<lparr>it_beatmap := 9, it_expired := True\<rparr>],
                pd_rooms := [open_room\<lparr>rm_ends_at := Some 0, rm_max_attempts := Some 1\<rparr>]\<rparr>) =
     (let (resp, db') = submit_playlist_score cfg validate ranked_tbl calc now ym 3 0 rq info token open_db
      in (resp, db'\<lparr>pd_items := [open_item\<lparr>it_beatmap := 9, it_expired := True\<rparr>],
                     pd_rooms := [open_room\<lparr>rm_ends_at := Some 0, rm_max_attempts := Some 1\<rparr>]\<rparr>))"
  using finishing_ignores_the_item [where f = "\<lambda>i. i\<lparr>it_beatmap := 9, it_expired := True\<rparr>"
      and g = "\<lambda>r. r\<lparr>rm_ends_at := Some 0, rm_max_attempts := Some 1\<rparr>" and db = open_db and room = 3 and item = 0]
  by (simp add: open_db_def)

definition bound_token :: score_token where
  "bound_token = \<lparr>tok_id = 4, tok_user = 7, tok_beatmap = 75, tok_score = Some 1, tok_room = Some 3,
                  tok_playlist_item = Some 0, tok_created_at = 1728000000\<rparr>"

lemma bound_token_counts_no_play_witness:
  "\<forall>cfg validate ranked_tbl calc now ym rq info. \<exists>e.
     submit_playlist_score cfg validate ranked_tbl calc now ym 3 0 rq info 4
       (open_db\<lparr>pd_game := (sample_game RANKED)\<lparr>gd_tokens := [bound_token]\<rparr>\<rparr>) =
     (Inl e, open_db\<lparr>pd_game := (sample_game RANKED)\<lparr>gd_tokens := [bound_token]\<rparr>\<rparr>)"
proof (intro allI)
  fix cfg validate ranked_tbl calc now ym rq info
  show "\<exists>e. submit_playlist_score cfg validate ranked_tbl calc now ym 3 0 rq info 4
       (open_db\<lparr>pd_game := (sample_game RANKED)\<lparr>gd_tokens := [bound_token]\<rparr>\<rparr>) =
     (Inl e, open_db\<lparr>pd_game := (sample_game RANKED)\<lparr>gd_tokens := [bound_token]\<rparr>\<rparr>)"
    by (rule bound_token_counts_no_play [where t = bound_token and sid = 1]) (simp_all add: bound_token_def open_db_def)
qed

end
