(* ===== verification/Pins.thy ===== *)
theory Pins
  imports GameModes "HOL-Library.Multiset"
begin

text \<open>
  The scores a player pins to the profile (\<^verbatim>\<open>pin_score\<close>, \<^verbatim>\<open>unpin_score\<close> and \<^verbatim>\<open>reorder_score_pin\<close> of
  \<^verbatim>\<open>src/app/router/v2/score.py\<close>), refined to operations on a list: pinning appends, unpinning
  removes, moving towards the front moves. Moving towards the end does not.
\<close>

section \<open>State and operations\<close>

text \<open>The columns of \<^verbatim>\<open>Score\<close> that pins use; 0 in \<^verbatim>\<open>pinned_order\<close> means not pinned.\<close>

record pin_row =
  pin_id :: int
  pin_user :: int
  pin_mode :: game_mode
  pin_passed :: bool
  pinned_order :: int

definition own_score :: "int \<Rightarrow> int \<Rightarrow> pin_row list \<Rightarrow> pin_row option" where
  "own_score user sid rows = find (\<lambda>r. pin_id r = sid \<and> pin_user r = user) rows"

definition set_order :: "int \<Rightarrow> int \<Rightarrow> pin_row \<Rightarrow> pin_row" where
  "set_order sid n r = (if pin_id r = sid then r\<lparr>pinned_order := n\<rparr> else r)"

definition pin_score :: "int \<Rightarrow> int \<Rightarrow> pin_row list \<Rightarrow> py_error + pin_row list" where
  "pin_score user sid rows =
     (case find (\<lambda>r. pin_id r = sid \<and> pin_user r = user \<and> pin_passed r) rows of
        None \<Rightarrow> Inl (HTTPException 404 ''Score not found'')
      | Some s \<Rightarrow>
          if 0 < pinned_order s then Inr rows
          else
            let orders = map pinned_order (filter (\<lambda>r. pin_user r = user \<and> pin_mode r = pin_mode s) rows);
                next_order = (case orders of [] \<Rightarrow> 0 | n # ns \<Rightarrow> foldl max n ns) + 1
            in Inr (map (set_order sid next_order) rows))"

definition unpin_score :: "int \<Rightarrow> int \<Rightarrow> pin_row list \<Rightarrow> py_error + pin_row list" where
  "unpin_score user sid rows =
     (case own_score user sid rows of
        None \<Rightarrow> Inl (HTTPException 404 ''Score not found'')
      | Some s \<Rightarrow>
          if pinned_order s = 0 then Inr rows
          else Inr (map (\<lambda>r. set_order sid 0
                 (if pin_user r = user \<and> pinned_order s < pinned_order r \<and> pin_mode r = pin_mode s
                  then r\<lparr>pinned_order := pinned_order r - 1\<rparr> else r)) rows))"

text \<open>\<^verbatim>\<open>x is not None and x != 0\<close>: what an optional identifier is in a condition.\<close>

definition truthy :: "int option \<Rightarrow> bool" where
  "truthy x \<longleftrightarrow> x \<noteq> None \<and> x \<noteq> Some 0"

definition sorted_pins :: "int \<Rightarrow> game_mode \<Rightarrow> pin_row list \<Rightarrow> pin_row list" where
  "sorted_pins user mode rows =
     sort_key pinned_order (filter (\<lambda>r. pin_user r = user \<and> 0 < pinned_order r \<and> pin_mode r = mode) rows)"

text \<open>The new orders: the pins between the old and the new place move by one, then the pin itself is
  set. \<open>step\<close> is -1 when it moves down the list and 1 when it moves up.\<close>

definition shift_pins :: "int \<Rightarrow> int \<Rightarrow> int \<Rightarrow> int \<Rightarrow> pin_row list \<Rightarrow> (int \<times> int) list" where
  "shift_pins sid low high step pinned =
     map (\<lambda>r. (pin_id r, pinned_order r + step))
       (filter (\<lambda>r. low \<le> pinned_order r \<and> pinned_order r \<le> high \<and> pin_id r \<noteq> sid) pinned)"

definition apply_orders :: "(int \<times> int) list \<Rightarrow> pin_row list \<Rightarrow> pin_row list" where
  "apply_orders updates rows = fold (\<lambda>(sid, n). map (set_order sid n)) updates rows"

definition reorder_score_pin ::
  "int \<Rightarrow> int \<Rightarrow> int option \<Rightarrow> int option \<Rightarrow> pin_row list \<Rightarrow> py_error + pin_row list" where
  "reorder_score_pin user sid after_id before_id rows =
     (case own_score user sid rows of
        None \<Rightarrow> Inl (HTTPException 404 ''Score not found'')
      | Some s \<Rightarrow>
          if pinned_order s = 0 then Inl (HTTPException 400 ''Score is not pinned'')
          else if (after_id = None) = (before_id = None)
          then Inl (HTTPException 400 ''Either after_score_id or before_score_id must be provided (but not both)'')
          else
            let pinned = sorted_pins user (pin_mode s) rows;
                reference_id = (if truthy after_id then after_id else before_id)
            in case find (\<lambda>r. Some (pin_id r) = reference_id) pinned of
                 None \<Rightarrow> Inl (HTTPException 404
                          (if truthy after_id then ''After score not found'' else ''Before score not found''))
               | Some reference \<Rightarrow>
                   let target = (if truthy after_id then pinned_order reference + 1 else pinned_order reference);
                       current = pinned_order s
                   in if current = target then Inr rows
                      else if current < target then
                        let final = (if truthy after_id then (if current < target then target - 1 else target) else target)
                        in Inr (map (set_order sid final)
                                  (apply_orders (shift_pins sid (current + 1) target (- 1) pinned) rows))
                      else Inr (map (set_order sid target)
                                  (apply_orders (shift_pins sid target (current - 1) 1 pinned) rows)))"

section \<open>The list of pins\<close>

text \<open>The abstract view: the pins of a player and mode as a list of scores. The orders are sound
  when they number that list from 1 on.\<close>

definition pins :: "int \<Rightarrow> game_mode \<Rightarrow> pin_row list \<Rightarrow> int list" where
  "pins user mode rows = map pin_id (sorted_pins user mode rows)"

primrec numbers_from :: "int \<Rightarrow> nat \<Rightarrow> int list" where
  "numbers_from k 0 = []"
| "numbers_from k (Suc n) = k # numbers_from (k + 1) n"

definition numbered :: "int \<Rightarrow> game_mode \<Rightarrow> pin_row list \<Rightarrow> bool" where
  "numbered user mode rows \<longleftrightarrow>
     distinct (map pin_id rows) \<and> list_all (\<lambda>r. 0 \<le> pinned_order r) rows \<and>
     map pinned_order (sorted_pins user mode rows) = numbers_from 1 (length (sorted_pins user mode rows))"

abbreviation is_pin :: "int \<Rightarrow> game_mode \<Rightarrow> pin_row \<Rightarrow> bool" where
  "is_pin user mode r \<equiv> pin_user r = user \<and> 0 < pinned_order r \<and> pin_mode r = mode"

lemma numbers_from_set: "set (numbers_from k n) = {k..<k + int n}"
  by (induction n arbitrary: k) auto

lemma numbers_from_sorted: "sorted_wrt (<) (numbers_from k n)"
  by (induction n arbitrary: k) (auto simp: numbers_from_set)

lemma numbers_from_append:
  "map f (xs @ ys) = numbers_from k (length (xs @ ys)) \<longleftrightarrow>
   map f xs = numbers_from k (length xs) \<and> map f ys = numbers_from (k + int (length xs)) (length ys)"
  by (induction xs arbitrary: k) (auto simp: add.assoc)

lemma numbers_from_shift: "map f xs = numbers_from k n \<Longrightarrow> map (\<lambda>x. f x + d) xs = numbers_from (k + d) n"
  by (induction xs arbitrary: k n) (case_tac n; auto simp: algebra_simps)+

lemma numbers_from_bounds: "map f xs = numbers_from k (length xs) \<Longrightarrow> x \<in> set xs \<Longrightarrow> k \<le> f x \<and> f x < k + int (length xs)"
proof -
  assume "map f xs = numbers_from k (length xs)" and "x \<in> set xs"
  then have "f x \<in> set (numbers_from k (length xs))" by (metis image_eqI list.set_map)
  then show ?thesis by (simp add: numbers_from_set)
qed

lemma sorted_pins_eqI:
  assumes "mset (filter (is_pin user mode) rows) = mset zs" and "map pinned_order zs = numbers_from 1 (length zs)"
  shows "sorted_pins user mode rows = zs"
proof -
  have "distinct (map pinned_order zs)" unfolding assms(2) using numbers_from_sorted strict_sorted_iff by blast
  then have "inj_on pinned_order (set zs)" by (simp add: distinct_map)
  moreover have "set zs = set (filter (is_pin user mode) rows)" using assms(1) mset_eq_setD by metis
  moreover have "sorted (map pinned_order zs)" unfolding assms(2) using numbers_from_sorted strict_sorted_iff by blast
  ultimately show ?thesis unfolding sorted_pins_def using sort_key_inj_key_eq [OF assms(1)] by simp
qed

text \<open>Renumbering: a map over the rows that keeps identifiers, users and modes gives the list whose
  new orders it numbers.\<close>

lemma renumber:
  assumes "\<And>r. pin_user (f r) = pin_user r \<and> pin_mode (f r) = pin_mode r \<and> pin_id (f r) = pin_id r"
    and "set zs = {r \<in> set rows. is_pin user mode (f r)}" and "distinct zs"
    and "map (\<lambda>r. pinned_order (f r)) zs = numbers_from 1 (length zs)"
    and "distinct (map pin_id rows)" and "\<And>r. r \<in> set rows \<Longrightarrow> 0 \<le> pinned_order (f r)"
  shows "pins user mode (map f rows) = map pin_id zs \<and> numbered user mode (map f rows)"
proof -
  have "distinct rows" using assms(5) by (simp add: distinct_map)
  then have "mset zs = mset (filter (\<lambda>r. is_pin user mode (f r)) rows)"
    using assms(2,3) by (intro set_eq_iff_mset_eq_distinct [THEN iffD1]) auto
  then have "mset (filter (is_pin user mode) (map f rows)) = mset (map f zs)"
    by (simp add: filter_map comp_def)
  from sorted_pins_eqI [OF this] assms(4) have "sorted_pins user mode (map f rows) = map f zs" by (simp add: comp_def)
  with assms show ?thesis
    by (simp add: pins_def numbered_def comp_def list_all_iff)
qed

lemma pins_rows:
  assumes "numbered user mode rows"
  shows "distinct (sorted_pins user mode rows)"
    and "set (sorted_pins user mode rows) = {r \<in> set rows. is_pin user mode r}"
    and "distinct (map pin_id (sorted_pins user mode rows))"
    and "map pinned_order (sorted_pins user mode rows) = numbers_from 1 (length (sorted_pins user mode rows))"
proof -
  show "set (sorted_pins user mode rows) = {r \<in> set rows. is_pin user mode r}" by (simp add: sorted_pins_def)
  show "map pinned_order (sorted_pins user mode rows) = numbers_from 1 (length (sorted_pins user mode rows))"
    using assms by (simp add: numbered_def)
  have "distinct (map pin_id (filter (is_pin user mode) rows))"
    using assms by (simp add: numbered_def distinct_map_filter)
  then show "distinct (map pin_id (sorted_pins user mode rows))"
    unfolding sorted_pins_def by (simp add: distinct_map)
  then show "distinct (sorted_pins user mode rows)" by (simp add: distinct_map)
qed

section \<open>Pinning and unpinning\<close>

lemma set_order_fields [simp]:
  "pin_id (set_order sid n r) = pin_id r" "pin_user (set_order sid n r) = pin_user r"
  "pin_mode (set_order sid n r) = pin_mode r"
  "pinned_order (set_order sid n r) = (if pin_id r = sid then n else pinned_order r)"
  by (simp_all add: set_order_def)

lemma same_row: "distinct (map pin_id rows) \<Longrightarrow> r \<in> set rows \<Longrightarrow> s \<in> set rows \<Longrightarrow> pin_id r = pin_id s \<Longrightarrow> r = s"
  by (auto simp: distinct_map dest: inj_onD)

lemma find_row: "find P xs = Some y \<Longrightarrow> y \<in> set xs \<and> P y"
  by (auto simp: find_Some_iff)

lemma next_order:
  assumes "numbered user mode rows" and "s \<in> set rows" and "pin_user s = user" and "pin_mode s = mode"
  shows "(case map pinned_order (filter (\<lambda>r. pin_user r = user \<and> pin_mode r = mode) rows) of
            [] \<Rightarrow> 0 | n # ns \<Rightarrow> foldl max n ns) = int (length (sorted_pins user mode rows))"
proof -
  let ?os = "map pinned_order (filter (\<lambda>r. pin_user r = user \<and> pin_mode r = mode) rows)"
  have mem: "pinned_order s \<in> set ?os" using assms(2-4) by auto
  then obtain n ns where os: "?os = n # ns" by (cases ?os) auto
  have m: "foldl max n ns = Max (set ?os)" unfolding os
    by (simp only: foldl_conv_fold Max.set_eq_fold max.commute)
  have all: "0 \<le> x" if "x \<in> set ?os" for x
    using that assms(1) by (auto simp: numbered_def list_all_iff)
  have pos: "{x \<in> set ?os. 0 < x} = {1..int (length (sorted_pins user mode rows))}"
  proof -
    have "{x \<in> set ?os. 0 < x} = set (map pinned_order (sorted_pins user mode rows))"
      using pins_rows(2) [OF assms(1)] by auto
    also have "\<dots> = {1..<1 + int (length (sorted_pins user mode rows))}"
      unfolding pins_rows(4) [OF assms(1)] numbers_from_set by simp
    finally show ?thesis by auto
  qed
  have "Max (set ?os) = int (length (sorted_pins user mode rows))"
  proof (rule Max_eqI)
    show "y \<le> int (length (sorted_pins user mode rows))" if "y \<in> set ?os" for y
      using pos that all [OF that] by (cases "0 < y") auto
    show "int (length (sorted_pins user mode rows)) \<in> set ?os"
    proof (cases "sorted_pins user mode rows = []")
      case True
      with pos all [OF mem] have "pinned_order s = 0" using mem by (cases "0 < pinned_order s") auto
      with mem True show ?thesis by simp
    next
      case False
      then have "int (length (sorted_pins user mode rows)) \<in> {x \<in> set ?os. 0 < x}" unfolding pos by (cases "sorted_pins user mode rows") auto
      then show ?thesis by simp
    qed
  qed simp
  with m os show ?thesis by simp
qed

theorem pin_appends:
  assumes "numbered user mode rows" and "own_score user sid rows = Some s" and "pin_mode s = mode"
    and "pin_passed s" and "pinned_order s = 0"
  shows "\<exists>rows'. pin_score user sid rows = Inr rows' \<and> pins user mode rows' = pins user mode rows @ [sid] \<and>
           numbered user mode rows'"
proof -
  let ?xs = "sorted_pins user mode rows"
  have s: "s \<in> set rows" "pin_id s = sid" "pin_user s = user"
    using find_row [of _ rows s] assms(2) by (auto simp: own_score_def)
  have ids: "distinct (map pin_id rows)" using assms(1) by (simp add: numbered_def)
  have "find (\<lambda>r. pin_id r = sid \<and> pin_user r = user \<and> pin_passed r) rows = Some s"
  proof -
    have "find (\<lambda>r. pin_id r = sid \<and> pin_user r = user \<and> pin_passed r) rows \<noteq> None"
      using s assms(4) by (auto simp: find_None_iff)
    then obtain r where "find (\<lambda>r. pin_id r = sid \<and> pin_user r = user \<and> pin_passed r) rows = Some r" by auto
    with find_row [OF this] s same_row [OF ids] show ?thesis by metis
  qed
  then have result: "pin_score user sid rows = Inr (map (set_order sid (int (length ?xs) + 1)) rows)"
    using next_order [OF assms(1) s(1,3) assms(3)] assms(3,5) by (simp add: pin_score_def)
  have s_new: "s \<notin> set ?xs" using pins_rows(2) [OF assms(1)] assms(5) by simp
  have "pins user mode (map (set_order sid (int (length ?xs) + 1)) rows) = map pin_id (?xs @ [s]) \<and>
        numbered user mode (map (set_order sid (int (length ?xs) + 1)) rows)"
  proof (rule renumber)
    have keep: "pin_id r \<noteq> sid" if "r \<in> set ?xs" for r
      using that s_new s pins_rows(2) [OF assms(1)] same_row [OF ids, of r s] by auto
    show "set (?xs @ [s]) = {r \<in> set rows. is_pin user mode (set_order sid (int (length ?xs) + 1) r)}"
    proof (intro set_eqI iffI)
      fix r assume "r \<in> set (?xs @ [s])"
      then show "r \<in> {r \<in> set rows. is_pin user mode (set_order sid (int (length ?xs) + 1) r)}"
        using keep [of r] s assms(3) pins_rows(2) [OF assms(1)] by auto
    next
      fix r assume "r \<in> {r \<in> set rows. is_pin user mode (set_order sid (int (length ?xs) + 1) r)}"
      then show "r \<in> set (?xs @ [s])"
        using same_row [OF ids _ s(1), of r] s(2) pins_rows(2) [OF assms(1)] by (cases "pin_id r = sid") auto
    qed
    show "distinct (?xs @ [s])" using pins_rows(1) [OF assms(1)] s_new by simp
    show "map (\<lambda>r. pinned_order (set_order sid (int (length ?xs) + 1) r)) (?xs @ [s]) = numbers_from 1 (length (?xs @ [s]))"
    proof -
      have "map (\<lambda>r. pinned_order (set_order sid (int (length ?xs) + 1) r)) ?xs = map pinned_order ?xs"
        using keep by simp
      then show ?thesis unfolding numbers_from_append using pins_rows(4) [OF assms(1)] s(2) by simp
    qed
    show "0 \<le> pinned_order (set_order sid (int (length ?xs) + 1) r)" if "r \<in> set rows" for r
      using assms(1) that by (auto simp: numbered_def list_all_iff)
  qed (use ids in simp_all)
  with result s(2) show ?thesis by (simp add: pins_def)
qed

lemma split_pins:
  assumes "numbered user mode rows" and "sorted_pins user mode rows = A @ s # B"
  shows "map pinned_order A = numbers_from 1 (length A)" and "pinned_order s = int (length A) + 1"
    and "map pinned_order B = numbers_from (int (length A) + 2) (length B)"
    and "s \<in> set rows" and "is_pin user mode s"
    and "r \<in> set A \<union> set B \<Longrightarrow> pin_id r \<noteq> pin_id s"
proof -
  have "map pinned_order (A @ s # B) = numbers_from 1 (length (A @ s # B))"
    using pins_rows(4) [OF assms(1)] assms(2) by simp
  then have "map pinned_order A = numbers_from 1 (length A)"
    "map pinned_order (s # B) = numbers_from (1 + int (length A)) (length (s # B))"
    unfolding numbers_from_append by simp_all
  then show "map pinned_order A = numbers_from 1 (length A)" "pinned_order s = int (length A) + 1"
    "map pinned_order B = numbers_from (int (length A) + 2) (length B)"
    by (simp_all add: algebra_simps)
  have "s \<in> {r \<in> set rows. is_pin user mode r}" using pins_rows(2) [OF assms(1)] assms(2) by auto
  then show "s \<in> set rows" "is_pin user mode s" by auto
  have "pin_id s \<notin> pin_id ` (set A \<union> set B)" using pins_rows(3) [OF assms(1)] assms(2) by auto
  then show "r \<in> set A \<union> set B \<Longrightarrow> pin_id r \<noteq> pin_id s" by (metis imageI)
qed

lemma own_pin:
  assumes "numbered user mode rows" and "s \<in> set rows" and "pin_user s = user"
  shows "own_score user (pin_id s) rows = Some s"
proof -
  have "own_score user (pin_id s) rows \<noteq> None" using assms(2,3) by (auto simp: own_score_def find_None_iff)
  then obtain r where r: "own_score user (pin_id s) rows = Some r" by auto
  then have "r \<in> set rows" "pin_id r = pin_id s" using find_row [of _ rows r] by (auto simp: own_score_def)
  with r same_row [of rows r s] assms show ?thesis by (simp add: numbered_def)
qed

theorem unpin_removes:
  assumes "numbered user mode rows" and "pins user mode rows = A @ sid # B"
  shows "\<exists>rows'. unpin_score user sid rows = Inr rows' \<and> pins user mode rows' = A @ B \<and> numbered user mode rows'"
proof -
  obtain A' s B' where xs: "sorted_pins user mode rows = A' @ s # B'" and ids: "A = map pin_id A'" "sid = pin_id s" "B = map pin_id B'"
    using assms(2) by (auto simp: pins_def map_eq_append_conv Cons_eq_map_conv)
  note split = split_pins [OF assms(1) xs]
  define f where "f = (\<lambda>r. set_order sid 0 (if pin_user r = user \<and> pinned_order s < pinned_order r \<and> pin_mode r = mode
                  then r\<lparr>pinned_order := pinned_order r - 1\<rparr> else r))"
  have f: "pin_id (f r) = pin_id r" "pin_user (f r) = pin_user r" "pin_mode (f r) = pin_mode r"
    "pinned_order (f r) = (if pin_id r = sid then 0
       else if pin_user r = user \<and> pinned_order s < pinned_order r \<and> pin_mode r = mode then pinned_order r - 1
       else pinned_order r)" for r by (simp_all add: f_def)
  have result: "unpin_score user sid rows = Inr (map f rows)"
    using own_pin [OF assms(1) split(4)] split(5) by (simp add: unpin_score_def ids(2) f_def)
  have A: "pinned_order r < pinned_order s" if "r \<in> set A'" for r
    using numbers_from_bounds [OF split(1) that] split(2) by simp
  have B: "pinned_order s < pinned_order r" if "r \<in> set B'" for r
    using numbers_from_bounds [OF split(3) that] split(2) by simp
  have mem: "set A' \<union> set B' \<union> {s} = {r \<in> set rows. is_pin user mode r}"
    using pins_rows(2) [OF assms(1)] xs by auto
  have "pins user mode (map f rows) = map pin_id (A' @ B') \<and> numbered user mode (map f rows)"
  proof (rule renumber)
    show "set (A' @ B') = {r \<in> set rows. is_pin user mode (f r)}"
    proof (intro set_eqI iffI)
      fix r assume "r \<in> set (A' @ B')"
      then have "r \<in> set rows" "is_pin user mode r" "pin_id r \<noteq> sid" using mem split(6) [of r] ids(2) by auto
      then show "r \<in> {r \<in> set rows. is_pin user mode (f r)}" using split(2) by (auto simp: f)
    next
      fix r assume "r \<in> {r \<in> set rows. is_pin user mode (f r)}"
      then have "r \<in> set rows" "is_pin user mode r" "pin_id r \<noteq> sid" by (auto simp: f split: if_splits)
      then show "r \<in> set (A' @ B')" using mem ids(2) by auto
    qed
    show "distinct (A' @ B')" using pins_rows(1) [OF assms(1)] xs by auto
    have "map (\<lambda>r. pinned_order (f r)) A' = map pinned_order A'"
      using A split(6) by (auto simp: f ids(2) dest: less_asym)
    moreover have shift: "map (\<lambda>r. pinned_order (f r)) B' = map (\<lambda>r. pinned_order r + - 1) B'"
    proof (rule map_cong [OF refl])
      fix r assume r: "r \<in> set B'"
      then have "is_pin user mode r" using mem by blast
      with B [OF r] split(6) [of r] r show "pinned_order (f r) = pinned_order r + - 1" by (simp add: f ids(2))
    qed
    moreover have "map (\<lambda>r. pinned_order (f r)) B' = numbers_from (1 + int (length A')) (length B')"
      unfolding shift using numbers_from_shift [OF split(3), of "- 1"] by (simp add: algebra_simps)
    ultimately show "map (\<lambda>r. pinned_order (f r)) (A' @ B') = numbers_from 1 (length (A' @ B'))"
      unfolding numbers_from_append using split(1) by simp
    show "distinct (map pin_id rows)" using assms(1) by (simp add: numbered_def)
    show "0 \<le> pinned_order (f r)" if "r \<in> set rows" for r
      using assms(1) that split(2) by (auto simp: f numbered_def list_all_iff)
  qed (simp_all add: f)
  with result ids show ?thesis by simp
qed

section \<open>Reordering\<close>

lemma apply_orders_map:
  "distinct (map fst us) \<Longrightarrow> apply_orders us rows =
     map (\<lambda>r. case map_of us (pin_id r) of None \<Rightarrow> r | Some n \<Rightarrow> r\<lparr>pinned_order := n\<rparr>) rows"
proof (induction us arbitrary: rows)
  case (Cons u us)
  obtain sid n where u: "u = (sid, n)" by (cases u)
  have "map_of us sid = None" using Cons.prems by (simp add: u map_of_eq_None_iff)
  then have "(case map_of us (pin_id (set_order sid n r)) of None \<Rightarrow> set_order sid n r | Some m \<Rightarrow> (set_order sid n r)\<lparr>pinned_order := m\<rparr>) =
      (case map_of (u # us) (pin_id r) of None \<Rightarrow> r | Some n \<Rightarrow> r\<lparr>pinned_order := n\<rparr>)" for r
    by (auto simp: u set_order_def split: option.split)
  with Cons show ?case by (simp add: u apply_orders_def)
qed (simp add: apply_orders_def)

definition shifted :: "int \<Rightarrow> game_mode \<Rightarrow> int \<Rightarrow> int \<Rightarrow> int \<Rightarrow> int \<Rightarrow> int \<Rightarrow> pin_row \<Rightarrow> pin_row" where
  "shifted user mode sid n low high d r =
     set_order sid n
       (if is_pin user mode r \<and> low \<le> pinned_order r \<and> pinned_order r \<le> high \<and> pin_id r \<noteq> sid
        then r\<lparr>pinned_order := pinned_order r + d\<rparr> else r)"

lemma shifted_fields [simp]:
  "pin_id (shifted user mode sid n low high d r) = pin_id r"
  "pin_user (shifted user mode sid n low high d r) = pin_user r"
  "pin_mode (shifted user mode sid n low high d r) = pin_mode r"
  by (simp_all add: shifted_def)

lemma shifted_order:
  "pinned_order (shifted user mode sid n low high d r) =
     (if pin_id r = sid then n
      else if is_pin user mode r \<and> low \<le> pinned_order r \<and> pinned_order r \<le> high then pinned_order r + d
      else pinned_order r)"
  by (simp add: shifted_def)

lemma apply_shift:
  assumes "numbered user mode rows"
  shows "map (set_order sid n) (apply_orders (shift_pins sid low high d (sorted_pins user mode rows)) rows) =
     map (shifted user mode sid n low high d) rows"
proof -
  let ?us = "shift_pins sid low high d (sorted_pins user mode rows)"
  let ?Q = "\<lambda>r. low \<le> pinned_order r \<and> pinned_order r \<le> high \<and> pin_id r \<noteq> sid"
  have ids: "distinct (map pin_id rows)" using assms by (simp add: numbered_def)
  have fsts: "map fst ?us = map pin_id (filter ?Q (sorted_pins user mode rows))"
    by (simp add: shift_pins_def comp_def)
  then have d: "distinct (map fst ?us)"
    using pins_rows(3) [OF assms] by (simp add: distinct_map_filter)
  have look: "map_of ?us (pin_id r) = (if is_pin user mode r \<and> ?Q r then Some (pinned_order r + d) else None)"
    if r: "r \<in> set rows" for r
  proof (cases "is_pin user mode r \<and> ?Q r")
    case True
    then have "r \<in> set (filter ?Q (sorted_pins user mode rows))" using pins_rows(2) [OF assms] r by auto
    then have "(pin_id r, pinned_order r + d) \<in> set ?us" by (auto simp: shift_pins_def)
    from map_of_is_SomeI [OF d this] True show ?thesis by simp
  next
    case False
    have "pin_id r \<notin> fst ` set ?us"
    proof
      assume "pin_id r \<in> fst ` set ?us"
      then have "pin_id r \<in> set (map fst ?us)" by simp
      then obtain x where "x \<in> set (sorted_pins user mode rows)" "?Q x" "pin_id x = pin_id r"
        unfolding fsts by auto
      moreover from this have "x \<in> set rows" "is_pin user mode x" using pins_rows(2) [OF assms] by auto
      ultimately show False using same_row [OF ids _ r, of x] False by auto
    qed
    then have "map_of ?us (pin_id r) = None" by (simp add: map_of_eq_None_iff)
    then show ?thesis using False by simp
  qed
  show ?thesis
    unfolding apply_orders_map [OF d] using look by (auto simp: comp_def shifted_def)
qed

text \<open>What the three kinds of move come down to, on the sorted rows: a stretch shifts by one and the
  pin takes the free number.\<close>

text \<open>What a sound move comes down to, on the sorted rows: the stretch between the old and the new
  place shifts by one and the pin takes the free number.\<close>

lemma numbers_pieces:
  assumes "map g A = numbers_from 1 (length A)" and "g s = int (length A) + 1"
    and "map g M = numbers_from (int (length A) + 2) (length M)"
    and "map g C = numbers_from (int (length A) + int (length M) + 2) (length C)"
  shows "map g (A @ s # M @ C) = numbers_from 1 (length (A @ s # M @ C))"
proof -
  have "map g (M @ C) = numbers_from (int (length A) + 2) (length (M @ C))"
    unfolding numbers_from_append using assms(3,4) by (simp add: algebra_simps)
  then have "map g (s # M @ C) = numbers_from (1 + int (length A)) (length (s # M @ C))"
    using assms(2) by (simp add: algebra_simps)
  then show ?thesis unfolding numbers_from_append using assms(1) by simp
qed

lemma moved_up:
  assumes "numbered user mode rows" and "sorted_pins user mode rows = A @ M @ s # C"
  shows "pins user mode (map (shifted user mode (pin_id s) (int (length A) + 1) (int (length A) + 1) (pinned_order s - 1) 1) rows) =
           map pin_id (A @ s # M @ C) \<and>
         numbered user mode (map (shifted user mode (pin_id s) (int (length A) + 1) (int (length A) + 1) (pinned_order s - 1) 1) rows)"
    (is "pins user mode (map ?f rows) = _ \<and> _")
proof (rule renumber)
  have xs: "sorted_pins user mode rows = (A @ M) @ s # C" using assms(2) by simp
  note split = split_pins [OF assms(1) xs]
  have parts: "map pinned_order A = numbers_from 1 (length A)" "map pinned_order M = numbers_from (1 + int (length A)) (length M)"
    using split(1) unfolding numbers_from_append by simp_all
  have mem: "set (A @ s # M @ C) = {r \<in> set rows. is_pin user mode r}"
    using pins_rows(2) [OF assms(1)] assms(2) by auto
  have ids: "distinct (map pin_id rows)" using assms(1) by (simp add: numbered_def)
  have "is_pin user mode (?f r) \<longleftrightarrow> is_pin user mode r" if "r \<in> set rows" for r
    using same_row [OF ids that split(4)] split(5) by (auto simp: shifted_order)
  then show "set (A @ s # M @ C) = {r \<in> set rows. is_pin user mode (?f r)}" unfolding mem by blast
  show "distinct (A @ s # M @ C)" using pins_rows(1) [OF assms(1)] assms(2) by auto
  have "map (\<lambda>r. pinned_order (?f r)) A = map pinned_order A"
  proof (rule map_cong [OF refl])
    fix r assume r: "r \<in> set A"
    with numbers_from_bounds [OF parts(1) r] split(6) [of r]
    show "pinned_order (?f r) = pinned_order r" by (simp add: shifted_order)
  qed
  moreover have shift: "map (\<lambda>r. pinned_order (?f r)) M = map (\<lambda>r. pinned_order r + 1) M"
  proof (rule map_cong [OF refl])
    fix r assume r: "r \<in> set M"
    then have "r \<in> {r \<in> set rows. is_pin user mode r}" unfolding mem [symmetric] by simp
    with numbers_from_bounds [OF parts(2) r] split(2) split(6) [of r] r
    show "pinned_order (?f r) = pinned_order r + 1" by (simp add: shifted_order)
  qed
  moreover have "map (\<lambda>r. pinned_order (?f r)) C = map pinned_order C"
  proof (rule map_cong [OF refl])
    fix r assume r: "r \<in> set C"
    with numbers_from_bounds [OF split(3) r] split(2) split(6) [of r]
    show "pinned_order (?f r) = pinned_order r" by (simp add: shifted_order)
  qed
  moreover have "pinned_order (?f s) = int (length A) + 1" by (simp add: shifted_order)
  moreover have "map (\<lambda>r. pinned_order (?f r)) M = numbers_from (int (length A) + 2) (length M)"
    unfolding shift using numbers_from_shift [OF parts(2), of 1] by (simp add: algebra_simps)
  ultimately show "map (\<lambda>r. pinned_order (?f r)) (A @ s # M @ C) = numbers_from 1 (length (A @ s # M @ C))"
    using parts(1) split(3) by (intro numbers_pieces) (simp_all add: algebra_simps)
  show "distinct (map pin_id rows)" by (rule ids)
  show "0 \<le> pinned_order (?f r)" if "r \<in> set rows" for r
    using assms(1) that by (auto simp: shifted_order numbered_def list_all_iff)
qed simp


text \<open>Moving down with the number of the reference itself: the pin lands behind the reference.\<close>

lemma moved_down:
  assumes "numbered user mode rows" and "sorted_pins user mode rows = A @ s # M @ C"
  shows "pins user mode (map (shifted user mode (pin_id s) (int (length A) + int (length M) + 1) (pinned_order s + 1)
             (int (length A) + int (length M) + 1) (- 1)) rows) = map pin_id (A @ M @ s # C) \<and>
         numbered user mode (map (shifted user mode (pin_id s) (int (length A) + int (length M) + 1) (pinned_order s + 1)
             (int (length A) + int (length M) + 1) (- 1)) rows)"
    (is "pins user mode (map ?f rows) = _ \<and> _")
proof (rule renumber)
  note split = split_pins [OF assms]
  have parts: "map pinned_order M = numbers_from (int (length A) + 2) (length M)"
    "map pinned_order C = numbers_from (int (length A) + 2 + int (length M)) (length C)"
    using split(3) unfolding numbers_from_append by simp_all
  have mem: "set (A @ M @ s # C) = {r \<in> set rows. is_pin user mode r}"
    using pins_rows(2) [OF assms(1)] assms(2) by auto
  have ids: "distinct (map pin_id rows)" using assms(1) by (simp add: numbered_def)
  have "is_pin user mode (?f r) \<longleftrightarrow> is_pin user mode r" if "r \<in> set rows" for r
    using same_row [OF ids that split(4)] split(5) split(2) by (auto simp: shifted_order)
  then show "set (A @ M @ s # C) = {r \<in> set rows. is_pin user mode (?f r)}" unfolding mem by blast
  show "distinct (A @ M @ s # C)" using pins_rows(1) [OF assms(1)] assms(2) by auto
  have "map (\<lambda>r. pinned_order (?f r)) A = map pinned_order A"
  proof (rule map_cong [OF refl])
    fix r assume r: "r \<in> set A"
    with numbers_from_bounds [OF split(1) r] split(2) split(6) [of r]
    show "pinned_order (?f r) = pinned_order r" by (simp add: shifted_order)
  qed
  moreover have shift: "map (\<lambda>r. pinned_order (?f r)) M = map (\<lambda>r. pinned_order r + - 1) M"
  proof (rule map_cong [OF refl])
    fix r assume r: "r \<in> set M"
    then have "r \<in> {r \<in> set rows. is_pin user mode r}" unfolding mem [symmetric] by simp
    with numbers_from_bounds [OF parts(1) r] split(2) split(6) [of r] r
    show "pinned_order (?f r) = pinned_order r + - 1" by (simp add: shifted_order)
  qed
  moreover have "map (\<lambda>r. pinned_order (?f r)) M = numbers_from (1 + int (length A)) (length M)"
    unfolding shift using numbers_from_shift [OF parts(1), of "- 1"] by (simp add: algebra_simps)
  moreover have "map (\<lambda>r. pinned_order (?f r)) C = map pinned_order C"
  proof (rule map_cong [OF refl])
    fix r assume r: "r \<in> set C"
    with numbers_from_bounds [OF parts(2) r] split(2) split(6) [of r]
    show "pinned_order (?f r) = pinned_order r" by (simp add: shifted_order)
  qed
  moreover have "pinned_order (?f s) = int (length A) + int (length M) + 1" by (simp add: shifted_order)
  moreover have "map (\<lambda>r. pinned_order (?f r)) (A @ M) = numbers_from 1 (length (A @ M))"
    unfolding numbers_from_append using calculation split(1) by simp
  ultimately have "map (\<lambda>r. pinned_order (?f r)) ((A @ M) @ s # [] @ C) = numbers_from 1 (length ((A @ M) @ s # [] @ C))"
    using parts(2) by (intro numbers_pieces) (simp_all add: algebra_simps)
  then show "map (\<lambda>r. pinned_order (?f r)) (A @ M @ s # C) = numbers_from 1 (length (A @ M @ s # C))" by simp
  show "distinct (map pin_id rows)" by (rule ids)
  show "0 \<le> pinned_order (?f r)" if "r \<in> set rows" for r
    using assms(1) that split(2) by (auto simp: shifted_order numbered_def list_all_iff)
qed simp

lemma find_pin:
  assumes "numbered user mode rows" and "r \<in> set (sorted_pins user mode rows)"
  shows "find (\<lambda>x. Some (pin_id x) = Some (pin_id r)) (sorted_pins user mode rows) = Some r"
proof -
  have "find (\<lambda>x. Some (pin_id x) = Some (pin_id r)) (sorted_pins user mode rows) \<noteq> None"
    using assms(2) by (auto simp: find_None_iff)
  then obtain x where x: "find (\<lambda>x. Some (pin_id x) = Some (pin_id r)) (sorted_pins user mode rows) = Some x" by auto
  then have "x \<in> set (sorted_pins user mode rows)" "pin_id x = pin_id r" using find_row [OF x] by simp_all
  with x assms pins_rows(3) [OF assms(1)] show ?thesis by (auto simp: distinct_map dest: inj_onD)
qed

text \<open>The handler on a numbered table, in terms of the rows of the pin and of the reference.\<close>

lemma reorder_cases:
  assumes "numbered user mode rows" and "s \<in> set (sorted_pins user mode rows)" and "r \<in> set (sorted_pins user mode rows)"
    and "pin_id r \<noteq> 0"
  shows "reorder_score_pin user (pin_id s) None (Some (pin_id r)) rows =
      Inr (if pinned_order s = pinned_order r then rows
           else if pinned_order s < pinned_order r
           then map (shifted user mode (pin_id s) (pinned_order r) (pinned_order s + 1) (pinned_order r) (- 1)) rows
           else map (shifted user mode (pin_id s) (pinned_order r) (pinned_order r) (pinned_order s - 1) 1) rows)"
    and "reorder_score_pin user (pin_id s) (Some (pin_id r)) None rows =
      Inr (if pinned_order s = pinned_order r + 1 then rows
           else if pinned_order s < pinned_order r + 1
           then map (shifted user mode (pin_id s) (pinned_order r) (pinned_order s + 1) (pinned_order r + 1) (- 1)) rows
           else map (shifted user mode (pin_id s) (pinned_order r + 1) (pinned_order r + 1) (pinned_order s - 1) 1) rows)"
proof -
  have s: "s \<in> set rows" "is_pin user mode s" using assms(2) pins_rows(2) [OF assms(1)] by auto
  have own: "own_score user (pin_id s) rows = Some s" using own_pin [OF assms(1) s(1)] s(2) by simp
  have mode: "pin_mode s = mode" "pinned_order s \<noteq> 0" using s(2) by auto
  note facts = own mode find_pin [OF assms(1,3)] apply_shift [OF assms(1)] truthy_def assms(4)
  show "reorder_score_pin user (pin_id s) None (Some (pin_id r)) rows =
      Inr (if pinned_order s = pinned_order r then rows
           else if pinned_order s < pinned_order r
           then map (shifted user mode (pin_id s) (pinned_order r) (pinned_order s + 1) (pinned_order r) (- 1)) rows
           else map (shifted user mode (pin_id s) (pinned_order r) (pinned_order r) (pinned_order s - 1) 1) rows)"
    unfolding reorder_score_pin_def using facts by (simp add: Let_def)
  show "reorder_score_pin user (pin_id s) (Some (pin_id r)) None rows =
      Inr (if pinned_order s = pinned_order r + 1 then rows
           else if pinned_order s < pinned_order r + 1
           then map (shifted user mode (pin_id s) (pinned_order r) (pinned_order s + 1) (pinned_order r + 1) (- 1)) rows
           else map (shifted user mode (pin_id s) (pinned_order r + 1) (pinned_order r + 1) (pinned_order s - 1) 1) rows)"
    unfolding reorder_score_pin_def using facts by (simp add: Let_def)
qed

lemma pins_split:
  assumes "pins user mode rows = A @ a # M @ b # C"
  obtains A' r M' s C' where "sorted_pins user mode rows = A' @ r # M' @ s # C'"
    and "A = map pin_id A'" "a = pin_id r" "M = map pin_id M'" "b = pin_id s" "C = map pin_id C'"
proof -
  from assms obtain A' r D where first: "sorted_pins user mode rows = A' @ r # D" "A = map pin_id A'" "a = pin_id r"
    "M @ b # C = map pin_id D" by (auto simp: pins_def map_eq_append_conv Cons_eq_map_conv)
  from first(4) [symmetric] obtain M' s C' where "D = M' @ s # C'" "M = map pin_id M'" "b = pin_id s" "C = map pin_id C'"
    by (auto simp: map_eq_append_conv Cons_eq_map_conv)
  with first show thesis by (intro that) simp_all
qed

text \<open>Moving a pin towards the front does what the client asks for: on the list of a player's
  pins of a mode, the pin lands directly before, or directly behind, the reference, all others keep
  their order, and the orders number the list again.\<close>

theorem reorder_towards_front:
  assumes "numbered user mode rows" and "pins user mode rows = A @ ref # M @ sid # C" and "ref \<noteq> 0"
  shows "(\<exists>rows'. reorder_score_pin user sid None (Some ref) rows = Inr rows' \<and>
            pins user mode rows' = A @ sid # ref # M @ C \<and> numbered user mode rows') \<and>
         (\<exists>rows'. reorder_score_pin user sid (Some ref) None rows = Inr rows' \<and>
            pins user mode rows' = A @ ref # sid # M @ C \<and> numbered user mode rows')"
proof -
  from pins_split [OF assms(2)] obtain A' r M' s C' where xs: "sorted_pins user mode rows = A' @ r # M' @ s # C'"
    and ids: "A = map pin_id A'" "ref = pin_id r" "M = map pin_id M'" "sid = pin_id s" "C = map pin_id C'" by metis
  have in_pins: "s \<in> set (sorted_pins user mode rows)" "r \<in> set (sorted_pins user mode rows)" using xs by simp_all
  have order_r: "pinned_order r = int (length A') + 1" using split_pins(2) [OF assms(1) xs] .
  have xs': "sorted_pins user mode rows = (A' @ r # M') @ s # C'" using xs by simp
  have order_s: "pinned_order s = int (length A') + int (length M') + 2" using split_pins(2) [OF assms(1) xs'] by simp
  note cases = reorder_cases [OF assms(1) in_pins, folded ids(2,4), OF assms(3)]
  have front: "sorted_pins user mode rows = A' @ (r # M') @ s # C'" using xs by simp
  have behind: "sorted_pins user mode rows = (A' @ [r]) @ M' @ s # C'" using xs by simp
  from moved_up [OF assms(1) front] have before: "\<exists>rows'. reorder_score_pin user sid None (Some ref) rows = Inr rows' \<and>
            pins user mode rows' = A @ sid # ref # M @ C \<and> numbered user mode rows'"
    unfolding cases(1) order_r using order_s by (simp add: ids)
  have "\<exists>rows'. reorder_score_pin user sid (Some ref) None rows = Inr rows' \<and>
            pins user mode rows' = A @ ref # sid # M @ C \<and> numbered user mode rows'"
  proof (cases M')
    case Nil
    then show ?thesis unfolding cases(2) using assms(1,2) order_r order_s by (simp add: ids)
  next
    case (Cons m ms)
    then have "\<not> pinned_order s < pinned_order r + 1" "pinned_order s \<noteq> pinned_order r + 1" using order_r order_s by simp_all
    with moved_up [OF assms(1) behind] show ?thesis
      unfolding cases(2) using order_r order_s by (simp add: ids add.commute)
  qed
  with before show ?thesis by blast
qed

text \<open>Moving a pin towards the end does not. Asked to put it before a later pin, the handler puts
  it behind that pin; asked to put it behind a later pin that is not the last, it gives it and the
  next pin the same order, so that the list is no longer numbered.\<close>

theorem reorder_towards_end:
  assumes "numbered user mode rows" and "pins user mode rows = A @ sid # M @ ref # C" and "ref \<noteq> 0"
  shows "(\<exists>rows'. reorder_score_pin user sid None (Some ref) rows = Inr rows' \<and>
            pins user mode rows' = A @ M @ ref # sid # C \<and> numbered user mode rows') \<and>
         (\<exists>rows'. reorder_score_pin user sid (Some ref) None rows = Inr rows' \<and>
            (if C = [] then pins user mode rows' = A @ M @ [ref, sid] \<and> numbered user mode rows'
             else \<exists>x \<in> set rows'. \<exists>y \<in> set rows'. is_pin user mode x \<and> is_pin user mode y \<and>
                    pin_id x = sid \<and> pin_id y = hd C \<and> pinned_order x = pinned_order y))"
proof -
  from pins_split [OF assms(2)] obtain A' s M' r C' where xs: "sorted_pins user mode rows = A' @ s # M' @ r # C'"
    and ids: "A = map pin_id A'" "sid = pin_id s" "M = map pin_id M'" "ref = pin_id r" "C = map pin_id C'" by metis
  have in_pins: "s \<in> set (sorted_pins user mode rows)" "r \<in> set (sorted_pins user mode rows)" using xs by simp_all
  have order_s: "pinned_order s = int (length A') + 1" using split_pins(2) [OF assms(1) xs] .
  have xs': "sorted_pins user mode rows = (A' @ s # M') @ r # C'" using xs by simp
  have order_r: "pinned_order r = int (length A') + int (length M') + 2" using split_pins(2) [OF assms(1) xs'] by simp
  note cases = reorder_cases [OF assms(1) in_pins, folded ids(2,4), OF assms(3)]
  have down: "sorted_pins user mode rows = A' @ s # (M' @ [r]) @ C'" using xs by simp
  have later: "pinned_order s \<noteq> pinned_order r" "pinned_order s < pinned_order r" "pinned_order s \<noteq> pinned_order r + 1"
    "pinned_order s < pinned_order r + 1" using order_r order_s by simp_all
  have before: "\<exists>rows'. reorder_score_pin user sid None (Some ref) rows = Inr rows' \<and>
            pins user mode rows' = A @ M @ ref # sid # C \<and> numbered user mode rows'"
    using moved_down [OF assms(1) down] later order_r unfolding cases(1) by (simp add: ids add.commute)
  let ?f = "shifted user mode sid (pinned_order r) (pinned_order s + 1) (pinned_order r + 1) (- 1)"
  have result: "reorder_score_pin user sid (Some ref) None rows = Inr (map ?f rows)"
    using later unfolding cases(2) by simp
  have "if C = [] then pins user mode (map ?f rows) = A @ M @ [ref, sid] \<and> numbered user mode (map ?f rows)
        else \<exists>x \<in> set (map ?f rows). \<exists>y \<in> set (map ?f rows). is_pin user mode x \<and> is_pin user mode y \<and>
               pin_id x = sid \<and> pin_id y = hd C \<and> pinned_order x = pinned_order y"
  proof (cases C')
    case Nil
    have "pinned_order x \<le> pinned_order r" if "x \<in> set rows" "is_pin user mode x" for x
    proof -
      have "x \<in> set (sorted_pins user mode rows)" using that pins_rows(2) [OF assms(1)] by simp
      with numbers_from_bounds [OF pins_rows(4) [OF assms(1)] this] order_r show ?thesis unfolding xs Nil by simp
    qed
    then have same: "map ?f rows = map (shifted user mode sid (pinned_order r) (pinned_order s + 1) (pinned_order r) (- 1)) rows"
      by (intro map_cong refl) (auto simp: shifted_def)
    have "C = []" "int (length A') + int (length (M' @ [r])) + 1 = pinned_order r" using Nil order_r by (simp_all add: ids)
    with moved_down [OF assms(1) down] show ?thesis unfolding same by (simp add: ids)
  next
    case (Cons c cs)
    have xs'': "sorted_pins user mode rows = (A' @ s # M' @ [r]) @ c # cs" using xs Cons by simp
    have order_c: "pinned_order c = pinned_order r + 1" using split_pins(2) [OF assms(1) xs''] order_r by simp
    have c: "c \<in> set rows" "is_pin user mode c" using split_pins(4,5) [OF assms(1) xs''] by auto
    have s: "s \<in> set rows" "is_pin user mode s" using split_pins(4,5) [OF assms(1) xs] by auto
    have "pin_id c \<noteq> sid" using split_pins(6) [OF assms(1) xs, of c] Cons ids(2) by simp
    then have new: "pinned_order (?f c) = pinned_order r" "pinned_order (?f s) = pinned_order r"
      using c order_c later by (simp_all add: shifted_order ids(2))
    have "is_pin user mode (?f s)" "is_pin user mode (?f c)" using new c s later order_r by simp_all
    moreover have "?f s \<in> set (map ?f rows)" "?f c \<in> set (map ?f rows)" using s c by simp_all
    moreover have "pin_id (?f s) = sid" "pin_id (?f c) = hd C" by (simp_all add: ids Cons)
    moreover have "C \<noteq> []" by (simp add: ids Cons)
    ultimately show ?thesis using new unfolding if_not_P [OF \<open>C \<noteq> []\<close>] by metis
  qed
  with before result show ?thesis by blast
qed


section \<open>Witnesses\<close>

definition pin_sample :: "pin_row list" where
  "pin_sample =
     [\<lparr>pin_id = 11, pin_user = 7, pin_mode = OSU, pin_passed = True, pinned_order = 2\<rparr>,
      \<lparr>pin_id = 12, pin_user = 7, pin_mode = OSU, pin_passed = True, pinned_order = 1\<rparr>,
      \<lparr>pin_id = 13, pin_user = 7, pin_mode = OSU, pin_passed = True, pinned_order = 3\<rparr>,
      \<lparr>pin_id = 14, pin_user = 7, pin_mode = OSU, pin_passed = True, pinned_order = 0\<rparr>]"

lemma pin_sample_facts: "numbered 7 OSU pin_sample" "pins 7 OSU pin_sample = [12, 11, 13]"
proof -
  have "sorted_pins 7 OSU pin_sample =
     [\<lparr>pin_id = 12, pin_user = 7, pin_mode = OSU, pin_passed = True, pinned_order = 1\<rparr>,
      \<lparr>pin_id = 11, pin_user = 7, pin_mode = OSU, pin_passed = True, pinned_order = 2\<rparr>,
      \<lparr>pin_id = 13, pin_user = 7, pin_mode = OSU, pin_passed = True, pinned_order = 3\<rparr>]"
    by (simp add: sorted_pins_def pin_sample_def)
  then show "numbered 7 OSU pin_sample" "pins 7 OSU pin_sample = [12, 11, 13]"
    by (simp_all add: numbered_def pins_def) (simp add: pin_sample_def)
qed


lemma reorder_towards_front_witness:
  "\<exists>rows'. reorder_score_pin 7 13 None (Some 12) pin_sample = Inr rows' \<and> pins 7 OSU rows' = [13, 12, 11]"
  using reorder_towards_front [OF pin_sample_facts(1), of "[]" 12 "[11]" 13 "[]"] pin_sample_facts(2) by auto

lemma reorder_towards_end_witness:
  "\<exists>rows'. reorder_score_pin 7 12 None (Some 11) pin_sample = Inr rows' \<and> pins 7 OSU rows' = [11, 12, 13]"
  using reorder_towards_end [OF pin_sample_facts(1), of "[]" 12 "[]" 11 "[13]"] pin_sample_facts(2) by auto

end
