(* ===== verification/Teams.thy ===== *)
theory Teams
  imports GameModes Calendar
begin

text \<open>
  Teams (\<^verbatim>\<open>src/app/router/private/team.py\<close>, \<^verbatim>\<open>src/app/database/team.py\<close>): creating, changing and
  disbanding a team, join requests and their answers, leaving and kicking. The database checks
  primary and foreign keys when a transaction is committed; the handlers of violated keys that
  the checks before them make unreachable in a sequence of requests are left out. Flag and cover
  pictures are represented by the answer of the picture check; storage, caches, notifications
  and the team's ranking are outside.
\<close>

section \<open>State\<close>

record team =
  tm_id :: int
  tm_name :: string
  tm_short_name :: string
  tm_created_at :: moment
  tm_leader :: int
  tm_description :: "string option"
  tm_playmode :: game_mode
  tm_website :: "string option"

record team_member =
  mb_user :: int
  mb_team :: int
  mb_joined_at :: moment

record join_request =
  jr_user :: int
  jr_team :: int
  jr_requested_at :: moment

record teams_db =
  td_users :: "int list"
  td_teams :: "team list"
  td_members :: "team_member list"
  td_requests :: "join_request list"
  td_next_id :: int

definition get_team_row :: "int \<Rightarrow> teams_db \<Rightarrow> team option" where
  "get_team_row tid db = find (\<lambda>t. tm_id t = tid) (td_teams db)"

definition membership :: "int \<Rightarrow> teams_db \<Rightarrow> team_member option" where
  "membership user db = find (\<lambda>m. mb_user m = user) (td_members db)"

definition is_member :: "int \<Rightarrow> int \<Rightarrow> teams_db \<Rightarrow> bool" where
  "is_member user tid db \<longleftrightarrow> list_ex (\<lambda>m. mb_user m = user \<and> mb_team m = tid) (td_members db)"

definition has_request :: "int \<Rightarrow> int \<Rightarrow> teams_db \<Rightarrow> bool" where
  "has_request user tid db \<longleftrightarrow> list_ex (\<lambda>r. jr_user r = user \<and> jr_team r = tid) (td_requests db)"

definition restricted_error :: py_error where
  "restricted_error = HTTPException 403 ''Your account is restricted and cannot perform this action.''"

section \<open>Leaders without a membership\<close>

text \<open>\<^verbatim>\<open>_repair_leader_membership_if_missing\<close>. Adding the row fails when the leader is a member of
  another team, because the user is the primary key of memberships.\<close>

definition repair_leader :: "moment \<Rightarrow> int \<Rightarrow> int \<Rightarrow> teams_db \<Rightarrow> (py_error + bool) \<times> teams_db" where
  "repair_leader now user tid db =
     (if is_member user tid db \<and> \<not> has_request user tid db then (Inr False, db)
      else if \<not> is_member user tid db \<and> membership user db \<noteq> None then (Inl IntegrityError, db)
      else (Inr True,
            db\<lparr>td_members := (if is_member user tid db then td_members db
                             else td_members db @ [\<lparr>mb_user = user, mb_team = tid, mb_joined_at = now\<rparr>]),
               td_requests := filter (\<lambda>r. \<not> (jr_user r = user \<and> jr_team r = tid)) (td_requests db)\<rparr>))"

section \<open>Creating and changing a team\<close>

record team_form =
  tf_name :: string
  tf_short_name :: string
  tf_playmode :: game_mode
  tf_description :: "string option"
  tf_website :: "string option"
  tf_flag_error :: "py_error option"
  tf_cover_error :: "py_error option"

definition strip_option :: "string option \<Rightarrow> string option" where
  "strip_option x = (case x of None \<Rightarrow> None | Some s \<Rightarrow> if s = [] then None else Some (str_strip s))"

text \<open>A website without a scheme gets one.\<close>

definition with_scheme :: "string \<Rightarrow> string" where
  "with_scheme s =
     (if s \<noteq> [] \<and> \<not> (prefix ''http://'' s \<or> prefix ''https://'' s) then ''https://'' @ s else s)"

definition led_by :: "int \<Rightarrow> teams_db \<Rightarrow> team option" where
  "led_by user db =
     (case sort_key tm_created_at (sort_key tm_id (filter (\<lambda>t. tm_leader t = user) (td_teams db))) of
        [] \<Rightarrow> None
      | ts \<Rightarrow> Some (last ts))"

definition create_team :: "moment \<Rightarrow> bool \<Rightarrow> int \<Rightarrow> team_form \<Rightarrow> teams_db \<Rightarrow> (py_error + team) \<times> teams_db" where
  "create_team now restricted me rq db =
     (if restricted then (Inl restricted_error, db)
      else if membership me db \<noteq> None then (Inl (HTTPException 403 ''You are already in a team''), db)
      else case (case led_by me db of Some t \<Rightarrow> if is_member me (tm_id t) db then None else Some t | None \<Rightarrow> None) of
        Some t \<Rightarrow>
          (case repair_leader now me (tm_id t) db of
             (Inl e, db) \<Rightarrow> (Inl e, db)
           | (Inr _, db) \<Rightarrow>
               (Inl (HTTPException 403 (''You are already leading a team (team_id='' @ int_str (tm_id t) @ '')'')), db))
      | None \<Rightarrow>
          let name = str_strip (tf_name rq); short = str_strip (tf_short_name rq) in
          if name = [] then (Inl (HTTPException 400 ''Team name cannot be empty''), db)
          else if short = [] then (Inl (HTTPException 400 ''Team short name cannot be empty''), db)
          else if list_ex (\<lambda>t. tm_name t = name) (td_teams db) then (Inl (HTTPException 409 ''Name already exists''), db)
          else if list_ex (\<lambda>t. tm_short_name t = short) (td_teams db)
          then (Inl (HTTPException 409 ''Short name already exists''), db)
          else case (tf_flag_error rq, tf_cover_error rq) of
            (Some e, _) \<Rightarrow> (Inl e, db)
          | (None, Some e) \<Rightarrow> (Inl e, db)
          | (None, None) \<Rightarrow>
              let t = \<lparr>tm_id = td_next_id db, tm_name = name, tm_short_name = short, tm_created_at = now,
                       tm_leader = me, tm_description = strip_option (tf_description rq),
                       tm_playmode = tf_playmode rq, tm_website = map_option with_scheme (strip_option (tf_website rq))\<rparr>
              in (Inr t, db\<lparr>td_teams := td_teams db @ [t], td_next_id := td_next_id db + 1,
                           td_members := td_members db @ [\<lparr>mb_user = me, mb_team = tm_id t, mb_joined_at = now\<rparr>]\<rparr>))"

record team_patch =
  tp_name :: "string option"
  tp_short_name :: "string option"
  tp_playmode :: "game_mode option"
  tp_description :: "string option"
  tp_website :: "string option"
  tp_flag_error :: "py_error option"
  tp_cover_error :: "py_error option"
  tp_leader :: "int option"

definition or_none :: "string \<Rightarrow> string option" where
  "or_none s = (if s = [] then None else Some s)"

text \<open>The steps of \<^verbatim>\<open>update_team\<close> in the code's order; each either gives the changed team or ends the
  request, and only the last commits.\<close>

definition patch_name :: "string option \<Rightarrow> team list \<Rightarrow> team \<Rightarrow> py_error + team" where
  "patch_name new teams t =
     (case new of
        None \<Rightarrow> Inr t
      | Some s \<Rightarrow>
          let s = str_strip s in
          if s = [] then Inl (HTTPException 400 ''Team name cannot be empty'')
          else if list_ex (\<lambda>u. tm_name u = s \<and> tm_id u \<noteq> tm_id t) teams then Inl (HTTPException 409 ''Name already exists'')
          else Inr (t\<lparr>tm_name := s\<rparr>))"

definition patch_short_name :: "string option \<Rightarrow> team list \<Rightarrow> team \<Rightarrow> py_error + team" where
  "patch_short_name new teams t =
     (case new of
        None \<Rightarrow> Inr t
      | Some s \<Rightarrow>
          let s = str_strip s in
          if s = [] then Inl (HTTPException 400 ''Team short name cannot be empty'')
          else if list_ex (\<lambda>u. tm_short_name u = s \<and> tm_id u \<noteq> tm_id t) teams
          then Inl (HTTPException 409 ''Short name already exists'')
          else Inr (t\<lparr>tm_short_name := s\<rparr>))"

definition patch_texts :: "team_patch \<Rightarrow> team \<Rightarrow> team" where
  "patch_texts rq t =
     (let t = (case tp_playmode rq of None \<Rightarrow> t | Some m \<Rightarrow> t\<lparr>tm_playmode := m\<rparr>);
          t = (case tp_description rq of None \<Rightarrow> t | Some s \<Rightarrow> t\<lparr>tm_description := or_none (str_strip s)\<rparr>)
      in case tp_website rq of None \<Rightarrow> t | Some s \<Rightarrow> t\<lparr>tm_website := or_none (with_scheme (str_strip s))\<rparr>)"

definition patch_leader :: "int option \<Rightarrow> teams_db \<Rightarrow> team \<Rightarrow> py_error + team" where
  "patch_leader new db t =
     (case new of
        None \<Rightarrow> Inr t
      | Some u \<Rightarrow>
          if u \<notin> set (td_users db) then Inl (HTTPException 404 ''Leader not found'')
          else if \<not> is_member u (tm_id t) db then Inl (HTTPException 404 ''Leader is not a member of the team'')
          else Inr (t\<lparr>tm_leader := u\<rparr>))"

definition raise_if :: "py_error option \<Rightarrow> 'a \<Rightarrow> py_error + 'a" where
  "raise_if e x = (case e of None \<Rightarrow> Inr x | Some e \<Rightarrow> Inl e)"

definition put_team :: "team \<Rightarrow> team list \<Rightarrow> team list" where
  "put_team t teams = map (\<lambda>u. if tm_id u = tm_id t then t else u) teams"

definition patch_team :: "team_patch \<Rightarrow> teams_db \<Rightarrow> team \<Rightarrow> py_error + team" where
  "patch_team rq db t =
     py_bind (patch_name (tp_name rq) (td_teams db) t) (\<lambda>t.
     py_bind (patch_short_name (tp_short_name rq) (td_teams db) t) (\<lambda>t.
     py_bind (raise_if (tp_flag_error rq) (patch_texts rq t)) (\<lambda>t.
     py_bind (raise_if (tp_cover_error rq) t) (\<lambda>t. patch_leader (tp_leader rq) db t))))"

definition update_team :: "bool \<Rightarrow> int \<Rightarrow> int \<Rightarrow> team_patch \<Rightarrow> teams_db \<Rightarrow> (py_error + team) \<times> teams_db" where
  "update_team restricted me tid rq db =
     (if restricted then (Inl restricted_error, db)
      else case get_team_row tid db of
        None \<Rightarrow> (Inl (HTTPException 404 ''Team not found''), db)
      | Some t \<Rightarrow>
          if tm_leader t \<noteq> me then (Inl (HTTPException 403 ''You are not the team leader''), db)
          else case patch_team rq db t of
                 Inl e \<Rightarrow> (Inl e, db)
               | Inr t \<Rightarrow> (Inr t, db\<lparr>td_teams := put_team t (td_teams db)\<rparr>))"

section \<open>Disbanding a team\<close>

text \<open>\<^verbatim>\<open>delete_team\<close> deletes the memberships and the team; join requests keep pointing at it, and
  the foreign key of \<^verbatim>\<open>team_requests\<close> has no cascade: with one left, the commit fails.\<close>

definition delete_team :: "bool \<Rightarrow> int \<Rightarrow> int \<Rightarrow> teams_db \<Rightarrow> (py_error + unit) \<times> teams_db" where
  "delete_team restricted me tid db =
     (if restricted then (Inl restricted_error, db)
      else case get_team_row tid db of
        None \<Rightarrow> (Inl (HTTPException 404 ''Team not found''), db)
      | Some t \<Rightarrow>
          if tm_leader t \<noteq> me then (Inl (HTTPException 403 ''You are not the team leader''), db)
          else
            let db' = db\<lparr>td_members := filter (\<lambda>m. mb_team m \<noteq> tid) (td_members db),
                         td_teams := filter (\<lambda>t. tm_id t \<noteq> tid) (td_teams db)\<rparr>
            in if list_all (\<lambda>r. jr_team r \<in> tm_id ` set (td_teams db')) (td_requests db')
               then (Inr (), db') else (Inl IntegrityError, db))"

section \<open>Join requests\<close>

definition get_team_requests :: "(int \<Rightarrow> bool) \<Rightarrow> int \<Rightarrow> int \<Rightarrow> teams_db \<Rightarrow> py_error + join_request list" where
  "get_team_requests restricted me tid db =
     (if restricted me then Inl restricted_error
      else case get_team_row tid db of
        None \<Rightarrow> Inl (HTTPException 404 ''Team not found'')
      | Some t \<Rightarrow>
          if tm_leader t \<noteq> me then Inl (HTTPException 403 ''You are not the team leader'')
          else Inr (sort_key jr_requested_at
                 (filter (\<lambda>r. jr_team r = tid \<and> jr_user r \<in> set (td_users db) \<and> \<not> restricted (jr_user r)) (td_requests db))))"

definition get_team_request_status :: "bool \<Rightarrow> int \<Rightarrow> int \<Rightarrow> teams_db \<Rightarrow> py_error + bool" where
  "get_team_request_status restricted me tid db =
     (if restricted then Inl restricted_error
      else case get_team_row tid db of
        None \<Rightarrow> Inl (HTTPException 404 ''Team not found'')
      | Some t \<Rightarrow>
          if tm_leader t = me then Inr False
          else if membership me db \<noteq> None then Inr False
          else Inr (has_request me tid db))"

definition request_join_team :: "moment \<Rightarrow> bool \<Rightarrow> int \<Rightarrow> int \<Rightarrow> teams_db \<Rightarrow> (py_error + unit) \<times> teams_db" where
  "request_join_team now restricted me tid db =
     (if restricted then (Inl restricted_error, db)
      else case get_team_row tid db of
        None \<Rightarrow> (Inl (HTTPException 404 ''Team not found''), db)
      | Some t \<Rightarrow>
          if tm_leader t = me then
            (case repair_leader now me tid db of (Inl e, db) \<Rightarrow> (Inl e, db) | (Inr _, db) \<Rightarrow> (Inr (), db))
          else if membership me db \<noteq> None then (Inl (HTTPException 403 ''You are already in a team''), db)
          else if has_request me tid db then (Inl (HTTPException 409 ''Join request already exists''), db)
          else (Inr (), db\<lparr>td_requests := td_requests db @ [\<lparr>jr_user = me, jr_team = tid, jr_requested_at = now\<rparr>]\<rparr>))"

definition drop_request :: "int \<Rightarrow> int \<Rightarrow> join_request list \<Rightarrow> join_request list" where
  "drop_request user tid rs = filter (\<lambda>r. \<not> (jr_user r = user \<and> jr_team r = tid)) rs"

definition cancel_join_request :: "bool \<Rightarrow> int \<Rightarrow> int \<Rightarrow> teams_db \<Rightarrow> (py_error + unit) \<times> teams_db" where
  "cancel_join_request restricted me tid db =
     (if restricted then (Inl restricted_error, db)
      else if get_team_row tid db = None then (Inl (HTTPException 404 ''Team not found''), db)
      else if \<not> has_request me tid db then (Inl (HTTPException 404 ''Join request not found''), db)
      else (Inr (), db\<lparr>td_requests := drop_request me tid (td_requests db)\<rparr>))"

text \<open>Accepting moves a member of another team, unless the user leads that team.\<close>

definition handle_request ::
  "moment \<Rightarrow> bool \<Rightarrow> int \<Rightarrow> bool \<Rightarrow> int \<Rightarrow> int \<Rightarrow> teams_db \<Rightarrow> (py_error + unit) \<times> teams_db" where
  "handle_request now restricted me accepted tid user db =
     (if restricted then (Inl restricted_error, db)
      else case get_team_row tid db of
        None \<Rightarrow> (Inl (HTTPException 404 ''Team not found''), db)
      | Some t \<Rightarrow>
          if tm_leader t \<noteq> me then (Inl (HTTPException 403 ''You are not the team leader''), db)
          else if \<not> has_request user tid db then (Inl (HTTPException 404 ''Join request not found''), db)
          else if user \<notin> set (td_users db) then (Inl (HTTPException 404 ''User not found''), db)
          else
            let db' = db\<lparr>td_requests := drop_request user tid (td_requests db)\<rparr> in
            if \<not> accepted then (Inr (), db')
            else case membership user db of
              None \<Rightarrow> (Inr (), db'\<lparr>td_members := td_members db @ [\<lparr>mb_user = user, mb_team = tid, mb_joined_at = now\<rparr>]\<rparr>)
            | Some m \<Rightarrow>
                if mb_team m = tid then (Inr (), db')
                else if (case get_team_row (mb_team m) db of None \<Rightarrow> False | Some old \<Rightarrow> tm_leader old = user)
                then (Inl (HTTPException 409 ''This user leads another team; they must disband or transfer it first.''), db)
                else (Inr (), db'\<lparr>td_members :=
                       map (\<lambda>m. if mb_user m = user then m\<lparr>mb_team := tid, mb_joined_at := now\<rparr> else m) (td_members db)\<rparr>))"

definition kick_member :: "bool \<Rightarrow> int \<Rightarrow> int \<Rightarrow> int \<Rightarrow> teams_db \<Rightarrow> (py_error + unit) \<times> teams_db" where
  "kick_member restricted me tid user db =
     (if restricted then (Inl restricted_error, db)
      else case get_team_row tid db of
        None \<Rightarrow> (Inl (HTTPException 404 ''Team not found''), db)
      | Some t \<Rightarrow>
          if tm_leader t \<noteq> me \<and> user \<noteq> me
          then (Inl (HTTPException 403 ''You are not allowed to remove this member''), db)
          else if \<not> is_member user tid db then (Inl (HTTPException 404 ''User is not a member of the team''), db)
          else if user = me \<and> tm_leader t = me
          then (Inl (HTTPException 403 ''You cannot leave because you are the team leader''), db)
          else (Inr (), db\<lparr>td_members := filter (\<lambda>m. \<not> (mb_team m = tid \<and> mb_user m = user)) (td_members db)\<rparr>))"

text \<open>The members a team page lists: the unrestricted ones, with the leader in front when missing.\<close>

definition team_page_members :: "(int \<Rightarrow> bool) \<Rightarrow> int \<Rightarrow> teams_db \<Rightarrow> py_error + int list" where
  "team_page_members restricted tid db =
     (case get_team_row tid db of
        None \<Rightarrow> Inl (HTTPException 404 ''Team not found'')
      | Some t \<Rightarrow>
          let users = map mb_user (filter (\<lambda>m. mb_team m = tid \<and> \<not> restricted (mb_user m)) (td_members db))
          in Inr (if tm_leader t \<notin> set users \<and> tm_leader t \<in> set (td_users db) \<and> \<not> restricted (tm_leader t)
                  then tm_leader t # users else users))"

section \<open>The invariant\<close>

definition teams_ok :: "teams_db \<Rightarrow> bool" where
  "teams_ok db \<longleftrightarrow>
     distinct (map tm_id (td_teams db)) \<and> distinct (map tm_name (td_teams db)) \<and>
     distinct (map tm_short_name (td_teams db)) \<and>
     (\<forall>t \<in> set (td_teams db). tm_id t < td_next_id db \<and> tm_name t \<noteq> [] \<and> tm_short_name t \<noteq> [] \<and>
        is_member (tm_leader t) (tm_id t) db) \<and>
     distinct (map mb_user (td_members db)) \<and>
     (\<forall>m \<in> set (td_members db). mb_team m \<in> tm_id ` set (td_teams db) \<and> mb_user m \<in> set (td_users db)) \<and>
     distinct (map (\<lambda>r. (jr_user r, jr_team r)) (td_requests db)) \<and>
     (\<forall>r \<in> set (td_requests db). jr_team r \<in> tm_id ` set (td_teams db) \<and> \<not> is_member (jr_user r) (jr_team r) db)"

lemma is_member_iff: "is_member u tid db \<longleftrightarrow> (\<exists>m \<in> set (td_members db). mb_user m = u \<and> mb_team m = tid)"
  by (simp add: is_member_def list_ex_iff)

lemma has_request_iff: "has_request u tid db \<longleftrightarrow> (\<exists>r \<in> set (td_requests db). jr_user r = u \<and> jr_team r = tid)"
  by (simp add: has_request_def list_ex_iff)

lemma get_team_rowD: "get_team_row tid db = Some t \<Longrightarrow> t \<in> set (td_teams db) \<and> tm_id t = tid"
  unfolding get_team_row_def by (drule find_SomeD) simp

lemma membership_None: "membership u db = None \<longleftrightarrow> (\<forall>m \<in> set (td_members db). mb_user m \<noteq> u)"
  by (auto simp: membership_def find_None_iff)

lemma membershipD: "membership u db = Some m \<Longrightarrow> m \<in> set (td_members db) \<and> mb_user m = u"
  unfolding membership_def by (drule find_SomeD) simp

lemma set_drop_request: "set (drop_request u tid rs) = {r \<in> set rs. \<not> (jr_user r = u \<and> jr_team r = tid)}"
  by (simp add: drop_request_def)

lemma distinct_map_inj: "distinct (map f xs) \<Longrightarrow> x \<in> set xs \<Longrightarrow> y \<in> set xs \<Longrightarrow> f x = f y \<Longrightarrow> x = y"
  by (auto simp: distinct_map inj_on_def)

lemma one_team: "teams_ok db \<Longrightarrow> is_member u a db \<Longrightarrow> is_member u b db \<Longrightarrow> a = b"
  unfolding is_member_iff teams_ok_def by (metis distinct_map_inj)

lemma team_leader_member: "teams_ok db \<Longrightarrow> t \<in> set (td_teams db) \<Longrightarrow> is_member (tm_leader t) (tm_id t) db"
  by (simp add: teams_ok_def)

text \<open>In a sound state there is nothing to repair.\<close>

lemma nothing_to_repair:
  assumes "teams_ok db" and "t \<in> set (td_teams db)"
  shows "repair_leader now (tm_leader t) (tm_id t) db = (Inr False, db)"
  using assms by (auto simp: repair_leader_def teams_ok_def has_request_iff)

lemma led_by_None:
  assumes "teams_ok db" and "membership u db = None"
  shows "led_by u db = None"
proof -
  have "filter (\<lambda>t. tm_leader t = u) (td_teams db) = []"
    using assms by (auto simp: filter_empty_conv membership_None teams_ok_def is_member_iff)
  then show ?thesis by (simp add: led_by_def)
qed

lemma teams_ok_created:
  assumes "teams_ok db" and "me \<in> set (td_users db)"
  shows "teams_ok (snd (create_team now restricted me rq db))"
  using assms led_by_None [OF assms(1), of me]
  by (auto simp: create_team_def teams_ok_def is_member_iff membership_None Let_def list_ex_iff image_iff
      split: option.splits if_splits prod.splits) (fastforce+)?

lemma patch_name_ok:
  "patch_name new teams t = Inr t' \<Longrightarrow>
     tm_id t' = tm_id t \<and> tm_short_name t' = tm_short_name t \<and> tm_leader t' = tm_leader t \<and>
     (t' = t \<or> tm_name t' \<noteq> [] \<and> (\<forall>u \<in> set teams. tm_id u \<noteq> tm_id t \<longrightarrow> tm_name u \<noteq> tm_name t'))"
  by (auto simp: patch_name_def list_ex_iff Let_def split: option.splits if_splits)

lemma patch_short_name_ok:
  "patch_short_name new teams t = Inr t' \<Longrightarrow>
     tm_id t' = tm_id t \<and> tm_name t' = tm_name t \<and> tm_leader t' = tm_leader t \<and>
     (t' = t \<or> tm_short_name t' \<noteq> [] \<and> (\<forall>u \<in> set teams. tm_id u \<noteq> tm_id t \<longrightarrow> tm_short_name u \<noteq> tm_short_name t'))"
  by (auto simp: patch_short_name_def list_ex_iff Let_def split: option.splits if_splits)

lemma patch_texts_ok [simp]:
  "tm_id (patch_texts rq t) = tm_id t" "tm_name (patch_texts rq t) = tm_name t"
  "tm_short_name (patch_texts rq t) = tm_short_name t" "tm_leader (patch_texts rq t) = tm_leader t"
  by (simp_all add: patch_texts_def Let_def split: option.split)

lemma patch_leader_ok:
  "patch_leader new db t = Inr t' \<Longrightarrow>
     tm_id t' = tm_id t \<and> tm_name t' = tm_name t \<and> tm_short_name t' = tm_short_name t \<and>
     (t' = t \<or> is_member (tm_leader t') (tm_id t) db)"
  by (auto simp: patch_leader_def split: option.splits if_splits)

lemma raise_if_Inr [simp]: "raise_if e x = Inr y \<longleftrightarrow> e = None \<and> x = y"
  by (auto simp: raise_if_def split: option.split)

text \<open>What a patch keeps of the team.\<close>

lemma patch_team_ok:
  assumes "patch_team rq db t = Inr t'" and "tm_name t \<noteq> []" and "tm_short_name t \<noteq> []" and "is_member (tm_leader t) (tm_id t) db"
  shows "tm_id t' = tm_id t" "tm_name t' \<noteq> []" "tm_short_name t' \<noteq> []" "is_member (tm_leader t') (tm_id t) db"
    "tm_name t' = tm_name t \<or> (\<forall>u \<in> set (td_teams db). tm_id u \<noteq> tm_id t \<longrightarrow> tm_name u \<noteq> tm_name t')"
    "tm_short_name t' = tm_short_name t \<or> (\<forall>u \<in> set (td_teams db). tm_id u \<noteq> tm_id t \<longrightarrow> tm_short_name u \<noteq> tm_short_name t')"
proof -
  from assms(1) obtain a b where "patch_name (tp_name rq) (td_teams db) t = Inr a"
    "patch_short_name (tp_short_name rq) (td_teams db) a = Inr b" "patch_leader (tp_leader rq) db (patch_texts rq b) = Inr t'"
    by (auto simp: patch_team_def py_bind_Inr_iff)
  from \<open>patch_name _ _ _ = _\<close> have a: "tm_id a = tm_id t" "tm_short_name a = tm_short_name t" "tm_leader a = tm_leader t"
    "a = t \<or> tm_name a \<noteq> [] \<and> (\<forall>u \<in> set (td_teams db). tm_id u \<noteq> tm_id t \<longrightarrow> tm_name u \<noteq> tm_name a)"
    by (blast dest: patch_name_ok)+
  from \<open>patch_short_name _ _ _ = _\<close> have b: "tm_id b = tm_id a" "tm_name b = tm_name a" "tm_leader b = tm_leader a"
    "b = a \<or> tm_short_name b \<noteq> [] \<and> (\<forall>u \<in> set (td_teams db). tm_id u \<noteq> tm_id a \<longrightarrow> tm_short_name u \<noteq> tm_short_name b)"
    by (blast dest: patch_short_name_ok)+
  from \<open>patch_leader _ _ _ = _\<close> have c: "tm_id t' = tm_id b" "tm_name t' = tm_name b" "tm_short_name t' = tm_short_name b"
    "tm_leader t' = tm_leader b \<or> is_member (tm_leader t') (tm_id b) db"
    by (auto dest: patch_leader_ok)
  show "tm_id t' = tm_id t" using a b c by simp
  show "tm_name t' \<noteq> []" using a b c assms(2) by auto
  show "tm_short_name t' \<noteq> []" using a b c assms(3) by auto
  show "is_member (tm_leader t') (tm_id t) db" using a b c assms(4) by auto
  show "tm_name t' = tm_name t \<or> (\<forall>u \<in> set (td_teams db). tm_id u \<noteq> tm_id t \<longrightarrow> tm_name u \<noteq> tm_name t')"
    using a b c by auto
  show "tm_short_name t' = tm_short_name t \<or> (\<forall>u \<in> set (td_teams db). tm_id u \<noteq> tm_id t \<longrightarrow> tm_short_name u \<noteq> tm_short_name t')"
    using a b c by auto
qed

lemma distinct_put_team:
  assumes "distinct (map tm_id teams)" and "distinct (map f teams)" and "t \<in> set teams" and "tm_id t' = tm_id t"
    and "f t' = f t \<or> (\<forall>u \<in> set teams. tm_id u \<noteq> tm_id t \<longrightarrow> f u \<noteq> f t')"
  shows "distinct (map f (put_team t' teams))"
  using assms
proof (induction teams)
  case (Cons u us)
  show ?case
  proof (cases "tm_id u = tm_id t")
    case True
    with Cons.prems have "u = t" "put_team t' us = us" "t' \<notin> set us"
      by (auto simp: put_team_def image_iff intro!: map_idI)
    moreover have "\<forall>x \<in> set us. tm_id x \<noteq> tm_id t" using Cons.prems(1) True by (auto simp: image_iff) metis?
    ultimately show ?thesis using Cons.prems True by (auto simp: put_team_def)
  next
    case False
    with Cons.prems have "t \<in> set us" by auto
    moreover have "f u \<notin> f ` set (put_team t' us)"
      using Cons.prems False \<open>t \<in> set us\<close> by (auto simp: put_team_def)
    ultimately show ?thesis using Cons False by (auto simp: put_team_def)
  qed
qed simp

lemma ids_put_team: "map tm_id (put_team t teams) = map tm_id teams"
  by (simp add: put_team_def)

lemma ids_put_team_set: "tm_id ` set (put_team t teams) = tm_id ` set teams"
  using arg_cong [OF ids_put_team [of t teams], of set] by simp

lemma teams_ok_updated:
  assumes ok: "teams_ok db"
  shows "teams_ok (snd (update_team restricted me tid rq db))"
proof (cases "\<exists>t t'. get_team_row tid db = Some t \<and> patch_team rq db t = Inr t' \<and>
                update_team restricted me tid rq db = (Inr t', db\<lparr>td_teams := put_team t' (td_teams db)\<rparr>)")
  case True
  then obtain t t' where row: "get_team_row tid db = Some t" and p: "patch_team rq db t = Inr t'"
    and res: "snd (update_team restricted me tid rq db) = db\<lparr>td_teams := put_team t' (td_teams db)\<rparr>" by auto
  note t = get_team_rowD [OF row]
  have "tm_name t \<noteq> []" "tm_short_name t \<noteq> []" "is_member (tm_leader t) (tm_id t) db" "tm_id t < td_next_id db"
    using ok t by (auto simp: teams_ok_def)
  note props = this patch_team_ok [OF p this(1-3)]
  have "distinct (map f (put_team t' (td_teams db)))"
    if "distinct (map f (td_teams db))" "f t' = f t \<or> (\<forall>u \<in> set (td_teams db). tm_id u \<noteq> tm_id t \<longrightarrow> f u \<noteq> f t')" for f :: "team \<Rightarrow> string"
    using ok t props that by (intro distinct_put_team) (auto simp: teams_ok_def)
  moreover have "is_member u k (db\<lparr>td_teams := ts\<rparr>) = is_member u k db" for u k ts by (simp add: is_member_def)
  ultimately show ?thesis using ok props
    by (auto simp: res teams_ok_def ids_put_team ids_put_team_set) (auto simp: put_team_def)
next
  case False
  then have "snd (update_team restricted me tid rq db) = db"
    by (auto simp: update_team_def split: option.split sum.split)
  with ok show ?thesis by simp
qed

lemma teams_ok_deleted: "teams_ok db \<Longrightarrow> teams_ok (snd (delete_team restricted me tid db))"
  by (auto simp: delete_team_def Let_def teams_ok_def is_member_iff list_all_iff distinct_map_filter split: option.split)
     (fastforce+)?

lemma teams_ok_dropped: "teams_ok db \<Longrightarrow> teams_ok (db\<lparr>td_requests := drop_request u tid (td_requests db)\<rparr>)"
  by (auto simp: teams_ok_def is_member_iff drop_request_def distinct_map_filter)

lemma teams_ok_kicked: "teams_ok db \<Longrightarrow> teams_ok (snd (kick_member restricted me tid user db))"
proof -
  assume ok: "teams_ok db"
  have "teams_ok (db\<lparr>td_members := filter (\<lambda>m. \<not> (mb_team m = tid \<and> mb_user m = user)) (td_members db)\<rparr>)"
    if "get_team_row tid db = Some t" "tm_leader t \<noteq> user" for t
  proof -
    have "\<forall>u \<in> set (td_teams db). tm_id u = tid \<longrightarrow> tm_leader u \<noteq> user"
      using ok get_team_rowD [OF that(1)] that(2) by (auto simp: teams_ok_def dest: distinct_map_inj)
    with ok show ?thesis by (fastforce simp: teams_ok_def is_member_iff distinct_map_filter)
  qed
  with ok show ?thesis by (auto simp: kick_member_def split: option.split)
qed

lemma teams_ok_joined: "teams_ok db \<Longrightarrow> teams_ok (snd (request_join_team now restricted me tid db))"
proof -
  assume ok: "teams_ok db"
  have repair: "repair_leader now (tm_leader t) tid db = (Inr False, db)" if "get_team_row tid db = Some t" for t
    using nothing_to_repair [OF ok, of t] get_team_rowD [OF that] by simp
  have "teams_ok (db\<lparr>td_requests := td_requests db @ [\<lparr>jr_user = me, jr_team = tid, jr_requested_at = now\<rparr>]\<rparr>)"
    if "get_team_row tid db = Some t" "membership me db = None" "\<not> has_request me tid db" for t
    using ok get_team_rowD [OF that(1)] that(2,3)
    by (auto simp: teams_ok_def is_member_iff membership_None has_request_iff)
  with ok repair show ?thesis by (auto simp: request_join_team_def split: option.split)
qed


lemma teams_ok_handled: "teams_ok db \<Longrightarrow> teams_ok (snd (handle_request now restricted me accepted tid user db))"
proof -
  assume ok: "teams_ok db"
  let ?db' = "db\<lparr>td_requests := drop_request user tid (td_requests db)\<rparr>"
  have new: "teams_ok (?db'\<lparr>td_members := td_members db @ [\<lparr>mb_user = user, mb_team = tid, mb_joined_at = now\<rparr>]\<rparr>)"
    if "get_team_row tid db = Some t" "membership user db = None" "user \<in> set (td_users db)" for t
    using ok get_team_rowD [OF that(1)] that(2,3)
    by (fastforce simp: teams_ok_def is_member_iff membership_None drop_request_def distinct_map_filter)
  have moved: "teams_ok (?db'\<lparr>td_members := map (\<lambda>m. if mb_user m = user then m\<lparr>mb_team := tid, mb_joined_at := now\<rparr> else m) (td_members db)\<rparr>)"
    if t: "get_team_row tid db = Some t" and m: "membership user db = Some m"
      and free: "\<not> (case get_team_row (mb_team m) db of None \<Rightarrow> False | Some old \<Rightarrow> tm_leader old = user)" for t m
  proof -
    let ?ms = "map (\<lambda>m. if mb_user m = user then m\<lparr>mb_team := tid, mb_joined_at := now\<rparr> else m) (td_members db)"
    have users: "mb_user \<circ> (\<lambda>m::team_member. if mb_user m = user then m\<lparr>mb_team := tid, mb_joined_at := now\<rparr> else m) = mb_user"
      by (auto simp: fun_eq_iff)
    have kept: "is_member u k (db\<lparr>td_requests := rs, td_members := ?ms\<rparr>) \<longleftrightarrow> (if u = user then k = tid else is_member u k db)"
      for u k rs
    proof -
      have "m\<lparr>mb_team := tid, mb_joined_at := now\<rparr> \<in> set ?ms" "mb_user m = user" using membershipD [OF m] by (auto simp: image_iff)
      then show ?thesis unfolding is_member_iff by (auto intro: rev_bexI)
    qed
    have "tm_leader u \<noteq> user" if "u \<in> set (td_teams db)" for u
    proof
      assume "tm_leader u = user"
      with ok that have "is_member user (tm_id u) db" by (auto simp: teams_ok_def)
      moreover have "is_member user (mb_team m) db" using membershipD [OF m] by (auto simp: is_member_iff)
      ultimately have "mb_team m = tm_id u" by (rule one_team [OF ok, rotated])
      moreover have "find (\<lambda>t. tm_id t = tm_id u) (td_teams db) = Some u"
        using ok that by (auto simp: teams_ok_def find_Some_iff distinct_conv_nth in_set_conv_nth)
      ultimately show False using free \<open>tm_leader u = user\<close> by (simp add: get_team_row_def)
    qed
    then show ?thesis using ok get_team_rowD [OF t] users
      by (auto simp: teams_ok_def kept drop_request_def distinct_map_filter)
  qed
  show ?thesis using ok new moved teams_ok_dropped [OF ok]
    by (auto simp: handle_request_def Let_def split: option.split)
qed

section \<open>Requests to the team pages\<close>

datatype team_call =
    Create team_form | Update int team_patch | Disband int | Join int | Cancel int
  | Accept int int | Reject int int | Kick int int

fun run_call :: "moment \<Rightarrow> bool \<Rightarrow> int \<Rightarrow> team_call \<Rightarrow> teams_db \<Rightarrow> teams_db" where
  "run_call now restricted me (Create rq) db = snd (create_team now restricted me rq db)"
| "run_call now restricted me (Update tid rq) db = snd (update_team restricted me tid rq db)"
| "run_call now restricted me (Disband tid) db = snd (delete_team restricted me tid db)"
| "run_call now restricted me (Join tid) db = snd (request_join_team now restricted me tid db)"
| "run_call now restricted me (Cancel tid) db = snd (cancel_join_request restricted me tid db)"
| "run_call now restricted me (Accept tid user) db = snd (handle_request now restricted me True tid user db)"
| "run_call now restricted me (Reject tid user) db = snd (handle_request now restricted me False tid user db)"
| "run_call now restricted me (Kick tid user) db = snd (kick_member restricted me tid user db)"

inductive team_step :: "teams_db \<Rightarrow> teams_db \<Rightarrow> bool" where
  registered: "team_step db (db\<lparr>td_users := u # td_users db\<rparr>)"
| called: "me \<in> set (td_users db) \<Longrightarrow> team_step db (run_call now restricted me call db)"

definition no_teams :: teams_db where
  "no_teams = \<lparr>td_users = [], td_teams = [], td_members = [], td_requests = [], td_next_id = 1\<rparr>"

lemma run_call_ok: "teams_ok db \<Longrightarrow> me \<in> set (td_users db) \<Longrightarrow> teams_ok (run_call now restricted me call db)"
  by (cases call)
     (auto simp: teams_ok_created teams_ok_updated teams_ok_deleted teams_ok_joined teams_ok_handled teams_ok_kicked
        cancel_join_request_def teams_ok_dropped)

lemma team_step_ok: "team_step db db' \<Longrightarrow> teams_ok db \<Longrightarrow> teams_ok db'"
  by (induction rule: team_step.induct) (auto simp: run_call_ok, auto simp: teams_ok_def is_member_iff)

lemma reachable_teams_ok: "team_step\<^sup>*\<^sup>* no_teams db \<Longrightarrow> teams_ok db"
  by (induction rule: rtranclp_induct) (auto simp: team_step_ok, simp add: teams_ok_def no_teams_def)

text \<open>C13: in every reachable state each team is led by one of its members, nobody is a member of two
  teams or leads two, names and short names are not empty and distinguish the teams, and a pending
  request is to an existing team from somebody who is not in it.\<close>

theorem teams_invariant:
  assumes "team_step\<^sup>*\<^sup>* no_teams db"
  shows "(\<forall>t \<in> set (td_teams db). is_member (tm_leader t) (tm_id t) db \<and> tm_name t \<noteq> [] \<and> tm_short_name t \<noteq> []) \<and>
         distinct (map tm_leader (td_teams db)) \<and> distinct (map mb_user (td_members db)) \<and>
         distinct (map tm_name (td_teams db)) \<and> distinct (map tm_short_name (td_teams db)) \<and>
         (\<forall>m \<in> set (td_members db). mb_team m \<in> tm_id ` set (td_teams db)) \<and>
         (\<forall>r \<in> set (td_requests db). jr_team r \<in> tm_id ` set (td_teams db) \<and> \<not> is_member (jr_user r) (jr_team r) db)"
proof -
  have ok: "teams_ok db" by (rule reachable_teams_ok [OF assms])
  have "inj_on tm_leader (set (td_teams db))"
  proof (rule inj_onI)
    fix s t assume st: "s \<in> set (td_teams db)" "t \<in> set (td_teams db)" "tm_leader s = tm_leader t"
    then have "tm_id s = tm_id t"
      using one_team [OF ok] team_leader_member [OF ok] by metis
    with st ok show "s = t" by (auto simp: teams_ok_def dest: distinct_map_inj)
  qed
  with ok show ?thesis by (auto simp: teams_ok_def distinct_map)
qed

text \<open>Who is in a team before and after a request.\<close>

lemma members_created:
  assumes "teams_ok db"
  shows "is_member u tid (snd (create_team now restricted me rq db)) \<longleftrightarrow>
     is_member u tid db \<or> (u = me \<and> tid = td_next_id db \<and> isl (fst (create_team now restricted me rq db)) = False)"
  using led_by_None [OF assms, of me]
  by (auto simp: create_team_def is_member_iff Let_def split: option.split)

lemma members_updated: "is_member u tid (snd (update_team restricted me k rq db)) = is_member u tid db"
  by (simp add: update_team_def is_member_def split: option.split sum.split)

lemma members_joined:
  "teams_ok db \<Longrightarrow> is_member u tid (snd (request_join_team now restricted me k db)) = is_member u tid db"
  using nothing_to_repair [of db "the (get_team_row k db)" now] get_team_rowD [of k db]
  by (auto simp: request_join_team_def is_member_def split: option.split)

lemma members_cancelled: "is_member u tid (snd (cancel_join_request restricted me k db)) = is_member u tid db"
  by (simp add: cancel_join_request_def is_member_def)

lemma members_deleted:
  "is_member u tid (snd (delete_team restricted me k db)) \<Longrightarrow> is_member u tid db"
  "is_member u tid db \<Longrightarrow> \<not> is_member u tid (snd (delete_team restricted me k db)) \<Longrightarrow>
     tid = k \<and> \<not> restricted \<and> (\<exists>t. get_team_row k db = Some t \<and> tm_leader t = me)"
  by (auto simp: delete_team_def is_member_iff Let_def split: option.splits if_splits)

lemma members_handled:
  assumes "teams_ok db"
  shows "is_member u tid (snd (handle_request now restricted me accepted k v db)) \<Longrightarrow> \<not> is_member u tid db \<Longrightarrow>
     accepted \<and> u = v \<and> tid = k \<and> \<not> restricted \<and> has_request u tid db \<and> (\<exists>t. get_team_row tid db = Some t \<and> tm_leader t = me)"
    "is_member u tid db \<Longrightarrow> \<not> is_member u tid (snd (handle_request now restricted me accepted k v db)) \<Longrightarrow>
     accepted \<and> u = v \<and> \<not> restricted \<and> has_request u k db \<and> (\<forall>t. get_team_row tid db = Some t \<longrightarrow> tm_leader t \<noteq> u) \<and>
     (\<exists>t. get_team_row k db = Some t \<and> tm_leader t = me)"
  using assms membershipD [of v db]
  by (auto simp: handle_request_def is_member_iff membership_None Let_def teams_ok_def split: option.splits if_splits dest: distinct_map_inj)

lemma members_kicked:
  "is_member u tid (snd (kick_member restricted me k v db)) \<Longrightarrow> is_member u tid db"
  "is_member u tid db \<Longrightarrow> \<not> is_member u tid (snd (kick_member restricted me k v db)) \<Longrightarrow>
     tid = k \<and> u = v \<and> \<not> restricted \<and> (\<exists>t. get_team_row k db = Some t \<and> tm_leader t \<noteq> u \<and> (me = u \<or> tm_leader t = me))"
  by (auto simp: kick_member_def is_member_iff split: option.splits if_splits)


text \<open>C14: memberships change only with the consent of those concerned. Somebody new in a team has
  founded it, or has asked to join and the leader has accepted; somebody no longer in it was not
  its leader and left, was removed by the leader, or had asked to join another team whose leader
  accepted, unless the leader disbanded the whole team.\<close>

theorem membership_needs_consent:
  assumes "team_step\<^sup>*\<^sup>* no_teams db" and "db' = run_call now restricted me call db"
  shows "(is_member u tid db' \<and> \<not> is_member u tid db \<longrightarrow>
            u = me \<and> tid = td_next_id db \<and> (\<exists>rq. call = Create rq) \<or>
            call = Accept tid u \<and> has_request u tid db \<and> map_option tm_leader (get_team_row tid db) = Some me) \<and>
         (is_member u tid db \<and> \<not> is_member u tid db' \<longrightarrow>
            call = Disband tid \<and> map_option tm_leader (get_team_row tid db) = Some me \<or>
            map_option tm_leader (get_team_row tid db) \<noteq> Some u \<and>
            (call = Kick tid u \<and> (me = u \<or> map_option tm_leader (get_team_row tid db) = Some me) \<or>
             (\<exists>k. call = Accept k u \<and> has_request u k db \<and> map_option tm_leader (get_team_row k db) = Some me)))"
proof -
  note ok = reachable_teams_ok [OF assms(1)]
  let ?leads = "\<lambda>k. map_option tm_leader (get_team_row k db) = Some me"
  have "u = me \<and> tid = td_next_id db \<and> (\<exists>rq. call = Create rq) \<or> call = Accept tid u \<and> has_request u tid db \<and> ?leads tid"
    if "is_member u tid db'" "\<not> is_member u tid db"
  proof (cases call)
    case (Accept k v)
    then show ?thesis using members_handled(1) [OF ok, of u tid now restricted me True k v] that by (auto simp: assms(2))
  next
    case (Reject k v)
    then show ?thesis using members_handled(1) [OF ok, of u tid now restricted me False k v] that by (auto simp: assms(2))
  qed (use that in \<open>auto simp: assms(2) members_created [OF ok] members_updated members_joined [OF ok] members_cancelled
         dest: members_deleted(1) members_kicked(1)\<close>)
  moreover have "call = Disband tid \<and> ?leads tid \<or> map_option tm_leader (get_team_row tid db) \<noteq> Some u \<and>
      (call = Kick tid u \<and> (me = u \<or> ?leads tid) \<or> (\<exists>k. call = Accept k u \<and> has_request u k db \<and> ?leads k))"
    if left: "is_member u tid db" "\<not> is_member u tid db'"
  proof (cases call)
    case (Disband k)
    then show ?thesis using members_deleted(2) [of u tid db restricted me k] left by (auto simp: assms(2))
  next
    case (Kick k v)
    then show ?thesis using members_kicked(2) [of u tid db restricted me k v] left by (auto simp: assms(2))
  next
    case (Accept k v)
    then show ?thesis using members_handled(2) [OF ok, of u tid now restricted me True k v] left by (auto simp: assms(2))
  next
    case (Reject k v)
    then show ?thesis using members_handled(2) [OF ok, of u tid now restricted me False k v] left by (auto simp: assms(2))
  qed (use left in \<open>auto simp: assms(2) members_created [OF ok] members_updated members_joined [OF ok] members_cancelled\<close>)
  ultimately show ?thesis by blast
qed

text \<open>A pending request keeps a team alive. Its leader can only disband a team nobody has asked to
  join: with a request left, the deletion violates the foreign key of the request and the leader
  gets a server error, and nothing is deleted.\<close>

theorem pending_request_blocks_disbanding:
  assumes "team_step\<^sup>*\<^sup>* no_teams db" and "get_team_row tid db = Some t" and "tm_leader t = me"
  shows "delete_team False me tid db =
     (if \<exists>r \<in> set (td_requests db). jr_team r = tid then (Inl IntegrityError, db)
      else (Inr (), db\<lparr>td_members := filter (\<lambda>m. mb_team m \<noteq> tid) (td_members db),
                      td_teams := filter (\<lambda>t. tm_id t \<noteq> tid) (td_teams db)\<rparr>))"
proof -
  have "\<forall>r \<in> set (td_requests db). jr_team r \<in> tm_id ` set (td_teams db)"
    using reachable_teams_ok [OF assms(1)] by (simp add: teams_ok_def)
  then have "list_all (\<lambda>r. jr_team r \<in> tm_id ` set (filter (\<lambda>t. tm_id t \<noteq> tid) (td_teams db))) (td_requests db) \<longleftrightarrow>
      \<not> (\<exists>r \<in> set (td_requests db). jr_team r = tid)"
    unfolding list_all_iff by auto
  with assms(2,3) show ?thesis by (simp add: delete_team_def Let_def)
qed

section \<open>Witnesses\<close>

definition sample_form :: team_form where
  "sample_form = \<lparr>tf_name = '' Halo '', tf_short_name = ''HL'', tf_playmode = OSU, tf_description = None,
                  tf_website = Some ''halo.test'', tf_flag_error = None, tf_cover_error = None\<rparr>"

text \<open>Player 3 founds a team and player 5 asks to join.\<close>

definition halo_db :: teams_db where
  "halo_db =
     \<lparr>td_users = [5, 3],
      td_teams = [\<lparr>tm_id = 1, tm_name = ''Halo'', tm_short_name = ''HL'', tm_created_at = 9, tm_leader = 3,
                   tm_description = None, tm_playmode = OSU, tm_website = Some ''https://halo.test''\<rparr>],
      td_members = [\<lparr>mb_user = 3, mb_team = 1, mb_joined_at = 9\<rparr>],
      td_requests = [\<lparr>jr_user = 5, jr_team = 1, jr_requested_at = 12\<rparr>], td_next_id = 2\<rparr>"

lemma strip_halo: "str_strip '' Halo '' = ''Halo''" "str_strip ''HL'' = ''HL''" "str_strip ''halo.test'' = ''halo.test''"
  by code_simp+

lemma halo_founded:
  "run_call 9 False 3 (Create sample_form) (no_teams\<lparr>td_users := [5, 3]\<rparr>) = halo_db\<lparr>td_requests := []\<rparr>"
  by (simp add: create_team_def no_teams_def halo_db_def membership_def led_by_def Let_def sample_form_def strip_halo
      strip_option_def with_scheme_def)

lemma halo_asked: "run_call 12 False 5 (Join 1) (halo_db\<lparr>td_requests := []\<rparr>) = halo_db"
  by (simp add: request_join_team_def halo_db_def get_team_row_def membership_def has_request_def)

lemma halo_reached: "team_step\<^sup>*\<^sup>* no_teams halo_db"
proof -
  have "team_step no_teams (no_teams\<lparr>td_users := [3]\<rparr>)"
    using registered [of no_teams 3] by (simp add: no_teams_def)
  moreover have "team_step (no_teams\<lparr>td_users := [3]\<rparr>) (no_teams\<lparr>td_users := [5, 3]\<rparr>)"
    using registered [of "no_teams\<lparr>td_users := [3]\<rparr>" 5] by simp
  moreover have "team_step (no_teams\<lparr>td_users := [5, 3]\<rparr>) (halo_db\<lparr>td_requests := []\<rparr>)"
    unfolding halo_founded [symmetric] by (rule called) simp
  moreover have "team_step (halo_db\<lparr>td_requests := []\<rparr>) halo_db"
    using called [of 5 "halo_db\<lparr>td_requests := []\<rparr>" 12 False "Join 1"] halo_asked by (simp add: halo_db_def)
  ultimately show ?thesis by (meson rtranclp.rtrancl_refl rtranclp.rtrancl_into_rtrancl)
qed

lemma teams_invariant_witness: "is_member 3 1 halo_db \<and> \<not> is_member 5 1 halo_db"
  using teams_invariant [OF halo_reached] by (simp add: halo_db_def)

lemma membership_needs_consent_witness:
  "is_member 5 1 (run_call 20 False 3 (Accept 1 5) halo_db) \<and> has_request 5 1 halo_db"
proof -
  have "is_member 5 1 (run_call 20 False 3 (Accept 1 5) halo_db)"
    by (simp add: handle_request_def halo_db_def get_team_row_def membership_def has_request_def is_member_def Let_def)
  with membership_needs_consent [OF halo_reached refl, of 5 1 20 False 3 "Accept 1 5"] show ?thesis
    by (simp add: halo_db_def is_member_def)
qed

lemma pending_request_blocks_disbanding_witness: "delete_team False 3 1 halo_db = (Inl IntegrityError, halo_db)"
proof -
  have "get_team_row 1 halo_db = Some (hd (td_teams halo_db))" "tm_leader (hd (td_teams halo_db)) = 3" "\<exists>r \<in> set (td_requests halo_db). jr_team r = 1"
    by (simp_all add: halo_db_def get_team_row_def)
  with pending_request_blocks_disbanding [OF halo_reached this(1,2)] show ?thesis by auto
qed

end
