(* ===== verification/Store.thy ===== *)
theory Store
  imports Points "HOL-Library.List_Lexorder" "HOL-Library.Char_ord"
begin

text \<open>
  Spending and receiving points: access codes and the earnings feed
  (\<^verbatim>\<open>src/app/router/v2/torii_points.py\<close>), the cosmetics store (\<^verbatim>\<open>torii_store.py\<close>, with the tables of
  \<^verbatim>\<open>src/app/database/torii_store.py\<close> and the prices of \<^verbatim>\<open>src/app/models/torii_cosmetic_prices.py\<close>)
  and gifts (\<^verbatim>\<open>torii_gifts.py\<close>). Every handler runs in one transaction: its result is committed if the
  unique constraints hold and rolled back otherwise. The handlers lock the rows they check.
\<close>

section \<open>Prices\<close>

definition COSMETIC_PRICES :: "(string \<times> int) list" where
  "COSMETIC_PRICES =
   [(''trail-pearl'', 300), (''trail-crimson'', 300), (''trail-ocean'', 300),
    (''trail-mint'', 300), (''trail-gold'', 300), (''trail-violet'', 300),
    (''trail-bubbles'', 400), (''trail-smoke'', 500), (''trail-origami'', 500),
    (''trail-maple'', 300), (''trail-amber'', 300), (''trail-copper'', 300), (''trail-moss'', 300),
    (''trail-mist'', 500), (''trail-sunset'', 900), (''trail-ember'', 900), (''trail-frost'', 900),
    (''trail-starlight'', 1000), (''trail-lovestruck'', 1200), (''trail-sakura'', 1200),
    (''trail-frostfall'', 1000), (''trail-melody'', 1100), (''trail-serpent'', 1300),
    (''trail-wisp'', 1800), (''trail-heartbeat'', 1300), (''trail-confetti'', 1000),
    (''trail-prism'', 1200), (''trail-arcade'', 900), (''trail-ink-flow'', 900),
    (''trail-comet-tail'', 1000), (''trail-circuit-line'', 1100), (''trail-jellyfish'', 1200),
    (''trail-moths'', 1100), (''trail-harvest'', 900), (''trail-cider'', 900),
    (''trail-dusk-fog'', 900), (''trail-leaf-fall'', 1200), (''trail-acorns'', 1000),
    (''trail-pumpkin-patch'', 1100), (''trail-ember-rise'', 1500), (''trail-autumn-rain'', 1000),
    (''trail-lanterns'', 1200), (''trail-cinnamon'', 1300), (''trail-first-frost'', 1300),
    (''trail-aurora'', 2500), (''trail-rainbow-engined'', 5500), (''trail-inferno'', 2200),
    (''trail-stardust'', 2800), (''trail-comet'', 2600), (''trail-rainbow-ribbon'', 3200),
    (''trail-neon-flux'', 3000), (''trail-comet-prime'', 3200), (''trail-spectrum'', 3600),
    (''trail-neon-surge'', 3400), (''trail-nebula'', 3400), (''trail-glitch'', 2600),
    (''trail-galaxy'', 4500), (''trail-storm'', 2400), (''trail-vhs'', 2200),
    (''trail-bloodmoon'', 2400), (''trail-mycelium'', 2300), (''trail-embersteel'', 2100),
    (''trail-golden-hour'', 2600), (''trail-maple-storm'', 3000), (''trail-bonfire'', 2800),
    (''trail-harvest-moon'', 3000), (''name-crimson'', 200), (''name-ocean'', 200),
    (''name-mint'', 200), (''name-gold'', 200), (''name-violet'', 200), (''name-coral'', 200),
    (''name-sunset'', 800), (''name-tide'', 800), (''name-forest'', 800), (''name-berry'', 800),
    (''name-maple'', 200), (''name-amber'', 200), (''name-moss'', 200), (''name-harvest'', 800),
    (''name-dusk'', 800), (''name-ember'', 800), (''name-cider'', 800), (''name-twilight'', 800),
    (''name-candlelight'', 1500), (''name-smoulder'', 1500), (''summer-2026'', 3000),
    (''autumn-leaffall'', 2500), (''autumn-leaffall-gust'', 2500),
    (''autumn-leaffall-dusk'', 2500), (''autumn-maple-wind'', 4500), (''stardust'', 10000),
    (''customisation-unlock'', 100), (''accent-hue-unlock'', 5000)]"

definition price_for :: "string \<Rightarrow> int option" where
  "price_for cid = map_of COSMETIC_PRICES cid"

lemma prices_positive: "list_all (\<lambda>(_, p). 0 < p) COSMETIC_PRICES"
  by (simp add: COSMETIC_PRICES_def)

lemma price_positive: "price_for cid = Some p \<Longrightarrow> 0 < p"
  using prices_positive by (auto simp: price_for_def list_all_iff dest!: map_of_SomeD)

section \<open>Strings of requests\<close>

text \<open>The pattern \<^verbatim>\<open>[A-Za-z0-9_-]{1,128}\<close>.\<close>

definition id_char :: "char \<Rightarrow> bool" where
  "id_char c \<longleftrightarrow> is_digit c \<or> (let n = (of_char c :: nat) in 65 \<le> n \<and> n \<le> 90 \<or> 97 \<le> n \<and> n \<le> 122) \<or>
     c = CHR ''_'' \<or> c = CHR ''-''"

definition valid_cosmetic_id :: "string \<Rightarrow> bool" where
  "valid_cosmetic_id s \<longleftrightarrow> 1 \<le> length s \<and> length s \<le> 128 \<and> list_all id_char s"

definition clean_cosmetic_ids :: "string list option \<Rightarrow> string list" where
  "clean_cosmetic_ids ids = filter valid_cosmetic_id (map str_strip (case ids of None \<Rightarrow> [] | Some xs \<Rightarrow> xs))"

section \<open>State\<close>

text \<open>The columns the handlers use. The JSON text of \<^verbatim>\<open>grant_cosmetics\<close> and of the disabled list is
  kept as the list it encodes; None is a missing or empty column.\<close>

record access_code =
  ac_id :: int
  ac_code :: string
  ac_amount :: int
  ac_grant :: "string list option"
  ac_max_uses :: int
  ac_uses :: int
  ac_expires_at :: "moment option"

record owned_cosmetic =
  ow_user :: int
  ow_id :: string
  ow_source :: string

record gift =
  gf_id :: int
  gf_recipient :: int
  gf_points :: int
  gf_grant :: "string list option"
  gf_message :: "string option"
  gf_created_by :: int
  gf_claimed_at :: "moment option"

record store_db =
  st_points :: points_db
  st_names :: "(int \<times> string) list"
  st_codes :: "access_code list"
  st_redemptions :: "(int \<times> int) list"
  st_owned :: "owned_cosmetic list"
  st_gifts :: "gift list"
  st_disabled :: "string list"

definition owned_keys :: "owned_cosmetic list \<Rightarrow> (int \<times> string) list" where
  "owned_keys rows = map (\<lambda>r. (ow_user r, ow_id r)) rows"

text \<open>The unique constraints of the redemption and ownership tables, which the database checks when
  the transaction is committed.\<close>

definition constraints_hold :: "store_db \<Rightarrow> bool" where
  "constraints_hold db \<longleftrightarrow> distinct (st_redemptions db) \<and> distinct (owned_keys (st_owned db))"

section \<open>Ownership\<close>

text \<open>\<^verbatim>\<open>record_owned_cosmetics\<close>: the owned identifiers are read once, before the loop.\<close>

definition owns :: "owned_cosmetic list \<Rightarrow> int \<Rightarrow> string \<Rightarrow> bool" where
  "owns rows user cid \<longleftrightarrow> (user, cid) \<in> set (owned_keys rows)"

definition record_owned_cosmetics :: "int \<Rightarrow> string list \<Rightarrow> string \<Rightarrow> owned_cosmetic list \<Rightarrow> owned_cosmetic list" where
  "record_owned_cosmetics user ids source rows =
     rows @ map (\<lambda>c. \<lparr>ow_user = user, ow_id = c, ow_source = source\<rparr>)
       (filter (\<lambda>c. \<not> owns rows user c) (filter (\<lambda>c. c \<noteq> []) (map str_strip ids)))"

definition get_owned :: "int \<Rightarrow> store_db \<Rightarrow> string set" where
  "get_owned user db = {cid. owns (st_owned db) user cid}"

section \<open>Access codes\<close>

text \<open>\<^verbatim>\<open>_parse_cosmetics\<close> of the points router drops blank entries, that of the gifts does not.\<close>

definition code_cosmetics :: "access_code \<Rightarrow> string list" where
  "code_cosmetics c = (case ac_grant c of None \<Rightarrow> [] | Some xs \<Rightarrow> filter (\<lambda>x. str_strip x \<noteq> []) xs)"

definition code_key :: "int \<Rightarrow> int \<Rightarrow> string" where
  "code_key code user = ''access_code:'' @ int_str code @ '':'' @ int_str user"

definition use_code :: "int \<Rightarrow> access_code list \<Rightarrow> access_code list" where
  "use_code cid codes = map (\<lambda>c. if ac_id c = cid then c\<lparr>ac_uses := ac_uses c + 1\<rparr> else c) codes"

definition redeem_code ::
  "moment \<Rightarrow> int \<Rightarrow> string \<Rightarrow> store_db \<Rightarrow> (py_error + int \<times> int \<times> string list) \<times> store_db" where
  "redeem_code now user code db =
     (let code_str = str_upper (str_strip code) in
      if code_str = [] then (Inl (HTTPException 400 ''Enter a code''), db)
      else case find (\<lambda>c. ac_code c = code_str) (st_codes db) of
        None \<Rightarrow> (Inl (HTTPException 404 ''Invalid code''), db)
      | Some c \<Rightarrow>
          if (case ac_expires_at c of None \<Rightarrow> False | Some e \<Rightarrow> e < now)
          then (Inl (HTTPException 400 ''This code has expired''), db)
          else if ac_max_uses c \<le> ac_uses c
          then (Inl (HTTPException 400 ''This code has already been fully redeemed''), db)
          else if (ac_id c, user) \<in> set (st_redemptions db)
          then (Inl (HTTPException 400 ''You already redeemed this code''), db)
          else
            let granted = code_cosmetics c;
                points = snd (award now user (ac_amount c) (reason_value ACCESS_CODE) (Some (''code:'' @ int_str (ac_id c)))
                           (Some (code_key (ac_id c) user)) (st_points db));
                db' = db\<lparr>st_redemptions := st_redemptions db @ [(ac_id c, user)],
                         st_codes := use_code (ac_id c) (st_codes db),
                         st_points := points,
                         st_owned := record_owned_cosmetics user granted ''code'' (st_owned db)\<rparr>
            in if constraints_hold db' then (Inr (ac_amount c, get_balance points user, granted), db')
               else (Inl (HTTPException 400 ''You already redeemed this code''), db))"

text \<open>The body of \<^verbatim>\<open>create_access_code\<close>; the random code is an argument, used when the administrator
  gives none.\<close>

record code_request =
  cr_amount :: int
  cr_grant :: "string list option"
  cr_code :: "string option"
  cr_max_uses :: int
  cr_expires_at :: "moment option"

definition next_id :: "int list \<Rightarrow> int" where
  "next_id ids = foldl max 0 ids + 1"

definition create_access_code ::
  "bool \<Rightarrow> string \<Rightarrow> code_request \<Rightarrow> store_db \<Rightarrow> (py_error + access_code) \<times> store_db" where
  "create_access_code is_admin generated rq db =
     (if \<not> is_admin then (Inl (HTTPException 403 ''Admin only''), db)
      else
        let given = (case cr_code rq of None \<Rightarrow> generated | Some s \<Rightarrow> if s = [] then generated else s);
            code_str = str_upper (str_strip given)
        in if code_str = [] then (Inl (HTTPException 400 ''Invalid code''), db)
           else if find (\<lambda>c. ac_code c = code_str) (st_codes db) \<noteq> None
           then (Inl (HTTPException 409 ''That code already exists''), db)
           else
             let grant = clean_cosmetic_ids (cr_grant rq) in
             if cr_amount rq \<le> 0 \<and> grant = []
             then (Inl (HTTPException 400 ''A code must grant points, a cosmetic, or both''), db)
             else
               let c = \<lparr>ac_id = next_id (map ac_id (st_codes db)), ac_code = code_str, ac_amount = cr_amount rq,
                        ac_grant = (if grant = [] then None else Some grant), ac_max_uses = cr_max_uses rq,
                        ac_uses = 0, ac_expires_at = cr_expires_at rq\<rparr>
               in (Inr c, db\<lparr>st_codes := st_codes db @ [c]\<rparr>))"

section \<open>Gifts\<close>

definition resolve_user :: "string \<Rightarrow> store_db \<Rightarrow> int option" where
  "resolve_user recipient db =
     (let r = str_strip recipient in
      if r = [] then None
      else if str_isdigit r then map_option fst (find (\<lambda>(i, _). i = int (digits_val r)) (st_names db))
      else map_option fst (find (\<lambda>(_, n). n = r) (st_names db)))"

definition create_gift ::
  "bool \<Rightarrow> int \<Rightarrow> string \<Rightarrow> int \<Rightarrow> string list option \<Rightarrow> string option \<Rightarrow> store_db \<Rightarrow> (py_error + int) \<times> store_db" where
  "create_gift is_admin me recipient points grant_cosmetics message db =
     (if \<not> is_admin then (Inl (HTTPException 403 ''Admin only''), db)
      else case resolve_user recipient db of
        None \<Rightarrow> (Inl (HTTPException 404 ''No such user''), db)
      | Some user \<Rightarrow>
          let grant = clean_cosmetic_ids grant_cosmetics in
          if points \<le> 0 \<and> grant = []
          then (Inl (HTTPException 400 ''A gift must include points, a cosmetic, or both''), db)
          else
            let g = \<lparr>gf_id = next_id (map gf_id (st_gifts db)), gf_recipient = user, gf_points = points,
                     gf_grant = (if grant = [] then None else Some grant), gf_message = message,
                     gf_created_by = me, gf_claimed_at = None\<rparr>
            in (Inr (gf_id g), db\<lparr>st_gifts := st_gifts db @ [g]\<rparr>))"

text \<open>\<^verbatim>\<open>handle_founder_friend\<close>: the automatic gift for befriending the founder. A gift from the founder
  with the same message means it was given before; the aura of the gift is switched off in the
  source. The answer says whether a gift was made.\<close>

definition FOUNDER_GIFT_POINTS :: int where "FOUNDER_GIFT_POINTS = 300"

definition FOUNDER_GIFT_MESSAGE :: string where
  "FOUNDER_GIFT_MESSAGE =
     ''Thank you for being here! Run away with this small pouch and don't tell anyone! '' @
     ''-Shikkesora, Torii Founder''"

definition is_founder_gift :: "int \<Rightarrow> int \<Rightarrow> gift \<Rightarrow> bool" where
  "is_founder_gift founder user g \<longleftrightarrow>
     gf_recipient g = user \<and> gf_created_by g = founder \<and> gf_message g = Some FOUNDER_GIFT_MESSAGE"

definition handle_founder_friend :: "int \<Rightarrow> int \<Rightarrow> store_db \<Rightarrow> bool \<times> store_db" where
  "handle_founder_friend founder user db =
     (if user = founder then (False, db)
      else if find (is_founder_gift founder user) (st_gifts db) \<noteq> None then (False, db)
      else (True, db\<lparr>st_gifts := st_gifts db @
              [\<lparr>gf_id = next_id (map gf_id (st_gifts db)), gf_recipient = user, gf_points = FOUNDER_GIFT_POINTS,
                gf_grant = None, gf_message = Some FOUNDER_GIFT_MESSAGE, gf_created_by = founder,
                gf_claimed_at = None\<rparr>]\<rparr>))"

definition get_pending_gifts :: "int \<Rightarrow> store_db \<Rightarrow> gift list" where
  "get_pending_gifts user db = filter (\<lambda>g. gf_recipient g = user \<and> gf_claimed_at g = None) (st_gifts db)"

definition gift_key :: "int \<Rightarrow> string" where
  "gift_key gid = ''gift:'' @ int_str gid"

text \<open>\<^verbatim>\<open>claim_gift\<close>: a violated constraint is not handled and leaves the request with an error, after
  the transaction is rolled back.\<close>

definition claim_gift ::
  "moment \<Rightarrow> int \<Rightarrow> int \<Rightarrow> store_db \<Rightarrow> (py_error + int \<times> string list) \<times> store_db" where
  "claim_gift now user gid db =
     (case find (\<lambda>g. gf_id g = gid \<and> gf_recipient g = user) (st_gifts db) of
        None \<Rightarrow> (Inl (HTTPException 404 ''Gift not found''), db)
      | Some g \<Rightarrow>
          if gf_claimed_at g \<noteq> None then (Inl (HTTPException 400 ''Already claimed''), db)
          else
            let granted = (case gf_grant g of None \<Rightarrow> [] | Some xs \<Rightarrow> xs);
                points = (if 0 < gf_points g
                          then snd (award now user (gf_points g) (reason_value GIFT) (Some (gift_key gid)) (Some (gift_key gid)) (st_points db))
                          else st_points db);
                db' = db\<lparr>st_gifts := map (\<lambda>g. if gf_id g = gid then g\<lparr>gf_claimed_at := Some now\<rparr> else g) (st_gifts db),
                         st_points := points,
                         st_owned := record_owned_cosmetics user granted ''gift'' (st_owned db)\<rparr>
            in if constraints_hold db' then (Inr (gf_points g, granted), db') else (Inl IntegrityError, db))"

section \<open>The store\<close>

definition set_store_config :: "bool \<Rightarrow> string list \<Rightarrow> store_db \<Rightarrow> (py_error + string list) \<times> store_db" where
  "set_store_config is_admin disabled db =
     (if \<not> is_admin then (Inl (HTTPException 403 ''Admin only''), db)
      else
        let cleaned = sort (remdups (filter (\<lambda>x. x \<noteq> []) (map str_strip disabled)))
        in (Inr cleaned, db\<lparr>st_disabled := cleaned\<rparr>))"

text \<open>\<^verbatim>\<open>purchase\<close>: the answer says whether the player owned the cosmetic already, and the balance.\<close>

definition purchase :: "moment \<Rightarrow> int \<Rightarrow> string \<Rightarrow> store_db \<Rightarrow> (py_error + bool \<times> int) \<times> store_db" where
  "purchase now user cosmetic_id db =
     (let cid = str_strip cosmetic_id in
      if cid = [] then (Inl (HTTPException 400 ''Missing cosmetic''), db)
      else if cid \<in> set (st_disabled db) then (Inl (HTTPException 400 ''That cosmetic isn't available''), db)
      else case price_for cid of
        None \<Rightarrow> (Inl (HTTPException 400 ''That cosmetic isn't for sale''), db)
      | Some price \<Rightarrow>
          if lock_user (st_points db) user = None then (Inl (HTTPException 404 ''Unknown user''), db)
          else if owns (st_owned db) user cid then (Inr (True, get_balance (st_points db) user), db)
          else
            let (paid, points) = (if 0 < price
                   then spend now user price (reason_value STORE_PURCHASE) (Some (''cosmetic:'' @ cid)) (st_points db)
                   else (True, st_points db))
            in if \<not> paid then (Inl (HTTPException 400 ''Not enough points''), db)
               else
                 let db' = db\<lparr>st_points := points, st_owned := record_owned_cosmetics user [cid] ''store'' (st_owned db)\<rparr>
                 in if constraints_hold db' then (Inr (False, get_balance points user), db')
                    else (Inr (True, get_balance (st_points db) user), db))"

section \<open>Reading the ledger\<close>

text \<open>The ledger lines with their identifiers, which count up from 1.\<close>

definition numbered_ledger :: "points_db \<Rightarrow> (nat \<times> point_tx) list" where
  "numbered_ledger db = zip [1..<Suc (length (ledger db))] (ledger db)"

definition feed_events :: "int \<Rightarrow> nat \<Rightarrow> points_db \<Rightarrow> (nat \<times> point_tx) list" where
  "feed_events user since_id db =
     filter (\<lambda>(i, t). tx_user t = user \<and> since_id < i \<and> 0 < tx_amount t) (numbered_ledger db)"

definition get_my_points_feed :: "int \<Rightarrow> nat \<Rightarrow> nat \<Rightarrow> points_db \<Rightarrow> int \<times> nat \<times> (nat \<times> point_tx) list" where
  "get_my_points_feed user since_id limit db =
     (let rows = take limit (feed_events user since_id db)
      in (get_balance db user, (if rows = [] then since_id else fst (last rows)), rows))"

section \<open>The invariant\<close>

definition redeemers :: "int \<Rightarrow> (int \<times> int) list \<Rightarrow> int list" where
  "redeemers cid rs = map snd (filter (\<lambda>r. fst r = cid) rs)"

definition store_ok :: "store_db \<Rightarrow> bool" where
  "store_ok db \<longleftrightarrow>
     points_inv (st_points db) \<and> constraints_hold db \<and>
     distinct (map ac_id (st_codes db)) \<and> distinct (map ac_code (st_codes db)) \<and>
     (\<forall>c \<in> set (st_codes db). ac_uses c = int (length (redeemers (ac_id c) (st_redemptions db))) \<and> ac_uses c \<le> ac_max_uses c) \<and>
     (\<forall>r \<in> set (st_redemptions db). fst r \<in> ac_id ` set (st_codes db))"

text \<open>What happens to the store: the requests of players and administrators, and whatever else moves
  points. The server only accepts codes with at least one use.\<close>

inductive store_step :: "store_db \<Rightarrow> store_db \<Rightarrow> bool" where
  earned: "points_step (st_points db) points \<Longrightarrow> store_step db (db\<lparr>st_points := points\<rparr>)"
| created_code: "1 \<le> cr_max_uses rq \<Longrightarrow> store_step db (snd (create_access_code is_admin generated rq db))"
| redeemed: "store_step db (snd (redeem_code now user code db))"
| created_gift: "store_step db (snd (create_gift is_admin me recipient points grants message db))"
| welcomed: "store_step db (snd (handle_founder_friend founder user db))"
| claimed: "store_step db (snd (claim_gift now user gid db))"
| configured: "store_step db (snd (set_store_config is_admin disabled db))"
| bought: "store_step db (snd (purchase now user cid db))"

definition empty_store :: "(int \<times> string) list \<Rightarrow> store_db" where
  "empty_store names = \<lparr>st_points = empty_points, st_names = names, st_codes = [], st_redemptions = [], st_owned = [],
                        st_gifts = [], st_disabled = []\<rparr>"

lemma next_id_fresh: "next_id ids \<notin> set ids"
proof -
  have "x \<in> set xs \<longrightarrow> x \<le> foldl max a xs" "a \<le> foldl max a xs" for x a :: int and xs
    by (induction xs arbitrary: a) (auto intro: order_trans [OF max.cobounded1] order_trans [OF max.cobounded2])
  note upper = this
  show ?thesis
  proof
    assume "next_id ids \<in> set ids"
    with upper(1) [of "next_id ids" ids 0] show False by (simp add: next_id_def)
  qed
qed

lemma redeemers_simps [simp]:
  "redeemers cid [] = []"
  "redeemers cid (rs @ [(c, u)]) = redeemers cid rs @ (if c = cid then [u] else [])"
  by (simp_all add: redeemers_def)

lemma store_ok_code:
  assumes "store_ok db" and "c \<in> set (st_codes db)"
  shows "ac_uses c = int (length (redeemers (ac_id c) (st_redemptions db)))" and "ac_uses c \<le> ac_max_uses c"
  using assms unfolding store_ok_def by blast+

lemma store_okI:
  assumes "points_inv (st_points db)" and "constraints_hold db"
    and "distinct (map ac_id (st_codes db))" and "distinct (map ac_code (st_codes db))"
    and "\<And>c. c \<in> set (st_codes db) \<Longrightarrow>
           ac_uses c = int (length (redeemers (ac_id c) (st_redemptions db))) \<and> ac_uses c \<le> ac_max_uses c"
    and "\<And>r. r \<in> set (st_redemptions db) \<Longrightarrow> fst r \<in> set (map ac_id (st_codes db))"
  shows "store_ok db"
  using assms unfolding store_ok_def set_map by blast

lemma empty_store_ok: "store_ok (empty_store names)"
  by (simp add: store_ok_def empty_store_def constraints_hold_def owned_keys_def reachable_inv)

lemma create_code_ok:
  assumes "store_ok db" and "1 \<le> cr_max_uses rq"
  shows "store_ok (snd (create_access_code is_admin generated rq db))"
proof (cases "snd (create_access_code is_admin generated rq db) = db")
  case False
  define s where "s = str_upper (str_strip (case cr_code rq of None \<Rightarrow> generated | Some s \<Rightarrow> if s = [] then generated else s))"
  define c where "c = \<lparr>ac_id = next_id (map ac_id (st_codes db)), ac_code = s, ac_amount = cr_amount rq,
      ac_grant = (if clean_cosmetic_ids (cr_grant rq) = [] then None else Some (clean_cosmetic_ids (cr_grant rq))),
      ac_max_uses = cr_max_uses rq, ac_uses = 0, ac_expires_at = cr_expires_at rq\<rparr>"
  have "snd (create_access_code is_admin generated rq db) = db\<lparr>st_codes := st_codes db @ [c]\<rparr>"
    "find (\<lambda>c. ac_code c = s) (st_codes db) = None"
    using False unfolding create_access_code_def Let_def s_def [symmetric] by (auto simp: c_def s_def split: if_splits)
  moreover have "redeemers (ac_id c) (st_redemptions db) = []"
    using assms(1) next_id_fresh [of "map ac_id (st_codes db)"]
    by (auto simp: redeemers_def filter_empty_conv store_ok_def c_def)
  ultimately show ?thesis
    using assms next_id_fresh [of "map ac_id (st_codes db)"]
    by (auto simp: store_ok_def constraints_hold_def c_def find_None_iff)
qed (use assms in simp)

lemma use_code_frame:
  "map ac_id (use_code cid codes) = map ac_id codes" "map ac_code (use_code cid codes) = map ac_code codes"
  by (simp_all add: use_code_def comp_def if_distrib cong: if_cong)

lemma award_inv: "r \<noteq> reason_value TOP_PLAY \<Longrightarrow> points_inv db \<Longrightarrow> points_inv (snd (award now uid a r ref key db))"
  by (rule step_inv [OF points_step.awarded])

lemma spend_inv: "points_inv db \<Longrightarrow> points_inv (snd (spend now uid a r ref db))"
  by (rule step_inv [OF points_step.spent])

lemma redeem_ok:
  assumes "store_ok db"
  shows "store_ok (snd (redeem_code now user code db))"
proof (cases "snd (redeem_code now user code db) = db")
  case False
  define s where "s = str_upper (str_strip code)"
  obtain c where c: "find (\<lambda>c. ac_code c = s) (st_codes db) = Some c"
    using False by (auto simp: redeem_code_def Let_def s_def split: if_splits option.splits)
  define db' where "db' = db\<lparr>st_redemptions := st_redemptions db @ [(ac_id c, user)],
                         st_codes := use_code (ac_id c) (st_codes db),
                         st_points := snd (award now user (ac_amount c) (reason_value ACCESS_CODE) (Some (''code:'' @ int_str (ac_id c)))
                           (Some (code_key (ac_id c) user)) (st_points db)),
                         st_owned := record_owned_cosmetics user (code_cosmetics c) ''code'' (st_owned db)\<rparr>"
  have result: "snd (redeem_code now user code db) = db'" "ac_uses c < ac_max_uses c" "(ac_id c, user) \<notin> set (st_redemptions db)"
    "constraints_hold db'"
    using False c [unfolded s_def] by (auto simp: redeem_code_def Let_def db'_def split: if_splits option.splits)
  have in_codes: "c \<in> set (st_codes db)" using find_SomeD [OF c] by simp
  have ids: "distinct (map ac_id (st_codes db))" using assms by (simp add: store_ok_def)
  have "ac_uses x = int (length (redeemers (ac_id x) (st_redemptions db'))) \<and> ac_uses x \<le> ac_max_uses x"
    if "x \<in> set (st_codes db')" for x
  proof -
    from that obtain y where y: "y \<in> set (st_codes db)" "x = (if ac_id y = ac_id c then y\<lparr>ac_uses := ac_uses y + 1\<rparr> else y)"
      by (auto simp: db'_def use_code_def)
    have "ac_uses y = int (length (redeemers (ac_id y) (st_redemptions db)))" "ac_uses y \<le> ac_max_uses y"
      using store_ok_code [OF assms y(1)] by simp_all
    moreover have "y = c" if "ac_id y = ac_id c" using ids y(1) in_codes that by (auto simp: distinct_map dest: inj_onD)
    ultimately show ?thesis using y(2) result(2) by (auto simp: db'_def split: if_splits)
  qed
  note uses = this
  show ?thesis
    unfolding result(1)
  proof (rule store_okI)
    show "points_inv (st_points db')" using assms by (simp add: db'_def award_inv store_ok_def)
    show "constraints_hold db'" by (rule result(4))
    show "distinct (map ac_id (st_codes db'))" "distinct (map ac_code (st_codes db'))"
      using assms by (simp_all add: db'_def use_code_frame store_ok_def)
    show "fst r \<in> set (map ac_id (st_codes db'))" if "r \<in> set (st_redemptions db')" for r
      using that assms in_codes by (auto simp: db'_def use_code_frame store_ok_def)
  qed (rule uses)
qed (use assms in simp)

lemma other_tables_ok:
  assumes "store_ok db" and "constraints_hold db'" and "points_inv (st_points db')"
    and "st_codes db' = st_codes db" and "st_redemptions db' = st_redemptions db"
  shows "store_ok db'"
  using assms unfolding store_ok_def by metis

lemma claim_ok:
  assumes "store_ok db"
  shows "store_ok (snd (claim_gift now user gid db))"
proof (cases "snd (claim_gift now user gid db) = db")
  case False
  then show ?thesis
    using assms by (intro other_tables_ok [OF assms])
      (auto simp: claim_gift_def Let_def store_ok_def award_inv split: option.splits if_splits)
qed (use assms in simp)

lemma purchase_new:
  assumes "snd (purchase now user cid db) \<noteq> db"
  obtains price where "price_for (str_strip cid) = Some price" and "\<not> owns (st_owned db) user (str_strip cid)"
    and "fst (spend now user price (reason_value STORE_PURCHASE) (Some (''cosmetic:'' @ str_strip cid)) (st_points db))"
    and "snd (purchase now user cid db) =
      db\<lparr>st_points := snd (spend now user price (reason_value STORE_PURCHASE) (Some (''cosmetic:'' @ str_strip cid)) (st_points db)),
         st_owned := record_owned_cosmetics user [str_strip cid] ''store'' (st_owned db)\<rparr>"
    and "constraints_hold (snd (purchase now user cid db))"
    and "fst (purchase now user cid db) = Inr (False, get_balance (st_points (snd (purchase now user cid db))) user)"
proof -
  obtain price where price: "price_for (str_strip cid) = Some price"
    using assms by (auto simp: purchase_def Let_def split: if_splits option.splits)
  have pos: "0 < price" using price_positive [OF price] .
  obtain paid points where spent: "spend now user price (reason_value STORE_PURCHASE) (Some (''cosmetic:'' @ str_strip cid)) (st_points db) = (paid, points)"
    by fastforce
  note spent' = spent [simplified]
  let ?db = "db\<lparr>st_points := points, st_owned := record_owned_cosmetics user [str_strip cid] ''store'' (st_owned db)\<rparr>"
  have cond: "str_strip cid \<noteq> []" "str_strip cid \<notin> set (st_disabled db)" "lock_user (st_points db) user \<noteq> None"
    "\<not> owns (st_owned db) user (str_strip cid)" "paid" "constraints_hold ?db"
    using assms by (auto simp: purchase_def Let_def price pos spent' split: if_splits)
  then have "purchase now user cid db = (Inr (False, get_balance points user), ?db)"
    by (simp add: purchase_def Let_def price pos spent')
  with price cond spent' show thesis by (intro that [of price]) simp_all
qed

lemma purchase_ok:
  assumes "store_ok db"
  shows "store_ok (snd (purchase now user cid db))"
proof (cases "snd (purchase now user cid db) = db")
  case False
  then obtain price where p: "snd (purchase now user cid db) =
      db\<lparr>st_points := snd (spend now user price (reason_value STORE_PURCHASE) (Some (''cosmetic:'' @ str_strip cid)) (st_points db)),
         st_owned := record_owned_cosmetics user [str_strip cid] ''store'' (st_owned db)\<rparr>"
    "constraints_hold (snd (purchase now user cid db))"
    by (rule purchase_new)
  have "points_inv (st_points db)" using assms by (simp add: store_ok_def)
  then show ?thesis
    by (intro other_tables_ok [OF assms p(2)]) (simp_all add: p(1) spend_inv)
qed (use assms in simp)

lemma store_step_ok: "store_step db db' \<Longrightarrow> store_ok db \<Longrightarrow> store_ok db'"
proof (induction rule: store_step.induct)
  case (earned db points)
  then show ?case by (intro other_tables_ok [OF earned(2)]) (auto simp: store_ok_def constraints_hold_def intro: step_inv)
next
  case (created_gift db is_admin me recipient points grants message)
  show ?case
    using created_gift
    by (cases "snd (create_gift is_admin me recipient points grants message db) = db", simp, intro other_tables_ok [OF created_gift])
      (auto simp: create_gift_def Let_def store_ok_def constraints_hold_def split: option.splits if_splits)
next
  case (welcomed db founder user)
  then show ?case
    by (intro other_tables_ok [OF welcomed]) (auto simp: handle_founder_friend_def store_ok_def constraints_hold_def)
next
  case (configured db is_admin disabled)
  then show ?case
    by (intro other_tables_ok [OF configured]) (auto simp: set_store_config_def Let_def store_ok_def constraints_hold_def)
qed (simp_all add: create_code_ok redeem_ok claim_ok purchase_ok)

lemma reachable_store_ok: "store_step\<^sup>*\<^sup>* (empty_store names) db \<Longrightarrow> store_ok db"
  by (induction rule: rtranclp_induct) (auto intro: store_step_ok empty_store_ok)

lemma balance_is_sum:
  assumes "ledger_ok db"
  shows "get_balance db user = user_sum user (ledger db) \<and> 0 \<le> get_balance db user"
proof (cases "balances db user")
  case None
  then have "\<forall>t \<in> set (ledger db). tx_user t \<noteq> user" using assms by (auto simp: ledger_ok_def)
  then show ?thesis by (simp add: get_balance_def None user_sum_def filter_False)
qed (use assms in \<open>auto simp: ledger_ok_def get_balance_def\<close>)

text \<open>C9: in every reachable state of the store, a code has been redeemed by at most as many players
  as it allows, its counter is that number, no player has redeemed it twice, no player owns a
  cosmetic twice, and every balance is the sum of the player's ledger lines and not negative.\<close>

theorem store_invariant:
  assumes "store_step\<^sup>*\<^sup>* (empty_store names) db" and "c \<in> set (st_codes db)"
  shows "ac_uses c = int (card {u. (ac_id c, u) \<in> set (st_redemptions db)}) \<and> ac_uses c \<le> ac_max_uses c \<and>
         distinct (st_redemptions db) \<and> distinct (map (\<lambda>r. (ow_user r, ow_id r)) (st_owned db)) \<and>
         get_balance (st_points db) user = user_sum user (ledger (st_points db)) \<and> 0 \<le> get_balance (st_points db) user"
proof -
  have ok: "store_ok db" using assms(1) by (rule reachable_store_ok)
  have d: "distinct (st_redemptions db)" using ok by (simp add: store_ok_def constraints_hold_def)
  have "set (redeemers (ac_id c) (st_redemptions db)) = {u. (ac_id c, u) \<in> set (st_redemptions db)}"
    by (force simp: redeemers_def)
  moreover have "distinct (redeemers (ac_id c) (st_redemptions db))"
    using d by (auto simp: redeemers_def distinct_map inj_on_def)
  ultimately have "length (redeemers (ac_id c) (st_redemptions db)) = card {u. (ac_id c, u) \<in> set (st_redemptions db)}"
    by (metis distinct_card)
  moreover have "get_balance (st_points db) user = user_sum user (ledger (st_points db)) \<and> 0 \<le> get_balance (st_points db) user"
  proof -
    have "ledger_ok (st_points db)" using ok by (simp add: store_ok_def points_inv_def)
    then show ?thesis by (rule balance_is_sum)
  qed
  ultimately show ?thesis
    using store_ok_code [OF ok assms(2)] ok d by (simp add: store_ok_def constraints_hold_def owned_keys_def)
qed

lemma owned_keys_append: "owned_keys (xs @ ys) = owned_keys xs @ owned_keys ys"
  by (simp add: owned_keys_def)

lemma record_owned_keys:
  "owned_keys (record_owned_cosmetics user ids source rows) =
     owned_keys rows @ map (\<lambda>c. (user, c)) (filter (\<lambda>c. \<not> owns rows user c) (filter (\<lambda>c. c \<noteq> []) (map str_strip ids)))"
  by (simp add: record_owned_cosmetics_def owned_keys_def comp_def)

lemma store_ok_ledger: "store_ok db \<Longrightarrow> ledger_ok (st_points db)"
  by (simp add: store_ok_def points_inv_def)

text \<open>What an accepted purchase needs, whether it pays or finds the cosmetic owned.\<close>

lemma purchase_accepted_conds:
  "purchase now user cid db = (Inr ab, db') \<Longrightarrow>
   str_strip cid \<noteq> [] \<and> str_strip cid \<notin> set (st_disabled db) \<and> lock_user (st_points db) user \<noteq> None \<and> price_for (str_strip cid) \<noteq> None"
  by (auto simp: purchase_def Let_def split: if_splits option.splits)

lemma balance_nonneg: "store_ok db \<Longrightarrow> 0 \<le> get_balance (st_points db) user"
  using balance_is_sum [OF store_ok_ledger, of db user] by simp

text \<open>An accepted purchase that leaves the tables alone found the cosmetic owned.\<close>

lemma purchase_unchanged_owned:
  assumes ok: "store_ok db" and buy: "purchase now user cid db = (Inr (already, balance), db)"
  shows "owns (st_owned db) user (str_strip cid) \<and> already \<and> balance = get_balance (st_points db) user"
proof (cases "owns (st_owned db) user (str_strip cid)")
  case True
  with buy purchase_accepted_conds [OF buy] show ?thesis by (auto simp: purchase_def Let_def split: option.splits)
next
  case False
  note c = purchase_accepted_conds [OF buy]
  then obtain price where price: "price_for (str_strip cid) = Some price" by auto
  obtain paid points where spent: "spend now user price (reason_value STORE_PURCHASE) (Some (''cosmetic:'' @ str_strip cid)) (st_points db) = (paid, points)"
    by fastforce
  let ?db = "db\<lparr>st_points := points, st_owned := record_owned_cosmetics user [str_strip cid] ''store'' (st_owned db)\<rparr>"
  have "constraints_hold ?db"
    using ok False by (auto simp: store_ok_def constraints_hold_def record_owned_keys owns_def)
  with buy c False have "db = ?db"
    by (auto simp: purchase_def Let_def price price_positive [OF price] spent [simplified] split: if_splits)
  then have "record_owned_cosmetics user [str_strip cid] ''store'' (st_owned db) = st_owned db"
    by (metis (no_types, lifting) store_db.ext_inject store_db.surjective store_db.update_convs(5) store_db.update_convs(1))
  with False c show ?thesis by (simp add: record_owned_cosmetics_def)
qed

lemma owned_purchase_free:
  "owns (st_owned db) user (str_strip cid) \<Longrightarrow> str_strip cid \<noteq> [] \<Longrightarrow> str_strip cid \<notin> set (st_disabled db) \<Longrightarrow>
   lock_user (st_points db) user \<noteq> None \<Longrightarrow> price_for (str_strip cid) \<noteq> None \<Longrightarrow>
   purchase later user cid db = (Inr (True, get_balance (st_points db) user), db)"
  by (auto simp: purchase_def Let_def split: option.split)

text \<open>One that changes the tables pays the price and adds the cosmetic.\<close>

lemma purchase_changed_pays:
  assumes ok: "store_ok db" and buy: "purchase now user cid db = (r, db')" and "db' \<noteq> db"
  obtains price where "price_for (str_strip cid) = Some price" "\<not> owns (st_owned db) user (str_strip cid)"
    "owns (st_owned db') user (str_strip cid)" "r = Inr (False, get_balance (st_points db') user)"
    "get_balance (st_points db) user = get_balance (st_points db') user + price" "0 \<le> get_balance (st_points db') user"
    "lock_user (st_points db') user \<noteq> None" "st_disabled db' = st_disabled db"
proof -
  from buy assms(3) have "snd (purchase now user cid db) \<noteq> db" by simp
  then obtain price where p: "price_for (str_strip cid) = Some price" "\<not> owns (st_owned db) user (str_strip cid)"
    "fst (spend now user price (reason_value STORE_PURCHASE) (Some (''cosmetic:'' @ str_strip cid)) (st_points db))"
    "db' = db\<lparr>st_points := snd (spend now user price (reason_value STORE_PURCHASE) (Some (''cosmetic:'' @ str_strip cid)) (st_points db)),
         st_owned := record_owned_cosmetics user [str_strip cid] ''store'' (st_owned db)\<rparr>"
    "r = Inr (False, get_balance (st_points db') user)"
    by (rule purchase_new) (use buy in simp_all)
  have "owns (st_owned db') user (str_strip cid)"
    using p(2) purchase_accepted_conds [OF buy [unfolded p(5)]] by (simp add: p(4) owns_def record_owned_keys)
  moreover have "get_balance (st_points db) user = get_balance (st_points db') user + price" "balances (st_points db') user \<noteq> None"
    using p(3) by (cases rule: spend_cases [of now user price "reason_value STORE_PURCHASE" "Some (''cosmetic:'' @ str_strip cid)" "st_points db"];
      simp add: p(4) get_balance_def)+
  moreover have "0 \<le> get_balance (st_points db') user"
    using balance_is_sum [of "st_points db'" user] spend_keeps [OF store_ok_ledger [OF ok]] by (simp add: p(4))
  ultimately show ?thesis using p that by (auto simp: lock_user_def)
qed

text \<open>C10: a purchase that the store accepts leaves the player owning the cosmetic; one not owned
  before costs exactly the server's price, which the balance covers, and one owned before costs
  nothing and changes nothing, so that a repeated request never charges twice. A refused purchase
  changes nothing.\<close>

theorem purchase_charges_once:
  assumes "store_step\<^sup>*\<^sup>* (empty_store names) db" and "purchase now user cid db = (r, db')"
  shows "case r of
      Inl _ \<Rightarrow> db' = db
    | Inr (already, balance) \<Rightarrow>
        owns (st_owned db') user (str_strip cid) \<and> balance = get_balance (st_points db') user \<and> 0 \<le> balance \<and>
        (if already then owns (st_owned db) user (str_strip cid) \<and> db' = db
         else \<not> owns (st_owned db) user (str_strip cid) \<and>
              (\<exists>price. price_for (str_strip cid) = Some price \<and> 0 < price \<and>
                 get_balance (st_points db) user = balance + price)) \<and>
        (\<forall>later. purchase later user cid db' = (Inr (True, balance), db') )"
proof -
  have ok: "store_ok db" using assms(1) by (rule reachable_store_ok)
  show ?thesis
  proof (cases "db' = db")
    case False
    with ok assms(2) obtain price where p: "price_for (str_strip cid) = Some price" "\<not> owns (st_owned db) user (str_strip cid)"
      "owns (st_owned db') user (str_strip cid)" "r = Inr (False, get_balance (st_points db') user)"
      "get_balance (st_points db) user = get_balance (st_points db') user + price" "0 \<le> get_balance (st_points db') user"
      "lock_user (st_points db') user \<noteq> None" "st_disabled db' = st_disabled db"
      by (rule purchase_changed_pays)
    then show ?thesis
      using purchase_accepted_conds [OF assms(2) [unfolded p(4)]] price_positive [OF p(1)] owned_purchase_free [of db' user cid] by simp
  next
    case True
    show ?thesis
    proof (cases r)
      case (Inr ab)
      obtain already balance where ab: "ab = (already, balance)" by (cases ab)
      have buy: "purchase now user cid db = (Inr (already, balance), db)" using assms(2) by (simp add: Inr ab True)
      show ?thesis
        using purchase_unchanged_owned [OF ok buy] purchase_accepted_conds [OF buy] owned_purchase_free [of db user cid] balance_nonneg [OF ok, of user]
        by (simp add: Inr ab True)
    qed (simp add: True)
  qed
qed

text \<open>A grant that lists a cosmetic twice can never be handed out to a player who does not own
  it: the two rows it adds break the uniqueness of ownership. Redeeming such a code is always
  refused with the message that it was already redeemed, although it was not, and claiming such a
  gift always fails with a server error; points and other cosmetics of the grant are lost with it.
  Neither creating a code nor creating a gift removes the repetition.\<close>

theorem repeated_grant_cannot_be_handed_out:
  assumes "\<not> distinct (filter (\<lambda>c. c \<noteq> [] \<and> \<not> owns (st_owned db) user c) (map str_strip grants))"
  shows "(\<forall>now code c. find (\<lambda>c. ac_code c = str_upper (str_strip code)) (st_codes db) = Some c \<longrightarrow> code_cosmetics c = grants \<longrightarrow>
            (\<exists>msg. redeem_code now user code db = (Inl (HTTPException 400 msg), db))) \<and>
         (\<forall>now gid g. find (\<lambda>g. gf_id g = gid \<and> gf_recipient g = user) (st_gifts db) = Some g \<longrightarrow> gf_grant g = Some grants \<longrightarrow>
            gf_claimed_at g = None \<longrightarrow> claim_gift now user gid db = (Inl IntegrityError, db))"
proof -
  have "\<not> distinct (owned_keys (record_owned_cosmetics user grants source (st_owned db)))" for source
    using assms by (simp add: record_owned_keys distinct_map inj_on_def)
  then have "\<not> constraints_hold (db\<lparr>st_redemptions := rs, st_codes := cs, st_points := p, st_owned := record_owned_cosmetics user grants source (st_owned db)\<rparr>)"
    "\<not> constraints_hold (db\<lparr>st_gifts := gs, st_points := p, st_owned := record_owned_cosmetics user grants source (st_owned db)\<rparr>)"
    for rs cs gs p source by (simp_all add: constraints_hold_def)
  then show ?thesis
    by (auto simp: redeem_code_def claim_gift_def Let_def split: option.split)
qed

section \<open>The feed\<close>

lemma numbered_ledger_sorted: "sorted_wrt (<) (map fst (numbered_ledger db))"
  by (simp add: numbered_ledger_def sorted_wrt_upt del: upt_Suc)

lemma feed_sorted: "sorted_wrt (\<lambda>a b. fst a < fst b) (feed_events user since_id db)"
  using numbered_ledger_sorted [of db] unfolding feed_events_def sorted_wrt_map by (rule sorted_wrt_filter)

lemma filter_after_prefix:
  "sorted_wrt (\<lambda>a b. fst a < fst b) xs \<Longrightarrow> n \<noteq> 0 \<Longrightarrow> xs \<noteq> [] \<Longrightarrow>
   filter (\<lambda>x. fst (List.last (take n xs)) < fst x) xs = drop n xs" for xs :: "(nat \<times> 'a) list"
proof -
  assume xs: "sorted_wrt (\<lambda>a b. fst a < fst b) xs" "n \<noteq> 0" "xs \<noteq> []"
  define ys where "ys = take n xs"
  have ne: "ys \<noteq> []" using xs by (simp add: ys_def)
  have split: "xs = ys @ drop n xs" by (simp add: ys_def)
  have sorted: "sorted_wrt (\<lambda>a b. fst a < fst b) (ys @ drop n xs)" using xs(1) split by simp
  have "filter (\<lambda>x. fst (List.last ys) < fst x) ys = []"
  proof (cases ys rule: rev_cases)
    case (snoc as a)
    with sorted show ?thesis by (auto simp: sorted_wrt_append filter_empty_conv dest: less_asym)
  qed simp
  moreover have "filter (\<lambda>x. fst (List.last ys) < fst x) (drop n xs) = drop n xs"
    using sorted ne by (auto simp: sorted_wrt_append filter_id_conv)
  moreover have "filter (\<lambda>x. fst (List.last ys) < fst x) xs =
      filter (\<lambda>x. fst (List.last ys) < fst x) ys @ filter (\<lambda>x. fst (List.last ys) < fst x) (drop n xs)"
    by (subst split) simp
  ultimately show ?thesis by (simp add: ys_def)
qed

text \<open>A client that asks for the points it earned with the cursor of the last answer sees every
  gain exactly once: a page together with what the feed has after the returned cursor is what it
  had before, and the cursor advances as long as there is something to read.\<close>

theorem feed_shows_every_gain_once:
  assumes "0 < limit" and "get_my_points_feed user since_id limit db = (balance, last_id, events)"
  shows "feed_events user since_id db = events @ feed_events user last_id db \<and> since_id \<le> last_id \<and>
         (events = [] \<longleftrightarrow> feed_events user since_id db = []) \<and> (events \<noteq> [] \<longrightarrow> since_id < last_id)"
proof (cases "feed_events user since_id db = []")
  case True
  with assms(2) show ?thesis by (auto simp: get_my_points_feed_def Let_def)
next
  case False
  let ?all = "feed_events user since_id db"
  from assms False have events: "events = take limit ?all" "last_id = fst (List.last (take limit ?all))"
    by (auto simp: get_my_points_feed_def Let_def split: if_splits)
  have ne: "take limit ?all \<noteq> []" using False assms(1) by simp
  then have "List.last (take limit ?all) \<in> set ?all" by (meson in_set_takeD last_in_set)
  then have since: "since_id < last_id" using events(2) by (auto simp: feed_events_def)
  have "feed_events user last_id db = filter (\<lambda>x. last_id < fst x) ?all"
    unfolding feed_events_def filter_filter using since by (intro filter_cong) auto
  also have "\<dots> = drop limit ?all"
    unfolding events(2) using filter_after_prefix [OF feed_sorted _ False] assms(1) by simp
  finally have whole: "?all = events @ feed_events user last_id db" unfolding events(1) by simp
  have "events \<noteq> []" using ne events(1) by simp
  then show ?thesis using whole since False by (metis less_imp_le)
qed


section \<open>Witnesses\<close>

definition store_sample :: store_db where
  "store_sample = (empty_store [(7, ''ann'')])\<lparr>
     st_points := \<lparr>balances = [7 \<mapsto> 0], ledger = []\<rparr>,
     st_codes := [\<lparr>ac_id = 1, ac_code = ''TORII-A'', ac_amount = 500, ac_grant = None, ac_max_uses = 1, ac_uses = 0, ac_expires_at = None\<rparr>]\<rparr>"

lemma store_sample_reached: "store_step\<^sup>*\<^sup>* (empty_store [(7, ''ann'')]) store_sample"
proof -
  let ?rq = "\<lparr>cr_amount = 500, cr_grant = None, cr_code = Some ''torii-a'', cr_max_uses = 1, cr_expires_at = None\<rparr>"
  have strip: "str_upper (str_strip ''torii-a'') = ''TORII-A''"
    by code_simp
  have "points_step empty_points \<lparr>balances = [7 \<mapsto> 0], ledger = []\<rparr>"
    using points_step.registered [of empty_points 7] by (simp add: empty_points_def)
  then have "store_step (empty_store [(7, ''ann'')]) ((empty_store [(7, ''ann'')])\<lparr>st_points := \<lparr>balances = [7 \<mapsto> 0], ledger = []\<rparr>\<rparr>)"
    by (intro store_step.earned) (simp add: empty_store_def)
  moreover have "snd (create_access_code True [] ?rq ((empty_store [(7, ''ann'')])\<lparr>st_points := \<lparr>balances = [7 \<mapsto> 0], ledger = []\<rparr>\<rparr>)) = store_sample"
    by (simp add: create_access_code_def strip store_sample_def empty_store_def clean_cosmetic_ids_def next_id_def Let_def)
  then have "store_step ((empty_store [(7, ''ann'')])\<lparr>st_points := \<lparr>balances = [7 \<mapsto> 0], ledger = []\<rparr>\<rparr>) store_sample"
    using store_step.created_code [of ?rq "(empty_store [(7, ''ann'')])\<lparr>st_points := \<lparr>balances = [7 \<mapsto> 0], ledger = []\<rparr>\<rparr>" True "[]"] by simp
  ultimately show ?thesis by (meson rtranclp.rtrancl_into_rtrancl rtranclp.rtrancl_refl)
qed

definition rich_store :: store_db where
  "rich_store = snd (redeem_code 1728000000 7 '' torii-a'' store_sample)"

lemma rich_store_reached: "store_step\<^sup>*\<^sup>* (empty_store [(7, ''ann'')]) rich_store"
  unfolding rich_store_def by (rule rtranclp.rtrancl_into_rtrancl [OF store_sample_reached store_step.redeemed])

lemma rich_store_tables:
  "st_redemptions rich_store = [(1, 7)]" "get_balance (st_points rich_store) 7 = 500" "st_owned rich_store = []"
  "st_disabled rich_store = []" "balances (st_points rich_store) 7 = Some 500"
  "map ac_uses (st_codes rich_store) = [1]" "map ac_id (st_codes rich_store) = [1]"
proof -
  have strip: "str_upper (str_strip '' torii-a'') = ''TORII-A''"
    by code_simp
  have "award 1728000000 7 500 (reason_value ACCESS_CODE) (Some (''code:'' @ int_str 1)) (Some (code_key 1 7)) \<lparr>balances = [7 \<mapsto> 0], ledger = []\<rparr> =
      (True, post 1728000000 7 500 (reason_value ACCESS_CODE) (Some (''code:'' @ int_str 1)) (Some (code_key 1 7)) 500 \<lparr>balances = [7 \<mapsto> 0], ledger = []\<rparr>)"
    by (simp add: award_def lock_user_def seen_key_def)
  then have rich: "rich_store = store_sample\<lparr>st_redemptions := [(1, 7)],
      st_codes := use_code 1 (st_codes store_sample),
      st_points := post 1728000000 7 500 (reason_value ACCESS_CODE) (Some (''code:'' @ int_str 1)) (Some (code_key 1 7)) 500 \<lparr>balances = [7 \<mapsto> 0], ledger = []\<rparr>\<rparr>"
    by (simp add: rich_store_def redeem_code_def strip store_sample_def empty_store_def code_cosmetics_def
        record_owned_cosmetics_def constraints_hold_def owned_keys_def Let_def)
  show "st_redemptions rich_store = [(1, 7)]" "get_balance (st_points rich_store) 7 = 500" "st_owned rich_store = []"
    "st_disabled rich_store = []" "balances (st_points rich_store) 7 = Some 500"
    "map ac_uses (st_codes rich_store) = [1]" "map ac_id (st_codes rich_store) = [1]"
    unfolding rich by (simp_all add: get_balance_def store_sample_def empty_store_def use_code_def)
qed

lemma store_invariant_witness:
  "\<exists>c \<in> set (st_codes rich_store). ac_uses c = 1 \<and> ac_uses c = int (card {u. (ac_id c, u) \<in> set (st_redemptions rich_store)}) \<and>
     ac_uses c \<le> ac_max_uses c"
proof -
  obtain c where c: "st_codes rich_store = [c]" "ac_uses c = 1"
    using rich_store_tables(6) by (auto simp: map_eq_Cons_conv)
  with store_invariant [OF rich_store_reached, of c] show ?thesis by simp
qed

lemma purchase_charges_once_witness:
  "\<exists>balance. fst (purchase 1728000100 7 ''trail-pearl '' rich_store) = Inr (False, balance) \<and> balance = 200"
proof -
  have strip: "str_strip ''trail-pearl '' = ''trail-pearl''" "str_strip ''trail-pearl'' = ''trail-pearl''" by code_simp+
  have price: "price_for ''trail-pearl'' = Some 300" by (simp add: price_for_def COSMETIC_PRICES_def)
  obtain r db' where buy: "purchase 1728000100 7 ''trail-pearl '' rich_store = (r, db')" by fastforce
  have "\<exists>b. r = Inr (False, b)"
    using buy by (auto simp: purchase_def strip price rich_store_tables lock_user_def owns_def owned_keys_def spend_def
        constraints_hold_def record_owned_cosmetics_def Let_def split: if_splits)
  then obtain b where r: "r = Inr (False, b)" by blast
  with purchase_charges_once [OF rich_store_reached buy] show ?thesis
    by (auto simp: buy strip price rich_store_tables(2))
qed

lemma repeated_grant_cannot_be_handed_out_witness:
  "claim_gift 1728000100 7 1 (rich_store\<lparr>st_gifts := [\<lparr>gf_id = 1, gf_recipient = 7, gf_points = 50,
      gf_grant = Some [''stardust'', ''stardust''], gf_message = None, gf_created_by = 3, gf_claimed_at = None\<rparr>]\<rparr>) =
   (Inl IntegrityError, rich_store\<lparr>st_gifts := [\<lparr>gf_id = 1, gf_recipient = 7, gf_points = 50,
      gf_grant = Some [''stardust'', ''stardust''], gf_message = None, gf_created_by = 3, gf_claimed_at = None\<rparr>]\<rparr>)"
proof -
  let ?db = "rich_store\<lparr>st_gifts := [\<lparr>gf_id = 1, gf_recipient = 7, gf_points = 50,
      gf_grant = Some [''stardust'', ''stardust''], gf_message = None, gf_created_by = 3, gf_claimed_at = None\<rparr>]\<rparr>"
  have "\<not> distinct (filter (\<lambda>c. c \<noteq> [] \<and> \<not> owns (st_owned ?db) 7 c) (map str_strip [''stardust'', ''stardust'']))"
    by (simp add: str_strip_def is_space_def owns_def owned_keys_def rich_store_tables)
  from repeated_grant_cannot_be_handed_out [OF this] show ?thesis by simp
qed

lemma feed_shows_every_gain_once_witness:
  "fst (snd (get_my_points_feed 7 0 20 (st_points rich_store))) > 0 \<or> feed_events 7 0 (st_points rich_store) = []"
proof -
  obtain balance last_id events where feed: "get_my_points_feed 7 0 20 (st_points rich_store) = (balance, last_id, events)"
    by (cases "get_my_points_feed 7 0 20 (st_points rich_store)")
  have "(events = [] \<longleftrightarrow> feed_events 7 0 (st_points rich_store) = []) \<and> (events \<noteq> [] \<longrightarrow> 0 < last_id)"
    using feed_shows_every_gain_once [OF _ feed] by (metis zero_less_numeral)
  then show ?thesis unfolding feed by (cases "events = []") simp_all
qed

end
