(* ===== verification/Relations.thy ===== *)
theory Relations
  imports Store
begin

text \<open>
  Friends and blocks (\<^verbatim>\<open>src/app/router/v2/relationship.py\<close>, \<^verbatim>\<open>src/app/router/private/relationship.py\<close>,
  \<^verbatim>\<open>src/app/database/relationship.py\<close>), with the server's owner, who follows back and whose new
  friends get a gift (\<^verbatim>\<open>src/app/service/owner_friend_service.py\<close>, \<^verbatim>\<open>src/app/service/torii_welcome.py\<close>,
  the gift in \<open>Store\<close>). The restriction of users is an argument; user data in the answers, chat
  messages and the \<^verbatim>\<open>nsfw\<close> policy are outside.
\<close>

section \<open>State\<close>

datatype relation_type = FOLLOW | BLOCK

record relation =
  rl_user :: int
  rl_target :: int
  rl_type :: relation_type

record relations_db =
  rd_relations :: "relation list"
  rd_store :: store_db

record owner_config =
  torii_owner_user_id :: int
  torii_owner_follows_everyone :: bool

definition owner_user_id :: "owner_config \<Rightarrow> int" where
  "owner_user_id cfg = (if 0 < torii_owner_user_id cfg then torii_owner_user_id cfg else 3)"

definition is_relation :: "int \<Rightarrow> int \<Rightarrow> relation \<Rightarrow> bool" where
  "is_relation user target r \<longleftrightarrow> rl_user r = user \<and> rl_target r = target"

definition is_typed :: "int \<Rightarrow> int \<Rightarrow> relation_type \<Rightarrow> relation \<Rightarrow> bool" where
  "is_typed user target ty r \<longleftrightarrow> is_relation user target r \<and> rl_type r = ty"

section \<open>Requests\<close>

definition relationship_type_from_path :: "string \<Rightarrow> relation_type" where
  "relationship_type_from_path path = (if str_contains ''/blocks'' path then BLOCK else FOLLOW)"

text \<open>The target of a request: the query parameter unless it is missing or 0, else the first given
  of four fields of the body.\<close>

record target_body =
  tb_target :: "int option"
  tb_user_id :: "int option"
  tb_user :: "int option"
  tb_id :: "int option"

fun first_given :: "int option list \<Rightarrow> int option" where
  "first_given [] = None"
| "first_given (x # xs) = (if x \<noteq> None then x else first_given xs)"

definition resolve_target :: "target_body \<Rightarrow> int option" where
  "resolve_target b = first_given [tb_target b, tb_user_id b, tb_user b, tb_id b]"

definition requested_target :: "int option \<Rightarrow> target_body option \<Rightarrow> py_error + int" where
  "requested_target query body =
     (case (if query \<noteq> None \<and> query \<noteq> Some 0 then query
            else case body of None \<Rightarrow> None | Some b \<Rightarrow> resolve_target b) of
        None \<Rightarrow> Inl (HTTPException 422 ''Missing target user id'')
      | Some t \<Rightarrow> Inr t)"

definition target_exists :: "(int \<Rightarrow> bool) \<Rightarrow> int \<Rightarrow> relations_db \<Rightarrow> bool" where
  "target_exists restricted target db \<longleftrightarrow> target \<in> fst ` set (st_names (rd_store db)) \<and> \<not> restricted target"

definition mutual :: "relation list \<Rightarrow> relation \<Rightarrow> bool" where
  "mutual rels r \<longleftrightarrow> rl_type r = FOLLOW \<and> list_ex (is_typed (rl_target r) (rl_user r) FOLLOW) rels"

definition transform_user_relation :: "relation_type \<Rightarrow> int \<Rightarrow> int \<Rightarrow> relation list \<Rightarrow> (relation_type \<times> bool) option" where
  "transform_user_relation ty me target rels =
     map_option (\<lambda>r. (rl_type r, mutual rels r)) (find (is_typed me target ty) rels)"

definition remove_first :: "('a \<Rightarrow> bool) \<Rightarrow> 'a list \<Rightarrow> 'a list" where
  "remove_first P xs = (case find P xs of None \<Rightarrow> xs | Some x \<Rightarrow> remove1 x xs)"

text \<open>The rows of \<^verbatim>\<open>_upsert_relationship\<close>: the player's own row, the reverse follow that a block
  removes, and the owner's follow of somebody who follows the owner.\<close>

definition put_relation :: "int \<Rightarrow> int \<Rightarrow> relation_type \<Rightarrow> relation list \<Rightarrow> relation list" where
  "put_relation me target ty rels =
     (if find (is_relation me target) rels = None
      then rels @ [\<lparr>rl_user = me, rl_target = target, rl_type = ty\<rparr>]
      else update_first (is_relation me target) (\<lambda>r. r\<lparr>rl_type := ty\<rparr>) rels)"

definition befriends_owner :: "owner_config \<Rightarrow> int \<Rightarrow> int \<Rightarrow> relation_type \<Rightarrow> bool" where
  "befriends_owner cfg me target ty \<longleftrightarrow> ty = FOLLOW \<and> target = owner_user_id cfg \<and> me \<noteq> owner_user_id cfg"

definition owner_follows_back :: "int \<Rightarrow> int \<Rightarrow> relation list \<Rightarrow> relation list" where
  "owner_follows_back owner me rels =
     (case find (is_relation owner me) rels of
        None \<Rightarrow> rels @ [\<lparr>rl_user = owner, rl_target = me, rl_type = FOLLOW\<rparr>]
      | Some r \<Rightarrow> if rl_type r \<noteq> BLOCK then update_first (is_relation owner me) (\<lambda>r. r\<lparr>rl_type := FOLLOW\<rparr>) rels else rels)"

definition upsert_rows :: "owner_config \<Rightarrow> int \<Rightarrow> int \<Rightarrow> relation_type \<Rightarrow> relation list \<Rightarrow> relation list" where
  "upsert_rows cfg me target ty rels =
     (let rels = put_relation me target ty rels;
          rels = (if ty = BLOCK then remove_first (is_typed target me FOLLOW) rels else rels)
      in if befriends_owner cfg me target ty then owner_follows_back (owner_user_id cfg) me rels else rels)"

definition upsert_relationship ::
  "owner_config \<Rightarrow> (int \<Rightarrow> bool) \<Rightarrow> int \<Rightarrow> int \<Rightarrow> relation_type \<Rightarrow> relations_db
     \<Rightarrow> (py_error + (relation_type \<times> bool) option) \<times> relations_db" where
  "upsert_relationship cfg restricted me target ty db =
     (if restricted me then (Inl (HTTPException 403 ''Your account is restricted and cannot perform this action.''), db)
      else if target = me then (Inl (HTTPException 422 ''Cannot add relationship to yourself''), db)
      else if \<not> target_exists restricted target db then (Inl (HTTPException 404 ''Target user not found''), db)
      else
        let rels = upsert_rows cfg me target ty (rd_relations db);
            store = (if befriends_owner cfg me target ty
                     then snd (handle_founder_friend (owner_user_id cfg) me (rd_store db)) else rd_store db)
        in (Inr (transform_user_relation ty me target rels), db\<lparr>rd_relations := rels, rd_store := store\<rparr>))"

definition delete_relationship ::
  "(int \<Rightarrow> bool) \<Rightarrow> int \<Rightarrow> int \<Rightarrow> relation_type \<Rightarrow> relations_db \<Rightarrow> (py_error + unit) \<times> relations_db" where
  "delete_relationship restricted me target ty db =
     (if restricted me then (Inl (HTTPException 403 ''Your account is restricted and cannot perform this action.''), db)
      else if \<not> target_exists restricted target db then (Inl (HTTPException 404 ''Target user not found''), db)
      else if find (is_typed me target ty) (rd_relations db) = None
      then (Inl (HTTPException 404 ''Relationship not found''), db)
      else (Inr (), db\<lparr>rd_relations := remove_first (is_typed me target ty) (rd_relations db)\<rparr>))"

text \<open>\<^verbatim>\<open>owner_follows\<close>, called when a player registers or logs in.\<close>

definition owner_follows :: "owner_config \<Rightarrow> int \<Rightarrow> relations_db \<Rightarrow> bool \<times> relations_db" where
  "owner_follows cfg user db =
     (if \<not> torii_owner_follows_everyone cfg \<or> user = owner_user_id cfg then (False, db)
      else if find (is_relation (owner_user_id cfg) user) (rd_relations db) \<noteq> None then (False, db)
      else (True, db\<lparr>rd_relations := rd_relations db @ [\<lparr>rl_user = owner_user_id cfg, rl_target = user, rl_type = FOLLOW\<rparr>]\<rparr>))"

section \<open>Lists\<close>

text \<open>The rows of \<^verbatim>\<open>get_relationships\<close> with their mutual flags, taken from one query of the reverse
  follows.\<close>

definition get_relationships :: "(int \<Rightarrow> bool) \<Rightarrow> relation_type \<Rightarrow> int \<Rightarrow> relation list \<Rightarrow> (int \<times> bool) list" where
  "get_relationships restricted ty me rels =
     (let rows = filter (\<lambda>r. rl_user r = me \<and> rl_type r = ty \<and> \<not> restricted (rl_target r)) rels;
          targets = map rl_target rows;
          back = map rl_user (filter (\<lambda>r. rl_target r = me \<and> rl_type r = FOLLOW \<and> rl_user r \<in> set targets) rels)
      in map (\<lambda>r. (rl_target r, ty = FOLLOW \<and> rl_target r \<in> set back)) rows)"

definition get_followers :: "(int \<Rightarrow> bool) \<Rightarrow> int list \<Rightarrow> int \<Rightarrow> relation list \<Rightarrow> (int \<times> bool) list" where
  "get_followers restricted users me rels =
     (let followers = map rl_user (filter (\<lambda>r. rl_target r = me \<and> rl_type r = FOLLOW \<and> \<not> restricted (rl_user r)) rels);
          back = map rl_target (filter (\<lambda>r. rl_user r = me \<and> rl_type r = FOLLOW \<and> rl_target r \<in> set followers) rels)
      in sort_key (\<lambda>(_, m). if m then (0::nat) else 1)
           (map (\<lambda>u. (u, u \<in> set back)) (filter (\<lambda>u. u \<in> set users) followers)))"

definition check_user_relationship :: "int \<Rightarrow> int \<Rightarrow> relation list \<Rightarrow> bool \<times> bool \<times> bool" where
  "check_user_relationship me user rels =
     (if user = me then (False, False, False)
      else
        let mine = find (is_relation me user) rels; theirs = find (is_relation user me) rels;
            followed = (case theirs of None \<Rightarrow> False | Some r \<Rightarrow> rl_type r = FOLLOW);
            following = (case mine of None \<Rightarrow> False | Some r \<Rightarrow> rl_type r = FOLLOW)
        in (followed, following, followed \<and> following))"

section \<open>The table as a map\<close>

definition rel_of :: "relation list \<Rightarrow> int \<times> int \<Rightarrow> relation_type option" where
  "rel_of rels p = map_option rl_type (find (is_relation (fst p) (snd p)) rels)"

definition rel_keys :: "relation list \<Rightarrow> (int \<times> int) list" where
  "rel_keys rels = map (\<lambda>r. (rl_user r, rl_target r)) rels"

definition relations_ok :: "relation list \<Rightarrow> bool" where
  "relations_ok rels \<longleftrightarrow> distinct (rel_keys rels) \<and> (\<forall>r \<in> set rels. rl_user r \<noteq> rl_target r)"

text \<open>What the requests are meant to do to the relations between players.\<close>

definition follow_or_block :: "owner_config \<Rightarrow> int \<Rightarrow> int \<Rightarrow> relation_type \<Rightarrow> (int \<times> int \<Rightarrow> relation_type option) \<Rightarrow> (int \<times> int \<Rightarrow> relation_type option)" where
  "follow_or_block cfg me target ty m =
     (let m = m((me, target) \<mapsto> ty);
          m = (if ty = BLOCK \<and> m (target, me) = Some FOLLOW then m((target, me) := None) else m)
      in if befriends_owner cfg me target ty \<and> m (target, me) \<noteq> Some BLOCK then m((target, me) \<mapsto> FOLLOW) else m)"

lemma rel_of_Nil [simp]: "rel_of [] p = None"
  by (simp add: rel_of_def)

lemma rel_of_Cons: "rel_of (r # rels) p = (if (rl_user r, rl_target r) = p then Some (rl_type r) else rel_of rels p)"
  by (cases p) (simp add: rel_of_def is_relation_def)

lemma rel_of_append: "rel_of (xs @ ys) p = (case rel_of xs p of None \<Rightarrow> rel_of ys p | Some ty \<Rightarrow> Some ty)"
  by (induction xs) (auto simp: rel_of_Cons)

lemma rel_of_update:
  "rel_of (update_first (is_relation u t) (\<lambda>r. r\<lparr>rl_type := ty\<rparr>) rels) p =
     (if p = (u, t) \<and> rel_of rels p \<noteq> None then Some ty else rel_of rels p)"
  by (induction rels) (auto simp: rel_of_Cons is_relation_def)

lemma remove_first_simps [simp]:
  "remove_first P [] = []"
  "remove_first P (x # xs) = (if P x then xs else x # remove_first P xs)"
  by (auto simp: remove_first_def split: option.split dest: find_SomeD)

lemma rel_keys_simps [simp]: "rel_keys [] = []" "rel_keys (r # rels) = (rl_user r, rl_target r) # rel_keys rels"
  "rel_keys (xs @ ys) = rel_keys xs @ rel_keys ys"
  by (simp_all add: rel_keys_def)

lemma rel_of_None: "rel_of rels p = None \<longleftrightarrow> p \<notin> set (rel_keys rels)"
  by (induction rels) (auto simp: rel_of_Cons)

lemma rel_of_remove:
  "distinct (rel_keys rels) \<Longrightarrow>
   rel_of (remove_first (is_typed u t ty) rels) p = (if p = (u, t) \<and> rel_of rels p = Some ty then None else rel_of rels p)"
  by (induction rels) (auto simp: rel_of_Cons is_typed_def is_relation_def rel_of_None)

lemma rel_keys_update [simp]: "rel_keys (update_first P (\<lambda>r. r\<lparr>rl_type := ty\<rparr>) rels) = rel_keys rels"
  by (induction rels) auto

lemma remove_first_keys: "distinct (rel_keys rels) \<Longrightarrow> distinct (rel_keys (remove_first P rels)) \<and> set (rel_keys (remove_first P rels)) \<subseteq> set (rel_keys rels)"
  by (induction rels) auto

lemma relations_ok_keys: "relations_ok rels \<longleftrightarrow> distinct (rel_keys rels) \<and> (\<forall>(u, t) \<in> set (rel_keys rels). u \<noteq> t)"
  by (auto simp: relations_ok_def rel_keys_def)

lemma find_relation: "find (is_relation u t) rels = None \<longleftrightarrow> rel_of rels (u, t) = None"
  by (simp add: rel_of_def)

lemma typed_iff: "distinct (rel_keys rels) \<Longrightarrow> list_ex (is_typed u t ty) rels \<longleftrightarrow> rel_of rels (u, t) = Some ty"
  by (induction rels) (auto simp: rel_of_Cons is_typed_def is_relation_def rel_of_None rel_keys_def list_ex_iff image_iff)

lemma find_typed: "distinct (rel_keys rels) \<Longrightarrow> find (is_typed u t ty) rels = None \<longleftrightarrow> rel_of rels (u, t) \<noteq> Some ty"
  using typed_iff [of rels u t ty] by (auto simp: find_None_iff list_ex_iff)

section \<open>Following and blocking\<close>

lemma rel_of_put: "rel_of (put_relation me target ty rels) = (rel_of rels)((me, target) \<mapsto> ty)"
  by (auto simp: put_relation_def find_relation rel_of_append rel_of_Cons rel_of_update fun_eq_iff split: option.split)

lemma put_ok: "relations_ok rels \<Longrightarrow> me \<noteq> target \<Longrightarrow> relations_ok (put_relation me target ty rels)"
  by (auto simp: put_relation_def relations_ok_keys find_relation rel_of_None)

lemma rel_of_back:
  "rel_of (owner_follows_back owner me rels) =
     (if rel_of rels (owner, me) \<noteq> Some BLOCK then (rel_of rels)((owner, me) \<mapsto> FOLLOW) else rel_of rels)"
proof (cases "find (is_relation owner me) rels")
  case None
  then have "rel_of rels (owner, me) = None" by (simp add: find_relation)
  then show ?thesis
    by (auto simp: owner_follows_back_def None rel_of_append rel_of_Cons fun_eq_iff split: option.split)
next
  case (Some r)
  then have "rel_of rels (owner, me) = Some (rl_type r)" by (simp add: rel_of_def)
  then show ?thesis by (auto simp: owner_follows_back_def Some rel_of_update fun_eq_iff)
qed

lemma back_ok: "relations_ok rels \<Longrightarrow> me \<noteq> owner \<Longrightarrow> relations_ok (owner_follows_back owner me rels)"
proof (cases "find (is_relation owner me) rels")
  case None
  assume "relations_ok rels" "me \<noteq> owner"
  moreover have "(owner, me) \<notin> set (rel_keys rels)" using None by (simp add: find_relation rel_of_None)
  ultimately show ?thesis by (auto simp: owner_follows_back_def None relations_ok_keys)
qed (simp add: owner_follows_back_def relations_ok_keys)

lemma remove_ok: "relations_ok rels \<Longrightarrow> relations_ok (remove_first P rels)"
  using remove_first_keys [of rels P] by (fastforce simp: relations_ok_keys)

lemma upsert_rows_ok: "relations_ok rels \<Longrightarrow> me \<noteq> target \<Longrightarrow> relations_ok (upsert_rows cfg me target ty rels)"
  by (simp add: upsert_rows_def put_ok remove_ok back_ok befriends_owner_def Let_def)

lemma upsert_rows_spec:
  assumes "relations_ok rels" and "me \<noteq> target"
  shows "rel_of (upsert_rows cfg me target ty rels) = follow_or_block cfg me target ty (rel_of rels)"
proof -
  have "distinct (rel_keys (put_relation me target ty rels))" for ty using put_ok [OF assms] by (simp add: relations_ok_def)
  note removed = rel_of_remove [OF this]
  show ?thesis using assms(2)
    by (cases ty)
       (auto simp: upsert_rows_def follow_or_block_def Let_def rel_of_put rel_of_back removed befriends_owner_def fun_eq_iff)
qed

inductive relation_step :: "owner_config \<Rightarrow> relations_db \<Rightarrow> relations_db \<Rightarrow> bool" for cfg where
  added: "relation_step cfg db (snd (upsert_relationship cfg restricted me target ty db))"
| deleted: "relation_step cfg db (snd (delete_relationship restricted me target ty db))"
| seen: "relation_step cfg db (snd (owner_follows cfg user db))"
| claimed: "relation_step cfg db (db\<lparr>rd_store := snd (claim_gift now user gid (rd_store db))\<rparr>)"
| elsewhere: "st_gifts store = st_gifts (rd_store db) \<Longrightarrow> relation_step cfg db (db\<lparr>rd_store := store\<rparr>)"

definition no_relations :: "(int \<times> string) list \<Rightarrow> relations_db" where
  "no_relations names = \<lparr>rd_relations = [], rd_store = empty_store names\<rparr>"

lemma relation_step_ok: "relation_step cfg db db' \<Longrightarrow> relations_ok (rd_relations db) \<Longrightarrow> relations_ok (rd_relations db')"
proof (induction rule: relation_step.induct)
  case (added db restricted me target ty)
  then show ?case by (auto simp: upsert_relationship_def Let_def upsert_rows_ok)
next
  case (deleted db restricted me target ty)
  then show ?case by (auto simp: delete_relationship_def remove_ok)
next
  case (seen db user)
  then show ?case by (auto simp: owner_follows_def relations_ok_keys find_relation rel_of_None)
qed auto

lemma reachable_relations_ok: "(relation_step cfg)\<^sup>*\<^sup>* (no_relations names) db \<Longrightarrow> relations_ok (rd_relations db)"
  by (induction rule: rtranclp_induct) (auto simp: relation_step_ok, simp add: no_relations_def relations_ok_def)

text \<open>C15: in every reachable state the table is a map from pairs of players to a kind of relation, and
  the requests are the operations meant on that map: following or blocking sets the player's own
  relation, blocking also ends a follow in the other direction, following the owner is followed
  back unless the owner blocks the player; taking a relation back removes it. The answer tells the
  relation and whether it is mutual.\<close>

theorem relations_are_a_map:
  assumes "(relation_step cfg)\<^sup>*\<^sup>* (no_relations names) db"
  shows "(\<forall>a db'. upsert_relationship cfg restricted me target ty db = (Inr a, db') \<longrightarrow>
            rel_of (rd_relations db') = follow_or_block cfg me target ty (rel_of (rd_relations db)) \<and>
            a = Some (ty, ty = FOLLOW \<and> rel_of (rd_relations db') (target, me) = Some FOLLOW)) \<and>
         (\<forall>db'. delete_relationship restricted me target ty db = (Inr (), db') \<longrightarrow>
            rel_of (rd_relations db) (me, target) = Some ty \<and>
            rel_of (rd_relations db') = (rel_of (rd_relations db))((me, target) := None))"
proof (intro conjI allI impI)
  note ok = reachable_relations_ok [OF assms]
  fix a db' assume up: "upsert_relationship cfg restricted me target ty db = (Inr a, db')"
  then have ne: "me \<noteq> target" and rels: "rd_relations db' = upsert_rows cfg me target ty (rd_relations db)"
    and a: "a = transform_user_relation ty me target (rd_relations db')"
    by (auto simp: upsert_relationship_def Let_def split: if_splits)
  show spec: "rel_of (rd_relations db') = follow_or_block cfg me target ty (rel_of (rd_relations db))"
    unfolding rels by (rule upsert_rows_spec [OF ok ne])
  have d: "distinct (rel_keys (rd_relations db'))" using upsert_rows_ok [OF ok ne] by (simp add: rels relations_ok_def)
  have "rel_of (rd_relations db') (me, target) = Some ty"
    using ne by (auto simp: spec follow_or_block_def Let_def befriends_owner_def)
  then obtain r where r: "find (is_typed me target ty) (rd_relations db') = Some r"
    using find_typed [OF d, of me target ty] by auto
  then have "rl_user r = me" "rl_target r = target" "rl_type r = ty"
    by (auto dest!: find_SomeD simp: is_typed_def is_relation_def)
  then show "a = Some (ty, ty = FOLLOW \<and> rel_of (rd_relations db') (target, me) = Some FOLLOW)"
    by (simp add: a transform_user_relation_def r mutual_def typed_iff [OF d])
next
  fix db' assume "delete_relationship restricted me target ty db = (Inr (), db')"
  then have rels: "rd_relations db' = remove_first (is_typed me target ty) (rd_relations db)"
    and found: "find (is_typed me target ty) (rd_relations db) \<noteq> None"
    by (auto simp: delete_relationship_def split: if_splits)
  have d: "distinct (rel_keys (rd_relations db))" using reachable_relations_ok [OF assms] by (simp add: relations_ok_def)
  show here: "rel_of (rd_relations db) (me, target) = Some ty" using found [unfolded find_typed [OF d]] by simp
  show "rel_of (rd_relations db') = (rel_of (rd_relations db))((me, target) := None)"
    unfolding rels using here by (auto simp: rel_of_remove [OF d] fun_eq_iff)
qed


section \<open>Lists of friends and followers\<close>

lemma rel_of_Some:
  assumes "distinct (rel_keys rels)"
  shows "rel_of rels (u, t) = Some ty \<longleftrightarrow> (\<exists>r \<in> set rels. rl_user r = u \<and> rl_target r = t \<and> rl_type r = ty)"
  using typed_iff [OF assms, of u t ty] by (auto simp: list_ex_iff is_typed_def is_relation_def)

lemma checked: "(case find (is_relation u t) rels of None \<Rightarrow> False | Some r \<Rightarrow> rl_type r = ty) \<longleftrightarrow> rel_of rels (u, t) = Some ty"
  by (auto simp: rel_of_def split: option.split)

text \<open>The three endpoints tell the same: a friend is a player followed, a follower is a player who
  follows, and each is marked as mutual exactly when the follow also exists in the other
  direction; restricted players are left out of both lists and mutual followers come first.\<close>

theorem lists_tell_who_follows:
  assumes "(relation_step cfg)\<^sup>*\<^sup>* (no_relations names) db" and "rels = rd_relations db"
  shows "((u, m) \<in> set (get_relationships restricted FOLLOW me rels) \<longleftrightarrow>
            rel_of rels (me, u) = Some FOLLOW \<and> \<not> restricted u \<and> m = (rel_of rels (u, me) = Some FOLLOW)) \<and>
         ((u, m) \<in> set (get_followers restricted users me rels) \<longleftrightarrow>
            rel_of rels (u, me) = Some FOLLOW \<and> \<not> restricted u \<and> u \<in> set users \<and> m = (rel_of rels (me, u) = Some FOLLOW)) \<and>
         check_user_relationship me u rels =
            (rel_of rels (u, me) = Some FOLLOW, rel_of rels (me, u) = Some FOLLOW,
             rel_of rels (u, me) = Some FOLLOW \<and> rel_of rels (me, u) = Some FOLLOW) \<and>
         (\<exists>xs ys. get_followers restricted users me rels = xs @ ys \<and> list_all snd xs \<and> \<not> list_ex snd ys)"
proof -
  have ok: "relations_ok rels" using reachable_relations_ok [OF assms(1)] assms(2) by simp
  then have d: "distinct (rel_keys rels)" by (simp add: relations_ok_def)
  have self: "rel_of rels (v, v) = None" for v using ok by (auto simp: relations_ok_keys rel_of_None)
  have follows_me: "v \<in> set (map rl_user (filter (\<lambda>r. rl_target r = me \<and> rl_type r = FOLLOW \<and> rl_user r \<in> set vs) rels)) \<longleftrightarrow>
      v \<in> set vs \<and> rel_of rels (v, me) = Some FOLLOW" for v vs
    by (auto simp: rel_of_Some [OF d])
  have back_targets: "v \<in> set (map rl_target (filter (\<lambda>r. rl_user r = me \<and> rl_type r = FOLLOW \<and> rl_target r \<in> set vs) rels)) \<longleftrightarrow>
      v \<in> set vs \<and> rel_of rels (me, v) = Some FOLLOW" for v vs
    by (auto simp: rel_of_Some [OF d])
  have "\<exists>xs ys. sort_key (\<lambda>(_, m). if m then 0::nat else 1) zs = xs @ ys \<and> list_all snd xs \<and> \<not> list_ex snd ys" for zs :: "(int \<times> bool) list"
  proof (intro exI conjI)
    let ?s = "sort_key (\<lambda>(_, m). if m then 0::nat else 1) zs"
    show "?s = takeWhile snd ?s @ dropWhile snd ?s" by simp
    show "list_all snd (takeWhile snd ?s)" by (auto simp: list_all_iff dest: set_takeWhileD)
    have zero: "(\<lambda>x::int \<times> bool. (if snd x then 0::nat else 1) = 0) = snd" by (auto simp: fun_eq_iff)
    have "sorted (map (\<lambda>(_, m). if m then 0::nat else 1) (dropWhile snd ?s))"
      using sorted_dropWhile [of "map (\<lambda>(_, m). if m then 0::nat else 1) ?s" "\<lambda>n. n = 0"]
      by (simp add: dropWhile_map comp_def case_prod_beta' zero)
    moreover have "dropWhile snd ?s \<noteq> [] \<Longrightarrow> \<not> snd (hd (dropWhile snd ?s))" by (rule hd_dropWhile)
    moreover have "\<not> list_ex snd ds" if "sorted (map (\<lambda>(_, m). if m then 0::nat else 1) ds)" "ds \<noteq> [] \<Longrightarrow> \<not> snd (hd ds)" for ds :: "(int \<times> bool) list"
      using that by (cases ds) (auto simp: list_ex_iff split: if_splits)
    ultimately show "\<not> list_ex snd (dropWhile snd ?s)" by blast
  qed
  moreover have "(u, m) \<in> set (get_relationships restricted FOLLOW me rels) \<longleftrightarrow>
      rel_of rels (me, u) = Some FOLLOW \<and> \<not> restricted u \<and> m = (rel_of rels (u, me) = Some FOLLOW)"
    unfolding get_relationships_def Let_def follows_me by (auto simp: rel_of_Some [OF d])
  moreover have "(u, m) \<in> set (get_followers restricted users me rels) \<longleftrightarrow>
      rel_of rels (u, me) = Some FOLLOW \<and> \<not> restricted u \<and> u \<in> set users \<and> m = (rel_of rels (me, u) = Some FOLLOW)"
    unfolding get_followers_def Let_def back_targets by (auto simp: rel_of_Some [OF d])
  moreover have "check_user_relationship me u rels =
            (rel_of rels (u, me) = Some FOLLOW, rel_of rels (me, u) = Some FOLLOW,
             rel_of rels (u, me) = Some FOLLOW \<and> rel_of rels (me, u) = Some FOLLOW)"
    by (simp add: check_user_relationship_def checked Let_def self)
  ultimately show ?thesis by (auto simp: get_followers_def Let_def)
qed

section \<open>The gift for befriending the owner\<close>

definition founder_gifts :: "int \<Rightarrow> int \<Rightarrow> gift list \<Rightarrow> gift list" where
  "founder_gifts owner user gs = filter (is_founder_gift owner user) gs"

lemma claim_keeps_founder_gifts:
  "length (founder_gifts owner user (st_gifts (snd (claim_gift now u gid db)))) = length (founder_gifts owner user (st_gifts db))"
proof -
  have "length (filter P (map f gs)) = length (filter P gs)" if "\<And>g. P (f g) = P g" for P :: "gift \<Rightarrow> bool" and f gs
    using that by (induction gs) auto
  from this [of "is_founder_gift owner user"] show ?thesis
    by (auto simp: claim_gift_def founder_gifts_def is_founder_gift_def Let_def split: option.split)
qed

lemma friend_founder_gifts:
  "length (founder_gifts owner user (st_gifts (snd (handle_founder_friend owner u db)))) =
     (if u = user \<and> u \<noteq> owner \<and> founder_gifts owner user (st_gifts db) = [] then 1
      else length (founder_gifts owner user (st_gifts db)))"
proof (cases "u = owner \<or> founder_gifts owner u (st_gifts db) \<noteq> []")
  case True
  then have "u = owner \<or> find (is_founder_gift owner u) (st_gifts db) \<noteq> None"
    by (auto simp: founder_gifts_def find_None_iff filter_empty_conv simp del: not_None_eq)
  then have "snd (handle_founder_friend owner u db) = db" by (auto simp: handle_founder_friend_def simp del: not_None_eq)
  with True show ?thesis by auto
next
  case False
  then have none: "find (is_founder_gift owner u) (st_gifts db) = None"
    by (auto simp: founder_gifts_def find_None_iff filter_empty_conv)
  show ?thesis using False
    by (auto simp: handle_founder_friend_def none) (auto simp: founder_gifts_def is_founder_gift_def)
qed

text \<open>However often a player befriends and leaves the owner, blocks and is blocked in between, and
  claims what is pending, the player is given the owner's welcome gift at most once, and has it
  after befriending the owner.\<close>

theorem founder_gift_once:
  assumes "(relation_step cfg)\<^sup>*\<^sup>* (no_relations names) db"
  shows "length (founder_gifts (owner_user_id cfg) user (st_gifts (rd_store db))) \<le> 1 \<and>
         (\<forall>restricted a db'. upsert_relationship cfg restricted user (owner_user_id cfg) FOLLOW db = (Inr a, db') \<longrightarrow>
            length (founder_gifts (owner_user_id cfg) user (st_gifts (rd_store db'))) = 1)"
proof -
  let ?n = "\<lambda>db. length (founder_gifts (owner_user_id cfg) user (st_gifts (rd_store db)))"
  have le: "?n db \<le> 1"
    using assms
  proof (induction rule: rtranclp_induct)
    case (step db1 db2)
    from step(2,3) show ?case
      by (induction rule: relation_step.induct)
         (auto simp: upsert_relationship_def delete_relationship_def owner_follows_def Let_def friend_founder_gifts
            claim_keeps_founder_gifts)
  qed (simp add: no_relations_def empty_store_def founder_gifts_def)
  moreover have "?n db' = 1" if "upsert_relationship cfg restricted user (owner_user_id cfg) FOLLOW db = (Inr a, db')" for restricted a db'
  proof -
    from that have "rd_store db' = snd (handle_founder_friend (owner_user_id cfg) user (rd_store db))" "user \<noteq> owner_user_id cfg"
      by (auto simp: upsert_relationship_def Let_def befriends_owner_def split: if_splits)
    with le show ?thesis by (cases "founder_gifts (owner_user_id cfg) user (st_gifts (rd_store db))") (auto simp: friend_founder_gifts)
  qed
  ultimately show ?thesis by blast
qed

section \<open>Witnesses\<close>

definition torii_owner :: owner_config where
  "torii_owner = \<lparr>torii_owner_user_id = 0, torii_owner_follows_everyone = False\<rparr>"

definition two_players :: relations_db where
  "two_players = no_relations [(3, ''shikke''), (7, ''mika''), (8, ''ren'')]"

definition friends_db :: relations_db where
  "friends_db = snd (upsert_relationship torii_owner (\<lambda>_. False) 7 3 FOLLOW two_players)"

lemma friends_rows: "rd_relations friends_db = [\<lparr>rl_user = 7, rl_target = 3, rl_type = FOLLOW\<rparr>, \<lparr>rl_user = 3, rl_target = 7, rl_type = FOLLOW\<rparr>]"
  by (simp add: friends_db_def upsert_relationship_def two_players_def no_relations_def target_exists_def empty_store_def
      upsert_rows_def put_relation_def befriends_owner_def owner_follows_back_def owner_user_id_def torii_owner_def is_relation_def Let_def)

lemma friends_reached: "(relation_step torii_owner)\<^sup>*\<^sup>* (no_relations [(3, ''shikke''), (7, ''mika''), (8, ''ren'')]) friends_db"
  unfolding friends_db_def two_players_def by (intro r_into_rtranclp added)

lemma friends_names: "target_exists (\<lambda>_. False) 3 friends_db" "target_exists (\<lambda>_. False) 7 friends_db"
  by (simp_all add: friends_db_def upsert_relationship_def two_players_def no_relations_def target_exists_def empty_store_def
      Let_def handle_founder_friend_def)

lemma relations_are_a_map_witness:
  "\<exists>a db'. upsert_relationship torii_owner (\<lambda>_. False) 3 7 BLOCK friends_db = (Inr a, db') \<and>
     rel_of (rd_relations db') (3, 7) = Some BLOCK \<and> rel_of (rd_relations db') (7, 3) = None \<and> a = Some (BLOCK, False)"
proof -
  obtain a db' where up: "upsert_relationship torii_owner (\<lambda>_. False) 3 7 BLOCK friends_db = (Inr a, db')"
    using friends_names(2) by (simp add: upsert_relationship_def Let_def)
  with relations_are_a_map [OF friends_reached, of "\<lambda>_. False" 3 7 BLOCK]
  have "rel_of (rd_relations db') = follow_or_block torii_owner 3 7 BLOCK (rel_of (rd_relations friends_db)) \<and>
      a = Some (BLOCK, False)" by auto
  with up show ?thesis
    by (simp add: friends_rows follow_or_block_def Let_def rel_of_Cons befriends_owner_def)
qed

lemma lists_tell_who_follows_witness: "(3, True) \<in> set (get_relationships (\<lambda>_. False) FOLLOW 7 (rd_relations friends_db))"
  using lists_tell_who_follows [OF friends_reached refl, of 3 True "\<lambda>_. False" 7 "[]"] by (simp add: friends_rows rel_of_Cons)

lemma founder_gift_once_witness:
  "\<exists>a db'. upsert_relationship torii_owner (\<lambda>_. False) 7 3 FOLLOW friends_db = (Inr a, db') \<and>
     length (founder_gifts 3 7 (st_gifts (rd_store db'))) = 1"
proof -
  obtain a db' where up: "upsert_relationship torii_owner (\<lambda>_. False) 7 3 FOLLOW friends_db = (Inr a, db')"
    using friends_names(1) by (simp add: upsert_relationship_def Let_def)
  with founder_gift_once [OF friends_reached, of 7] show ?thesis
    by (simp add: owner_user_id_def torii_owner_def)
qed

end
