(* ===== verification/Redis.thy ===== *)
theory Redis
  imports Calendar
begin

text \<open>
  Redis keys with a time to live, as the services use them: a key holds a value and the moment it
  expires, and reads as missing from that moment on.
\<close>

type_synonym ('k, 'v) ttl_keys = "'k \<Rightarrow> ('v \<times> moment) option"

definition redis_get :: "moment \<Rightarrow> ('k, 'v) ttl_keys \<Rightarrow> 'k \<Rightarrow> 'v option" where
  "redis_get now m k = (case m k of None \<Rightarrow> None | Some (v, e) \<Rightarrow> if now < e then Some v else None)"

definition setex :: "moment \<Rightarrow> 'k \<Rightarrow> nat \<Rightarrow> 'v \<Rightarrow> ('k, 'v) ttl_keys \<Rightarrow> ('k, 'v) ttl_keys" where
  "setex now k ttl v m = m(k \<mapsto> (v, now + ttl))"

text \<open>The seconds a key has left; 0 stands for the negative answers.\<close>

definition redis_ttl :: "moment \<Rightarrow> ('k, 'v) ttl_keys \<Rightarrow> 'k \<Rightarrow> nat" where
  "redis_ttl now m k = (case m k of None \<Rightarrow> 0 | Some (_, e) \<Rightarrow> e - now)"

text \<open>\<^verbatim>\<open>incr\<close>: a missing key starts at 0 and has no expiry until it gets one; the callers set it in the
  same step, so the expiry is an argument here.\<close>

definition redis_incr :: "moment \<Rightarrow> 'k \<Rightarrow> nat \<Rightarrow> ('k, nat) ttl_keys \<Rightarrow> ('k, nat) ttl_keys" where
  "redis_incr now k ttl m =
     (case redis_get now m k of
        None \<Rightarrow> setex now k ttl 1 m
      | Some n \<Rightarrow> (case m k of None \<Rightarrow> m | Some (_, e) \<Rightarrow> m(k \<mapsto> (n + 1, e))))"

lemma redis_get_setex [simp]:
  "redis_get now (setex t k ttl v m) k' = (if k' = k then (if now < t + ttl then Some v else None) else redis_get now m k')"
  by (simp add: redis_get_def setex_def)

lemma redis_get_update [simp]:
  "redis_get now (m(k := None)) k' = (if k' = k then None else redis_get now m k')"
  "redis_get now (m(k \<mapsto> (v, e))) k' = (if k' = k then (if now < e then Some v else None) else redis_get now m k')"
  by (simp_all add: redis_get_def)

lemma redis_get_None [simp]: "m k = None \<Longrightarrow> redis_get now m k = None"
  by (simp add: redis_get_def)

lemma redis_get_later: "redis_get now m k = None \<Longrightarrow> now \<le> later \<Longrightarrow> redis_get later m k = None"
  by (auto simp: redis_get_def split: option.splits prod.splits if_splits)

lemma redis_get_SomeD: "redis_get now m k = Some v \<Longrightarrow> \<exists>e. m k = Some (v, e) \<and> now < e"
  by (auto simp: redis_get_def split: option.splits prod.splits if_splits)

end
