(* ===== verification/Sessions.thy ===== *)
theory Sessions
  imports Redis
begin

text \<open>
  Signing in: tokens (\<^verbatim>\<open>src/app/auth.py\<close>), the grants of \<^verbatim>\<open>src/app/router/auth.py\<close>, sessions that wait
  for a second factor and their verification (\<^verbatim>\<open>src/app/service/verification_service.py\<close>,
  \<^verbatim>\<open>src/app/router/v2/session_verify.py\<close>, \<^verbatim>\<open>src/app/dependencies/user.py\<close>), and one-time passwords.
  The time-based code check (pyotp), the hash check of backup codes (bcrypt) and the password check
  are arguments, random strings are arguments of the requests that use them, and whether a mail could
  be queued is part of the request. Logs, alerts, hardware identifiers and the Turnstile check are
  outside.
\<close>

section \<open>State\<close>

record sign_in_config =
  enable_totp_verification :: bool
  enable_email_verification :: bool
  enable_multi_device_login :: bool
  max_tokens_per_client :: int
  device_trust_duration_days :: nat
  access_token_expire_minutes :: nat
  refresh_token_expire_minutes :: nat

record oauth_token =
  ot_id :: int
  ot_user :: int
  ot_client :: int
  ot_access :: string
  ot_refresh :: string
  ot_scopes :: "string list"
  ot_expires_at :: moment
  ot_refresh_expires_at :: moment
  ot_created_at :: moment

record login_session =
  ls_user :: int
  ls_token :: "int option"
  ls_new_device :: bool
  ls_web_uuid :: "string option"
  ls_expires_at :: moment
  ls_verified :: bool
  ls_device :: "int option"

record trusted_device =
  dv_id :: int
  dv_user :: int
  dv_ip :: string
  dv_client :: bool
  dv_web_uuid :: "string option"
  dv_expires_at :: moment

record email_verification =
  ev_id :: int
  ev_user :: int
  ev_code :: string
  ev_expires_at :: moment
  ev_used :: bool

record totp_key =
  tk_secret :: string
  tk_backup_keys :: "string list"

datatype verify_method = Totp | Mail

text \<open>The tables, the counters of their identifiers, and the Redis keys: the method chosen for a
  session (without expiry), one-time passwords just used, mail codes, the mail rate limit, failed
  sign-ins per address and unfinished setups of one-time passwords.\<close>

record sign_in_db =
  sd_tokens :: "oauth_token list"
  sd_next_token :: int
  sd_sessions :: "login_session list"
  sd_devices :: "trusted_device list"
  sd_next_device :: int
  sd_mails :: "email_verification list"
  sd_next_mail :: int
  sd_totp :: "int \<Rightarrow> totp_key option"
  sd_methods :: "int \<times> int \<Rightarrow> verify_method option"
  sd_used_totp :: "(int \<times> string, unit) ttl_keys"
  sd_mail_codes :: "(int \<times> string, int) ttl_keys"
  sd_mail_limit :: "(int, unit) ttl_keys"
  sd_fails :: "(string, nat) ttl_keys"
  sd_setups :: "(int, string \<times> nat) ttl_keys"

section \<open>Tokens\<close>

text \<open>Deleting tokens sets the token of their sessions to null.\<close>

definition forget_token :: "int set \<Rightarrow> login_session \<Rightarrow> login_session" where
  "forget_token gone s = (if ls_token s \<in> Some ` gone then s\<lparr>ls_token := None\<rparr> else s)"

definition delete_tokens :: "(oauth_token \<Rightarrow> bool) \<Rightarrow> sign_in_db \<Rightarrow> sign_in_db" where
  "delete_tokens P db =
     db\<lparr>sd_tokens := filter (\<lambda>t. \<not> P t) (sd_tokens db),
        sd_sessions := map (forget_token (ot_id ` set (filter P (sd_tokens db)))) (sd_sessions db)\<rparr>"

definition invalidate_user_tokens :: "int \<Rightarrow> sign_in_db \<Rightarrow> nat \<times> sign_in_db" where
  "invalidate_user_tokens user db =
     (length (filter (\<lambda>t. ot_user t = user) (sd_tokens db)), delete_tokens (\<lambda>t. ot_user t = user) db)"

text \<open>\<^verbatim>\<open>xs[n:]\<close>, which counts from the end for a negative \<open>n\<close>.\<close>

definition slice_from :: "int \<Rightarrow> 'a list \<Rightarrow> 'a list" where
  "slice_from n xs = (if n < 0 then drop (nat (int (length xs) + n)) xs else drop (nat n) xs)"

definition tokens_of :: "int \<Rightarrow> int \<Rightarrow> oauth_token \<Rightarrow> bool" where
  "tokens_of user client t \<longleftrightarrow> ot_user t = user \<and> ot_client t = client"

definition active_tokens :: "moment \<Rightarrow> int \<Rightarrow> int \<Rightarrow> oauth_token list \<Rightarrow> oauth_token list" where
  "active_tokens now user client tokens =
     sort_key (\<lambda>t. - int (ot_created_at t)) (filter (\<lambda>t. tokens_of user client t \<and> now < ot_expires_at t) tokens)"

definition drop_old_tokens :: "moment \<Rightarrow> sign_in_config \<Rightarrow> int \<Rightarrow> int \<Rightarrow> sign_in_db \<Rightarrow> sign_in_db" where
  "drop_old_tokens now cfg user client db =
     (if \<not> enable_multi_device_login cfg then delete_tokens (tokens_of user client) db
      else
        let db = delete_tokens (\<lambda>t. tokens_of user client t \<and> ot_expires_at t \<le> now) db;
            active = active_tokens now user client (sd_tokens db)
        in if max_tokens_per_client cfg \<le> int (length active)
           then delete_tokens (\<lambda>t. ot_id t \<in> ot_id ` set (slice_from (max_tokens_per_client cfg - 1) active)) db
           else db)"

definition store_token ::
  "moment \<Rightarrow> sign_in_config \<Rightarrow> int \<Rightarrow> int \<Rightarrow> string list \<Rightarrow> string \<Rightarrow> string \<Rightarrow> sign_in_db \<Rightarrow> oauth_token \<times> sign_in_db" where
  "store_token now cfg user client scopes access refresh db =
     (let db = drop_old_tokens now cfg user client db;
          db = (case find (\<lambda>t. ot_access t = access) (sd_tokens db) of
                  None \<Rightarrow> db | Some d \<Rightarrow> delete_tokens (\<lambda>t. ot_id t = ot_id d) db);
          t = \<lparr>ot_id = sd_next_token db, ot_user = user, ot_client = client, ot_access = access, ot_refresh = refresh,
               ot_scopes = scopes, ot_expires_at = now + 60 * access_token_expire_minutes cfg,
               ot_refresh_expires_at = now + 60 * refresh_token_expire_minutes cfg, ot_created_at = now\<rparr>
      in (t, db\<lparr>sd_tokens := sd_tokens db @ [t], sd_next_token := sd_next_token db + 1\<rparr>))"

definition get_token_by_access_token :: "moment \<Rightarrow> string \<Rightarrow> sign_in_db \<Rightarrow> oauth_token option" where
  "get_token_by_access_token now access db = find (\<lambda>t. ot_access t = access \<and> now < ot_expires_at t) (sd_tokens db)"

definition get_token_by_refresh_token :: "moment \<Rightarrow> string \<Rightarrow> sign_in_db \<Rightarrow> oauth_token option" where
  "get_token_by_refresh_token now refresh db =
     find (\<lambda>t. ot_refresh t = refresh \<and> now < ot_refresh_expires_at t) (sd_tokens db)"

section \<open>One-time passwords\<close>

definition verify_totp_with_replay_protection ::
  "(string \<Rightarrow> moment \<Rightarrow> string \<Rightarrow> bool) \<Rightarrow> moment \<Rightarrow> int \<Rightarrow> string \<Rightarrow> string \<Rightarrow> sign_in_db \<Rightarrow> bool \<times> sign_in_db" where
  "verify_totp_with_replay_protection totp_ok now user secret code db =
     (if \<not> totp_ok secret now code then (False, db)
      else if redis_get now (sd_used_totp db) (user, code) \<noteq> None then (False, db)
      else (True, db\<lparr>sd_used_totp := setex now (user, code) 120 () (sd_used_totp db)\<rparr>))"

text \<open>\<^verbatim>\<open>check_totp_backup_code\<close>: the first hash the code fits is taken out of the list.\<close>

definition check_totp_backup_code :: "(string \<Rightarrow> string \<Rightarrow> bool) \<Rightarrow> totp_key \<Rightarrow> string \<Rightarrow> bool \<times> totp_key" where
  "check_totp_backup_code checkpw k code =
     (case find (checkpw code) (tk_backup_keys k) of
        None \<Rightarrow> (False, k)
      | Some h \<Rightarrow> (True, k\<lparr>tk_backup_keys := remove1 h (tk_backup_keys k)\<rparr>))"

datatype finish_status = Invalid | Success | Failed | Too_many_attempts

definition start_create_totp :: "moment \<Rightarrow> int \<Rightarrow> string \<Rightarrow> sign_in_db \<Rightarrow> (py_error + string) \<times> sign_in_db" where
  "start_create_totp now user secret db =
     (if sd_totp db user \<noteq> None then (Inl (HTTPException 400 ''TOTP is already enabled for this user''), db)
      else case redis_get now (sd_setups db) user of
        Some (previous, _) \<Rightarrow> (Inr previous, db)
      | None \<Rightarrow> (Inr secret, db\<lparr>sd_setups := setex now user 300 (secret, 0) (sd_setups db)\<rparr>))"

definition finish_create_totp ::
  "(string \<Rightarrow> moment \<Rightarrow> string \<Rightarrow> bool) \<Rightarrow> moment \<Rightarrow> int \<Rightarrow> string \<Rightarrow> string list \<Rightarrow> sign_in_db \<Rightarrow> finish_status \<times> sign_in_db" where
  "finish_create_totp totp_ok now user code hashes db =
     (case redis_get now (sd_setups db) user of
        None \<Rightarrow> (Invalid, db)
      | Some (secret, fails) \<Rightarrow>
          if 3 \<le> fails then (Too_many_attempts, db\<lparr>sd_setups := (sd_setups db)(user := None)\<rparr>)
          else if totp_ok secret now code
          then (Success, db\<lparr>sd_setups := (sd_setups db)(user := None),
                           sd_totp := (sd_totp db)(user \<mapsto> \<lparr>tk_secret = secret, tk_backup_keys = hashes\<rparr>)\<rparr>)
          else (Failed, db\<lparr>sd_setups := (sd_setups db)(user := map_option (\<lambda>(_, e). ((secret, fails + 1), e)) (sd_setups db user))\<rparr>))"

text \<open>\<^verbatim>\<open>disable_totp\<close> of the one-time password page.\<close>

definition disable_totp ::
  "(string \<Rightarrow> moment \<Rightarrow> string \<Rightarrow> bool) \<Rightarrow> (string \<Rightarrow> string \<Rightarrow> bool) \<Rightarrow> moment \<Rightarrow> int \<Rightarrow> string \<Rightarrow> sign_in_db \<Rightarrow> (py_error + unit) \<times> sign_in_db" where
  "disable_totp totp_ok checkpw now user code db =
     (case sd_totp db user of
        None \<Rightarrow> (Inl (HTTPException 400 ''TOTP is not enabled for this user''), db)
      | Some k \<Rightarrow>
          let (valid, db') = (if length code = 6 \<and> str_isdigit code
                 then verify_totp_with_replay_protection totp_ok now user (tk_secret k) code db
                 else (length code = 10 \<and> fst (check_totp_backup_code checkpw k code), db))
          in if valid then (Inr (), db'\<lparr>sd_totp := (sd_totp db')(user := None)\<rparr>)
             else (Inl (HTTPException 400 ''Invalid TOTP code or backup code''), db'))"

section \<open>Devices\<close>

definition same_device :: "int \<Rightarrow> bool \<Rightarrow> string \<Rightarrow> string option \<Rightarrow> trusted_device \<Rightarrow> bool" where
  "same_device user is_client ip web_uuid d \<longleftrightarrow>
     dv_user d = user \<and> dv_client d = is_client \<and> (if is_client then dv_ip d = ip else dv_web_uuid d = web_uuid)"

definition check_trusted_device :: "moment \<Rightarrow> int \<Rightarrow> bool \<Rightarrow> string \<Rightarrow> string option \<Rightarrow> sign_in_db \<Rightarrow> bool" where
  "check_trusted_device now user is_client ip web_uuid db \<longleftrightarrow>
     (if \<not> is_client \<and> web_uuid = None then False
      else list_ex (\<lambda>d. same_device user is_client ip web_uuid d \<and> now < dv_expires_at d) (sd_devices db))"

definition trust_until :: "moment \<Rightarrow> sign_in_config \<Rightarrow> moment" where
  "trust_until now cfg = now + 86400 * device_trust_duration_days cfg"

definition get_or_create_trusted_device ::
  "moment \<Rightarrow> sign_in_config \<Rightarrow> int \<Rightarrow> bool \<Rightarrow> string \<Rightarrow> string option \<Rightarrow> sign_in_db \<Rightarrow> trusted_device \<times> sign_in_db" where
  "get_or_create_trusted_device now cfg user is_client ip web_uuid db =
     (case find (same_device user is_client ip web_uuid) (sd_devices db) of
        None \<Rightarrow>
          let d = \<lparr>dv_id = sd_next_device db, dv_user = user, dv_ip = ip, dv_client = is_client,
                   dv_web_uuid = (if is_client then None else web_uuid), dv_expires_at = trust_until now cfg\<rparr>
          in (d, db\<lparr>sd_devices := sd_devices db @ [d], sd_next_device := sd_next_device db + 1\<rparr>)
      | Some d \<Rightarrow>
          let d' = d\<lparr>dv_expires_at := trust_until now cfg\<rparr>
          in (d', db\<lparr>sd_devices := map (\<lambda>x. if dv_id x = dv_id d then d' else x) (sd_devices db)\<rparr>))"

section \<open>Mail codes\<close>

definition create_verification_record :: "moment \<Rightarrow> int \<Rightarrow> string \<Rightarrow> sign_in_db \<Rightarrow> string \<times> sign_in_db" where
  "create_verification_record now user code db =
     (case find (\<lambda>v. ev_user v = user \<and> \<not> ev_used v \<and> now < ev_expires_at v) (sd_mails db) of
        Some v \<Rightarrow> (ev_code v, db)
      | None \<Rightarrow>
          let v = \<lparr>ev_id = sd_next_mail db, ev_user = user, ev_code = code, ev_expires_at = now + 600, ev_used = False\<rparr>
          in (code, db\<lparr>sd_mails := sd_mails db @ [v], sd_next_mail := sd_next_mail db + 1,
                      sd_mail_codes := setex now (user, code) 600 (ev_id v) (sd_mail_codes db)\<rparr>))"

text \<open>\<open>queued\<close> is whether the mail could be queued. The answer says whether a mail identifier came back.\<close>

definition send_verification_email :: "moment \<Rightarrow> sign_in_config \<Rightarrow> int \<Rightarrow> string \<Rightarrow> bool \<Rightarrow> sign_in_db \<Rightarrow> bool \<times> sign_in_db" where
  "send_verification_email now cfg user code queued db =
     (if \<not> enable_email_verification cfg then (True, db)
      else (queued, snd (create_verification_record now user code db)))"

definition verify_email_code :: "moment \<Rightarrow> sign_in_config \<Rightarrow> int \<Rightarrow> string \<Rightarrow> sign_in_db \<Rightarrow> bool \<times> sign_in_db" where
  "verify_email_code now cfg user code db =
     (if \<not> enable_email_verification cfg then (True, db)
      else case redis_get now (sd_mail_codes db) (user, code) of
        None \<Rightarrow> (False, db)
      | Some vid \<Rightarrow>
          (case find (\<lambda>v. ev_id v = vid \<and> ev_user v = user \<and> ev_code v = code \<and> \<not> ev_used v \<and> now < ev_expires_at v) (sd_mails db) of
             None \<Rightarrow> (False, db)
           | Some v \<Rightarrow>
               (True, db\<lparr>sd_mails := map (\<lambda>x. if ev_id x = ev_id v then x\<lparr>ev_used := True\<rparr> else x) (sd_mails db),
                        sd_mail_codes := (sd_mail_codes db)((user, code) := None)\<rparr>)))"

definition resend_verification_code :: "moment \<Rightarrow> sign_in_config \<Rightarrow> int \<Rightarrow> string \<Rightarrow> bool \<Rightarrow> sign_in_db \<Rightarrow> bool \<times> sign_in_db" where
  "resend_verification_code now cfg user code queued db =
     (if \<not> enable_email_verification cfg then (True, db)
      else if redis_get now (sd_mail_limit db) user \<noteq> None then (False, db)
      else send_verification_email now cfg user code queued (db\<lparr>sd_mail_limit := setex now user 60 () (sd_mail_limit db)\<rparr>))"

section \<open>Sessions that wait for a second factor\<close>

definition create_session ::
  "moment \<Rightarrow> int \<Rightarrow> int \<Rightarrow> bool \<Rightarrow> string option \<Rightarrow> bool \<Rightarrow> sign_in_db \<Rightarrow> sign_in_db" where
  "create_session now user token new_device web_uuid verified db =
     db\<lparr>sd_sessions := sd_sessions db @
          [\<lparr>ls_user = user, ls_token = Some token, ls_new_device = new_device, ls_web_uuid = web_uuid,
            ls_expires_at = now + 86400, ls_verified = verified, ls_device = None\<rparr>]\<rparr>"

definition waits :: "moment \<Rightarrow> int \<Rightarrow> int \<Rightarrow> login_session \<Rightarrow> bool" where
  "waits now user token s \<longleftrightarrow> ls_user s = user \<and> ls_token s = Some token \<and> \<not> ls_verified s \<and> now < ls_expires_at s"

definition check_is_need_verification :: "moment \<Rightarrow> sign_in_config \<Rightarrow> int \<Rightarrow> int \<Rightarrow> sign_in_db \<Rightarrow> bool" where
  "check_is_need_verification now cfg user token db \<longleftrightarrow>
     (enable_totp_verification cfg \<or> enable_email_verification cfg) \<and> list_ex (waits now user token) (sd_sessions db)"

definition mark_session_verified ::
  "moment \<Rightarrow> sign_in_config \<Rightarrow> int \<Rightarrow> int \<Rightarrow> bool \<Rightarrow> string \<Rightarrow> string option \<Rightarrow> sign_in_db \<Rightarrow> sign_in_db" where
  "mark_session_verified now cfg user token is_client ip web_uuid db =
     (let (device, db) = (if is_client \<or> (web_uuid \<noteq> None \<and> web_uuid \<noteq> Some [])
            then (let (d, db) = get_or_create_trusted_device now cfg user is_client ip web_uuid db in (Some (dv_id d), db))
            else (None, db))
      in db\<lparr>sd_sessions := map (\<lambda>s. if waits now user token s
                  then s\<lparr>ls_verified := True, ls_device := (if device = None then ls_device s else device)\<rparr> else s) (sd_sessions db),
            sd_methods := (sd_methods db)((user, token) := None)\<rparr>)"

definition SUPPORT_TOTP_VERIFICATION_VER :: nat where "SUPPORT_TOTP_VERIFICATION_VER = 20250913"

text \<open>\<^verbatim>\<open>get_client_user\<close>: the user of a valid token whose session does not wait. Restriction is an
  argument; \<open>web\<close> is the client of the website.\<close>

definition get_client_user ::
  "moment \<Rightarrow> sign_in_config \<Rightarrow> int \<Rightarrow> (int \<Rightarrow> bool) \<Rightarrow> nat \<Rightarrow> string \<Rightarrow> sign_in_db \<Rightarrow> (py_error + int) \<times> sign_in_db" where
  "get_client_user now cfg web restricted api access db =
     (case get_token_by_access_token now access db of
        None \<Rightarrow> (Inl (HTTPException 401 ''Invalid or expired token''), db)
      | Some t \<Rightarrow>
          if ot_client t \<noteq> web \<and> restricted (ot_user t) then (Inl (HTTPException 403 ''Your account is banned from Torii.''), db)
          else if check_is_need_verification now cfg (ot_user t) (ot_id t) db then
            let k = (ot_user t, ot_id t);
                m = (if SUPPORT_TOTP_VERIFICATION_VER \<le> api then sd_methods db k else None);
                chosen = (if sd_totp db (ot_user t) \<noteq> None \<and> SUPPORT_TOTP_VERIFICATION_VER \<le> api then Totp else Mail);
                db' = (if m = None \<and> SUPPORT_TOTP_VERIFICATION_VER \<le> api then db\<lparr>sd_methods := (sd_methods db)(k \<mapsto> chosen)\<rparr> else db)
            in (Inl (HTTPException 401 ''User not verified''), db')
          else (Inr (ot_user t), db))"

section \<open>Signing in\<close>

text \<open>A password sign-in: the client and its address, what is missing from the form, the outcome of
  the password check and of the client check, and the random strings drawn on the way.\<close>

record sign_in =
  si_api :: nat
  si_is_client :: bool
  si_ip :: string
  si_web_uuid :: "string option"
  si_client :: int
  si_scopes :: "string list"
  si_complete :: bool
  si_user :: "int option"
  si_client_refused :: bool
  si_access :: string
  si_refresh :: string
  si_mail_code :: string
  si_mail_queued :: bool

definition session_method :: "sign_in_config \<Rightarrow> nat \<Rightarrow> bool \<Rightarrow> bool \<Rightarrow> verify_method option" where
  "session_method cfg api has_totp trusted =
     (if SUPPORT_TOTP_VERIFICATION_VER \<le> api \<and> enable_totp_verification cfg \<and> has_totp then Some Totp
      else if \<not> trusted \<and> enable_email_verification cfg then Some Mail
      else None)"

definition open_session :: "moment \<Rightarrow> sign_in_config \<Rightarrow> sign_in \<Rightarrow> int \<Rightarrow> int \<Rightarrow> sign_in_db \<Rightarrow> sign_in_db" where
  "open_session now cfg rq user token db =
     (let trusted = check_trusted_device now user (si_is_client rq) (si_ip rq) (si_web_uuid rq) db;
          m = session_method cfg (si_api rq) (sd_totp db user \<noteq> None) trusted;
          db = (if m = Some Mail then snd (send_verification_email now cfg user (si_mail_code rq) (si_mail_queued rq) db)
                else if m = None \<and> \<not> trusted
                then mark_session_verified now cfg user token (si_is_client rq) (si_ip rq) (si_web_uuid rq) db
                else db);
          db = create_session now user token (\<not> trusted) (si_web_uuid rq) (m = None) db
      in case m of None \<Rightarrow> db | Some x \<Rightarrow> db\<lparr>sd_methods := (sd_methods db)((user, token) \<mapsto> x)\<rparr>)"

definition password_grant :: "moment \<Rightarrow> sign_in_config \<Rightarrow> sign_in \<Rightarrow> sign_in_db \<Rightarrow> (py_error + oauth_token) \<times> sign_in_db" where
  "password_grant now cfg rq db =
     (if \<not> si_complete rq then (Inl (HTTPException 400 ''invalid_request''), db)
      else if si_scopes rq \<noteq> [''*''] then (Inl (HTTPException 400 ''invalid_scope''), db)
      else if (case redis_get now (sd_fails db) (si_ip rq) of None \<Rightarrow> False | Some n \<Rightarrow> 10 \<le> n)
      then (Inl (HTTPException 429 ''too_many_attempts''), db)
      else case si_user rq of
        None \<Rightarrow> (Inl (HTTPException 400 ''invalid_grant''), db\<lparr>sd_fails := redis_incr now (si_ip rq) 600 (sd_fails db)\<rparr>)
      | Some user \<Rightarrow>
          let db = db\<lparr>sd_fails := (sd_fails db)(si_ip rq := None)\<rparr> in
          if si_client_refused rq then (Inl (HTTPException 400 ''invalid_client''), db)
          else
            let (t, db) = store_token now cfg user (si_client rq) (si_scopes rq) (si_access rq) (si_refresh rq) db
            in (Inr t, open_session now cfg rq user (ot_id t) db))"

text \<open>The refresh grant stores a new token and opens no session for it.\<close>

definition refresh_grant ::
  "moment \<Rightarrow> sign_in_config \<Rightarrow> (int \<Rightarrow> bool) \<Rightarrow> int \<Rightarrow> string list \<Rightarrow> string \<Rightarrow> string \<Rightarrow> string \<Rightarrow> sign_in_db \<Rightarrow> (py_error + oauth_token) \<times> sign_in_db" where
  "refresh_grant now cfg exists client scopes refresh new_access new_refresh db =
     (if refresh = [] then (Inl (HTTPException 400 ''invalid_request''), db)
      else case get_token_by_refresh_token now refresh db of
        None \<Rightarrow> (Inl (HTTPException 400 ''invalid_grant''), db)
      | Some t \<Rightarrow>
          if \<not> exists (ot_user t) then (Inl (HTTPException 400 ''invalid_grant''), db)
          else
            let (t', db) = store_token now cfg (ot_user t) client scopes new_access new_refresh db
            in (Inr t', db))"

section \<open>Verifying a session\<close>

record verify_request =
  vr_api :: nat
  vr_is_client :: bool
  vr_ip :: string
  vr_web_uuid :: "string option"
  vr_key :: string
  vr_mail_code :: string
  vr_mail_queued :: bool

text \<open>Checking the key with the chosen method: either it is accepted, or the method to try next is
  answered. Without a one-time password and with mail verification off nothing is checked.\<close>

definition check_key ::
  "(string \<Rightarrow> moment \<Rightarrow> string \<Rightarrow> bool) \<Rightarrow> (string \<Rightarrow> string \<Rightarrow> bool) \<Rightarrow> moment \<Rightarrow> sign_in_config \<Rightarrow> int \<Rightarrow> int
     \<Rightarrow> verify_request \<Rightarrow> verify_method \<Rightarrow> sign_in_db \<Rightarrow> (verify_method + unit) \<times> sign_in_db" where
  "check_key totp_ok checkpw now cfg user token rq m db =
     (case m of
        Mail \<Rightarrow> (let (good, db) = verify_email_code now cfg user (vr_key rq) db in ((if good then Inr () else Inl Mail), db))
      | Totp \<Rightarrow>
          (case sd_totp db user of
             None \<Rightarrow>
               if enable_email_verification cfg
               then (Inl Mail, snd (send_verification_email now cfg user (vr_mail_code rq) (vr_mail_queued rq)
                                (db\<lparr>sd_methods := (sd_methods db)((user, token) \<mapsto> Mail)\<rparr>)))
               else (Inr (), db)
           | Some k \<Rightarrow>
               let (good, db) = verify_totp_with_replay_protection totp_ok now user (tk_secret k) (vr_key rq) db in
               if good then (Inr (), db)
               else if length (vr_key rq) = 10 \<and> fst (check_totp_backup_code checkpw k (vr_key rq))
               then (Inr (), db\<lparr>sd_totp := (sd_totp db)(user \<mapsto> snd (check_totp_backup_code checkpw k (vr_key rq)))\<rparr>)
               else (Inl Totp, db)))"

text \<open>The method of a session; an old client is always asked for the mailed code.\<close>

definition login_method :: "nat \<Rightarrow> int \<Rightarrow> int \<Rightarrow> sign_in_db \<Rightarrow> verify_method option" where
  "login_method api user token db = (if api < SUPPORT_TOTP_VERIFICATION_VER then Some Mail else sd_methods db (user, token))"

definition choose_method :: "nat \<Rightarrow> int \<Rightarrow> int \<Rightarrow> sign_in_db \<Rightarrow> verify_method \<times> sign_in_db" where
  "choose_method api user token db =
     (case login_method api user token db of
        Some m \<Rightarrow> (m, db)
      | None \<Rightarrow>
          let m = (if api < SUPPORT_TOTP_VERIFICATION_VER \<or> sd_totp db user = None then Mail else Totp)
          in (m, db\<lparr>sd_methods := (sd_methods db)((user, token) \<mapsto> m)\<rparr>))"

definition verify_session ::
  "(string \<Rightarrow> moment \<Rightarrow> string \<Rightarrow> bool) \<Rightarrow> (string \<Rightarrow> string \<Rightarrow> bool) \<Rightarrow> moment \<Rightarrow> sign_in_config \<Rightarrow> oauth_token
     \<Rightarrow> verify_request \<Rightarrow> sign_in_db \<Rightarrow> (verify_method + unit) \<times> sign_in_db" where
  "verify_session totp_ok checkpw now cfg t rq db =
     (if \<not> check_is_need_verification now cfg (ot_user t) (ot_id t) db then (Inr (), db)
      else case choose_method (vr_api rq) (ot_user t) (ot_id t) db of (m, db) \<Rightarrow>
        case check_key totp_ok checkpw now cfg (ot_user t) (ot_id t) rq m db of
          (Inl e, db) \<Rightarrow> (Inl e, db)
        | (Inr _, db) \<Rightarrow>
            (Inr (), mark_session_verified now cfg (ot_user t) (ot_id t) (vr_is_client rq) (vr_ip rq) (vr_web_uuid rq) db))"

definition fallback_email :: "moment \<Rightarrow> sign_in_config \<Rightarrow> oauth_token \<Rightarrow> string \<Rightarrow> bool \<Rightarrow> sign_in_db \<Rightarrow> (py_error + verify_method) \<times> sign_in_db" where
  "fallback_email now cfg t code queued db =
     (if sd_methods db (ot_user t, ot_id t) = None then (Inl (HTTPException 400 ''No fallback for this session''), db)
      else (Inr Mail, snd (resend_verification_code now cfg (ot_user t) code queued
                        (db\<lparr>sd_methods := (sd_methods db)((ot_user t, ot_id t) \<mapsto> Mail)\<rparr>))))"

definition reissue_verification_code ::
  "moment \<Rightarrow> sign_in_config \<Rightarrow> nat \<Rightarrow> oauth_token \<Rightarrow> string \<Rightarrow> bool \<Rightarrow> sign_in_db \<Rightarrow> bool \<times> sign_in_db" where
  "reissue_verification_code now cfg api t code queued db =
     (if \<not> check_is_need_verification now cfg (ot_user t) (ot_id t) db then (False, db)
      else if login_method api (ot_user t) (ot_id t) db \<noteq> Some Mail then (False, db)
      else resend_verification_code now cfg (ot_user t) code queued db)"

section \<open>The steps of the service\<close>

text \<open>One request at the moment \<open>now\<close>. \<open>T\<close> is the check of a time-based code, \<open>B\<close> the check of a backup
  code against a hash; what a request brings (random strings included) is arbitrary.\<close>

inductive sign_in_step ::
  "(string \<Rightarrow> moment \<Rightarrow> string \<Rightarrow> bool) \<Rightarrow> (string \<Rightarrow> string \<Rightarrow> bool) \<Rightarrow> sign_in_config \<Rightarrow> moment \<Rightarrow> sign_in_db \<Rightarrow> sign_in_db \<Rightarrow> bool"
  for T B cfg now where
  signed_in: "password_grant now cfg rq db = (r, db') \<Longrightarrow> sign_in_step T B cfg now db db'"
| refreshed: "refresh_grant now cfg users client scopes refresh a r' db = (r, db') \<Longrightarrow> sign_in_step T B cfg now db db'"
| asked: "get_client_user now cfg web restricted api access db = (r, db') \<Longrightarrow> sign_in_step T B cfg now db db'"
| checked: "get_token_by_access_token now access db = Some t \<Longrightarrow> verify_session T B now cfg t rq db = (r, db')
    \<Longrightarrow> sign_in_step T B cfg now db db'"
| fell_back: "get_token_by_access_token now access db = Some t \<Longrightarrow> fallback_email now cfg t code queued db = (r, db')
    \<Longrightarrow> sign_in_step T B cfg now db db'"
| reissued: "get_token_by_access_token now access db = Some t \<Longrightarrow> reissue_verification_code now cfg api t code queued db = (r, db')
    \<Longrightarrow> sign_in_step T B cfg now db db'"
| setup_started: "start_create_totp now user secret db = (r, db') \<Longrightarrow> sign_in_step T B cfg now db db'"
| setup_finished: "finish_create_totp T now user code hashes db = (r, db') \<Longrightarrow> sign_in_step T B cfg now db db'"
| totp_disabled: "disable_totp T B now user code db = (r, db') \<Longrightarrow> sign_in_step T B cfg now db db'"
| signed_out: "invalidate_user_tokens user db = (n, db') \<Longrightarrow> sign_in_step T B cfg now db db'"

text \<open>Requests one after the other; the clock does not run backwards.\<close>

inductive sign_in_run ::
  "(string \<Rightarrow> moment \<Rightarrow> string \<Rightarrow> bool) \<Rightarrow> (string \<Rightarrow> string \<Rightarrow> bool) \<Rightarrow> sign_in_config \<Rightarrow> moment \<Rightarrow> sign_in_db \<Rightarrow> moment \<Rightarrow> sign_in_db \<Rightarrow> bool"
  for T B cfg t db where
  run_start: "sign_in_run T B cfg t db t db"
| run_step: "sign_in_run T B cfg t db t' db' \<Longrightarrow> t' \<le> now \<Longrightarrow> sign_in_step T B cfg now db' db'' \<Longrightarrow> sign_in_run T B cfg t db now db''"

text \<open>No two rows share an identifier or an access token, identifiers come from the counter, a session
  refers to an existing row, and no user has more rows with a client than the configuration allows.\<close>

definition session_tokens :: "sign_in_db \<Rightarrow> int set" where
  "session_tokens db = set (List.map_filter ls_token (sd_sessions db))"

definition tokens_ok :: "sign_in_config \<Rightarrow> sign_in_db \<Rightarrow> bool" where
  "tokens_ok cfg db \<longleftrightarrow>
     distinct (map ot_id (sd_tokens db)) \<and> distinct (map ot_access (sd_tokens db)) \<and>
     (\<forall>t\<in>set (sd_tokens db). ot_id t < sd_next_token db) \<and>
     session_tokens db \<subseteq> ot_id ` set (sd_tokens db) \<and>
     (\<forall>t\<in>set (sd_tokens db). int (length (filter (tokens_of (ot_user t) (ot_client t)) (sd_tokens db))) \<le> max_tokens_per_client cfg)"

end
