(* ===== verification/SessionGate.thy ===== *)
theory SessionGate
  imports Sessions
begin

text \<open>
  What the sign-in model guarantees over any sequence of requests: the invariant of the token table, the
  conditions under which a session stops waiting for a second factor (and the two ways around them), and
  the replay protection of one-time passwords.
\<close>

section \<open>What the operations leave alone\<close>

lemma delete_tokens_simps [simp]:
  "sd_tokens (delete_tokens P db) = filter (\<lambda>t. \<not> P t) (sd_tokens db)"
  "sd_next_token (delete_tokens P db) = sd_next_token db"
  "sd_used_totp (delete_tokens P db) = sd_used_totp db"
  "sd_mails (delete_tokens P db) = sd_mails db"
  "sd_totp (delete_tokens P db) = sd_totp db"
  by (simp_all add: delete_tokens_def Let_def)



lemma session_tokens_iff: "i \<in> session_tokens db \<longleftrightarrow> (\<exists>s\<in>set (sd_sessions db). ls_token s = Some i)"
  by (auto simp: session_tokens_def List.map_filter_def image_iff)

lemma ls_token_forget [simp]: "ls_token (forget_token gone s) = (if ls_token s \<in> Some ` gone then None else ls_token s)"
  by (simp add: forget_token_def)

lemma session_tokens_delete:
  "session_tokens (delete_tokens P db) = session_tokens db - ot_id ` {t \<in> set (sd_tokens db). P t}"
  by (auto simp: session_tokens_iff delete_tokens_def image_iff split: if_splits) (metis option.inject)

lemma session_tokens_map:
  "(\<And>s. ls_token (f s) = ls_token s) \<Longrightarrow> sd_sessions db' = map f (sd_sessions db) \<Longrightarrow> session_tokens db' = session_tokens db"
  by (auto simp: session_tokens_iff set_eq_iff)

definition same_tokens :: "sign_in_db \<Rightarrow> sign_in_db \<Rightarrow> bool" where
  "same_tokens db db' \<longleftrightarrow> sd_tokens db' = sd_tokens db \<and> sd_next_token db' = sd_next_token db \<and> session_tokens db' = session_tokens db"

definition calm :: "sign_in_db \<Rightarrow> sign_in_db \<Rightarrow> bool" where
  "calm db db' \<longleftrightarrow> sd_tokens db' = sd_tokens db \<and> sd_next_token db' = sd_next_token db \<and> sd_sessions db' = sd_sessions db"

lemma calm_refl [simp]: "calm db db"
  by (simp add: calm_def)

lemma calm_trans: "calm a b \<Longrightarrow> calm b c \<Longrightarrow> calm a c"
  by (simp add: calm_def)

lemma same_tokens_trans: "same_tokens a b \<Longrightarrow> same_tokens b c \<Longrightarrow> same_tokens a c"
  by (simp add: same_tokens_def)

lemma calm_same: "calm a b \<Longrightarrow> same_tokens a b"
  by (simp add: calm_def same_tokens_def session_tokens_def)

lemma same_tokens_refl [simp]: "same_tokens db db"
  by (simp add: same_tokens_def)

lemma same_tokens_ok: "same_tokens db db' \<Longrightarrow> tokens_ok cfg db' = tokens_ok cfg db"
  by (simp add: same_tokens_def tokens_ok_def)

lemma calm_ok: "calm db db' \<Longrightarrow> tokens_ok cfg db' = tokens_ok cfg db"
  by (rule same_tokens_ok[OF calm_same])

lemma calm_update [simp]:
  "calm db (db\<lparr>sd_methods := m\<rparr>)" "calm db (db\<lparr>sd_used_totp := u\<rparr>)" "calm db (db\<lparr>sd_totp := k\<rparr>)"
  "calm db (db\<lparr>sd_setups := x\<rparr>)" "calm db (db\<lparr>sd_setups := x, sd_totp := k\<rparr>)" "calm db (db\<lparr>sd_totp := k, sd_setups := x\<rparr>)"
  "calm db (db\<lparr>sd_mail_limit := l\<rparr>)" "calm db (db\<lparr>sd_fails := f\<rparr>)"
  "calm db (db\<lparr>sd_devices := ds, sd_next_device := n\<rparr>)" "calm db (db\<lparr>sd_devices := ds\<rparr>)"
  "calm db (db\<lparr>sd_mails := v, sd_next_mail := n, sd_mail_codes := c\<rparr>)" "calm db (db\<lparr>sd_mails := v, sd_mail_codes := c\<rparr>)"
  by (simp_all add: calm_def)

lemma verify_totp_calm: "verify_totp_with_replay_protection T now u secret code db = (g, db') \<Longrightarrow> calm db db'"
  by (auto simp: verify_totp_with_replay_protection_def split: if_splits)

lemma create_record_calm: "calm db (snd (create_verification_record now u code db))"
  by (auto simp: create_verification_record_def Let_def split: option.splits)

lemma send_mail_calm: "calm db (snd (send_verification_email now cfg u code q db))"
  by (simp add: send_verification_email_def create_record_calm)

lemma verify_mail_calm: "verify_email_code now cfg u code db = (g, db') \<Longrightarrow> calm db db'"
  by (auto simp: verify_email_code_def split: option.splits if_splits)

lemma resend_calm: "calm db (snd (resend_verification_code now cfg u code q db))"
  unfolding resend_verification_code_def
  by (auto intro: calm_trans[OF _ send_mail_calm] simp del: not_None_eq)

lemma trusted_device_calm: "calm db (snd (get_or_create_trusted_device now cfg u c ip w db))"
  by (auto simp: get_or_create_trusted_device_def Let_def split: option.splits)

lemma mark_same: "same_tokens db (mark_session_verified now cfg u tok c ip w db)"
proof -
  have "same_tokens db' (db'\<lparr>sd_sessions := map (\<lambda>s. if waits now u tok s
      then s\<lparr>ls_verified := True, ls_device := f s\<rparr> else s) (sd_sessions db'), sd_methods := m\<rparr>)" for db' f m
    unfolding same_tokens_def
    by (simp add: session_tokens_map[where f="\<lambda>s. if waits now u tok s then s\<lparr>ls_verified := True, ls_device := f s\<rparr> else s"])
  then show ?thesis
    using calm_same[OF trusted_device_calm[of db now cfg u c ip w]]
    by (auto simp: mark_session_verified_def Let_def case_prod_unfold intro: same_tokens_trans)
qed

lemma check_key_calm: "check_key T B now cfg u tok rq m db = (r, db') \<Longrightarrow> calm db db'"
  by (auto simp: check_key_def Let_def split: verify_method.splits option.splits prod.splits if_splits
      dest: verify_totp_calm verify_mail_calm
      intro: calm_trans[OF _ send_mail_calm] calm_trans[OF verify_totp_calm])

lemma choose_method_calm: "choose_method api u tok db = (m, db') \<Longrightarrow> calm db db'"
  by (auto simp: choose_method_def Let_def split: option.splits)

lemma verify_session_cases:
  assumes "verify_session T B now cfg t rq db = (r, db')"
  obtains "\<not> check_is_need_verification now cfg (ot_user t) (ot_id t) db" "r = Inr ()" "db' = db"
  | m db1 x db2 where "check_is_need_verification now cfg (ot_user t) (ot_id t) db"
      "choose_method (vr_api rq) (ot_user t) (ot_id t) db = (m, db1)"
      "check_key T B now cfg (ot_user t) (ot_id t) rq m db1 = (Inl x, db2)" "r = Inl x" "db' = db2"
  | m db1 db2 where "check_is_need_verification now cfg (ot_user t) (ot_id t) db"
      "choose_method (vr_api rq) (ot_user t) (ot_id t) db = (m, db1)"
      "check_key T B now cfg (ot_user t) (ot_id t) rq m db1 = (Inr (), db2)" "r = Inr ()"
      "db' = mark_session_verified now cfg (ot_user t) (ot_id t) (vr_is_client rq) (vr_ip rq) (vr_web_uuid rq) db2"
proof (cases "check_is_need_verification now cfg (ot_user t) (ot_id t) db")
  case False
  show thesis by (rule that(1)) (use assms False in \<open>simp_all add: verify_session_def\<close>)
next
  case True
  obtain m db1 where c: "choose_method (vr_api rq) (ot_user t) (ot_id t) db = (m, db1)" by force
  obtain x db2 where k: "check_key T B now cfg (ot_user t) (ot_id t) rq m db1 = (x, db2)" by force
  show thesis
  proof (cases x)
    case (Inl e)
    show thesis by (rule that(2)[OF True c, of e db2]) (use assms True c k Inl in \<open>simp_all add: verify_session_def\<close>)
  next
    case (Inr u)
    show thesis by (rule that(3)[OF True c]) (use assms True c k Inr in \<open>auto simp: verify_session_def\<close>)
  qed
qed

lemma verify_session_same: "verify_session T B now cfg t rq db = (r, db') \<Longrightarrow> same_tokens db db'"
  by (erule verify_session_cases) (simp_all add: calm_same[OF calm_refl] calm_same[OF calm_trans[OF choose_method_calm check_key_calm]]
      same_tokens_trans[OF calm_same[OF calm_trans[OF choose_method_calm check_key_calm]] mark_same])

lemma fallback_calm: "fallback_email now cfg t code q db = (r, db') \<Longrightarrow> calm db db'"
  by (auto simp: fallback_email_def split: if_splits intro: calm_trans[OF _ resend_calm])

lemma reissue_calm: "reissue_verification_code now cfg api t code q db = (r, db') \<Longrightarrow> calm db db'"
  by (auto simp: reissue_verification_code_def split: if_splits) (metis resend_calm snd_conv)+

lemma get_client_user_calm: "get_client_user now cfg web restricted api access db = (r, db') \<Longrightarrow> calm db db'"
  by (auto simp: get_client_user_def Let_def split: option.splits if_splits)

lemma totp_setup_calm:
  "start_create_totp now user secret db = (x, db') \<Longrightarrow> calm db db'"
  "finish_create_totp T now user code hashes db = (y, db') \<Longrightarrow> calm db db'"
  by (auto simp: start_create_totp_def finish_create_totp_def Let_def split: option.splits if_splits prod.splits)

lemma disable_totp_calm: "disable_totp T B now user code db = (r, db') \<Longrightarrow> calm db db'"
  by (auto simp: disable_totp_def Let_def split: option.splits if_splits prod.splits
      dest!: verify_totp_calm intro: calm_trans)

lemma length_filter_sub: "(\<And>x. P x \<Longrightarrow> Q x) \<Longrightarrow> length (filter P xs) \<le> length (filter Q xs)"
  by (induction xs) auto

lemma delete_tokens_ok:
  assumes "tokens_ok cfg db"
  shows "tokens_ok cfg (delete_tokens P db)"
proof -
  have "length (filter Q (filter (\<lambda>t. \<not> P t) ts)) \<le> length (filter Q ts)" for Q and ts :: "oauth_token list"
    by (auto intro: length_filter_sub)
  then have "int (length (filter Q (filter (\<lambda>t. \<not> P t) ts))) \<le> m" if "int (length (filter Q ts)) \<le> m" for Q m and ts :: "oauth_token list"
    using that by (meson of_nat_mono order_trans)
  moreover have "session_tokens (delete_tokens P db) \<subseteq> ot_id ` {t \<in> set (sd_tokens db). \<not> P t}"
    if "session_tokens db \<subseteq> ot_id ` set (sd_tokens db)"
    using that by (auto simp: session_tokens_delete)
  ultimately show ?thesis
    using assms by (auto simp: tokens_ok_def distinct_map_filter)
qed

text \<open>After the old rows are gone there is room for one more.\<close>

lemma drop_old_tokens_ok: "tokens_ok cfg db \<Longrightarrow> tokens_ok cfg (drop_old_tokens now cfg user client db)"
  by (simp add: drop_old_tokens_def Let_def delete_tokens_ok)

lemma drop_old_tokens_next [simp]: "sd_next_token (drop_old_tokens now cfg user client db) = sd_next_token db"
  by (simp add: drop_old_tokens_def Let_def)

lemma length_filter_minus:
  assumes "distinct (map f ts)" "set xs \<subseteq> set ts" "distinct xs"
  shows "length (filter (\<lambda>t. f t \<notin> f ` set xs) ts) + length xs = length ts"
proof -
  have "inj_on f (set ts)" using assms(1) by (simp add: distinct_map)
  then have "filter (\<lambda>t. f t \<notin> f ` set xs) ts = filter (\<lambda>t. t \<notin> set xs) ts"
    using assms(2) by (intro filter_cong) (auto dest: inj_onD)
  moreover have "length (filter (\<lambda>t. t \<notin> set xs) ts) + length (filter (\<lambda>t. t \<in> set xs) ts) = length ts"
    using sum_length_filter_compl[of "\<lambda>t. t \<notin> set xs" ts] by simp
  moreover have "length (filter (\<lambda>t. t \<in> set xs) ts) = length xs"
  proof -
    have "distinct ts" using assms(1) by (simp add: distinct_map)
    moreover have "set (filter (\<lambda>t. t \<in> set xs) ts) = set xs" using assms(2) by auto
    ultimately show ?thesis using assms(3) by (metis distinct_card distinct_filter)
  qed
  ultimately show ?thesis by simp
qed

lemma drop_old_tokens_room:
  assumes "tokens_ok cfg db" "1 \<le> max_tokens_per_client cfg"
  shows "int (length (filter (tokens_of user client) (sd_tokens (drop_old_tokens now cfg user client db)))) < max_tokens_per_client cfg"
proof (cases "enable_multi_device_login cfg")
  case False
  then show ?thesis using assms(2) by (simp add: drop_old_tokens_def filter_filter) 
next
  case True
  define db1 where "db1 = delete_tokens (\<lambda>t. tokens_of user client t \<and> ot_expires_at t \<le> now) db"
  define active where "active = active_tokens now user client (sd_tokens db1)"
  define m where "m = nat (max_tokens_per_client cfg - 1)"
  have ok: "tokens_ok cfg db1" unfolding db1_def by (rule delete_tokens_ok[OF assms(1)])
  have mine: "filter (\<lambda>t. tokens_of user client t \<and> now < ot_expires_at t) (sd_tokens db1) = filter (tokens_of user client) (sd_tokens db1)"
    by (rule filter_cong) (auto simp: db1_def)
  then have len: "length active = length (filter (tokens_of user client) (sd_tokens db1))"
    and mem: "set active = set (filter (tokens_of user client) (sd_tokens db1))"
    and dist: "distinct active"
    using ok by (simp_all add: active_def active_tokens_def tokens_ok_def distinct_map)
  show ?thesis
  proof (cases "max_tokens_per_client cfg \<le> int (length active)")
    case False
    with True len show ?thesis by (simp add: drop_old_tokens_def Let_def del: delete_tokens_simps flip: db1_def active_def)
  next
    case big: True
    have cut: "slice_from (max_tokens_per_client cfg - 1) active = drop m active"
      using assms(2) by (simp add: slice_from_def m_def)
    have dropped: "drop_old_tokens now cfg user client db = delete_tokens (\<lambda>t. ot_id t \<in> ot_id ` set (drop m active)) db1"
      using True big by (simp add: drop_old_tokens_def Let_def cut del: delete_tokens_simps flip: db1_def active_def)
    have "length (filter (\<lambda>t. ot_id t \<notin> ot_id ` set (drop m active)) (filter (tokens_of user client) (sd_tokens db1))) + length (drop m active)
        = length (filter (tokens_of user client) (sd_tokens db1))"
      by (rule length_filter_minus) (use ok mem dist in \<open>auto simp: tokens_ok_def distinct_map_filter dest: in_set_dropD\<close>)
    moreover have "m \<le> length active" using big assms(2) by (simp add: m_def)
    ultimately have "length (filter (\<lambda>t. ot_id t \<notin> ot_id ` set (drop m active)) (filter (tokens_of user client) (sd_tokens db1))) = m"
      using len by simp
    moreover have "filter (tokens_of user client) (sd_tokens (drop_old_tokens now cfg user client db))
        = filter (\<lambda>t. ot_id t \<notin> ot_id ` set (drop m active)) (filter (tokens_of user client) (sd_tokens db1))"
      by (simp add: dropped conj_commute)
    ultimately show ?thesis using assms(2) by (simp add: m_def)
  qed
qed

lemma find_unique_key:
  "distinct (map f ts) \<Longrightarrow> find (\<lambda>t. f t = x) ts = Some d \<Longrightarrow> t \<in> set ts \<Longrightarrow> f t = x \<Longrightarrow> t = d"
  by (induction ts) (auto split: if_splits)

text \<open>A stored token is the only one with its access token.\<close>

lemma store_token_ok:
  assumes ok: "tokens_ok cfg db" and room: "1 \<le> max_tokens_per_client cfg"
    and st: "store_token now cfg user client scopes access refresh db = (t, db')"
  shows "tokens_ok cfg db'" "t \<in> set (sd_tokens db')"
    "ot_id t \<notin> session_tokens db'" "ot_user t = user" "ot_client t = client" "ot_scopes t = scopes" "ot_access t = access"
    "ot_expires_at t = now + 60 * access_token_expire_minutes cfg" "ot_refresh t = refresh"
    "ot_refresh_expires_at t = now + 60 * refresh_token_expire_minutes cfg"
proof -
  define db1 where "db1 = drop_old_tokens now cfg user client db"
  define db2 where "db2 = (case find (\<lambda>t. ot_access t = access) (sd_tokens db1) of
      None \<Rightarrow> db1 | Some d \<Rightarrow> delete_tokens (\<lambda>t. ot_id t = ot_id d) db1)"
  have db': "db' = db2\<lparr>sd_tokens := sd_tokens db2 @ [t], sd_next_token := sd_next_token db2 + 1\<rparr>"
    and t: "t = \<lparr>ot_id = sd_next_token db2, ot_user = user, ot_client = client, ot_access = access, ot_refresh = refresh,
               ot_scopes = scopes, ot_expires_at = now + 60 * access_token_expire_minutes cfg,
               ot_refresh_expires_at = now + 60 * refresh_token_expire_minutes cfg, ot_created_at = now\<rparr>"
    using st by (auto simp: store_token_def Let_def simp flip: db1_def db2_def)
  have ok1: "tokens_ok cfg db1" unfolding db1_def by (rule drop_old_tokens_ok[OF ok])
  have ok2: "tokens_ok cfg db2" by (auto simp: db2_def delete_tokens_ok ok1 split: option.splits)
  have new: "x \<notin> set (sd_tokens db2)" if "ot_access x = access" for x
    using that ok1 find_unique_key[of ot_access "sd_tokens db1" access _ x]
    by (auto simp: db2_def tokens_ok_def find_None_iff split: option.splits)
  have sub: "length (filter Q (sd_tokens db2)) \<le> length (filter Q (sd_tokens db1))" for Q
    by (auto simp: db2_def filter_filter split: option.splits intro!: length_filter_sub)
  have mine: "int (length (filter (tokens_of user client) (sd_tokens db2))) < max_tokens_per_client cfg"
    using drop_old_tokens_room[OF ok room, of user client now] sub[of "tokens_of user client"] by (simp add: db1_def)
  have same: "session_tokens db' = session_tokens db2" by (simp add: db' session_tokens_def)
  show "tokens_ok cfg db'"
    using ok2 new mine by (auto simp: tokens_ok_def same) (auto simp: db' t tokens_of_def image_iff)
  show "ot_id t \<notin> session_tokens db'"
    using ok2 by (force simp: tokens_ok_def same t)
  show "t \<in> set (sd_tokens db')" "ot_user t = user" "ot_client t = client" "ot_scopes t = scopes" "ot_access t = access"
    "ot_expires_at t = now + 60 * access_token_expire_minutes cfg" "ot_refresh t = refresh"
    "ot_refresh_expires_at t = now + 60 * refresh_token_expire_minutes cfg"
    by (simp_all add: db' t)
qed

lemma open_session_ok:
  assumes "tokens_ok cfg db" "tok \<in> ot_id ` set (sd_tokens db)"
  shows "tokens_ok cfg (open_session now cfg rq user tok db)"
proof -
  have ext: "tokens_ok cfg (create_session now user tok n w v db')" if "same_tokens db db'" for db' n w v
  proof -
    have "session_tokens (create_session now user tok n w v db') = insert tok (session_tokens db')"
      by (auto simp: session_tokens_iff create_session_def)
    then show ?thesis
      using assms that by (auto simp: tokens_ok_def same_tokens_def create_session_def)
  qed
  have "tokens_ok cfg (x\<lparr>sd_methods := m\<rparr>) = tokens_ok cfg x" for x m
    by (rule calm_ok) simp
  then show ?thesis
    by (auto simp: open_session_def Let_def send_mail_calm[THEN calm_same] mark_same intro!: ext split: option.splits)
qed

lemma password_grant_cases:
  assumes "password_grant now cfg rq db = (r, db')"
  obtains e f where "r = Inl e" "db' = db\<lparr>sd_fails := f\<rparr>"
  | user f t db1 where "si_user rq = Some user"
      "store_token now cfg user (si_client rq) (si_scopes rq) (si_access rq) (si_refresh rq) (db\<lparr>sd_fails := f\<rparr>) = (t, db1)"
      "r = Inr t" "db' = open_session now cfg rq user (ot_id t) db1"
proof -
  note outcome = that
  have refused: thesis if "(Inl e, db\<lparr>sd_fails := f\<rparr>) = (r, db')" for e f
    using that by (intro outcome(1)) auto
  have refused': thesis if "(Inl e, db) = (r, db')" for e
    using that by (intro refused[of e "sd_fails db"]) simp
  show thesis
  proof (cases "\<not> si_complete rq \<or> si_scopes rq \<noteq> [''*''] \<or> (case redis_get now (sd_fails db) (si_ip rq) of None \<Rightarrow> False | Some n \<Rightarrow> 10 \<le> n)")
    case True
    with assms show thesis by (auto simp only: password_grant_def if_True if_False split: if_splits intro: refused')
  next
    case False
    note pg = assms[unfolded password_grant_def Let_def]
    show thesis
    proof (cases "si_user rq")
      case None
      with False pg show thesis by (intro refused) simp
    next
      case (Some user)
      define f where "f = (sd_fails db)(si_ip rq := None)"
      obtain t db1 where st: "store_token now cfg user (si_client rq) (si_scopes rq) (si_access rq) (si_refresh rq) (db\<lparr>sd_fails := f\<rparr>) = (t, db1)"
        by force
      show thesis
      proof (cases "si_client_refused rq")
        case True
        with False Some pg show thesis by (intro refused) simp
      next
        case accepted: False
        with False Some pg st show thesis by (intro outcome(2)[OF Some st]) (simp_all add: f_def)
      qed
    qed
  qed
qed

lemma password_grant_ok:
  assumes "tokens_ok cfg db" "1 \<le> max_tokens_per_client cfg" "password_grant now cfg rq db = (r, db')"
  shows "tokens_ok cfg db'"
  using assms(3)
proof (cases rule: password_grant_cases)
  case (1 e f) then show ?thesis using assms(1) calm_ok[of db db'] by simp
next
  case (2 user f t db1)
  have "tokens_ok cfg (db\<lparr>sd_fails := f\<rparr>)" using assms(1) calm_ok[of db "db\<lparr>sd_fails := f\<rparr>"] by simp
  from store_token_ok(1,2)[OF this assms(2) 2(2)] 2(4) show ?thesis by (auto intro: open_session_ok)
qed

lemma refresh_grant_cases:
  assumes "refresh_grant now cfg users client scopes refresh a r' db = (r, db')"
  obtains e where "r = Inl e" "db' = db"
  | t0 t where "get_token_by_refresh_token now refresh db = Some t0" "store_token now cfg (ot_user t0) client scopes a r' db = (t, db')" "r = Inr t"
proof (cases "refresh = [] \<or> get_token_by_refresh_token now refresh db = None")
  case True
  have "(\<exists>e. r = Inl e) \<and> db' = db"
    using assms True by (cases "refresh = []") (auto simp: refresh_grant_def)
  then show thesis by (auto intro: that(1))
next
  case False
  then obtain t0 where t0: "get_token_by_refresh_token now refresh db = Some t0" by auto
  obtain t db1 where st: "store_token now cfg (ot_user t0) client scopes a r' db = (t, db1)" by force
  from assms False t0 st show thesis
    by (cases "users (ot_user t0)") (auto simp: refresh_grant_def intro: that)
qed

lemma refresh_grant_ok:
  assumes "tokens_ok cfg db" "1 \<le> max_tokens_per_client cfg" "refresh_grant now cfg users client scopes refresh a r' db = (r, db')"
  shows "tokens_ok cfg db'"
  using assms(3) by (cases rule: refresh_grant_cases) (auto simp: assms(1) intro: store_token_ok(1)[OF assms(1,2)])

lemma sign_in_step_ok:
  assumes "sign_in_step T B cfg now db db'" "tokens_ok cfg db" "1 \<le> max_tokens_per_client cfg"
  shows "tokens_ok cfg db'"
  using assms(1)
proof cases
  case signed_in with assms show ?thesis by (blast intro: password_grant_ok)
next
  case refreshed with assms show ?thesis by (blast intro: refresh_grant_ok)
next
  case signed_out with assms show ?thesis by (auto simp: invalidate_user_tokens_def delete_tokens_ok)
qed (use assms in \<open>auto dest!: get_client_user_calm verify_session_same fallback_calm reissue_calm totp_setup_calm disable_totp_calm
      dest: same_tokens_ok calm_ok\<close>)

text \<open>
  C16: In every state the service can reach, no two tokens share an identifier or an access token, a
  session belongs to an existing token (or to none), and no user has more tokens with one client than
  the configured maximum, whatever sequence of sign-ins, refreshes, verifications and sign-outs led
  there.
\<close>

theorem tokens_invariant:
  assumes "tokens_ok cfg db" "1 \<le> max_tokens_per_client cfg" "sign_in_run T B cfg t db t' db'"
  shows "tokens_ok cfg db'"
  using assms(3) by induction (use assms in \<open>auto intro: sign_in_step_ok\<close>)

section \<open>The gate\<close>

lemma find_only:
  assumes "t \<in> set ts" "P t" "\<And>x. x \<in> set ts \<Longrightarrow> P x \<Longrightarrow> x = t"
  shows "find P ts = Some t"
proof (cases "find P ts")
  case None
  with assms(1,2) show ?thesis by (simp add: find_None_iff)
next
  case (Some d)
  then have "d \<in> set ts" "P d" by (auto simp: find_Some_iff)
  then show ?thesis using Some assms(3) by simp
qed

lemma access_token_finds:
  "tokens_ok cfg db \<Longrightarrow> t \<in> set (sd_tokens db) \<Longrightarrow> now < ot_expires_at t \<Longrightarrow> get_token_by_access_token now (ot_access t) db = Some t"
  unfolding get_token_by_access_token_def tokens_ok_def
  by (rule find_only) (auto dest: inj_onD simp: distinct_map)

lemma no_session_no_check:
  "i \<notin> session_tokens db \<Longrightarrow> \<not> check_is_need_verification now cfg u i db"
  by (auto simp: check_is_need_verification_def session_tokens_iff list_ex_iff waits_def)

text \<open>
  C4: A refresh token opens the gate of the second factor. Whatever the state of the session the token
  belongs to, refreshing stores a new token of the same user under the client and the scopes the request
  names, no session waits for it, and the very next request with it is let through.
\<close>

theorem refresh_skips_verification:
  assumes ok: "tokens_ok cfg db" "1 \<le> max_tokens_per_client cfg" and life: "0 < access_token_expire_minutes cfg"
    and rt: "refresh \<noteq> []" "get_token_by_refresh_token now refresh db = Some t" and user: "users (ot_user t)" "\<not> restricted (ot_user t)"
  shows "\<exists>t' db'. refresh_grant now cfg users client scopes refresh a r db = (Inr t', db') \<and>
      ot_user t' = ot_user t \<and> ot_client t' = client \<and> ot_scopes t' = scopes \<and>
      \<not> check_is_need_verification now cfg (ot_user t') (ot_id t') db' \<and>
      get_client_user now cfg web restricted api a db' = (Inr (ot_user t), db')"
proof -
  obtain t' db' where st: "store_token now cfg (ot_user t) client scopes a r db = (t', db')" by force
  then have g: "refresh_grant now cfg users client scopes refresh a r db = (Inr t', db')"
    using rt user by (simp add: refresh_grant_def)
  note new = store_token_ok[OF ok st]
  have "get_token_by_access_token now a db' = Some t'"
    using access_token_finds[OF new(1,2), of now] new(7,8) life by simp
  moreover have "\<not> check_is_need_verification now cfg (ot_user t') (ot_id t') db'"
    by (rule no_session_no_check[OF new(3)])
  ultimately show ?thesis
    using g new(4-6) user(2) by (simp add: get_client_user_def)
qed

text \<open>What counts as the second factor: a fresh code of the user's one-time password, an unused backup
  code, or the code last mailed to the user, unused and not expired.\<close>

definition mailed_code :: "moment \<Rightarrow> int \<Rightarrow> string \<Rightarrow> sign_in_db \<Rightarrow> bool" where
  "mailed_code now user key db \<longleftrightarrow>
     list_ex (\<lambda>v. ev_user v = user \<and> ev_code v = key \<and> \<not> ev_used v \<and> now < ev_expires_at v) (sd_mails db)"

definition second_factor ::
  "(string \<Rightarrow> moment \<Rightarrow> string \<Rightarrow> bool) \<Rightarrow> (string \<Rightarrow> string \<Rightarrow> bool) \<Rightarrow> moment \<Rightarrow> int \<Rightarrow> string \<Rightarrow> sign_in_db \<Rightarrow> bool" where
  "second_factor T B now user key db \<longleftrightarrow>
     (case sd_totp db user of None \<Rightarrow> False
      | Some k \<Rightarrow> T (tk_secret k) now key \<and> redis_get now (sd_used_totp db) (user, key) = None \<or>
                  length key = 10 \<and> list_ex (B key) (tk_backup_keys k)) \<or>
     mailed_code now user key db"

lemma choose_method_keeps:
  "choose_method api u tok db = (m, db') \<Longrightarrow>
   sd_totp db' = sd_totp db \<and> sd_used_totp db' = sd_used_totp db \<and> sd_mails db' = sd_mails db \<and> sd_sessions db' = sd_sessions db"
  by (auto simp: choose_method_def Let_def split: option.splits)

lemma check_key_needs_factor:
  assumes "check_key T B now cfg u tok rq m db = (Inr (), db')" "enable_email_verification cfg"
  shows "second_factor T B now u (vr_key rq) db"
  using assms
  by (auto simp: check_key_def Let_def second_factor_def mailed_code_def verify_totp_with_replay_protection_def
      verify_email_code_def check_totp_backup_code_def find_Some_iff list_ex_iff list_ex_length
      split: verify_method.splits option.splits if_splits prod.splits)


lemma delete_keeps_waiting:
  assumes "check_is_need_verification now cfg u tok db" "\<And>t. t \<in> set (sd_tokens db) \<Longrightarrow> P t \<Longrightarrow> ot_id t \<noteq> tok"
  shows "check_is_need_verification now cfg u tok (delete_tokens P db)"
proof -
  have "forget_token (ot_id ` set (filter P (sd_tokens db))) s = s" if "waits now u tok s" for s
    using that assms(2) by (auto simp: forget_token_def waits_def)
  with assms(1) show ?thesis
    by (force simp: check_is_need_verification_def delete_tokens_def list_ex_iff)
qed

lemma delete_keeps_waiting':
  assumes "tokens_ok cfg db" "check_is_need_verification now cfg u tok db" "tok \<in> ot_id ` set (sd_tokens (delete_tokens P db))"
  shows "check_is_need_verification now cfg u tok (delete_tokens P db)"
proof (rule delete_keeps_waiting[OF assms(2)])
  fix t assume "t \<in> set (sd_tokens db)" "P t"
  moreover from assms(3) obtain x where "x \<in> set (sd_tokens db)" "\<not> P x" "ot_id x = tok" by auto
  ultimately show "ot_id t \<noteq> tok" using assms(1) by (auto simp: tokens_ok_def distinct_map dest: inj_onD)
qed

lemma drop_old_keeps_waiting:
  assumes "tokens_ok cfg db" "check_is_need_verification now cfg u tok db" "tok \<in> ot_id ` set (sd_tokens (drop_old_tokens now' cfg user client db))"
  shows "check_is_need_verification now cfg u tok (drop_old_tokens now' cfg user client db)"
proof (cases "enable_multi_device_login cfg")
  case False
  with assms show ?thesis by (simp add: drop_old_tokens_def delete_keeps_waiting' del: delete_tokens_simps)
next
  case True
  define db1 where "db1 = delete_tokens (\<lambda>t. tokens_of user client t \<and> ot_expires_at t \<le> now') db"
  have "tok \<in> ot_id ` set (sd_tokens db1)"
    using assms(3) True by (auto simp: drop_old_tokens_def Let_def simp del: delete_tokens_simps simp flip: db1_def split: if_splits)
      (auto simp: db1_def)
  then have "check_is_need_verification now cfg u tok db1" unfolding db1_def by (rule delete_keeps_waiting'[OF assms(1,2)])
  moreover have "tokens_ok cfg db1" unfolding db1_def by (rule delete_tokens_ok[OF assms(1)])
  ultimately show ?thesis
    using assms(3) True by (auto simp: drop_old_tokens_def Let_def simp del: delete_tokens_simps simp flip: db1_def
        split: if_splits intro: delete_keeps_waiting')
qed

lemma waiting_token_old:
  "tokens_ok cfg db \<Longrightarrow> check_is_need_verification now cfg u tok db \<Longrightarrow> tok \<in> session_tokens db \<and> tok < sd_next_token db"
  by (force simp: tokens_ok_def check_is_need_verification_def session_tokens_iff list_ex_iff waits_def)

lemma store_keeps_waiting:
  assumes ok: "tokens_ok cfg db" and w: "check_is_need_verification now cfg u tok db"
    and st: "store_token now' cfg user client scopes access refresh db = (t, db')" and here: "tok \<in> ot_id ` set (sd_tokens db')"
  shows "check_is_need_verification now cfg u tok db' \<and> ot_id t \<noteq> tok"
proof -
  define db1 where "db1 = drop_old_tokens now' cfg user client db"
  define db2 where "db2 = (case find (\<lambda>t. ot_access t = access) (sd_tokens db1) of
      None \<Rightarrow> db1 | Some d \<Rightarrow> delete_tokens (\<lambda>t. ot_id t = ot_id d) db1)"
  have db': "sd_tokens db' = sd_tokens db2 @ [t]" "sd_sessions db' = sd_sessions db2" "ot_id t = sd_next_token db2"
    using st by (auto simp: store_token_def Let_def simp flip: db1_def db2_def)
  have "sd_next_token db2 = sd_next_token db" by (simp add: db2_def db1_def split: option.splits)
  with waiting_token_old[OF ok w] db'(3) have new: "ot_id t \<noteq> tok" by simp
  with here db' have here2: "tok \<in> ot_id ` set (sd_tokens db2)" by auto
  have ok1: "tokens_ok cfg db1" unfolding db1_def by (rule drop_old_tokens_ok[OF ok])
  have "tok \<in> ot_id ` set (sd_tokens db1)" using here2 by (auto simp: db2_def split: option.splits)
  then have w1: "check_is_need_verification now cfg u tok db1"
    unfolding db1_def by (rule drop_old_keeps_waiting[OF ok w])
  have "check_is_need_verification now cfg u tok db2"
    using here2 w1 by (auto simp: db2_def simp del: delete_tokens_simps split: option.splits intro: delete_keeps_waiting'[OF ok1])
  with new db'(2) show ?thesis by (simp add: check_is_need_verification_def)
qed

lemma mark_keeps_waiting:
  "check_is_need_verification now cfg u tok db \<Longrightarrow> tok' \<noteq> tok \<or> u' \<noteq> u \<Longrightarrow>
   check_is_need_verification now cfg u tok (mark_session_verified now' cfg u' tok' c ip w db)"
  using trusted_device_calm[of db now' cfg u' c ip w]
  by (auto simp: mark_session_verified_def Let_def case_prod_unfold check_is_need_verification_def list_ex_iff calm_def waits_def)

lemma calm_waiting: "calm db db' \<Longrightarrow> check_is_need_verification now cfg u tok db' = check_is_need_verification now cfg u tok db"
  by (simp add: calm_def check_is_need_verification_def)

lemma open_session_keeps_waiting:
  assumes "check_is_need_verification now cfg u tok db" "tok' \<noteq> tok"
  shows "check_is_need_verification now cfg u tok (open_session now cfg rq user tok' db)"
proof -
  have c: "check_is_need_verification now cfg u tok (create_session now' u' i n w v d)"
    if "check_is_need_verification now cfg u tok d" for d now' u' i n w v
    using that by (auto simp: create_session_def check_is_need_verification_def)
  have m: "check_is_need_verification now cfg u tok (d\<lparr>sd_methods := m\<rparr>)"
    if "check_is_need_verification now cfg u tok d" for d m
    using that by (simp add: check_is_need_verification_def)
  show ?thesis
    by (auto simp: open_session_def Let_def assms mark_keeps_waiting calm_waiting[OF send_mail_calm] intro!: c m split: option.splits)
qed

lemma verified_session_had_key:
  assumes "verify_session T B now cfg t rq db = (r, db')" "enable_email_verification cfg"
    and "check_is_need_verification now cfg u tok db" "\<not> check_is_need_verification now cfg u tok db'"
  shows "ot_user t = u \<and> ot_id t = tok \<and> second_factor T B now u (vr_key rq) db"
  using assms(1)
proof (cases rule: verify_session_cases)
  case 1 with assms(3,4) show ?thesis by simp
next
  case (2 m db1 x db2)
  from calm_trans[OF choose_method_calm[OF 2(2)] check_key_calm[OF 2(3)]] assms(3,4) 2(5) show ?thesis
    by (simp add: calm_waiting)
next
  case (3 m db1 db2)
  have w: "check_is_need_verification now cfg u tok db2"
    using calm_trans[OF choose_method_calm[OF 3(2)] check_key_calm[OF 3(3)]] assms(3) by (simp add: calm_waiting)
  have "ot_id t = tok \<and> ot_user t = u"
    using mark_keeps_waiting[OF w] assms(4) 3(5) by blast
  moreover from check_key_needs_factor[OF 3(3) assms(2)] choose_method_keeps[OF 3(2)]
  have "second_factor T B now (ot_user t) (vr_key rq) db"
    by (auto simp: second_factor_def mailed_code_def split: option.splits)
  ultimately show ?thesis by simp
qed


text \<open>With mail verification off (as it is by default), the mail fallback opens the gate: after asking
  for it, any key whatsoever verifies a session that waited for a one-time password, and the session no
  longer waits.
\<close>

theorem mail_fallback_accepts_any_key:
  assumes off: "\<not> enable_email_verification cfg"
    and waiting: "check_is_need_verification now cfg (ot_user t) (ot_id t) db"
    and m: "sd_methods db (ot_user t, ot_id t) \<noteq> None"
  shows "\<exists>db1 db2. fallback_email now cfg t code queued db = (Inr Mail, db1) \<and>
      verify_session T B now cfg t rq db1 = (Inr (), db2) \<and>
      \<not> check_is_need_verification now cfg (ot_user t) (ot_id t) db2"
proof -
  let ?db1 = "db\<lparr>sd_methods := (sd_methods db)((ot_user t, ot_id t) \<mapsto> Mail)\<rparr>"
  let ?db2 = "mark_session_verified now cfg (ot_user t) (ot_id t) (vr_is_client rq) (vr_ip rq) (vr_web_uuid rq) ?db1"
  have "fallback_email now cfg t code queued db = (Inr Mail, ?db1)"
    using m off by (simp add: fallback_email_def resend_verification_code_def)
  moreover have "verify_session T B now cfg t rq ?db1 = (Inr (), ?db2)"
    using waiting off calm_waiting[of db ?db1]
    by (simp add: verify_session_def choose_method_def login_method_def check_key_def verify_email_code_def)
  moreover have "\<not> check_is_need_verification now cfg (ot_user t) (ot_id t) ?db2"
    by (auto simp: mark_session_verified_def Let_def case_prod_unfold check_is_need_verification_def list_ex_iff waits_def)
  ultimately show ?thesis by blast
qed


section \<open>Codes are used once\<close>

definition used_kept :: "moment \<Rightarrow> sign_in_db \<Rightarrow> sign_in_db \<Rightarrow> bool" where
  "used_kept now db db' \<longleftrightarrow> (\<forall>k e. sd_used_totp db k = Some ((), e) \<longrightarrow> now < e \<longrightarrow> sd_used_totp db' k = Some ((), e))"

lemma used_kept_same [simp]: "sd_used_totp db' = sd_used_totp db \<Longrightarrow> used_kept now db db'"
  by (simp add: used_kept_def)

lemma used_kept_trans: "used_kept now a b \<Longrightarrow> used_kept now b c \<Longrightarrow> used_kept now a c"
  by (simp add: used_kept_def)

lemma verify_totp_used: "verify_totp_with_replay_protection T now u secret code db = (g, db') \<Longrightarrow> used_kept now db db'"
  by (auto simp: verify_totp_with_replay_protection_def used_kept_def setex_def redis_get_def split: if_splits option.splits prod.splits)

lemma send_mail_used [simp]: "sd_used_totp (snd (send_verification_email now cfg u code q db)) = sd_used_totp db"
  by (auto simp: send_verification_email_def create_verification_record_def Let_def split: option.splits)

lemma resend_used [simp]: "sd_used_totp (snd (resend_verification_code now cfg u code q db)) = sd_used_totp db"
  by (simp add: resend_verification_code_def)

lemma mark_used [simp]: "sd_used_totp (mark_session_verified now cfg u tok c ip w db) = sd_used_totp db"
  by (auto simp: mark_session_verified_def Let_def get_or_create_trusted_device_def split: option.splits prod.splits)

lemma store_used: "store_token now cfg user client scopes a r db = (t, db') \<Longrightarrow> sd_used_totp db' = sd_used_totp db"
  by (auto simp: store_token_def Let_def drop_old_tokens_def split: option.splits)

lemma open_session_used [simp]: "sd_used_totp (open_session now cfg rq u tok db) = sd_used_totp db"
  by (auto simp: open_session_def Let_def create_session_def split: option.splits)

lemma check_key_used: "check_key T B now cfg u tok rq m db = (r, db') \<Longrightarrow> used_kept now db db'"
  by (auto simp: check_key_def Let_def verify_email_code_def split: verify_method.splits option.splits prod.splits if_splits
      dest!: verify_totp_used intro: used_kept_trans)

lemma verify_session_used: "verify_session T B now cfg t rq db = (r, db') \<Longrightarrow> used_kept now db db'"
  by (erule verify_session_cases) (auto dest!: choose_method_keeps check_key_used simp: used_kept_def)

lemma disable_totp_used: "disable_totp T B now u code db = (r, db') \<Longrightarrow> used_kept now db db'"
  by (auto simp: disable_totp_def Let_def split: option.splits prod.splits if_splits dest!: verify_totp_used intro: used_kept_trans)

lemma sign_in_step_used: "sign_in_step T B cfg now db db' \<Longrightarrow> used_kept now db db'"
proof (induction rule: sign_in_step.induct)
  case signed_in then show ?case by (cases rule: password_grant_cases) (auto dest: store_used)
next
  case refreshed then show ?case by (cases rule: refresh_grant_cases) (auto dest: store_used)
next
  case (fell_back access db t code queued r db') then show ?case by (auto simp: fallback_email_def split: if_splits)
next
  case (reissued access db t api code queued r db') then show ?case
    by (auto simp: reissue_verification_code_def split: if_splits) (metis resend_used snd_conv used_kept_same)
next
  case asked then show ?case by (auto simp: get_client_user_def Let_def split: option.splits if_splits)
qed (auto simp: start_create_totp_def finish_create_totp_def invalidate_user_tokens_def
    dest: verify_session_used disable_totp_used split: option.splits if_splits prod.splits)

lemma sign_in_run_used:
  "sign_in_run T B cfg t db t' db' \<Longrightarrow> sd_used_totp db k = Some ((), e) \<Longrightarrow> t' < e \<Longrightarrow> sd_used_totp db' k = Some ((), e)"
proof (induction rule: sign_in_run.induct)
  case (run_step t' db' now db'')
  then show ?case using sign_in_step_used[OF run_step.hyps(3)] unfolding used_kept_def by fastforce
qed simp

text \<open>
  C21: A one-time password that was accepted is worthless for the next 120 seconds: whatever requests come
  in between (new sign-ins, refreshes, verifications, a new secret), checking the same code for the same
  user fails.
\<close>

theorem one_time_password_once:
  assumes "verify_totp_with_replay_protection T t user secret code db = (True, db1)"
    and "sign_in_run T B cfg t db1 t' db2" and "t' \<le> now" "now < t + 120"
  shows "verify_totp_with_replay_protection T now user secret' code db2 = (False, db2)"
proof -
  have "sd_used_totp db1 (user, code) = Some ((), t + 120)"
    using assms(1) by (auto simp: verify_totp_with_replay_protection_def setex_def split: if_splits)
  with sign_in_run_used[OF assms(2)] assms(3,4) have "sd_used_totp db2 (user, code) = Some ((), t + 120)" by simp
  with assms(4) show ?thesis
    by (simp add: verify_totp_with_replay_protection_def redis_get_def)
qed

section \<open>Examples\<close>

definition no_sign_ins :: sign_in_db where
  "no_sign_ins = \<lparr>sd_tokens = [], sd_next_token = 1, sd_sessions = [], sd_devices = [], sd_next_device = 1, sd_mails = [],
     sd_next_mail = 1, sd_totp = (\<lambda>_. None), sd_methods = (\<lambda>_. None), sd_used_totp = (\<lambda>_. None), sd_mail_codes = (\<lambda>_. None),
     sd_mail_limit = (\<lambda>_. None), sd_fails = (\<lambda>_. None), sd_setups = (\<lambda>_. None)\<rparr>"

definition sample_config :: "bool \<Rightarrow> sign_in_config" where
  "sample_config mail = \<lparr>enable_totp_verification = True, enable_email_verification = mail, enable_multi_device_login = True,
     max_tokens_per_client = 10, device_trust_duration_days = 30, access_token_expire_minutes = 1440,
     refresh_token_expire_minutes = 21600\<rparr>"

definition sample_sign_in :: sign_in where
  "sample_sign_in = \<lparr>si_api = 20250913, si_is_client = True, si_ip = ''192.0.2.1'', si_web_uuid = None, si_client = 5,
     si_scopes = [''*''], si_complete = True, si_user = Some 7, si_client_refused = False, si_access = ''a1'', si_refresh = ''r1'',
     si_mail_code = ''12345678'', si_mail_queued = True\<rparr>"

definition sample_token :: oauth_token where
  "sample_token = \<lparr>ot_id = 1, ot_user = 7, ot_client = 5, ot_access = ''a1'', ot_refresh = ''r1'', ot_scopes = [''*''],
     ot_expires_at = 86400, ot_refresh_expires_at = 1296000, ot_created_at = 0\<rparr>"

text \<open>The user has a one-time password; the session of the only token waits.\<close>

definition waiting_db :: sign_in_db where
  "waiting_db = no_sign_ins\<lparr>sd_tokens := [sample_token], sd_next_token := 2,
     sd_sessions := [\<lparr>ls_user = 7, ls_token = Some 1, ls_new_device = True, ls_web_uuid = None, ls_expires_at = 86400,
                      ls_verified = False, ls_device = None\<rparr>],
     sd_totp := [7 \<mapsto> \<lparr>tk_secret = ''S'', tk_backup_keys = []\<rparr>], sd_methods := [(7, 1) \<mapsto> Totp]\<rparr>"

definition sample_verify :: "string \<Rightarrow> verify_request" where
  "sample_verify key = \<lparr>vr_api = 20250913, vr_is_client = True, vr_ip = ''192.0.2.1'', vr_web_uuid = None, vr_key = key,
     vr_mail_code = ''12345678'', vr_mail_queued = True\<rparr>"

lemmas sample_sign_in_simps =
  no_sign_ins_def sample_config_def sample_sign_in_def sample_token_def waiting_db_def sample_verify_def

lemma signed_in_waiting:
  "password_grant 0 (sample_config m) sample_sign_in (no_sign_ins\<lparr>sd_totp := [7 \<mapsto> \<lparr>tk_secret = ''S'', tk_backup_keys = []\<rparr>]\<rparr>)
    = (Inr sample_token, waiting_db)"
  by (simp add: sample_sign_in_simps password_grant_def store_token_def drop_old_tokens_def delete_tokens_def active_tokens_def
      open_session_def session_method_def create_session_def check_trusted_device_def SUPPORT_TOTP_VERIFICATION_VER_def)

lemma tokens_invariant_witness: "tokens_ok (sample_config True) waiting_db"
proof -
  let ?db = "no_sign_ins\<lparr>sd_totp := [7 \<mapsto> \<lparr>tk_secret = ''S'', tk_backup_keys = []\<rparr>]\<rparr>"
  have r: "sign_in_run (\<lambda>_ _ _. True) (\<lambda>_ _. False) (sample_config True) 0 ?db 0 waiting_db"
    by (rule run_step[OF run_start order_refl signed_in[OF signed_in_waiting]])
  have ok: "tokens_ok (sample_config True) ?db" "1 \<le> max_tokens_per_client (sample_config True)"
    by (simp_all add: tokens_ok_def sample_sign_in_simps session_tokens_def List.map_filter_def)
  show ?thesis by (rule tokens_invariant[OF ok r])
qed

lemma refresh_skips_verification_witness:
  "check_is_need_verification 10 (sample_config True) 7 1 waiting_db \<and>
   (\<exists>t' db'. refresh_grant 10 (sample_config True) (\<lambda>_. True) 6 [''public''] ''r1'' ''a2'' ''r2'' waiting_db = (Inr t', db') \<and>
      ot_user t' = 7 \<and> ot_client t' = 6 \<and> ot_scopes t' = [''public''] \<and>
      \<not> check_is_need_verification 10 (sample_config True) (ot_user t') (ot_id t') db' \<and>
      get_client_user 10 (sample_config True) 6 (\<lambda>_. False) 20250913 ''a2'' db' = (Inr 7, db'))"
proof -
  have "tokens_ok (sample_config True) waiting_db" "1 \<le> max_tokens_per_client (sample_config True)"
    "0 < access_token_expire_minutes (sample_config True)"
    by (simp_all add: tokens_ok_def sample_sign_in_simps session_tokens_def List.map_filter_def tokens_of_def)
  from refresh_skips_verification[OF this, of "''r1''" 10 sample_token "\<lambda>_. True" "\<lambda>_. False" 6 "[''public'']" "''a2''" "''r2''" 6 20250913]
  show ?thesis
    by (simp add: get_token_by_refresh_token_def check_is_need_verification_def waits_def sample_sign_in_simps)
qed


lemma mail_fallback_accepts_any_key_witness:
  "\<exists>db1 db2. fallback_email 10 (sample_config False) sample_token ''0'' False waiting_db = (Inr Mail, db1) \<and>
      verify_session (\<lambda>_ _ _. False) (\<lambda>_ _. False) 10 (sample_config False) sample_token (sample_verify ''no key'') db1 = (Inr (), db2) \<and>
      \<not> check_is_need_verification 10 (sample_config False) 7 1 db2"
  using mail_fallback_accepts_any_key[of "sample_config False" 10 sample_token waiting_db]
  by (simp add: sample_sign_in_simps check_is_need_verification_def waits_def)

lemma one_time_password_once_witness:
  "\<exists>db1. verify_totp_with_replay_protection (\<lambda>_ _ _. True) 10 7 ''S'' ''123456'' waiting_db = (True, db1) \<and>
     verify_totp_with_replay_protection (\<lambda>_ _ _. True) 129 7 ''S'' ''123456'' db1 = (False, db1)"
proof -
  obtain db1 where v: "verify_totp_with_replay_protection (\<lambda>_ _ _. True) 10 7 ''S'' ''123456'' waiting_db = (True, db1)"
    by (simp add: verify_totp_with_replay_protection_def sample_sign_in_simps)
  from one_time_password_once[OF this run_start[of _ "\<lambda>_ _. False" "sample_config True"], of 129 "''S''"] v show ?thesis by simp
qed

end
