(* ===== verification/Passwords.thy ===== *)
theory Passwords
  imports Sessions
begin

text \<open>
  Names and passwords (\<^verbatim>\<open>validate_username\<close> and \<^verbatim>\<open>validate_password\<close> of \<^verbatim>\<open>src/app/auth.py\<close>), the password
  reset by mail (\<^verbatim>\<open>src/app/service/password_reset_service.py\<close>) and the change of the password of a
  signed-in user (\<^verbatim>\<open>src/app/router/private/password.py\<close>). The hash function, the generated code, whether
  the mail could be queued and the check of the current password are arguments; addresses are compared
  as strings.
\<close>

section \<open>Names and passwords\<close>

definition is_letter :: "char \<Rightarrow> bool" where
  "is_letter c \<longleftrightarrow> (let n = (of_char c :: nat) in 65 \<le> n \<and> n \<le> 90 \<or> 97 \<le> n \<and> n \<le> 122)"

definition name_char :: "char \<Rightarrow> bool" where
  "name_char c \<longleftrightarrow> is_letter c \<or> is_digit c \<or> c \<in> {CHR ''_'', CHR '' '', CHR ''-''}"

text \<open>\<^verbatim>\<open>re.match(r"^[a-zA-Z0-9_ -]+$", s)\<close>: \<^verbatim>\<open>$\<close> also matches before a final newline.\<close>

definition name_pattern :: "string \<Rightarrow> bool" where
  "name_pattern s \<longleftrightarrow> s \<noteq> [] \<and> list_all name_char s \<or>
     (s \<noteq> [] \<and> last s = CHR 0x0A \<and> butlast s \<noteq> [] \<and> list_all name_char (butlast s))"

definition validate_username :: "string list \<Rightarrow> string \<Rightarrow> string list" where
  "validate_username banned s =
     (if s = [] then [''Username is required'']
      else (if length s < 3 then [''Username must be at least 3 characters long''] else []) @
           (if 15 < length s then [''Username must be at most 15 characters long''] else []) @
           (if \<not> name_pattern s then [''Username can only contain letters, numbers, spaces, underscores, and hyphens''] else []) @
           (if s \<noteq> str_strip s then [''Username cannot start or end with a space'']
            else if str_contains ''  '' s then [''Username cannot contain consecutive spaces''] else []) @
           (if str_lower s \<in> set banned then [''This username is not allowed''] else []))"

definition validate_password :: "string \<Rightarrow> string list" where
  "validate_password s =
     (if s = [] then [''Password is required'']
      else if length s < 8 then [''Password must be at least 8 characters long''] else [])"

section \<open>Reset by mail\<close>

record reset_data =
  rd_user :: int
  rd_email :: string
  rd_code :: string
  rd_used :: bool

record account =
  ac_id :: int
  ac_email :: string
  ac_password :: string

text \<open>The accounts, the tables of signing in, and the Redis keys: the code of an address, the wrong
  guesses at it, and the limits on requests per address and per client address.\<close>

record reset_db =
  rp_accounts :: "account list"
  rp_sign_in :: sign_in_db
  rp_codes :: "(string, reset_data) ttl_keys"
  rp_attempts :: "(string, nat) ttl_keys"
  rp_limit :: "(string, unit) ttl_keys"
  rp_ip_limit :: "(string, unit) ttl_keys"

definition RESET_CODE_TTL_SECONDS :: nat where "RESET_CODE_TTL_SECONDS = 600"
definition REQUEST_RATE_LIMIT_SECONDS :: nat where "REQUEST_RATE_LIMIT_SECONDS = 60"
definition REQUEST_IP_RATE_LIMIT_SECONDS :: nat where "REQUEST_IP_RATE_LIMIT_SECONDS = 30"
definition MAX_RESET_ATTEMPTS :: nat where "MAX_RESET_ATTEMPTS = 5"

definition INVALID_CODE_MESSAGE :: string where "INVALID_CODE_MESSAGE = ''Invalid or expired verification code.''"
definition TOO_MANY_ATTEMPTS_MESSAGE :: string where
  "TOO_MANY_ATTEMPTS_MESSAGE = ''Too many incorrect attempts. Please request a new code.''"
definition SUCCESS_REQUEST_MESSAGE :: string where
  "SUCCESS_REQUEST_MESSAGE = ''If this email exists, a verification code has been sent.''"

text \<open>Both the router and the service lower and strip the address.\<close>

definition normalized_email :: "string \<Rightarrow> string" where
  "normalized_email e = str_strip (str_lower e)"

definition account_of :: "string \<Rightarrow> reset_db \<Rightarrow> account option" where
  "account_of e db = find (\<lambda>a. ac_email a = e) (rp_accounts db)"

definition request_password_reset ::
  "moment \<Rightarrow> string \<Rightarrow> string \<Rightarrow> string \<Rightarrow> bool \<Rightarrow> reset_db \<Rightarrow> (bool \<times> string) \<times> reset_db" where
  "request_password_reset now email ip code queued db =
     (let e = normalized_email email in
      if redis_get now (rp_limit db) e \<noteq> None \<or> redis_get now (rp_ip_limit db) ip \<noteq> None
      then ((False, ''Too many requests. Please try again later.''), db)
      else
        let db = db\<lparr>rp_limit := setex now e REQUEST_RATE_LIMIT_SECONDS () (rp_limit db),
                    rp_ip_limit := setex now ip REQUEST_IP_RATE_LIMIT_SECONDS () (rp_ip_limit db)\<rparr>
        in case account_of e db of
             None \<Rightarrow> ((True, SUCCESS_REQUEST_MESSAGE), db)
           | Some a \<Rightarrow>
               let d = \<lparr>rd_user = ac_id a, rd_email = e, rd_code = code, rd_used = False\<rparr>;
                   db = db\<lparr>rp_codes := setex now e RESET_CODE_TTL_SECONDS d (rp_codes db), rp_attempts := (rp_attempts db)(e := None)\<rparr>
               in if queued then ((True, SUCCESS_REQUEST_MESSAGE), db)
                  else ((False, ''Failed to send reset email. Please try again.''), db\<lparr>rp_codes := (rp_codes db)(e := None)\<rparr>))"

definition drop_reset_keys :: "string \<Rightarrow> reset_db \<Rightarrow> reset_db" where
  "drop_reset_keys e db = db\<lparr>rp_codes := (rp_codes db)(e := None), rp_attempts := (rp_attempts db)(e := None)\<rparr>"

text \<open>A wrong guess is counted as long as the code lives; the fifth deletes the code.\<close>

definition wrong_code :: "moment \<Rightarrow> string \<Rightarrow> nat \<Rightarrow> reset_db \<Rightarrow> (bool \<times> string) \<times> reset_db" where
  "wrong_code now e attempts db =
     (let n = attempts + 1;
          ttl = redis_ttl now (rp_codes db) e;
          db = db\<lparr>rp_attempts := setex now e (if 0 < ttl then ttl else RESET_CODE_TTL_SECONDS) n (rp_attempts db)\<rparr>
      in if MAX_RESET_ATTEMPTS \<le> n then ((False, TOO_MANY_ATTEMPTS_MESSAGE), drop_reset_keys e db)
         else ((False, INVALID_CODE_MESSAGE), db))"

definition set_password :: "int \<Rightarrow> string \<Rightarrow> account list \<Rightarrow> account list" where
  "set_password i h = map (\<lambda>a. if ac_id a = i then a\<lparr>ac_password := h\<rparr> else a)"

definition right_code :: "(string \<Rightarrow> string) \<Rightarrow> string \<Rightarrow> int \<Rightarrow> string \<Rightarrow> reset_db \<Rightarrow> (bool \<times> string) \<times> reset_db" where
  "right_code hash e user pw db =
     (if validate_password pw \<noteq> [] then ((False, hd (validate_password pw)), db)
      else case account_of e db of
        None \<Rightarrow> ((False, ''User not found.''), db)
      | Some a \<Rightarrow>
          if user \<noteq> ac_id a then ((False, ''Invalid verification request.''), db)
          else ((True, ''Password reset successful. All active sessions were signed out.''),
                drop_reset_keys e (db\<lparr>rp_accounts := set_password (ac_id a) (hash pw) (rp_accounts db),
                                       rp_sign_in := snd (invalidate_user_tokens (ac_id a) (rp_sign_in db))\<rparr>)))"

definition reset_attempts :: "moment \<Rightarrow> string \<Rightarrow> reset_db \<Rightarrow> nat" where
  "reset_attempts now e db = (case redis_get now (rp_attempts db) e of None \<Rightarrow> 0 | Some n \<Rightarrow> n)"

definition reset_password ::
  "(string \<Rightarrow> string) \<Rightarrow> moment \<Rightarrow> string \<Rightarrow> string \<Rightarrow> string \<Rightarrow> reset_db \<Rightarrow> (py_error + bool \<times> string) \<times> reset_db" where
  "reset_password hash now email code pw db =
     (let e = normalized_email email; submitted = str_strip code in
      case redis_get now (rp_codes db) e of
        None \<Rightarrow> (Inr (False, INVALID_CODE_MESSAGE), db)
      | Some d \<Rightarrow>
          if rd_used d then (Inr (False, INVALID_CODE_MESSAGE), db)
          else if rd_email d \<noteq> e then (Inr (False, ''Invalid email for this verification code.''), db)
          else if MAX_RESET_ATTEMPTS \<le> reset_attempts now e db then (Inr (False, TOO_MANY_ATTEMPTS_MESSAGE), db)
          else case compare_digest (rd_code d) submitted of
            Inl x \<Rightarrow> (Inl x, db)
          | Inr False \<Rightarrow> apfst Inr (wrong_code now e (reset_attempts now e db) db)
          | Inr True \<Rightarrow> apfst Inr (right_code hash e (rd_user d) pw db))"

section \<open>Changing the password\<close>

text \<open>\<^verbatim>\<open>change_password\<close> for the signed-in user \<open>a\<close>. \<open>right_password\<close> checks the current password. Deleting the
  rows of the user empties the three tables for this user.\<close>

definition verify_change ::
  "(string \<Rightarrow> moment \<Rightarrow> string \<Rightarrow> bool) \<Rightarrow> (string \<Rightarrow> string \<Rightarrow> bool) \<Rightarrow> (string \<Rightarrow> bool) \<Rightarrow> moment \<Rightarrow> int
     \<Rightarrow> string option \<Rightarrow> string option \<Rightarrow> sign_in_db \<Rightarrow> (py_error + unit) \<times> sign_in_db" where
  "verify_change totp_ok checkpw right_password now user current code db =
     (case sd_totp db user of
        Some k \<Rightarrow>
          (case code of
             None \<Rightarrow> (Inl (HTTPException 400 ''TOTP code is required. Please provide totp_code (6-digit code or backup code).''), db)
           | Some c \<Rightarrow>
               if c = [] then (Inl (HTTPException 400 ''TOTP code is required. Please provide totp_code (6-digit code or backup code).''), db)
               else if length c = 6 \<and> str_isdigit c then
                 (case verify_totp_with_replay_protection totp_ok now user (tk_secret k) c db of
                    (True, db) \<Rightarrow> (Inr (), db)
                  | (False, db) \<Rightarrow> (Inl (HTTPException 403 ''Invalid TOTP code or backup code''), db))
               else if length c = 10 then
                 (case check_totp_backup_code checkpw k c of
                    (True, k') \<Rightarrow> (Inr (), db\<lparr>sd_totp := (sd_totp db)(user \<mapsto> k')\<rparr>)
                  | (False, _) \<Rightarrow> (Inl (HTTPException 403 ''Invalid TOTP code or backup code''), db))
               else (Inl (HTTPException 400 ''Invalid TOTP code format. Expected 6-digit code or 10-character backup code.''), db))
      | None \<Rightarrow>
          if current = None \<or> current = Some [] then (Inl (HTTPException 400 ''Current password is required. Please provide current_password.''), db)
          else if \<not> right_password (the current) then (Inl (HTTPException 403 ''Current password is incorrect''), db)
          else (Inr (), db))"

definition revoke_everything :: "int \<Rightarrow> sign_in_db \<Rightarrow> sign_in_db" where
  "revoke_everything user db =
     delete_tokens (\<lambda>t. ot_user t = user)
       (db\<lparr>sd_devices := filter (\<lambda>d. dv_user d \<noteq> user) (sd_devices db),
           sd_sessions := filter (\<lambda>s. ls_user s \<noteq> user) (sd_sessions db)\<rparr>)"

definition change_password ::
  "(string \<Rightarrow> moment \<Rightarrow> string \<Rightarrow> bool) \<Rightarrow> (string \<Rightarrow> string \<Rightarrow> bool) \<Rightarrow> (string \<Rightarrow> bool) \<Rightarrow> (string \<Rightarrow> string) \<Rightarrow> moment \<Rightarrow> int
     \<Rightarrow> string \<Rightarrow> string option \<Rightarrow> string option \<Rightarrow> reset_db \<Rightarrow> (py_error + unit) \<times> reset_db" where
  "change_password totp_ok checkpw right_password hash now user pw current code db =
     (if validate_password pw \<noteq> [] then (Inl (HTTPException 400 (hd (validate_password pw))), db)
      else case verify_change totp_ok checkpw right_password now user current code (rp_sign_in db) of
        (Inl x, s) \<Rightarrow> (Inl x, db\<lparr>rp_sign_in := s\<rparr>)
      | (Inr _, s) \<Rightarrow> (Inr (), db\<lparr>rp_accounts := set_password user (hash pw) (rp_accounts db), rp_sign_in := revoke_everything user s\<rparr>))"

section \<open>Names\<close>

text \<open>A name is accepted exactly when it has 3 to 15 characters, all of them letters, digits, underscores,
  hyphens or spaces, no space at either end and no two in a row, and its lower-case form is not banned.
  The newline the pattern lets through at the end never gets past the check of the ends.
\<close>

theorem username_accepted_iff:
  "validate_username banned s = [] \<longleftrightarrow>
     3 \<le> length s \<and> length s \<le> 15 \<and> list_all name_char s \<and> hd s \<noteq> CHR '' '' \<and> last s \<noteq> CHR '' '' \<and>
     \<not> sublist ''  '' s \<and> str_lower s \<notin> set banned"
proof (cases "s = []")
  case False
  have nsp: "is_space c \<longleftrightarrow> c = CHR '' ''" if "name_char c" for c
    using that by (auto simp: name_char_def is_space_def is_letter_def is_digit_def Let_def)
  have nl: "is_space (CHR 0x0A)" "\<not> name_char (CHR 0x0A)" by (simp_all add: is_space_def name_char_def is_letter_def is_digit_def)
  have "name_pattern s \<and> s = str_strip s \<longleftrightarrow> list_all name_char s \<and> hd s \<noteq> CHR '' '' \<and> last s \<noteq> CHR '' ''"
  proof
    assume a: "name_pattern s \<and> s = str_strip s"
    then have "\<not> is_space (hd s)" "\<not> is_space (last s)" using str_strip_id_iff[of s] False by auto
    moreover have "list_all name_char s" using a calculation(2) nl(1) by (auto simp: name_pattern_def)
    ultimately show "list_all name_char s \<and> hd s \<noteq> CHR '' '' \<and> last s \<noteq> CHR '' ''"
      by (auto simp: is_space_def)
  next
    assume a: "list_all name_char s \<and> hd s \<noteq> CHR '' '' \<and> last s \<noteq> CHR '' ''"
    then have "name_char (hd s)" "name_char (last s)" using False by (auto simp: list_all_iff)
    with a have "str_strip s = s" using str_strip_id_iff[of s] nsp by auto
    with a False show "name_pattern s \<and> s = str_strip s" by (auto simp: name_pattern_def)
  qed
  then show ?thesis using False by (auto simp: validate_username_def str_contains_iff)
qed (simp add: validate_username_def)

section \<open>Guessing a code\<close>

datatype reset_event = Request string string string bool | Reset string string string

definition reset_event :: "(string \<Rightarrow> string) \<Rightarrow> moment \<times> reset_event \<Rightarrow> reset_db \<Rightarrow> (py_error + bool \<times> string) \<times> reset_db" where
  "reset_event hash ev db =
     (case snd ev of
        Request e ip code queued \<Rightarrow> apfst Inr (request_password_reset (fst ev) e ip code queued db)
      | Reset e code pw \<Rightarrow> reset_password hash (fst ev) e code pw db)"

fun run_events :: "(string \<Rightarrow> string) \<Rightarrow> (moment \<times> reset_event) list \<Rightarrow> reset_db \<Rightarrow> reset_db" where
  "run_events hash [] db = db"
| "run_events hash (ev # evs) db = run_events hash evs (snd (reset_event hash ev db))"

definition asks_for :: "string \<Rightarrow> reset_event \<Rightarrow> bool" where
  "asks_for e ev = (case ev of Request e' _ _ _ \<Rightarrow> normalized_email e' = e | Reset _ _ _ \<Rightarrow> False)"

definition wrong_guess :: "string \<Rightarrow> string \<Rightarrow> reset_event \<Rightarrow> bool" where
  "wrong_guess e code ev =
     (case ev of Request _ _ _ _ \<Rightarrow> False
      | Reset e' c _ \<Rightarrow> normalized_email e' = e \<and> is_ascii (str_strip c) \<and> str_strip c \<noteq> code)"

definition guess_state :: "string \<Rightarrow> string \<Rightarrow> moment \<Rightarrow> moment \<Rightarrow> nat \<Rightarrow> reset_db \<Rightarrow> bool" where
  "guess_state e code expiry now n db \<longleftrightarrow>
     (case rp_codes db e of
        None \<Rightarrow> True
      | Some (d, x) \<Rightarrow> x = expiry \<and> rd_code d = code \<and> rd_email d = e \<and> \<not> rd_used d \<and>
          (now < expiry \<longrightarrow> n < MAX_RESET_ATTEMPTS \<and> rp_attempts db e = (if n = 0 then None else Some (n, expiry))))"

lemma guess_state_later: "guess_state e code x now n db \<Longrightarrow> now \<le> now' \<Longrightarrow> guess_state e code x now' n db"
  by (auto simp: guess_state_def split: option.splits)

lemma guess_state_cong:
  "rp_codes db' e = rp_codes db e \<Longrightarrow> rp_attempts db' e = rp_attempts db e \<Longrightarrow> guess_state e c x now n db' = guess_state e c x now n db"
  by (auto simp: guess_state_def split: option.splits)

lemma request_other:
  "normalized_email email \<noteq> e \<Longrightarrow>
   rp_codes (snd (request_password_reset now email ip code q db)) e = rp_codes db e \<and>
   rp_attempts (snd (request_password_reset now email ip code q db)) e = rp_attempts db e"
  by (auto simp: request_password_reset_def Let_def setex_def split: option.splits)

lemma wrong_code_keys:
  "rp_codes (snd (wrong_code now e' n db)) e = (if e = e' \<and> MAX_RESET_ATTEMPTS \<le> n + 1 then None else rp_codes db e)"
  "rp_attempts (snd (wrong_code now e' n db)) e =
     (if e \<noteq> e' then rp_attempts db e else if MAX_RESET_ATTEMPTS \<le> n + 1 then None
      else Some (n + 1, now + (if 0 < redis_ttl now (rp_codes db) e then redis_ttl now (rp_codes db) e else RESET_CODE_TTL_SECONDS)))"
  by (auto simp: wrong_code_def Let_def drop_reset_keys_def setex_def)

lemma right_code_other:
  "e \<noteq> e' \<Longrightarrow> rp_codes (snd (right_code h e' u pw db)) e = rp_codes db e \<and> rp_attempts (snd (right_code h e' u pw db)) e = rp_attempts db e"
  by (simp add: right_code_def drop_reset_keys_def account_of_def split: option.splits)

lemma right_code_guess_state:
  "guess_state e c x now n db \<Longrightarrow> guess_state e c x now n (snd (right_code h e u pw db))"
  by (auto simp: right_code_def drop_reset_keys_def guess_state_def[of _ _ _ _ _ "_\<lparr>rp_codes := _, rp_attempts := _\<rparr>"]
      intro: guess_state_cong[THEN iffD2, rotated 2] split: option.splits)

lemma reset_other:
  "normalized_email email \<noteq> e \<Longrightarrow>
   rp_codes (snd (reset_password h now email c pw db)) e = rp_codes db e \<and>
   rp_attempts (snd (reset_password h now email c pw db)) e = rp_attempts db e"
  by (auto simp: reset_password_def Let_def wrong_code_keys right_code_other split: option.splits sum.splits bool.splits)

lemma digits_are_ascii: "list_all is_digit s \<Longrightarrow> is_ascii s"
  by (auto simp: is_ascii_def list_all_iff is_digit_def)

lemma reset_mine:
  assumes g: "guess_state e code x now n db" and dig: "list_all is_digit code" and e: "normalized_email email = e"
  shows "guess_state e code x now (n + (if is_ascii (str_strip c) \<and> str_strip c \<noteq> code then 1 else 0))
    (snd (reset_password h now email c pw db))"
proof (cases "redis_get now (rp_codes db) e")
  case None
  then have "rp_codes db e = None \<or> (\<exists>d y. rp_codes db e = Some (d, y) \<and> \<not> now < y)"
    by (auto simp: redis_get_def split: option.splits if_splits)
  then show ?thesis using g None e by (auto simp: reset_password_def guess_state_def split: option.splits)
next
  case (Some d)
  have live: "rp_codes db e = Some (d, x)" "now < x"
    using Some g by (auto simp: redis_get_def guess_state_def split: option.splits prod.splits if_splits)
  with g have d: "rd_code d = code" "rd_email d = e" "\<not> rd_used d" "n < MAX_RESET_ATTEMPTS"
    "rp_attempts db e = (if n = 0 then None else Some (n, x))"
    by (simp_all add: guess_state_def)
  have n: "reset_attempts now e db = n"
    using d(5) live(2) by (simp add: reset_attempts_def redis_get_def)
  show ?thesis
  proof (cases "is_ascii (str_strip c)")
    case False
    with g Some d n show ?thesis by (simp add: reset_password_def e compare_digest_def)
  next
    case ascii: True
    have cmp: "compare_digest (rd_code d) (str_strip c) = Inr (str_strip c = code)"
      using ascii d(1) dig by (auto simp: compare_digest_def digits_are_ascii)
    show ?thesis
    proof (cases "str_strip c = code")
      case True
      then have "snd (reset_password h now email c pw db) = snd (right_code h e (rd_user d) pw db)"
        using Some d n cmp by (simp add: reset_password_def e)
      with right_code_guess_state[OF g, of h "rd_user d" pw] True show ?thesis by simp
    next
      case False
      then have "snd (reset_password h now email c pw db) = snd (wrong_code now e n db)"
        using Some d n cmp by (simp add: reset_password_def e)
      then show ?thesis
        using ascii False g live d by (auto simp: guess_state_def wrong_code_keys redis_ttl_def)
    qed
  qed
qed

lemma event_keeps_guess_state:
  assumes "guess_state e code x now n db" "list_all is_digit code" "\<not> asks_for e ev"
  shows "guess_state e code x now (n + (if wrong_guess e code ev then 1 else 0)) (snd (reset_event h (now, ev) db))"
proof (cases ev)
  case (Request email ip c q)
  with assms(3) have "normalized_email email \<noteq> e" by (simp add: asks_for_def)
  from guess_state_cong[OF request_other[OF this, THEN conjunct1] request_other[OF this, THEN conjunct2]] assms(1) Request
  show ?thesis by (simp add: reset_event_def wrong_guess_def)
next
  case (Reset email c pw)
  show ?thesis
  proof (cases "normalized_email email = e")
    case True
    with reset_mine[OF assms(1,2) True, of c h pw] Reset show ?thesis by (simp add: reset_event_def wrong_guess_def)
  next
    case False
    from guess_state_cong[OF reset_other[OF this, THEN conjunct1] reset_other[OF this, THEN conjunct2]] assms(1) False Reset
    show ?thesis by (simp add: reset_event_def wrong_guess_def)
  qed
qed

lemma run_keeps_guess_state:
  "guess_state e code x t n db \<Longrightarrow> list_all is_digit code \<Longrightarrow> sorted (t # map fst evs) \<Longrightarrow> \<forall>ev\<in>set evs. \<not> asks_for e (snd ev) \<Longrightarrow>
   guess_state e code x (last (t # map fst evs)) (n + length (filter (wrong_guess e code \<circ> snd) evs)) (run_events h evs db)"
proof (induction evs arbitrary: t n db)
  case (Cons ev evs)
  let ?n = "n + (if wrong_guess e code (snd ev) then 1 else 0)"
  have "guess_state e code x (fst ev) ?n (snd (reset_event h ev db))"
    using event_keeps_guess_state[OF guess_state_later[OF Cons.prems(1), of "fst ev"] Cons.prems(2), of "snd ev" h] Cons.prems by simp
  from Cons.IH[OF this Cons.prems(2)] Cons.prems(3,4) show ?case by (cases evs) auto
qed simp

lemma reset_succeeds_only_with_code:
  assumes "guess_state e code x now n db" "reset_password h now email c pw db = (Inr (True, m), db')" "normalized_email email = e"
  shows "str_strip c = code \<and> now < x \<and> n < MAX_RESET_ATTEMPTS \<and> rp_codes db' e = None"
proof -
  obtain d where d: "redis_get now (rp_codes db) e = Some d"
    using assms(2,3) by (cases "redis_get now (rp_codes db) e") (auto simp: reset_password_def)
  then have live: "rp_codes db e = Some (d, x)" "now < x"
    using assms(1) by (auto simp: redis_get_def guess_state_def split: option.splits prod.splits if_splits)
  with assms(1) have g: "rd_code d = code" "rd_email d = e" "\<not> rd_used d" "n < MAX_RESET_ATTEMPTS" by (simp_all add: guess_state_def)
  have "compare_digest (rd_code d) (str_strip c) = Inr True"
    using assms(2) d g by (auto simp: reset_password_def assms(3) Let_def wrong_code_def split: if_splits sum.splits bool.splits)
  then have "str_strip c = code" "apfst Inr (right_code h e (rd_user d) pw db) = (Inr (True, m) :: py_error + bool \<times> string, db')"
    using assms(2) d g by (auto simp: compare_digest_def reset_password_def assms(3) Let_def split: if_splits)
  moreover from this(2) have "rp_codes db' e = None"
    by (auto simp: right_code_def drop_reset_keys_def split: if_splits option.splits)
  ultimately show ?thesis using live g by simp
qed

text \<open>
  C8: After a code was mailed to an address, whatever requests and guesses follow (for this and for other
  addresses, from anywhere) as long as no new code is asked for this address: a reset of its password
  succeeds only with exactly the mailed code, within 600 seconds, and after fewer than five wrong
  guesses; and the success uses the code up.
\<close>

theorem reset_needs_mailed_code:
  assumes req: "request_password_reset t email ip code True db = ((True, m), db1)" "account_of (normalized_email email) db \<noteq> None"
    and dig: "list_all is_digit code"
    and run: "sorted (t # map fst evs @ [now])" "\<forall>ev\<in>set evs. \<not> asks_for (normalized_email email) (snd ev)"
    and success: "reset_password h now email' c pw (run_events h evs db1) = (Inr (True, m'), db2)" "normalized_email email' = normalized_email email"
  shows "str_strip c = code \<and> now < t + 600 \<and>
    length (filter (wrong_guess (normalized_email email) code \<circ> snd) evs) < MAX_RESET_ATTEMPTS \<and> rp_codes db2 (normalized_email email) = None"
proof -
  let ?e = "normalized_email email"
  have "guess_state ?e code (t + 600) t 0 db1"
    using req by (auto simp: request_password_reset_def Let_def guess_state_def setex_def account_of_def RESET_CODE_TTL_SECONDS_def
        MAX_RESET_ATTEMPTS_def split: if_splits option.splits)
  from run_keeps_guess_state[OF this dig _ run(2), of h] run(1)
  have "guess_state ?e code (t + 600) (last (t # map fst evs)) (length (filter (wrong_guess ?e code \<circ> snd) evs)) (run_events h evs db1)"
    by (auto simp: sorted_append)
  moreover have "last (t # map fst evs) \<le> now" using run(1) by (auto simp: sorted_append last_map)
  ultimately show ?thesis
    using reset_succeeds_only_with_code[OF guess_state_later success] by blast
qed

section \<open>Limits on requests\<close>

lemma limits_kept:
  assumes "sorted (t # map fst evs)" "last (t # map fst evs) < x"
  shows "rp_limit db k = Some ((), x) \<Longrightarrow> rp_limit (run_events h evs db) k = Some ((), x)"
    and "rp_ip_limit db k' = Some ((), x) \<Longrightarrow> rp_ip_limit (run_events h evs db) k' = Some ((), x)"
proof -
  have reset: "rp_limit (snd (reset_password h now e c pw d)) = rp_limit d \<and> rp_ip_limit (snd (reset_password h now e c pw d)) = rp_ip_limit d"
    for now e c pw d
    by (simp add: reset_password_def Let_def wrong_code_def right_code_def drop_reset_keys_def split: option.splits sum.splits bool.splits)
  have step: "(rp_limit d k = Some ((), x) \<longrightarrow> rp_limit (snd (reset_event h ev d)) k = Some ((), x)) \<and>
      (rp_ip_limit d k' = Some ((), x) \<longrightarrow> rp_ip_limit (snd (reset_event h ev d)) k' = Some ((), x))" if "fst ev < x" for ev d
    using that
    by (auto simp: reset_event_def reset request_password_reset_def Let_def setex_def redis_get_def
        split: reset_event.splits option.splits if_splits)
  have "(rp_limit db k = Some ((), x) \<longrightarrow> rp_limit (run_events h evs db) k = Some ((), x)) \<and>
      (rp_ip_limit db k' = Some ((), x) \<longrightarrow> rp_ip_limit (run_events h evs db) k' = Some ((), x))"
    using assms
  proof (induction evs arbitrary: t db)
    case (Cons ev evs)
    have "fst ev \<le> last (fst ev # map fst evs)" using Cons.prems(1) by (cases "evs = []") (auto simp: last_map)
    then have "fst ev < x" using Cons.prems(2) by simp
    from step[OF this, of db] Cons.IH[of "fst ev" "snd (reset_event h ev db)"] Cons.prems show ?case by simp
  qed simp
  then show "rp_limit db k = Some ((), x) \<Longrightarrow> rp_limit (run_events h evs db) k = Some ((), x)"
    and "rp_ip_limit db k' = Some ((), x) \<Longrightarrow> rp_ip_limit (run_events h evs db) k' = Some ((), x)" by simp_all
qed

text \<open>Once a reset code was asked for an address, whether the address exists or not, another request for
  it within 60 seconds, and another request from the same client address within 30 seconds, is refused
  without any effect, whatever happened in between.
\<close>

theorem reset_requests_limited:
  assumes "request_password_reset t email ip code q db = (r, db1)"
    and "redis_get t (rp_limit db) (normalized_email email) = None" "redis_get t (rp_ip_limit db) ip = None"
    and "sorted (t # map fst evs @ [now])"
    and "normalized_email email' = normalized_email email \<and> now < t + 60 \<or> ip' = ip \<and> now < t + 30"
  shows "request_password_reset now email' ip' code' q' (run_events h evs db1) =
    ((False, ''Too many requests. Please try again later.''), run_events h evs db1)"
proof -
  have init: "rp_limit db1 (normalized_email email) = Some ((), t + 60)" "rp_ip_limit db1 ip = Some ((), t + 30)"
    using assms(1-3)
    by (auto simp: request_password_reset_def Let_def setex_def REQUEST_RATE_LIMIT_SECONDS_def REQUEST_IP_RATE_LIMIT_SECONDS_def
        split: option.splits if_splits)
  have s: "sorted (t # map fst evs)" "last (t # map fst evs) \<le> now" using assms(4) by (auto simp: sorted_append last_map)
  have "redis_get now (rp_limit (run_events h evs db1)) (normalized_email email') \<noteq> None \<or> redis_get now (rp_ip_limit (run_events h evs db1)) ip' \<noteq> None"
    using assms(5)
  proof
    assume a: "normalized_email email' = normalized_email email \<and> now < t + 60"
    then have "last (t # map fst evs) < t + 60" using s(2) by linarith
    from limits_kept(1)[OF s(1) this init(1)] a show ?thesis by (simp add: redis_get_def)
  next
    assume a: "ip' = ip \<and> now < t + 30"
    then have "last (t # map fst evs) < t + 30" using s(2) by linarith
    from limits_kept(2)[OF s(1) this init(2)] a show ?thesis by (simp add: redis_get_def)
  qed
  then show ?thesis by (auto simp: request_password_reset_def Let_def)
qed

section \<open>What a new password ends\<close>

text \<open>
  C35: A user who changes the password proved the right to: with a one-time password set up, by a fresh
  six-digit code or an unused backup code (which is spent), otherwise by the current password. Every
  token, session and trusted device of the user is gone afterwards and those of the others are as before.
\<close>

theorem password_change_revokes:
  assumes "change_password T B ok hash now user pw current code db = (Inr (), db')"
  shows "filter (\<lambda>t. ot_user t = user) (sd_tokens (rp_sign_in db')) = [] \<and>
    filter (\<lambda>s. ls_user s = user) (sd_sessions (rp_sign_in db')) = [] \<and>
    filter (\<lambda>d. dv_user d = user) (sd_devices (rp_sign_in db')) = [] \<and>
    filter (\<lambda>t. ot_user t \<noteq> user) (sd_tokens (rp_sign_in db')) = filter (\<lambda>t. ot_user t \<noteq> user) (sd_tokens (rp_sign_in db)) \<and>
    filter (\<lambda>d. dv_user d \<noteq> user) (sd_devices (rp_sign_in db')) = filter (\<lambda>d. dv_user d \<noteq> user) (sd_devices (rp_sign_in db)) \<and>
    rp_accounts db' = set_password user (hash pw) (rp_accounts db) \<and> 8 \<le> length pw \<and>
    (case sd_totp (rp_sign_in db) user of
       None \<Rightarrow> (\<exists>c. current = Some c \<and> ok c)
     | Some k \<Rightarrow> (\<exists>c. code = Some c \<and>
         (length c = 6 \<and> T (tk_secret k) now c \<and> redis_get now (sd_used_totp (rp_sign_in db)) (user, c) = None \<or>
          length c = 10 \<and> (\<exists>h\<in>set (tk_backup_keys k). B c h \<and>
            sd_totp (rp_sign_in db') user = Some (k\<lparr>tk_backup_keys := remove1 h (tk_backup_keys k)\<rparr>)))))"
proof -
  obtain s where v: "verify_change T B ok now user current code (rp_sign_in db) = (Inr (), s)"
    and db': "db' = db\<lparr>rp_accounts := set_password user (hash pw) (rp_accounts db), rp_sign_in := revoke_everything user s\<rparr>"
    and pw: "validate_password pw = []"
    using assms by (auto simp: change_password_def split: if_splits prod.splits sum.splits)
  have keep: "sd_tokens s = sd_tokens (rp_sign_in db)" "sd_devices s = sd_devices (rp_sign_in db)"
    using v by (auto simp: verify_change_def verify_totp_with_replay_protection_def split: option.splits if_splits prod.splits bool.splits)
  have unused: "(x :: unit option) \<noteq> Some () \<longleftrightarrow> x = None" for x by (cases x) auto
  have proved: "case sd_totp (rp_sign_in db) user of
       None \<Rightarrow> (\<exists>c. current = Some c \<and> ok c)
     | Some k \<Rightarrow> (\<exists>c. code = Some c \<and>
         (length c = 6 \<and> T (tk_secret k) now c \<and> redis_get now (sd_used_totp (rp_sign_in db)) (user, c) = None \<or>
          length c = 10 \<and> (\<exists>h\<in>set (tk_backup_keys k). B c h \<and>
            sd_totp s user = Some (k\<lparr>tk_backup_keys := remove1 h (tk_backup_keys k)\<rparr>))))"
    using v
    by (auto simp: verify_change_def verify_totp_with_replay_protection_def check_totp_backup_code_def find_Some_iff unused
        split: option.splits if_splits prod.splits bool.splits) (metis nth_mem)?
  have gone: "ls_user (forget_token G x) = ls_user x" for G x by (simp add: forget_token_def)
  show ?thesis
    using proved pw
    by (auto simp: db' revoke_everything_def delete_tokens_def keep gone filter_empty_conv validate_password_def split: if_splits option.splits)
qed


section \<open>Examples\<close>

definition sample_reset_db :: reset_db where
  "sample_reset_db = \<lparr>rp_accounts = [\<lparr>ac_id = 7, ac_email = ''a@b.cl'', ac_password = ''old''\<rparr>],
     rp_sign_in = \<lparr>sd_tokens = [\<lparr>ot_id = 1, ot_user = 7, ot_client = 5, ot_access = ''a1'', ot_refresh = ''r1'', ot_scopes = [''*''],
         ot_expires_at = 86400, ot_refresh_expires_at = 1296000, ot_created_at = 0\<rparr>], sd_next_token = 2, sd_sessions = [],
       sd_devices = [], sd_next_device = 1, sd_mails = [], sd_next_mail = 1, sd_totp = (\<lambda>_. None), sd_methods = (\<lambda>_. None),
       sd_used_totp = (\<lambda>_. None), sd_mail_codes = (\<lambda>_. None), sd_mail_limit = (\<lambda>_. None), sd_fails = (\<lambda>_. None),
       sd_setups = (\<lambda>_. None)\<rparr>,
     rp_codes = (\<lambda>_. None), rp_attempts = (\<lambda>_. None), rp_limit = (\<lambda>_. None), rp_ip_limit = (\<lambda>_. None)\<rparr>"

lemma sample_email: "normalized_email ''A@b.cl '' = ''a@b.cl''" "normalized_email ''a@b.cl'' = ''a@b.cl''"
  by code_simp+

lemma sample_codes: "str_strip ''12345678 '' = ''12345678''" "str_strip ''00000000'' = ''00000000''"
  "is_ascii ''12345678''" "is_ascii ''00000000''" "list_all is_digit ''12345678''"
  by (simp_all add: str_strip_def is_space_def is_ascii_def is_digit_def)

text \<open>A request, a wrong guess, and the right code.\<close>

definition sample_requested :: reset_db where
  "sample_requested = snd (request_password_reset 100 ''A@b.cl '' ''192.0.2.1'' ''12345678'' True sample_reset_db)"

lemma sample_request:
  "request_password_reset 100 ''A@b.cl '' ''192.0.2.1'' ''12345678'' True sample_reset_db = ((True, SUCCESS_REQUEST_MESSAGE), sample_requested)"
  "account_of ''a@b.cl'' sample_reset_db \<noteq> None"
  by (simp_all add: request_password_reset_def sample_email sample_reset_db_def account_of_def Let_def sample_requested_def)

lemma sample_reset:
  "\<exists>db2. reset_password id 300 ''a@b.cl'' ''12345678 '' ''new secret'' (run_events id [(200, Reset ''a@b.cl'' ''00000000'' ''pw'')] sample_requested)
     = (Inr (True, ''Password reset successful. All active sessions were signed out.''), db2)"
  by (simp add: sample_requested_def reset_event_def reset_password_def request_password_reset_def sample_email sample_codes sample_reset_db_def
      account_of_def compare_digest_def setex_def redis_get_def reset_attempts_def wrong_code_def right_code_def validate_password_def
      redis_ttl_def MAX_RESET_ATTEMPTS_def RESET_CODE_TTL_SECONDS_def Let_def)

lemma reset_needs_mailed_code_witness:
  "length (filter (wrong_guess ''a@b.cl'' ''12345678'' \<circ> snd) [(200::nat, Reset ''a@b.cl'' ''00000000'' ''pw'')]) < MAX_RESET_ATTEMPTS \<and>
   (300::nat) < 100 + 600"
proof -
  obtain db2 where "reset_password id 300 ''a@b.cl'' ''12345678 '' ''new secret'' (run_events id [(200, Reset ''a@b.cl'' ''00000000'' ''pw'')] sample_requested)
     = (Inr (True, ''Password reset successful. All active sessions were signed out.''), db2)" using sample_reset by blast
  from reset_needs_mailed_code[OF sample_request(1) _ sample_codes(5) _ _ this] sample_request(2)
  show ?thesis by (simp add: sample_email asks_for_def)
qed

lemma reset_requests_limited_witness:
  "request_password_reset 129 ''other'' ''192.0.2.1'' ''87654321'' True sample_requested =
     ((False, ''Too many requests. Please try again later.''), sample_requested)"
  using reset_requests_limited[OF sample_request(1), of "[]" 129 "''other''" "''192.0.2.1''" "''87654321''" True id]
  by (simp add: sample_reset_db_def)

lemma password_change_revokes_witness:
  "\<exists>db'. change_password (\<lambda>_ _ _. False) (\<lambda>_ _. False) (\<lambda>p. p = ''old'') id 100 7 ''new secret'' (Some ''old'') None sample_reset_db = (Inr (), db') \<and>
     filter (\<lambda>t. ot_user t = 7) (sd_tokens (rp_sign_in db')) = []"
proof -
  obtain db' where c: "change_password (\<lambda>_ _ _. False) (\<lambda>_ _. False) (\<lambda>p. p = ''old'') id 100 7 ''new secret'' (Some ''old'') None sample_reset_db = (Inr (), db')"
    by (simp add: change_password_def validate_password_def verify_change_def sample_reset_db_def)
  from password_change_revokes[OF this] c show ?thesis by blast
qed

end
