(* ===== verification/OAuthApps.thy ===== *)
theory OAuthApps
  imports SessionGate
begin

text \<open>
  Third-party applications (\<^verbatim>\<open>src/app/router/private/oauth.py\<close>) and the two grants they use: the
  authorization code and the client credentials (\<^verbatim>\<open>src/app/router/auth.py\<close>,
  \<^verbatim>\<open>get_user_by_authorization_code\<close> of \<^verbatim>\<open>src/app/auth.py\<close>). Random secrets, codes and tokens are
  arguments; which users exist is an argument.
\<close>

section \<open>State\<close>

record oauth_client =
  oc_id :: int
  oc_name :: string
  oc_description :: string
  oc_secret :: string
  oc_redirects :: "string list"
  oc_owner :: int

text \<open>The codes in Redis: for a client and a code the user and the scopes, joined by commas.\<close>

record apps_db =
  oa_sign_in :: sign_in_db
  oa_clients :: "oauth_client list"
  oa_next_client :: int
  oa_codes :: "(int \<times> string, int \<times> string) ttl_keys"

definition get_client :: "int \<Rightarrow> apps_db \<Rightarrow> oauth_client option" where
  "get_client i db = find (\<lambda>c. oc_id c = i) (oa_clients db)"

definition owned :: "int \<Rightarrow> apps_db \<Rightarrow> oauth_client list" where
  "owned user db = filter (\<lambda>c. oc_owner c = user) (oa_clients db)"

section \<open>Applications\<close>

text \<open>Identifiers below 10 are skipped: the counter is moved up before the row is added.\<close>

definition create_oauth_app ::
  "int \<Rightarrow> string \<Rightarrow> string \<Rightarrow> string list \<Rightarrow> string \<Rightarrow> apps_db \<Rightarrow> (py_error + oauth_client) \<times> apps_db" where
  "create_oauth_app user name description redirects secret db =
     (if 3 \<le> length (owned user db)
      then (Inl (HTTPException 400 ''You can only create up to 3 OAuth applications.''), db)
      else
        let i = (if oa_next_client db < 10 then 10 else oa_next_client db);
            c = \<lparr>oc_id = i, oc_name = name, oc_description = description, oc_secret = secret, oc_redirects = redirects, oc_owner = user\<rparr>
        in (Inr c, db\<lparr>oa_clients := oa_clients db @ [c], oa_next_client := i + 1\<rparr>))"

definition own_client :: "int \<Rightarrow> int \<Rightarrow> apps_db \<Rightarrow> py_error + oauth_client" where
  "own_client user i db =
     (case get_client i db of
        None \<Rightarrow> Inl (HTTPException 404 ''OAuth app not found'')
      | Some c \<Rightarrow> if oc_owner c \<noteq> user then Inl (HTTPException 403 ''Forbidden: Not the owner of this app'') else Inr c)"

definition put_client :: "oauth_client \<Rightarrow> apps_db \<Rightarrow> apps_db" where
  "put_client c db = db\<lparr>oa_clients := map (\<lambda>x. if oc_id x = oc_id c then c else x) (oa_clients db)\<rparr>"

definition drop_client_tokens :: "int \<Rightarrow> apps_db \<Rightarrow> apps_db" where
  "drop_client_tokens i db = db\<lparr>oa_sign_in := delete_tokens (\<lambda>t. ot_client t = i) (oa_sign_in db)\<rparr>"

definition delete_oauth_app :: "int \<Rightarrow> int \<Rightarrow> apps_db \<Rightarrow> (py_error + unit) \<times> apps_db" where
  "delete_oauth_app user i db =
     (case own_client user i db of
        Inl e \<Rightarrow> (Inl e, db)
      | Inr c \<Rightarrow> (Inr (), (drop_client_tokens i db)\<lparr>oa_clients := filter (\<lambda>x. oc_id x \<noteq> i) (oa_clients db)\<rparr>))"

definition update_oauth_app ::
  "int \<Rightarrow> int \<Rightarrow> string \<Rightarrow> string \<Rightarrow> string list \<Rightarrow> apps_db \<Rightarrow> (py_error + oauth_client) \<times> apps_db" where
  "update_oauth_app user i name description redirects db =
     (case own_client user i db of
        Inl e \<Rightarrow> (Inl e, db)
      | Inr c \<Rightarrow>
          let c' = c\<lparr>oc_name := name, oc_description := description, oc_redirects := redirects\<rparr>
          in (Inr c', put_client c' db))"

definition refresh_secret :: "int \<Rightarrow> int \<Rightarrow> string \<Rightarrow> apps_db \<Rightarrow> (py_error + oauth_client) \<times> apps_db" where
  "refresh_secret user i secret db =
     (case own_client user i db of
        Inl e \<Rightarrow> (Inl e, db)
      | Inr c \<Rightarrow> let c' = c\<lparr>oc_secret := secret\<rparr> in (Inr c', put_client c' (drop_client_tokens i db)))"

section \<open>Codes and grants\<close>

definition generate_oauth_code ::
  "moment \<Rightarrow> int \<Rightarrow> int \<Rightarrow> string \<Rightarrow> string list \<Rightarrow> string \<Rightarrow> apps_db \<Rightarrow> (py_error + string) \<times> apps_db" where
  "generate_oauth_code now user i redirect scopes code db =
     (case get_client i db of
        None \<Rightarrow> (Inl (HTTPException 404 ''OAuth app not found''), db)
      | Some c \<Rightarrow>
          if redirect \<notin> set (oc_redirects c) then (Inl (HTTPException 403 ''Redirect URI not allowed for this client''), db)
          else (Inr code, db\<lparr>oa_codes := setex now (i, code) 300 (user, str_join (CHR '','') scopes) (oa_codes db)\<rparr>))"

text \<open>A code without scopes reads as missing and stays; any other is deleted before the user is looked
  up. (A user identifier is never 0.)\<close>

definition get_user_by_authorization_code ::
  "moment \<Rightarrow> (int \<Rightarrow> bool) \<Rightarrow> int \<Rightarrow> string \<Rightarrow> apps_db \<Rightarrow> (int \<times> string list) option \<times> apps_db" where
  "get_user_by_authorization_code now users i code db =
     (case redis_get now (oa_codes db) (i, code) of
        None \<Rightarrow> (None, db)
      | Some (user, scopes) \<Rightarrow>
          if scopes = [] then (None, db)
          else ((if users user then Some (user, str_split (CHR '','') scopes) else None), db\<lparr>oa_codes := (oa_codes db)((i, code) := None)\<rparr>))"

text \<open>The client row with this identifier and this secret.\<close>

definition authenticated_client :: "int \<Rightarrow> string \<Rightarrow> apps_db \<Rightarrow> oauth_client option" where
  "authenticated_client i secret db = find (\<lambda>c. oc_id c = i \<and> oc_secret c = secret) (oa_clients db)"

definition store_app_token ::
  "moment \<Rightarrow> sign_in_config \<Rightarrow> int \<Rightarrow> int \<Rightarrow> string list \<Rightarrow> string \<Rightarrow> string \<Rightarrow> apps_db \<Rightarrow> (py_error + oauth_token) \<times> apps_db" where
  "store_app_token now cfg user i scopes access refresh db =
     (case store_token now cfg user i scopes access refresh (oa_sign_in db) of (t, s) \<Rightarrow> (Inr t, db\<lparr>oa_sign_in := s\<rparr>))"

definition code_grant ::
  "moment \<Rightarrow> sign_in_config \<Rightarrow> (int \<Rightarrow> bool) \<Rightarrow> int \<Rightarrow> string \<Rightarrow> string \<Rightarrow> string \<Rightarrow> string \<Rightarrow> apps_db \<Rightarrow> (py_error + oauth_token) \<times> apps_db" where
  "code_grant now cfg users i secret code access refresh db =
     (if authenticated_client i secret db = None then (Inl (HTTPException 401 ''invalid_client''), db)
      else if code = [] then (Inl (HTTPException 400 ''invalid_request''), db)
      else case get_user_by_authorization_code now users i code db of
        (None, db) \<Rightarrow> (Inl (HTTPException 400 ''invalid_grant''), db)
      | (Some (user, scopes), db) \<Rightarrow> store_app_token now cfg user i scopes access refresh db)"

definition BANCHOBOT_ID :: int where "BANCHOBOT_ID = 2"

definition credentials_grant ::
  "moment \<Rightarrow> sign_in_config \<Rightarrow> int \<Rightarrow> string \<Rightarrow> string list \<Rightarrow> string \<Rightarrow> string \<Rightarrow> apps_db \<Rightarrow> (py_error + oauth_token) \<times> apps_db" where
  "credentials_grant now cfg i secret scopes access refresh db =
     (if authenticated_client i secret db = None then (Inl (HTTPException 401 ''invalid_client''), db)
      else if scopes \<noteq> [''public''] then (Inl (HTTPException 400 ''invalid_scope''), db)
      else store_app_token now cfg BANCHOBOT_ID i scopes access refresh db)"

section \<open>The steps\<close>

inductive apps_step ::
  "(string \<Rightarrow> moment \<Rightarrow> string \<Rightarrow> bool) \<Rightarrow> (string \<Rightarrow> string \<Rightarrow> bool) \<Rightarrow> sign_in_config \<Rightarrow> (int \<times> string) set \<Rightarrow> moment \<Rightarrow> apps_db \<Rightarrow> apps_db \<Rightarrow> bool"
  for T B cfg drawn now where
  sign_in: "sign_in_step T B cfg now (oa_sign_in db) s \<Longrightarrow> apps_step T B cfg drawn now db (db\<lparr>oa_sign_in := s\<rparr>)"
| created: "create_oauth_app user name description redirects secret db = (r, db') \<Longrightarrow> apps_step T B cfg drawn now db db'"
| deleted: "delete_oauth_app user i db = (r, db') \<Longrightarrow> apps_step T B cfg drawn now db db'"
| updated: "update_oauth_app user i name description redirects db = (r, db') \<Longrightarrow> apps_step T B cfg drawn now db db'"
| resecreted: "refresh_secret user i secret db = (r, db') \<Longrightarrow> apps_step T B cfg drawn now db db'"
| authorized: "(i, code) \<notin> drawn \<Longrightarrow> generate_oauth_code now user i redirect scopes code db = (r, db') \<Longrightarrow> apps_step T B cfg drawn now db db'"
| exchanged: "code_grant now cfg users i secret code access refresh db = (r, db') \<Longrightarrow> apps_step T B cfg drawn now db db'"
| credited: "credentials_grant now cfg i secret scopes access refresh db = (r, db') \<Longrightarrow> apps_step T B cfg drawn now db db'"

text \<open>Runs in which the codes \<open>drawn\<close> are not generated again.\<close>

inductive apps_run ::
  "(string \<Rightarrow> moment \<Rightarrow> string \<Rightarrow> bool) \<Rightarrow> (string \<Rightarrow> string \<Rightarrow> bool) \<Rightarrow> sign_in_config \<Rightarrow> (int \<times> string) set \<Rightarrow> moment \<Rightarrow> apps_db \<Rightarrow> moment \<Rightarrow> apps_db \<Rightarrow> bool"
  for T B cfg drawn t db where
  apps_start: "apps_run T B cfg drawn t db t db"
| apps_next: "apps_run T B cfg drawn t db t' db' \<Longrightarrow> t' \<le> now \<Longrightarrow> apps_step T B cfg drawn now db' db'' \<Longrightarrow> apps_run T B cfg drawn t db now db''"

section \<open>Limits and ownership\<close>

text \<open>Identifiers are unique and below the counter, and nobody owns more than three applications.\<close>

definition apps_ok :: "apps_db \<Rightarrow> bool" where
  "apps_ok db \<longleftrightarrow> distinct (map oc_id (oa_clients db)) \<and>
     (\<forall>c\<in>set (oa_clients db). oc_id c < oa_next_client db \<and> length (owned (oc_owner c) db) \<le> 3)"

lemma put_client_simps [simp]:
  "oa_next_client (put_client c db) = oa_next_client db" "oa_codes (put_client c db) = oa_codes db"
  "oa_sign_in (put_client c db) = oa_sign_in db"
  by (simp_all add: put_client_def)

lemma drop_client_tokens_simps [simp]:
  "oa_clients (drop_client_tokens i db) = oa_clients db" "oa_next_client (drop_client_tokens i db) = oa_next_client db"
  "oa_codes (drop_client_tokens i db) = oa_codes db"
  by (simp_all add: drop_client_tokens_def)

lemma own_client_Inr: "own_client user i db = Inr c \<Longrightarrow> c \<in> set (oa_clients db) \<and> oc_id c = i \<and> oc_owner c = user"
  by (auto simp: own_client_def get_client_def find_Some_iff split: option.splits if_splits)

lemma apps_ok_cong:
  "oa_clients db' = oa_clients db \<Longrightarrow> oa_next_client db' = oa_next_client db \<Longrightarrow> apps_ok db' = apps_ok db"
  by (simp add: apps_ok_def owned_def)

lemma apps_ok_update [simp]: "apps_ok (db\<lparr>oa_sign_in := s\<rparr>) = apps_ok db" "apps_ok (db\<lparr>oa_codes := k\<rparr>) = apps_ok db"
  by (simp_all add: apps_ok_def owned_def)

lemma apps_ok_alt:
  "apps_ok db \<longleftrightarrow> (let ids = map oc_id (oa_clients db); owners = map oc_owner (oa_clients db) in
     distinct ids \<and> (\<forall>i\<in>set ids. i < oa_next_client db) \<and> (\<forall>u\<in>set owners. length (filter (\<lambda>w. w = u) owners) \<le> 3))"
proof -
  have "length (owned u db) = length (filter (\<lambda>w. w = u) (map oc_owner (oa_clients db)))" for u
    by (simp add: owned_def filter_map o_def)
  then show ?thesis by (auto simp: apps_ok_def Let_def)
qed

lemma put_client_ok:
  assumes "apps_ok db" "c \<in> set (oa_clients db)" "oc_id c' = oc_id c" "oc_owner c' = oc_owner c"
  shows "apps_ok (put_client c' db)"
proof -
  have "oc_id (if oc_id x = oc_id c' then c' else x) = oc_id x \<and> oc_owner (if oc_id x = oc_id c' then c' else x) = oc_owner x"
    if "x \<in> set (oa_clients db)" for x
    using assms that by (auto simp: apps_ok_def distinct_map dest: inj_onD)
  then have "map oc_id (oa_clients (put_client c' db)) = map oc_id (oa_clients db)"
    "map oc_owner (oa_clients (put_client c' db)) = map oc_owner (oa_clients db)"
    by (simp_all add: put_client_def)
  with assms(1) show ?thesis by (simp add: apps_ok_alt)
qed

lemma delete_client_ok: "apps_ok db \<Longrightarrow> oa_clients db' = filter P (oa_clients db) \<Longrightarrow> oa_next_client db' = oa_next_client db \<Longrightarrow> apps_ok db'"
proof -
  assume a: "apps_ok db" "oa_clients db' = filter P (oa_clients db)" "oa_next_client db' = oa_next_client db"
  have "length (owned u db') \<le> length (owned u db)" for u
    by (auto simp: owned_def a(2) intro: length_filter_sub)
  with a show "apps_ok db'" by (auto simp: apps_ok_def distinct_map_filter intro: order_trans)
qed

lemma create_app_ok: "apps_ok db \<Longrightarrow> create_oauth_app user n d rs s db = (r, db') \<Longrightarrow> apps_ok db'"
  by (auto simp: create_oauth_app_def Let_def apps_ok_def owned_def split: if_splits) fastforce+

lemma code_grant_keeps:
  assumes "code_grant now cfg users i secret code a r db = (x, db')"
  shows "oa_clients db' = oa_clients db \<and> oa_next_client db' = oa_next_client db \<and>
    (\<forall>k. oa_codes db' k = oa_codes db k \<or> oa_codes db' k = None)"
  using assms
  by (auto simp: code_grant_def get_user_by_authorization_code_def store_app_token_def split: if_splits option.splits prod.splits)

lemma apps_step_ok: "apps_step T B cfg drawn now db db' \<Longrightarrow> apps_ok db \<Longrightarrow> apps_ok db'"
proof (induction rule: apps_step.induct)
  case deleted then show ?case by (auto simp: delete_oauth_app_def split: sum.splits intro: delete_client_ok)
next
  case updated then show ?case
    by (auto simp: update_oauth_app_def Let_def split: sum.splits dest!: own_client_Inr intro: put_client_ok)
next
  case (resecreted user i secret db r db')
  then show ?case
    using apps_ok_cong[of "drop_client_tokens i db" db]
    by (auto simp: refresh_secret_def Let_def split: sum.splits dest!: own_client_Inr intro: put_client_ok)
next
  case (exchanged users i secret code access refresh db r db')
  then show ?case using apps_ok_cong[of db' db] code_grant_keeps by metis
next
  case authorized then show ?case
    by (auto simp: generate_oauth_code_def split: option.splits if_splits)
next
  case credited then show ?case
    by (auto simp: credentials_grant_def store_app_token_def split: if_splits prod.splits)
qed (auto intro: create_app_ok)

text \<open>Whatever applications are created, edited and deleted and whatever sign-ins and grants happen in
  between, application identifiers stay unique and no user ever owns more than three applications.
\<close>

theorem apps_invariant: "apps_run T B cfg drawn t db t' db' \<Longrightarrow> apps_ok db \<Longrightarrow> apps_ok db'"
  by (induction rule: apps_run.induct) (auto intro: apps_step_ok)

section \<open>Codes\<close>

lemma step_keeps_code:
  "apps_step T B cfg drawn now db db' \<Longrightarrow> k \<in> drawn \<Longrightarrow> oa_codes db' k = oa_codes db k \<or> oa_codes db' k = None"
proof (induction rule: apps_step.induct)
  case exchanged then show ?case by (metis code_grant_keeps)
qed (auto simp: create_oauth_app_def delete_oauth_app_def update_oauth_app_def refresh_secret_def generate_oauth_code_def
    credentials_grant_def store_app_token_def setex_def Let_def split: sum.splits option.splits if_splits prod.splits)

lemma run_keeps_code:
  "apps_run T B cfg drawn t db t' db' \<Longrightarrow> k \<in> drawn \<Longrightarrow> oa_codes db' k = oa_codes db k \<or> oa_codes db' k = None"
  by (induction rule: apps_run.induct) (auto dest: step_keeps_code)

lemma no_code_no_token:
  "oa_codes db (i, code) = None \<Longrightarrow> \<exists>e. fst (code_grant now cfg users i secret code a r db) = Inl e"
  by (simp add: code_grant_def get_user_by_authorization_code_def redis_get_def)

text \<open>
  C20: An authorization code is exchanged for a token at most once, within 300 seconds, by whoever knows
  the current secret of the application it was made for, and the token belongs to the user who made it
  and carries the scopes that user granted. Nothing that happens before or after the exchange (new
  secrets, other grants) changes that, as long as the same code is not drawn again.
\<close>

theorem oauth_code_once:
  assumes gen: "generate_oauth_code t user i redirect scopes code db = (Inr code, db1)"
    and scopes: "scopes \<noteq> []" "list_all (\<lambda>s. CHR '','' \<notin> set s) scopes" and max: "1 \<le> max_tokens_per_client cfg"
    and before: "apps_run T B cfg {(i, code)} t db1 t' db2" and ok: "tokens_ok cfg (oa_sign_in db2)"
    and exch: "code_grant now cfg users i secret code a r db2 = (Inr tok, db3)"
  shows "ot_user tok = user \<and> ot_client tok = i \<and> ot_scopes tok = scopes \<and> now < t + 300 \<and>
    (\<exists>c\<in>set (oa_clients db2). oc_id c = i \<and> oc_secret c = secret) \<and>
    (\<forall>now1 db4 now2 secret2 a2 r2. apps_run T B cfg {(i, code)} now db3 now1 db4 \<longrightarrow>
       (\<exists>e. fst (code_grant now2 cfg users i secret2 code a2 r2 db4) = Inl e))"
proof -
  have "oa_codes db1 (i, code) = Some ((user, str_join (CHR '','') scopes), t + 300)"
    using gen by (auto simp: generate_oauth_code_def setex_def split: option.splits if_splits)
  with run_keeps_code[OF before] have code: "oa_codes db2 (i, code) \<in> {None, Some ((user, str_join (CHR '','') scopes), t + 300)}" by auto
  obtain c where c: "authenticated_client i secret db2 = Some c" using exch by (auto simp: code_grant_def split: if_splits)
  obtain x y where g: "get_user_by_authorization_code now users i code db2 = (Some (x, y), db2\<lparr>oa_codes := (oa_codes db2)((i, code) := None)\<rparr>)"
    and st: "store_app_token now cfg x i y a r (db2\<lparr>oa_codes := (oa_codes db2)((i, code) := None)\<rparr>) = (Inr tok, db3)"
    using exch by (auto simp: code_grant_def get_user_by_authorization_code_def split: if_splits option.splits prod.splits)
  have val: "x = user" "y = scopes" "now < t + 300"
    using g code str_split_join[OF scopes]
    by (auto simp: get_user_by_authorization_code_def redis_get_def split: option.splits if_splits)
  obtain s where "store_token now cfg user i scopes a r (oa_sign_in db2) = (tok, s)"
    and db3: "oa_codes db3 (i, code) = None"
    using st val by (auto simp: store_app_token_def split: prod.splits)
  note new = store_token_ok[OF ok max this(1)]
  have "\<forall>now1 db4 now2 secret2 a2 r2. apps_run T B cfg {(i, code)} now db3 now1 db4 \<longrightarrow>
       (\<exists>e. fst (code_grant now2 cfg users i secret2 code a2 r2 db4) = Inl e)"
    using db3 by (metis no_code_no_token run_keeps_code singletonI)
  with new(4,5,6) val(3) c show ?thesis
    by (auto simp: authenticated_client_def find_Some_iff)
qed


section \<open>Examples\<close>

definition sample_apps :: apps_db where
  "sample_apps = \<lparr>oa_sign_in = no_sign_ins, oa_clients = [], oa_next_client = 1, oa_codes = (\<lambda>_. None)\<rparr>"

definition sample_client :: oauth_client where
  "sample_client = \<lparr>oc_id = 10, oc_name = ''bot'', oc_description = [], oc_secret = ''s'', oc_redirects = [''u''], oc_owner = 7\<rparr>"

definition one_app :: apps_db where
  "one_app = \<lparr>oa_sign_in = no_sign_ins, oa_clients = [sample_client], oa_next_client = 11, oa_codes = (\<lambda>_. None)\<rparr>"

lemma sample_created: "create_oauth_app 7 ''bot'' [] [''u''] ''s'' sample_apps = (Inr sample_client, one_app)"
  by (simp add: create_oauth_app_def sample_apps_def sample_client_def one_app_def owned_def Let_def)

lemma apps_invariant_witness: "apps_ok one_app"
proof -
  have "apps_run (\<lambda>_ _ _. False) (\<lambda>_ _. False) (sample_config True) {} 0 sample_apps 0 one_app"
    by (rule apps_next[OF apps_start order_refl created[OF sample_created]])
  then show ?thesis by (rule apps_invariant) (simp add: apps_ok_def sample_apps_def)
qed

lemma oauth_code_once_witness:
  "\<exists>db1 tok db3. generate_oauth_code 0 8 10 ''u'' [''identify'', ''public''] ''code'' one_app = (Inr ''code'', db1) \<and>
     code_grant 299 (sample_config True) (\<lambda>_. True) 10 ''s'' ''code'' ''a'' ''r'' db1 = (Inr tok, db3) \<and>
     ot_user tok = 8 \<and> ot_scopes tok = [''identify'', ''public'']"
proof -
  obtain db1 where g: "generate_oauth_code 0 8 10 ''u'' [''identify'', ''public''] ''code'' one_app = (Inr ''code'', db1)"
    by (simp add: generate_oauth_code_def get_client_def one_app_def sample_client_def)
  obtain tok x where "store_token 299 (sample_config True) 8 10 [''identify'', ''public''] ''a'' ''r'' no_sign_ins = (tok, x)" by force
  with g obtain tok db3 where e: "code_grant 299 (sample_config True) (\<lambda>_. True) 10 ''s'' ''code'' ''a'' ''r'' db1 = (Inr tok, db3)"
    by (auto simp: generate_oauth_code_def get_client_def one_app_def sample_client_def code_grant_def authenticated_client_def
        get_user_by_authorization_code_def setex_def redis_get_def store_app_token_def split: prod.splits)
  have "tokens_ok (sample_config True) (oa_sign_in db1)" "1 \<le> max_tokens_per_client (sample_config True)"
    using g by (auto simp: generate_oauth_code_def get_client_def one_app_def sample_client_def tokens_ok_def no_sign_ins_def
        session_tokens_def sample_config_def)
  from oauth_code_once[OF g _ _ this(2) apps_start this(1) e] g e show ?thesis by auto
qed

end
