(* ===== verification/Cosmetics.thy ===== *)
theory Cosmetics
  imports Store
begin

text \<open>
  Titles, auras and name colours: the groups of a user (\<^verbatim>\<open>src/app/models/torii_groups.py\<close>), the aura
  catalogue and who may wear what (\<^verbatim>\<open>src/app/models/torii_auras.py\<close>, \<^verbatim>\<open>src/app/database/user.py\<close>), and the
  requests that equip an aura or a name colour (\<^verbatim>\<open>src/app/router/v2/me.py\<close>). The display names and
  descriptions of auras are left out, and so are the two group fields that are false for all groups.
\<close>

section \<open>Groups\<close>

datatype torii_group =
  Torii_group (tg_id: int) (tg_identifier: string) (tg_name: string) (tg_short_name: string) (tg_colour: string)
    (tg_playmodes: "string list option")

definition TORII_GROUPS :: "(string \<times> torii_group) list" where
  "TORII_GROUPS =
     [(''admin'', Torii_group 1001 ''torii-admin'' ''Torii Admin'' ''ADM'' ''#FF3B3B'' (None)),
      (''mod'', Torii_group 1002 ''torii-mod'' ''Moderator'' ''MOD'' ''#4A90E2'' (None)),
      (''dev'', Torii_group 1003 ''torii-dev'' ''Developer'' ''DEV'' ''#00E5FF'' (None)),
      (''pooler'', Torii_group 1004 ''torii-pooler'' ''Map Pooler'' ''MAP'' ''#B24BF3'' (None)),
      (''qat'', Torii_group 1005 ''torii-qat'' ''Quality Assurance'' ''QAT'' ''#FFD700'' (None)),
      (''tournament'', Torii_group 1006 ''torii-tournament'' ''Tournament Staff'' ''TRN'' ''#3F51B5'' (None)),
      (''advisor-osu'', Torii_group 1010 ''torii-advisor'' ''osu! Advisor'' ''ADV'' ''#FF66AA'' (Some [''osu''])),
      (''advisor-taiko'', Torii_group 1011 ''torii-advisor'' ''Taiko Advisor'' ''ADV'' ''#FF6B35'' (Some [''taiko''])),
      (''advisor-catch'', Torii_group 1012 ''torii-advisor'' ''Catch Advisor'' ''ADV'' ''#26C6A6'' (Some [''fruits''])),
      (''advisor-mania'', Torii_group 1013 ''torii-advisor'' ''Mania Advisor'' ''ADV'' ''#E91E8C'' (Some [''mania''])),
      (''alumni'', Torii_group 1020 ''torii-alumni'' ''Alumni'' ''ALM'' ''#9E9E9E'' (None)),
      (''supporter'', Torii_group 1021 ''torii-supporter'' ''Torii Supporter'' ''SUP'' ''#FF7FC8'' (None)),
      (''donator'', Torii_group 1022 ''torii-donator'' ''Donator'' ''DON'' ''#A78BFA'' (None)),
      (''goof'', Torii_group 1030 ''torii-goof'' ''Goofball'' ''GOOF'' ''#9CE5A0'' (None)),
      (''bug-finder'', Torii_group 1031 ''torii-bug-finder'' ''Bug Finder'' ''BUG'' ''#8CE0C5'' (None))]"

text \<open>The columns of a user the entitlements look at.\<close>

record member =
  mr_id :: int
  mr_is_admin :: bool
  mr_is_gmt :: bool
  mr_is_qat :: bool
  mr_is_bng :: bool
  mr_titles :: "string list"
  mr_donor_end :: "moment option"
  mr_has_supported :: bool
  mr_equipped_aura :: "string option"
  mr_name_colour :: "string option"

definition FLAG_GROUPS :: "((member \<Rightarrow> bool) \<times> string) list" where
  "FLAG_GROUPS = [(mr_is_admin, ''admin''), (mr_is_gmt, ''mod''), (mr_is_qat, ''qat''), (mr_is_bng, ''pooler'')]"

definition flag_keys :: "member \<Rightarrow> string list" where
  "flag_keys u = map snd (filter (\<lambda>(flag, _). flag u) FLAG_GROUPS)"

definition is_currently_supporting :: "moment \<Rightarrow> member \<Rightarrow> bool" where
  "is_currently_supporting now u = (case mr_donor_end u of None \<Rightarrow> False | Some e \<Rightarrow> now < e)"

text \<open>The keys in the order \<^verbatim>\<open>build_groups\<close> offers them, and its \<^verbatim>\<open>_add\<close>.\<close>

definition offered_keys :: "moment \<Rightarrow> member \<Rightarrow> string list" where
  "offered_keys now u = flag_keys u @ mr_titles u @ (if is_currently_supporting now u then [''supporter''] else []) @
     (if mr_has_supported u then [''donator''] else [])"

definition add_group :: "string \<Rightarrow> string list \<Rightarrow> string list" where
  "add_group key seen = (if key \<in> set seen \<or> map_of TORII_GROUPS key = None then seen else seen @ [key])"

definition group_keys :: "moment \<Rightarrow> member \<Rightarrow> string list" where
  "group_keys now u = fold add_group (offered_keys now u) []"

definition build_groups :: "moment \<Rightarrow> member \<Rightarrow> torii_group list" where
  "build_groups now u = map (\<lambda>k. the (map_of TORII_GROUPS k)) (group_keys now u)"

section \<open>Auras\<close>

text \<open>The catalogue: the groups that grant an aura, and its priority.\<close>

definition TORII_AURAS :: "(string \<times> string list \<times> int) list" where
  "TORII_AURAS =
     [(''admin-embers'', [''admin''], 0),
      (''dev-bits'', [''dev''], 10),
      (''mod-shields'', [''mod''], 20),
      (''qat-notes'', [''qat''], 30),
      (''supporter-aura'', [''supporter''], 40),
      (''goof-leaves'', [''goof''], 50),
      (''bug-finder-bugs'', [''bug-finder''], 80),
      (''founder-torii'', [''founder''], 70),
      (''osu-consul'', [''advisor-osu''], 35),
      (''taiko-consul'', [''advisor-taiko''], 35),
      (''catch-consul'', [''advisor-catch''], 35),
      (''mania-consul'', [''advisor-mania''], 35),
      (''feature-architect-2026-06'', [''feature-architect-2026-06''], 75),
      (''summer-2026'', [''summer-2026''], 85),
      (''founder-variant-imperial-gold'', [], 200),
      (''founder-variant-sakura-garden'', [], 200),
      (''founder-variant-lacquered-box'', [], 200),
      (''founder-variant-sunrise-pillar'', [], 200),
      (''founder-variant-crest-of-honor'', [], 200),
      (''zenith-727-blue'', [], 200),
      (''grasshopper-hop'', [], 200),
      (''tidepool'', [], 200),
      (''thunderhead'', [], 200),
      (''origami'', [], 200),
      (''vinyl-groove'', [], 200),
      (''glacier'', [], 200),
      (''firefly-dusk'', [], 200),
      (''desert-bloom'', [], 200),
      (''circuitry'', [], 200),
      (''koi-pond'', [], 200),
      (''ink-wash'', [], 200),
      (''starforge'', [], 200),
      (''moth-lantern'', [], 200),
      (''prism-split'', [], 200),
      (''mycelium'', [], 200),
      (''clockwork'', [], 200),
      (''stardust'', [], 200),
      (''autumn-leaffall'', [], 200),
      (''autumn-leaffall-gust'', [], 200),
      (''autumn-leaffall-dusk'', [], 200),
      (''autumn-maple-wind'', [], 200),
      (''autumn-maple-wind-gust'', [], 200),
      (''autumn-maple-wind-ember'', [], 200),
      (''autumn-maple-wind-storm'', [], 200),
      (''autumn-harvest-moon'', [], 200),
      (''autumn-bonfire'', [], 200),
      (''autumn-lantern-festival'', [], 200),
      (''autumn-first-rain'', [], 200)]"

definition AURA_SENTINEL_DEFAULT :: string where "AURA_SENTINEL_DEFAULT = ''default''"
definition AURA_SENTINEL_NONE :: string where "AURA_SENTINEL_NONE = ''none''"
definition AURA_OWNER_USER_IDS :: "int list" where "AURA_OWNER_USER_IDS = [3]"

definition is_aura_owner :: "member \<Rightarrow> bool" where
  "is_aura_owner u \<longleftrightarrow> mr_id u \<in> set AURA_OWNER_USER_IDS"

definition user_group_keys :: "moment \<Rightarrow> member \<Rightarrow> string set" where
  "user_group_keys now u = set (flag_keys u) \<union> set (mr_titles u) \<union> (if is_currently_supporting now u then {''supporter''} else {}) \<union>
     (if mr_has_supported u then {''donator''} else {})"

definition is_sentinel :: "string option \<Rightarrow> bool" where
  "is_sentinel a \<longleftrightarrow> a = None \<or> a = Some AURA_SENTINEL_DEFAULT \<or> a = Some AURA_SENTINEL_NONE"

definition is_aura_id_known :: "string option \<Rightarrow> bool" where
  "is_aura_id_known a \<longleftrightarrow> is_sentinel a \<or> map_of TORII_AURAS (the a) \<noteq> None"

definition granted :: "moment \<Rightarrow> member \<Rightarrow> string list \<Rightarrow> bool" where
  "granted now u groups \<longleftrightarrow> list_ex (\<lambda>g. g \<in> user_group_keys now u) groups"

definition is_aura_allowed_for_user :: "moment \<Rightarrow> member \<Rightarrow> string option \<Rightarrow> string list \<Rightarrow> bool" where
  "is_aura_allowed_for_user now u a owned \<longleftrightarrow>
     (if is_sentinel a then True
      else case map_of TORII_AURAS (the a) of
        None \<Rightarrow> False
      | Some (groups, _) \<Rightarrow> is_aura_owner u \<or> the a \<in> set owned \<or> granted now u groups)"

definition available_auras_for_user :: "moment \<Rightarrow> member \<Rightarrow> string list \<Rightarrow> (string \<times> string list \<times> int) list" where
  "available_auras_for_user now u owned =
     sort_key (\<lambda>(_, _, p). p) (if is_aura_owner u then TORII_AURAS
       else filter (\<lambda>(a, groups, _). a \<in> set owned \<or> granted now u groups) TORII_AURAS)"

definition resolve_default_aura_id :: "moment \<Rightarrow> member \<Rightarrow> string option" where
  "resolve_default_aura_id now u =
     (case available_auras_for_user now u [] of [] \<Rightarrow> None | (a, _) # _ \<Rightarrow> Some a)"

definition resolve_effective_aura_id :: "moment \<Rightarrow> member \<Rightarrow> string option \<Rightarrow> string list \<Rightarrow> string option" where
  "resolve_effective_aura_id now u equipped owned =
     (if equipped = Some AURA_SENTINEL_NONE then None
      else if equipped = None \<or> equipped = Some AURA_SENTINEL_DEFAULT then resolve_default_aura_id now u
      else if is_aura_allowed_for_user now u equipped owned then equipped
      else resolve_default_aura_id now u)"

text \<open>What the profile shows (\<^verbatim>\<open>equipped_aura\<close> of \<^verbatim>\<open>UserModel\<close>): the owned auras are only looked up for a
  pick no group grants.\<close>

definition equipped_aura :: "moment \<Rightarrow> member \<Rightarrow> string list \<Rightarrow> string option" where
  "equipped_aura now u owned =
     (let e = mr_equipped_aura u;
          looked_up = (if e \<noteq> None \<and> e \<noteq> Some [] \<and> \<not> is_sentinel e \<and> \<not> is_aura_allowed_for_user now u e [] then owned else []);
          resolved = resolve_effective_aura_id now u e looked_up
      in if resolved = Some ''supporter-aura'' \<and> \<not> is_currently_supporting now u then None else resolved)"

definition owned_aura_ids :: "int \<Rightarrow> owned_cosmetic list \<Rightarrow> string list" where
  "owned_aura_ids user rows = map ow_id (filter (\<lambda>r. ow_user r = user \<and> ow_id r \<in> fst ` set TORII_AURAS) rows)"

section \<open>Equipping\<close>

definition update_equipped_aura :: "moment \<Rightarrow> owned_cosmetic list \<Rightarrow> string option \<Rightarrow> member \<Rightarrow> py_error + member" where
  "update_equipped_aura now rows a u =
     (if \<not> is_aura_id_known a then Inl (HTTPException 400 ''Unknown aura id'')
      else if \<not> is_aura_allowed_for_user now u a (owned_aura_ids (mr_id u) rows)
      then Inl (HTTPException 403 ''You don't have access to aura'')
      else Inr (u\<lparr>mr_equipped_aura := a\<rparr>))"

text \<open>Blank and \<open>none\<close> clear the colour. A colour of a role needs the group, any other the purchase.\<close>

definition wanted_colour :: "string option \<Rightarrow> string option" where
  "wanted_colour raw =
     (case raw of None \<Rightarrow> None
      | Some s \<Rightarrow> let s = str_strip s in if s = [] \<or> str_lower s = ''none'' then None else Some s)"

definition may_wear_colour :: "moment \<Rightarrow> owned_cosmetic list \<Rightarrow> member \<Rightarrow> string \<Rightarrow> py_error + unit" where
  "may_wear_colour now rows u c =
     (if clean_cosmetic_ids (Some [c]) = [] \<or> \<not> prefix ''name-'' c then Inl (HTTPException 400 ''Not a name-colour id'')
      else if prefix ''name-group-'' c
      then (if drop (length ''name-group-'') c \<in> set (map tg_identifier (build_groups now u)) then Inr ()
            else Inl (HTTPException 403 ''You don't have that role colour.''))
      else if owns rows (mr_id u) c then Inr ()
      else Inl (HTTPException 403 ''You don't own that name colour.''))"

definition update_equipped_name_colour :: "moment \<Rightarrow> owned_cosmetic list \<Rightarrow> string option \<Rightarrow> member \<Rightarrow> py_error + member" where
  "update_equipped_name_colour now rows raw u =
     (case wanted_colour raw of
        None \<Rightarrow> Inr (u\<lparr>mr_name_colour := None\<rparr>)
      | Some c \<Rightarrow> py_bind (may_wear_colour now rows u c) (\<lambda>_. Inr (u\<lparr>mr_name_colour := Some c\<rparr>)))"

text \<open>What the profile shows (\<^verbatim>\<open>equipped_name_colour\<close> of \<^verbatim>\<open>UserModel\<close>): the stored value.\<close>

definition profile_name_colour :: "member \<Rightarrow> string option" where
  "profile_name_colour u = mr_name_colour u"

section \<open>Entitlement\<close>

lemma fold_add_group:
  "distinct seen \<Longrightarrow> distinct (fold add_group ks seen) \<and>
   set (fold add_group ks seen) = set seen \<union> {k \<in> set ks. map_of TORII_GROUPS k \<noteq> None}"
  by (induction ks arbitrary: seen) (auto simp: add_group_def)

lemma set_offered_keys: "set (offered_keys now u) = user_group_keys now u"
  by (auto simp: offered_keys_def user_group_keys_def)

text \<open>The groups a profile shows and the keys that decide who may wear an aura agree: the badges are
  exactly the keys with a definition, each once. A supporter badge needs a running donation or the
  title, a donator badge one donation ever or the title.
\<close>

theorem groups_agree:
  "distinct (group_keys now u) \<and> set (group_keys now u) = {k \<in> user_group_keys now u. map_of TORII_GROUPS k \<noteq> None} \<and>
   (''supporter'' \<in> set (group_keys now u) \<longleftrightarrow> is_currently_supporting now u \<or> ''supporter'' \<in> set (mr_titles u)) \<and>
   (''donator'' \<in> set (group_keys now u) \<longleftrightarrow> mr_has_supported u \<or> ''donator'' \<in> set (mr_titles u))"
proof -
  have k: "distinct (group_keys now u)" "set (group_keys now u) = {k \<in> user_group_keys now u. map_of TORII_GROUPS k \<noteq> None}"
    using fold_add_group[of "[]" "offered_keys now u"] by (simp_all add: group_keys_def set_offered_keys)
  have "map_of TORII_GROUPS ''supporter'' \<noteq> None" "map_of TORII_GROUPS ''donator'' \<noteq> None" by code_simp+
  moreover have "''supporter'' \<notin> set (flag_keys u)" "''donator'' \<notin> set (flag_keys u)" by (auto simp: flag_keys_def FLAG_GROUPS_def)
  ultimately show ?thesis using k by (auto simp: user_group_keys_def simp del: not_None_eq)
qed

lemma auras_distinct: "distinct (map fst TORII_AURAS)"
  by code_simp

lemma available_auras_earned:
  "(a, groups, p) \<in> set (available_auras_for_user now u owned) \<Longrightarrow>
   map_of TORII_AURAS a = Some (groups, p) \<and> (is_aura_owner u \<or> a \<in> set owned \<or> granted now u groups)"
  using map_of_is_SomeI[OF auras_distinct] by (auto simp: available_auras_for_user_def split: if_splits)

definition earned :: "moment \<Rightarrow> member \<Rightarrow> string list \<Rightarrow> string \<Rightarrow> bool" where
  "earned now u owned a \<longleftrightarrow>
     (case map_of TORII_AURAS a of None \<Rightarrow> False
      | Some (groups, _) \<Rightarrow> is_aura_owner u \<or> a \<in> set owned \<or> granted now u groups)"

lemma head_in: "xs = x # ys \<Longrightarrow> x \<in> set xs"
  by simp

lemma default_aura_earned: "resolve_default_aura_id now u = Some a \<Longrightarrow> earned now u [] a"
  by (fastforce simp: resolve_default_aura_id_def earned_def split: list.splits
      dest: available_auras_earned[of _ _ _ now u "[]", OF head_in])

lemma earned_mono: "earned now u [] a \<Longrightarrow> earned now u owned a"
  by (auto simp: earned_def split: option.splits)

lemma allowed_earned: "\<not> is_sentinel (Some a) \<Longrightarrow> is_aura_allowed_for_user now u (Some a) owned = earned now u owned a"
  by (simp add: is_aura_allowed_for_user_def earned_def split: option.split)

lemma effective_aura_earned: "resolve_effective_aura_id now u e owned = Some a \<Longrightarrow> earned now u owned a"
  by (auto simp: resolve_effective_aura_id_def allowed_earned is_sentinel_def
      split: if_splits dest!: default_aura_earned intro: earned_mono)

text \<open>
  C19: The aura others see on a name is in the catalogue and earned: the user owns it, holds one of its
  groups, or is the owner of the server, and the supporter aura shows only during a running donation.
  Equipping refuses what is not earned, and a concrete aura it accepts is the one worn.
\<close>

theorem aura_shown_is_earned:
  "(equipped_aura now u owned = Some a \<longrightarrow> earned now u owned a \<and> (a = ''supporter-aura'' \<longrightarrow> is_currently_supporting now u)) \<and>
   (update_equipped_aura now rows (Some b) u = Inr u' \<and> \<not> is_sentinel (Some b) \<longrightarrow>
      earned now u (owned_aura_ids (mr_id u) rows) b \<and>
      resolve_effective_aura_id now u' (mr_equipped_aura u') (owned_aura_ids (mr_id u) rows) = Some b)"
proof (rule conjI; rule impI)
  assume "equipped_aura now u owned = Some a"
  then obtain l where l: "l = [] \<or> l = owned" "resolve_effective_aura_id now u (mr_equipped_aura u) l = Some a"
    "a = ''supporter-aura'' \<longrightarrow> is_currently_supporting now u"
    by (auto simp: equipped_aura_def Let_def split: if_splits)
  then show "earned now u owned a \<and> (a = ''supporter-aura'' \<longrightarrow> is_currently_supporting now u)"
    by (auto dest!: effective_aura_earned intro: earned_mono)
next
  assume a: "update_equipped_aura now rows (Some b) u = Inr u' \<and> \<not> is_sentinel (Some b)"
  then have u': "u' = u\<lparr>mr_equipped_aura := Some b\<rparr>" and e: "earned now u (owned_aura_ids (mr_id u) rows) b"
    by (auto simp: update_equipped_aura_def allowed_earned split: if_splits)
  have "earned now u' o' b = earned now u o' b" for o'
    by (simp add: earned_def u' is_aura_owner_def granted_def user_group_keys_def flag_keys_def FLAG_GROUPS_def is_currently_supporting_def
        split: option.split)
  then have "is_aura_allowed_for_user now u' (Some b) (owned_aura_ids (mr_id u) rows)" using a e by (simp add: allowed_earned)
  then show "earned now u (owned_aura_ids (mr_id u) rows) b \<and>
      resolve_effective_aura_id now u' (mr_equipped_aura u') (owned_aura_ids (mr_id u) rows) = Some b"
    using a e by (simp add: u' resolve_effective_aura_id_def is_sentinel_def)
qed

definition sample_member :: member where
  "sample_member = \<lparr>mr_id = 7, mr_is_admin = False, mr_is_gmt = True, mr_is_qat = False, mr_is_bng = False,
     mr_titles = [''goof'', ''supporter''], mr_donor_end = Some 50, mr_has_supported = True, mr_equipped_aura = Some ''tidepool'',
     mr_name_colour = None\<rparr>"

lemma aura_shown_is_earned_witness:
  "equipped_aura 100 sample_member [''tidepool''] = Some ''tidepool'' \<and> earned 100 sample_member [''tidepool''] ''tidepool'' \<and>
   update_equipped_aura 100 [] (Some ''mod-shields'') sample_member = Inr (sample_member\<lparr>mr_equipped_aura := Some ''mod-shields''\<rparr>) \<and>
   earned 100 sample_member [] ''mod-shields''"
proof -
  have "equipped_aura 100 sample_member [''tidepool''] = Some ''tidepool''" by code_simp
  moreover have "update_equipped_aura 100 [] (Some ''mod-shields'') sample_member = Inr (sample_member\<lparr>mr_equipped_aura := Some ''mod-shields''\<rparr>)"
    by code_simp
  moreover have "\<not> is_sentinel (Some ''mod-shields'')" by code_simp
  ultimately show ?thesis
    using aura_shown_is_earned[of 100 sample_member "[''tidepool'']" "''tidepool''" "[]" "''mod-shields''" "sample_member\<lparr>mr_equipped_aura := Some ''mod-shields''\<rparr>"]
    by (simp add: owned_aura_ids_def)
qed

text \<open>A name colour that was just equipped is a colour id and earned: a role's colour belongs to a group
  the user shows, any other was bought.
\<close>

theorem name_colour_is_earned:
  assumes "update_equipped_name_colour now rows raw u = Inr u'" "mr_name_colour u' = Some c"
  shows "prefix ''name-'' c \<and> valid_cosmetic_id c \<and>
    (if prefix ''name-group-'' c then \<exists>g\<in>set (build_groups now u). c = ''name-group-'' @ tg_identifier g
     else owns rows (mr_id u) c)"
proof -
  have w: "wanted_colour raw = Some c" and m: "may_wear_colour now rows u c = Inr ()"
    using assms by (auto simp: update_equipped_name_colour_def py_bind_Inr_iff split: option.splits)
  then have "str_strip c = c" by (auto simp: wanted_colour_def Let_def split: option.splits if_splits)
  then show ?thesis
    using m by (auto simp: may_wear_colour_def clean_cosmetic_ids_def prefix_def split: if_splits)
qed

lemma name_colour_is_earned_witness:
  "update_equipped_name_colour 100 [] (Some '' name-group-torii-mod '') sample_member = Inr (sample_member\<lparr>mr_name_colour := Some ''name-group-torii-mod''\<rparr>) \<and>
   (\<exists>g\<in>set (build_groups 100 sample_member). ''name-group-torii-mod'' = ''name-group-'' @ tg_identifier g)"
proof -
  have "update_equipped_name_colour 100 [] (Some '' name-group-torii-mod '') sample_member = Inr (sample_member\<lparr>mr_name_colour := Some ''name-group-torii-mod''\<rparr>)"
    by code_simp
  with name_colour_is_earned[OF this, of "''name-group-torii-mod''"] show ?thesis by simp
qed

text \<open>The profile answers the stored colour without looking at the groups again: the colour of a role the
  user has lost stays (an aura would give way to the default one).\<close>

lemma role_colour_outlives_role:
  "update_equipped_name_colour 100 [] (Some ''name-group-torii-mod'') sample_member = Inr u' \<Longrightarrow>
   profile_name_colour (u'\<lparr>mr_is_gmt := False\<rparr>) = Some ''name-group-torii-mod'' \<and>
   ''torii-mod'' \<notin> tg_identifier ` set (build_groups 100 (u'\<lparr>mr_is_gmt := False\<rparr>))"
proof -
  have "update_equipped_name_colour 100 [] (Some ''name-group-torii-mod'') sample_member = Inr (sample_member\<lparr>mr_name_colour := Some ''name-group-torii-mod''\<rparr>)"
    by code_simp
  moreover have "''torii-mod'' \<notin> tg_identifier ` set (build_groups 100 (sample_member\<lparr>mr_name_colour := Some ''name-group-torii-mod'', mr_is_gmt := False\<rparr>))"
    by code_simp
  ultimately show "update_equipped_name_colour 100 [] (Some ''name-group-torii-mod'') sample_member = Inr u' \<Longrightarrow> ?thesis"
    by (auto simp: profile_name_colour_def)
qed

text \<open>A lapsed donor with the supporter title: the catalogue answers that others see the supporter aura,
  but the profile shows none, not even the next aura the user is entitled to.\<close>

lemma aura_answers_differ:
  "resolve_effective_aura_id 100 (sample_member\<lparr>mr_is_gmt := False, mr_equipped_aura := None\<rparr>) None [] = Some ''supporter-aura'' \<and>
   equipped_aura 100 (sample_member\<lparr>mr_is_gmt := False, mr_equipped_aura := None\<rparr>) [] = None \<and>
   earned 100 (sample_member\<lparr>mr_is_gmt := False, mr_equipped_aura := None\<rparr>) [] ''goof-leaves''"
  by code_simp

end
