(* ===== verification/Donations.thy ===== *)
theory Donations
  imports Cosmetics
begin

text \<open>
  Donations and the supporter time they buy: the service of \<^verbatim>\<open>src/app/database/donation.py\<close>, the Ko-fi webhook
  (\<^verbatim>\<open>src/app/router/private/donations.py\<close>), the queue where an administrator links a donation to a user
  (\<^verbatim>\<open>src/app/router/private/admin_donations.py\<close>) and the grant without a donation (\<^verbatim>\<open>grant_supporter\<close> of
  \<^verbatim>\<open>src/app/router/private/admin.py\<close>). Posting to Discord and the answers' display fields are left out. The
  body of a webhook is what the JSON decoder and the schema validation made of it; the comparison of
  names under the collation of the database is an argument.
\<close>

section \<open>Donations and donors\<close>

record donation =
  dn_id :: nat
  dn_user :: "int option"
  dn_provider :: string
  dn_transaction :: string
  dn_message_id :: "string option"
  dn_cents :: int
  dn_currency :: string
  dn_recurring :: bool
  dn_first_recurring :: bool
  dn_tier :: "string option"
  dn_name :: "string option"
  dn_message :: "string option"
  dn_public :: bool
  dn_email :: "string option"
  dn_months :: int
  dn_received :: moment

text \<open>The columns of a user that donations read and write, beside those the groups look at.\<close>

record donor = member +
  dr_username :: string
  dr_kofi_name :: "string option"
  dr_is_supporter :: bool
  dr_total_months :: int
  dr_support_level :: int

record donations_db =
  ds_donors :: "donor list"
  ds_donations :: "donation list"

section \<open>Amounts\<close>

definition SUPPORTER_DOLLARS_PER_MONTH :: int where "SUPPORTER_DOLLARS_PER_MONTH = 5"

definition months_for_amount :: "int \<Rightarrow> string \<Rightarrow> int" where
  "months_for_amount amount_cents currency =
     (if amount_cents \<le> 0 then 0
      else let cents_per_month = SUPPORTER_DOLLARS_PER_MONTH * 100 in amount_cents div cents_per_month)"

text \<open>\<^verbatim>\<open>float(s)\<close>: blanks around the number, a sign, digits with single underscores between them, a
  fraction and an exponent, or the names of the values that are not finite.\<close>

datatype py_float = Finite real | Infinite bool | Not_a_number

definition digit_run :: "string \<Rightarrow> bool" where
  "digit_run s \<longleftrightarrow> list_all str_isdigit (str_split CHR ''_'' s)"

definition run_val :: "string \<Rightarrow> nat" where
  "run_val s = digits_val (filter is_digit s)"

definition sign_of :: "string \<Rightarrow> bool \<times> string" where
  "sign_of s = (case s of [] \<Rightarrow> (False, []) | c # cs \<Rightarrow>
     if c = CHR ''-'' then (True, cs) else if c = CHR ''+'' then (False, cs) else (False, s))"

definition mantissa :: "string \<Rightarrow> real option" where
  "mantissa s =
     (case str_split CHR ''.'' s of
        [a] \<Rightarrow> if digit_run a then Some (of_nat (run_val a)) else None
      | [a, b] \<Rightarrow> if (a \<noteq> [] \<or> b \<noteq> []) \<and> (a = [] \<or> digit_run a) \<and> (b = [] \<or> digit_run b)
          then Some (of_nat (run_val (a @ b)) / 10 ^ length (filter is_digit b)) else None
      | _ \<Rightarrow> None)"

definition exponent :: "string \<Rightarrow> real option" where
  "exponent s = (let (neg, d) = sign_of s in
     if digit_run d then Some (if neg then 1 / 10 ^ run_val d else 10 ^ run_val d) else None)"

definition parse_float :: "string \<Rightarrow> py_error + py_float" where
  "parse_float text =
     (let (neg, body) = sign_of (str_lower (str_strip text)) in
      if body = ''inf'' \<or> body = ''infinity'' then Inr (Infinite neg)
      else if body = ''nan'' then Inr Not_a_number
      else
        let value =
          (case str_split CHR ''e'' body of
             [m] \<Rightarrow> mantissa m
           | [m, e] \<Rightarrow> (case (mantissa m, exponent e) of (Some x, Some y) \<Rightarrow> Some (x * y) | _ \<Rightarrow> None)
           | _ \<Rightarrow> None)
        in case value of None \<Rightarrow> Inl ValueError | Some x \<Rightarrow> Inr (Finite (if neg then - x else x)))"

text \<open>Only the conversion is guarded: rounding what is not finite raises.\<close>

definition parse_amount_to_cents :: "string \<Rightarrow> py_error + int" where
  "parse_amount_to_cents amount_str =
     (case parse_float amount_str of
        Inl _ \<Rightarrow> Inr 0
      | Inr (Finite x) \<Rightarrow> Inr (py_round (x * 100))
      | Inr (Infinite _) \<Rightarrow> Inl OverflowError
      | Inr Not_a_number \<Rightarrow> Inl ValueError)"

section \<open>Who donated\<close>

definition username_char :: "char \<Rightarrow> bool" where
  "username_char c \<longleftrightarrow> is_digit c \<or> upper_char c \<noteq> lower_char c \<or> c \<in> set ''_-[]''"

text \<open>The first \<^verbatim>\<open>@\<close> with a name behind it.\<close>

fun search_username :: "string \<Rightarrow> string option" where
  "search_username [] = None"
| "search_username (c # s) =
     (if c = CHR ''@'' \<and> takeWhile username_char s \<noteq> [] then Some (takeWhile username_char s) else search_username s)"

definition parse_username_from_message :: "string option \<Rightarrow> string option" where
  "parse_username_from_message message = (case message of None \<Rightarrow> None | Some m \<Rightarrow> search_username m)"

definition find_name :: "(string \<Rightarrow> string \<Rightarrow> bool) \<Rightarrow> string \<Rightarrow> donor list \<Rightarrow> donor option" where
  "find_name same name = find (\<lambda>u. same (dr_username u) name)"

definition match_user_for_kofi ::
  "(string \<Rightarrow> string \<Rightarrow> bool) \<Rightarrow> donor list \<Rightarrow> string option \<Rightarrow> string option \<Rightarrow> donor option" where
  "match_user_for_kofi same users message from_name =
     (case (case parse_username_from_message message of None \<Rightarrow> None | Some handle \<Rightarrow> find_name same handle users) of
        Some u \<Rightarrow> Some u
      | None \<Rightarrow>
          (case from_name of
             None \<Rightarrow> None
           | Some name \<Rightarrow>
               if name = [] then None
               else case find (\<lambda>u. case dr_kofi_name u of None \<Rightarrow> False | Some k \<Rightarrow> same k name) users of
                 Some u \<Rightarrow> Some u
               | None \<Rightarrow> find_name same name users))"

definition is_duplicate :: "donation list \<Rightarrow> string \<Rightarrow> string \<Rightarrow> bool" where
  "is_duplicate rows provider txn \<longleftrightarrow> list_ex (\<lambda>d. dn_provider d = provider \<and> dn_transaction d = txn) rows"

section \<open>Supporter time\<close>

text \<open>The last second a \<^verbatim>\<open>datetime\<close> can hold, the end of the year 9999.\<close>

definition MAX_MOMENT :: moment where "MAX_MOMENT = 253402300799"

definition MONTH_SECONDS :: nat where "MONTH_SECONDS = 30 * 86400"

definition apply_supporter_grant :: "moment \<Rightarrow> int \<Rightarrow> donor \<Rightarrow> py_error + donor" where
  "apply_supporter_grant now months u =
     (if months \<le> 0 then Inr u
      else
        let base = (case mr_donor_end u of None \<Rightarrow> now | Some e \<Rightarrow> max e now);
            ends = base + MONTH_SECONDS * nat months
        in if MAX_MOMENT < ends then Inl OverflowError
           else Inr (u\<lparr>dr_is_supporter := True, mr_has_supported := True, dr_total_months := dr_total_months u + months,
                       mr_donor_end := Some ends, dr_support_level := 1\<rparr>))"

definition put_donor :: "donor \<Rightarrow> donations_db \<Rightarrow> donations_db" where
  "put_donor u db = db\<lparr>ds_donors := map (\<lambda>v. if mr_id v = mr_id u then u else v) (ds_donors db)\<rparr>"

section \<open>The webhook\<close>

record kofi_payload =
  kf_token :: string
  kf_message_id :: string
  kf_type :: string
  kf_public :: bool
  kf_from :: "string option"
  kf_message :: "string option"
  kf_amount :: string
  kf_currency :: string
  kf_email :: "string option"
  kf_subscription :: bool
  kf_first_subscription :: bool
  kf_transaction :: string
  kf_tier :: "string option"

datatype kofi_form = No_data | Not_json | Bad_schema | Payload kofi_payload

datatype kofi_answer = Duplicate | Recorded (kf_matched: bool) (kf_months: int)

definition kofi_months :: "kofi_payload \<Rightarrow> int \<Rightarrow> int" where
  "kofi_months p cents = (if kf_type p \<in> {''Donation'', ''Subscription''} then months_for_amount cents (kf_currency p) else 0)"

definition new_donation :: "moment \<Rightarrow> kofi_payload \<Rightarrow> int \<Rightarrow> int option \<Rightarrow> donation list \<Rightarrow> donation" where
  "new_donation now p cents user rows =
     \<lparr>dn_id = length rows, dn_user = user, dn_provider = ''kofi'', dn_transaction = kf_transaction p,
      dn_message_id = Some (kf_message_id p), dn_cents = cents, dn_currency = kf_currency p,
      dn_recurring = kf_subscription p, dn_first_recurring = kf_first_subscription p, dn_tier = kf_tier p,
      dn_name = kf_from p, dn_message = kf_message p, dn_public = kf_public p, dn_email = kf_email p,
      dn_months = kofi_months p cents, dn_received = now\<rparr>"

definition record_donation ::
  "(string \<Rightarrow> string \<Rightarrow> bool) \<Rightarrow> moment \<Rightarrow> kofi_payload \<Rightarrow> int \<Rightarrow> donations_db \<Rightarrow> py_error + (kofi_answer \<times> donations_db)" where
  "record_donation same now p cents db =
     (if is_duplicate (ds_donations db) ''kofi'' (kf_transaction p) then Inr (Duplicate, db)
      else
        let matched = match_user_for_kofi same (ds_donors db) (kf_message p) (kf_from p);
            months = kofi_months p cents;
            row = new_donation now p cents (map_option mr_id matched) (ds_donations db);
            db1 = db\<lparr>ds_donations := ds_donations db @ [row]\<rparr>
        in case matched of
             None \<Rightarrow> Inr (Recorded False months, db1)
           | Some u \<Rightarrow>
               if months > 0
               then py_bind (apply_supporter_grant now months u) (\<lambda>u'. Inr (Recorded True months, put_donor u' db1))
               else Inr (Recorded True months, db1))"

definition kofi_webhook ::
  "(string \<Rightarrow> string \<Rightarrow> bool) \<Rightarrow> string option \<Rightarrow> moment \<Rightarrow> kofi_form \<Rightarrow> donations_db \<Rightarrow>
   py_error + (kofi_answer \<times> donations_db)" where
  "kofi_webhook same setting now form db =
     (let expected = str_strip (case setting of None \<Rightarrow> [] | Some s \<Rightarrow> s) in
      if expected = [] then Inl (HTTPException 503 ''Donations webhook not configured.'')
      else case form of
        No_data \<Rightarrow> Inl (HTTPException 400 ''Missing 'data' field in form body.'')
      | Not_json \<Rightarrow> Inl (HTTPException 400 '''data' field is not valid JSON.'')
      | Bad_schema \<Rightarrow> Inl (HTTPException 400 ''Payload schema mismatch.'')
      | Payload p \<Rightarrow>
          py_bind (compare_digest (kf_token p) expected) (\<lambda>same_token.
            if \<not> same_token then Inl (HTTPException 401 ''Invalid verification token.'')
            else py_bind (parse_amount_to_cents (kf_amount p)) (\<lambda>cents. record_donation same now p cents db)))"

section \<open>The administrators' requests\<close>

definition require_admin :: "member \<Rightarrow> py_error + unit" where
  "require_admin m = (if mr_is_admin m then Inr () else Inl (HTTPException 403 ''Admin access required''))"

definition target_of :: "(string \<Rightarrow> string \<Rightarrow> bool) \<Rightarrow> string option \<Rightarrow> int option \<Rightarrow> donor list \<Rightarrow> donor option" where
  "target_of same username user_id users =
     (case user_id of
        Some i \<Rightarrow> find (\<lambda>u. mr_id u = i) users
      | None \<Rightarrow> (case username of None \<Rightarrow> None | Some n \<Rightarrow> if n = [] then None else find_name same n users))"

definition blank :: "string option \<Rightarrow> bool" where
  "blank s \<longleftrightarrow> s = None \<or> s = Some []"

definition remember_name :: "donation \<Rightarrow> donor \<Rightarrow> donor" where
  "remember_name d u = (if blank (dr_kofi_name u) \<and> \<not> blank (dn_name d) then u\<lparr>dr_kofi_name := dn_name d\<rparr> else u)"

definition link_donation :: "nat \<Rightarrow> int \<Rightarrow> donations_db \<Rightarrow> donations_db" where
  "link_donation i user db = db\<lparr>ds_donations := map (\<lambda>d. if dn_id d = i then d\<lparr>dn_user := Some user\<rparr> else d) (ds_donations db)\<rparr>"

definition match_donation ::
  "(string \<Rightarrow> string \<Rightarrow> bool) \<Rightarrow> moment \<Rightarrow> member \<Rightarrow> nat \<Rightarrow> string option \<Rightarrow> int option \<Rightarrow> donations_db \<Rightarrow> py_error + donations_db" where
  "match_donation same now admin i username user_id db =
     py_bind (require_admin admin) (\<lambda>_.
       if blank username \<and> user_id = None then Inl (HTTPException 400 ''Provide username or user_id.'')
       else case find (\<lambda>d. dn_id d = i) (ds_donations db) of
         None \<Rightarrow> Inl (HTTPException 404 ''Donation not found.'')
       | Some d \<Rightarrow>
           if dn_user d \<noteq> None then Inl (HTTPException 409 ''Donation already linked to another user.'')
           else case target_of same username user_id (ds_donors db) of
             None \<Rightarrow> Inl (HTTPException 404 ''User not found.'')
           | Some u \<Rightarrow>
               py_bind (if dn_months d > 0 then apply_supporter_grant now (dn_months d) u else Inr u) (\<lambda>u'.
                 Inr (put_donor (remember_name d u') (link_donation i (mr_id u) db))))"

definition grant_supporter :: "moment \<Rightarrow> member \<Rightarrow> int \<Rightarrow> int \<Rightarrow> donations_db \<Rightarrow> py_error + donations_db" where
  "grant_supporter now admin user_id months db =
     (if \<not> (1 \<le> months \<and> months \<le> 120) then Inl (HTTPException 422 ''months'')
      else py_bind (require_admin admin) (\<lambda>_.
        case find (\<lambda>u. mr_id u = user_id) (ds_donors db) of
          None \<Rightarrow> Inl (HTTPException 404 ''User not found.'')
        | Some u \<Rightarrow>
            if mr_id u = mr_id admin then Inl (HTTPException 400 ''Refusing to grant supporter to yourself.'')
            else py_bind (apply_supporter_grant now months u) (\<lambda>u'. Inr (put_donor u' db))))"

text \<open>The numbers over the queue (\<^verbatim>\<open>donation_stats\<close>): rows, rows without a user, cents per currency, users
  with a running donation, users who ever donated.\<close>

definition totals_by_currency :: "donation list \<Rightarrow> (string \<times> int) list" where
  "totals_by_currency rows =
     map (\<lambda>c. (c, sum_list (map dn_cents (filter (\<lambda>d. dn_currency d = c) rows))))
       (filter (\<lambda>c. c \<noteq> []) (uniq_first (map dn_currency rows)))"

definition donation_stats :: "moment \<Rightarrow> member \<Rightarrow> donations_db \<Rightarrow> py_error + (nat \<times> nat \<times> (string \<times> int) list \<times> nat \<times> nat)" where
  "donation_stats now admin db =
     py_bind (require_admin admin) (\<lambda>_.
       Inr (length (ds_donations db), length (filter (\<lambda>d. dn_user d = None) (ds_donations db)),
            totals_by_currency (ds_donations db),
            length (filter (\<lambda>u. case mr_donor_end u of None \<Rightarrow> False | Some e \<Rightarrow> now < e) (ds_donors db)),
            length (filter mr_has_supported (ds_donors db))))"

text \<open>The pages of the queue, newest first.\<close>

datatype queue_filter = Unmatched | Matched | All_rows

definition in_queue :: "queue_filter \<Rightarrow> donation \<Rightarrow> bool" where
  "in_queue f d = (case f of Unmatched \<Rightarrow> dn_user d = None | Matched \<Rightarrow> dn_user d \<noteq> None | All_rows \<Rightarrow> True)"

definition list_donations ::
  "member \<Rightarrow> queue_filter \<Rightarrow> nat \<Rightarrow> nat \<Rightarrow> donations_db \<Rightarrow> py_error + (donation list \<times> nat \<times> nat)" where
  "list_donations admin status limit offset db =
     (if \<not> (1 \<le> limit \<and> limit \<le> 200) then Inl (HTTPException 422 ''limit'')
      else py_bind (require_admin admin) (\<lambda>_.
        let rows = filter (in_queue status) (ds_donations db);
            page = take limit (drop offset (sort_key (\<lambda>d. - int (dn_received d)) rows))
        in Inr (page, length rows, length (filter (in_queue Unmatched) (ds_donations db)))))"

section \<open>Runs\<close>

text \<open>A state of a run is the time, the tables and the grants made so far without a donation. A run starts
  without users and donations and goes through registrations, deliveries of the webhook, links and grants
  in any order.\<close>

type_synonym donation_state = "moment \<times> donations_db \<times> (int \<times> int) list"

definition fresh_donor :: "donor \<Rightarrow> bool" where
  "fresh_donor u \<longleftrightarrow> dr_total_months u = 0 \<and> \<not> mr_has_supported u \<and> \<not> dr_is_supporter u \<and> mr_donor_end u = None"

inductive donation_step :: "(string \<Rightarrow> string \<Rightarrow> bool) \<Rightarrow> string option \<Rightarrow> donation_state \<Rightarrow> donation_state \<Rightarrow> bool"
  for same setting where
  wait: "t \<le> t' \<Longrightarrow> donation_step same setting (t, db, g) (t', db, g)"
| register: "fresh_donor u \<Longrightarrow> mr_id u \<notin> mr_id ` set (ds_donors db) \<Longrightarrow>
    donation_step same setting (t, db, g) (t, db\<lparr>ds_donors := ds_donors db @ [u]\<rparr>, g)"
| webhook: "kofi_webhook same setting t form db = Inr (a, db') \<Longrightarrow> donation_step same setting (t, db, g) (t, db', g)"
| link: "match_donation same t admin i name uid db = Inr db' \<Longrightarrow> donation_step same setting (t, db, g) (t, db', g)"
| grant: "grant_supporter t admin i m db = Inr db' \<Longrightarrow> donation_step same setting (t, db, g) (t, db', g @ [(i, m)])"

definition no_donations :: donations_db where
  "no_donations = \<lparr>ds_donors = [], ds_donations = []\<rparr>"

text \<open>The months a user got: those of the donations linked to the user and those granted.\<close>

definition bought :: "donations_db \<Rightarrow> (int \<times> int) list \<Rightarrow> int \<Rightarrow> int" where
  "bought db g i = sum_list (map dn_months (filter (\<lambda>d. dn_user d = Some i) (ds_donations db))) +
     sum_list (map snd (filter (\<lambda>p. fst p = i) g))"

definition donor_good :: "moment \<Rightarrow> moment \<Rightarrow> int \<Rightarrow> donor \<Rightarrow> bool" where
  "donor_good t0 t n u \<longleftrightarrow> dr_total_months u = n \<and> 0 \<le> n \<and> (mr_has_supported u \<longleftrightarrow> 0 < n) \<and> (dr_is_supporter u \<longleftrightarrow> 0 < n) \<and>
     (case mr_donor_end u of None \<Rightarrow> n = 0
      | Some e \<Rightarrow> 0 < n \<and> t0 + MONTH_SECONDS * nat n \<le> e \<and> e \<le> t + MONTH_SECONDS * nat n)"

definition donations_good :: "moment \<Rightarrow> moment \<Rightarrow> donations_db \<Rightarrow> (int \<times> int) list \<Rightarrow> bool" where
  "donations_good t0 t db g \<longleftrightarrow> t0 \<le> t \<and>
     distinct (map (\<lambda>d. (dn_provider d, dn_transaction d)) (ds_donations db)) \<and>
     map dn_id (ds_donations db) = [0..<length (ds_donations db)] \<and>
     (\<forall>d \<in> set (ds_donations db). 0 \<le> dn_months d \<and> (\<forall>i. dn_user d = Some i \<longrightarrow> i \<in> mr_id ` set (ds_donors db))) \<and>
     fst ` set g \<subseteq> mr_id ` set (ds_donors db) \<and>
     distinct (map mr_id (ds_donors db)) \<and>
     (\<forall>u \<in> set (ds_donors db). donor_good t0 t (bought db g (mr_id u)) u)"

lemma months_for_amount_nonneg: "0 \<le> months_for_amount c cur"
  by (simp add: months_for_amount_def SUPPORTER_DOLLARS_PER_MONTH_def pos_imp_zdiv_nonneg_iff)

lemma kofi_months_nonneg: "0 \<le> kofi_months p c"
  by (simp add: kofi_months_def months_for_amount_nonneg)

lemma grant_id: "apply_supporter_grant t m u = Inr u' \<Longrightarrow> mr_id u' = mr_id u"
  by (auto simp: apply_supporter_grant_def Let_def split: if_splits)

lemma grant_good:
  assumes "apply_supporter_grant t m u = Inr u'" "donor_good t0 t n u" "t0 \<le> t" "0 \<le> m"
  shows "donor_good t0 t (n + m) u'"
proof (cases "m = 0")
  case True with assms show ?thesis by (simp add: apply_supporter_grant_def)
next
  case False
  with assms(4) have m: "0 < m" by simp
  have n: "0 \<le> n" using assms(2) by (simp add: donor_good_def)
  have "nat (n + m) = nat n + nat m" using m n by simp
  then show ?thesis using assms m n
    by (auto simp: donor_good_def apply_supporter_grant_def Let_def algebra_simps max_def split: if_splits option.splits)
qed

lemma donor_good_later: "donor_good t0 t n u \<Longrightarrow> t \<le> t' \<Longrightarrow> donor_good t0 t' n u"
  by (auto simp: donor_good_def split: option.splits)

lemma put_donor_ids: "mr_id ` set (ds_donors (put_donor u db)) = mr_id ` set (ds_donors db)"
  "map mr_id (ds_donors (put_donor u db)) = map mr_id (ds_donors db)"
proof -
  show "map mr_id (ds_donors (put_donor u db)) = map mr_id (ds_donors db)" by (simp add: put_donor_def)
  from arg_cong[OF this, of set] show "mr_id ` set (ds_donors (put_donor u db)) = mr_id ` set (ds_donors db)" by simp
qed

lemma put_donor_donations [simp]: "ds_donations (put_donor u db) = ds_donations db"
  by (simp add: put_donor_def)

text \<open>A payment: one donor is replaced, and what that donor bought grows by the months paid.\<close>

lemma paid_good:
  assumes "donations_good t0 t db g" "u \<in> set (ds_donors db)" "mr_id u' = mr_id u"
    and "donor_good t0 t (bought db g (mr_id u) + m) u'"
    and "ds_donors db' = ds_donors db"
    and b: "\<And>i. bought db' g' i = bought db g i + (if i = mr_id u then m else 0)"
  shows "\<forall>v \<in> set (ds_donors (put_donor u' db')). donor_good t0 t (bought (put_donor u' db') g' (mr_id v)) v"
proof
  fix v assume "v \<in> set (ds_donors (put_donor u' db'))"
  then obtain w where w: "w \<in> set (ds_donors db)" "v = (if mr_id w = mr_id u then u' else w)"
    using assms(3,5) by (auto simp: put_donor_def)
  have "bought (put_donor u' db') g' = bought db' g'" by (simp add: fun_eq_iff bought_def)
  then show "donor_good t0 t (bought (put_donor u' db') g' (mr_id v)) v"
    using w assms(1,3,4) b by (auto simp: donations_good_def)
qed

lemma link_same: "dn_id d \<notin> dn_id ` set rows \<Longrightarrow> map (\<lambda>x. if dn_id x = dn_id d then f x else x) rows = rows"
  by (induction rows) auto

lemma link_sum:
  "distinct (map dn_id rows) \<Longrightarrow> d \<in> set rows \<Longrightarrow> dn_user d = None \<Longrightarrow>
   sum_list (map dn_months (filter (\<lambda>x. dn_user x = Some k) (map (\<lambda>x. if dn_id x = dn_id d then x\<lparr>dn_user := Some j\<rparr> else x) rows))) =
   sum_list (map dn_months (filter (\<lambda>x. dn_user x = Some k) rows)) + (if k = j then dn_months d else 0)"
proof (induction rows)
  case (Cons r rows)
  show ?case
  proof (cases "r = d")
    case True
    with Cons.prems have "dn_id d \<notin> dn_id ` set rows" by auto
    with True Cons.prems(3) show ?thesis by (simp add: link_same del: map_map)
  next
    case False
    with Cons.prems have "dn_id r \<noteq> dn_id d" "d \<in> set rows" by auto
    with Cons show ?thesis by (cases "k = j") simp_all
  qed
qed simp

section \<open>The invariant\<close>

lemma webhook_recorded:
  "kofi_webhook same setting t form db = Inr (a, db') \<Longrightarrow>
   \<exists>p cents. form = Payload p \<and> parse_amount_to_cents (kf_amount p) = Inr cents \<and> record_donation same t p cents db = Inr (a, db')"
  by (auto simp: kofi_webhook_def Let_def py_bind_Inr_iff split: if_splits kofi_form.splits option.splits)

lemma matched_user_known: "match_user_for_kofi same users m f = Some u \<Longrightarrow> u \<in> set users"
  by (auto simp: match_user_for_kofi_def find_name_def dest!: find_SomeD split: option.splits if_splits)

lemma same_id_same_donor: "donations_good t0 t db g \<Longrightarrow> u \<in> set (ds_donors db) \<Longrightarrow> v \<in> set (ds_donors db) \<Longrightarrow> mr_id v = mr_id u \<Longrightarrow> v = u"
  by (auto simp: donations_good_def distinct_map dest: inj_onD)

lemma put_same: "donations_good t0 t db g \<Longrightarrow> u \<in> set (ds_donors db) \<Longrightarrow> ds_donors db' = ds_donors db \<Longrightarrow> put_donor u db' = db'"
proof -
  assume "donations_good t0 t db g" "u \<in> set (ds_donors db)" "ds_donors db' = ds_donors db"
  then have "map (\<lambda>v. if mr_id v = mr_id u then u else v) (ds_donors db') = ds_donors db'"
    by (intro map_idI) (auto dest: same_id_same_donor)
  then show "put_donor u db' = db'" by (simp add: put_donor_def)
qed

text \<open>A new row keeps the shape of the table, whoever it belongs to.\<close>

lemma rows_after_recording:
  fixes t :: moment and c :: int
  assumes "donations_good t0 t db g" "\<not> is_duplicate (ds_donations db) ''kofi'' (kf_transaction p)"
    and "user = None \<or> user \<in> Some ` mr_id ` set (ds_donors db)"
  defines "rows \<equiv> ds_donations db @ [new_donation t p c user (ds_donations db)]"
  shows "distinct (map (\<lambda>d. (dn_provider d, dn_transaction d)) rows)" "map dn_id rows = [0..<length rows]"
    "\<forall>d \<in> set rows. 0 \<le> dn_months d \<and> (\<forall>i. dn_user d = Some i \<longrightarrow> i \<in> mr_id ` set (ds_donors db))"
  using assms by (auto simp: donations_good_def rows_def new_donation_def is_duplicate_def list_ex_iff kofi_months_nonneg)

lemma recording_good:
  assumes good: "donations_good t0 t db g" and r: "record_donation same t p c db = Inr (a, db')"
  shows "donations_good t0 t db' g"
proof (cases "is_duplicate (ds_donations db) ''kofi'' (kf_transaction p)")
  case True with r good show ?thesis by (simp add: record_donation_def)
next
  case new: False
  show ?thesis
  proof (cases "match_user_for_kofi same (ds_donors db) (kf_message p) (kf_from p)")
    case None
    then have db': "db' = db\<lparr>ds_donations := ds_donations db @ [new_donation t p c None (ds_donations db)]\<rparr>"
      using r new by (simp add: record_donation_def Let_def)
    have "bought db' g i = bought db g i" for i by (simp add: db' bought_def new_donation_def)
    then show ?thesis using rows_after_recording[OF good new, of None c] good by (simp add: donations_good_def db')
  next
    case (Some u)
    define m where "m = kofi_months p c"
    define db1 where "db1 = db\<lparr>ds_donations := ds_donations db @ [new_donation t p c (Some (mr_id u)) (ds_donations db)]\<rparr>"
    have u: "u \<in> set (ds_donors db)" using matched_user_known[OF Some] .
    obtain u' where u': "apply_supporter_grant t m u = Inr u'" "db' = put_donor u' db1"
      using r new Some put_same[OF good u, of db1]
      by (auto simp: record_donation_def Let_def py_bind_Inr_iff db1_def m_def apply_supporter_grant_def[of t _ u] split: if_splits)
    have b: "bought db1 g i = bought db g i + (if i = mr_id u then m else 0)" for i
      by (simp add: db1_def bought_def new_donation_def m_def)
    have "donor_good t0 t (bought db g (mr_id u) + m) u'"
      using grant_good[OF u'(1)] good u kofi_months_nonneg by (auto simp: donations_good_def m_def)
    from paid_good[OF good u grant_id[OF u'(1)] this _ b] rows_after_recording[OF good new, of "Some (mr_id u)" c] u good
    show ?thesis by (simp add: donations_good_def u' put_donor_ids db1_def)
  qed
qed

lemma grant_good_or_none:
  assumes "(if 0 < m then apply_supporter_grant t m u else Inr u) = Inr u'" "donor_good t0 t n u" "t0 \<le> t" "0 \<le> m"
  shows "donor_good t0 t (n + m) u' \<and> mr_id u' = mr_id u"
  using assms grant_good[of t m u u' t0 n] grant_id[of t m u u'] by (auto split: if_splits)

lemma target_known: "target_of same name uid users = Some u \<Longrightarrow> u \<in> set users"
  by (auto simp: target_of_def find_name_def dest!: find_SomeD split: option.splits if_splits)

lemma match_accepted:
  assumes "match_donation same t admin i name uid db = Inr db'"
  obtains d u u' where "d \<in> set (ds_donations db)" "dn_id d = i" "dn_user d = None" "u \<in> set (ds_donors db)"
    "target_of same name uid (ds_donors db) = Some u" "mr_is_admin admin"
    "(if 0 < dn_months d then apply_supporter_grant t (dn_months d) u else Inr u) = Inr u'"
    "db' = put_donor (remember_name d u') (link_donation i (mr_id u) db)"
  using assms
  by (auto simp: match_donation_def require_admin_def py_bind_Inr_iff dest!: find_SomeD target_known split: option.splits if_splits)

lemma remember_name_good: "donor_good t0 t n (remember_name d u) = donor_good t0 t n u" "mr_id (remember_name d u) = mr_id u"
  by (simp_all add: remember_name_def donor_good_def)

lemma linking_good:
  assumes good: "donations_good t0 t db g" and l: "match_donation same t admin i name uid db = Inr db'"
  shows "donations_good t0 t db' g"
  using l
proof (rule match_accepted)
  fix d u u'
  assume d: "d \<in> set (ds_donations db)" "dn_id d = i" "dn_user d = None" and u: "u \<in> set (ds_donors db)"
    and u': "(if 0 < dn_months d then apply_supporter_grant t (dn_months d) u else Inr u) = Inr u'"
    and db': "db' = put_donor (remember_name d u') (link_donation i (mr_id u) db)"
  let ?db1 = "link_donation i (mr_id u) db"
  have dist: "distinct (map dn_id (ds_donations db))" and nn: "0 \<le> dn_months d" using good d by (auto simp: donations_good_def)
  have b: "bought ?db1 g k = bought db g k + (if k = mr_id u then dn_months d else 0)" for k
    using link_sum[OF dist d(1,3), of k "mr_id u"] d(2) by (simp add: bought_def link_donation_def)
  have g': "donor_good t0 t (bought db g (mr_id u) + dn_months d) (remember_name d u') \<and> mr_id (remember_name d u') = mr_id u"
    using grant_good_or_none[OF u' _ _ nn, of t0 "bought db g (mr_id u)"] good u by (simp add: donations_good_def remember_name_good)
  have shape: "map (\<lambda>x. (dn_provider x, dn_transaction x)) (ds_donations ?db1) = map (\<lambda>x. (dn_provider x, dn_transaction x)) (ds_donations db)"
    "map dn_id (ds_donations ?db1) = map dn_id (ds_donations db)" "ds_donors ?db1 = ds_donors db"
    "length (ds_donations ?db1) = length (ds_donations db)"
    by (simp_all add: link_donation_def)
  have rows: "\<forall>x \<in> set (ds_donations ?db1). 0 \<le> dn_months x \<and> (\<forall>k. dn_user x = Some k \<longrightarrow> k \<in> mr_id ` set (ds_donors db))"
    using good u by (auto simp: link_donation_def donations_good_def)
  from paid_good[OF good u _ _ shape(3) b] g' shape rows good show ?thesis
    by (simp add: donations_good_def db' put_donor_ids del: map_map)
qed

lemma granting_good:
  assumes good: "donations_good t0 t db g" and r: "grant_supporter t admin i m db = Inr db'"
  shows "donations_good t0 t db' (g @ [(i, m)])"
proof -
  obtain u u' where u: "u \<in> set (ds_donors db)" "mr_id u = i" "apply_supporter_grant t m u = Inr u'" "0 \<le> m" "db' = put_donor u' db"
    using r by (auto simp: grant_supporter_def py_bind_Inr_iff dest!: find_SomeD split: option.splits if_splits)
  have b: "bought db (g @ [(i, m)]) k = bought db g k + (if k = mr_id u then m else 0)" for k
    using u(2) by (simp add: bought_def)
  have "donor_good t0 t (bought db g (mr_id u) + m) u'"
    using grant_good[OF u(3) _ _ u(4)] good u(1) by (simp add: donations_good_def)
  from paid_good[OF good u(1) grant_id[OF u(3)] this refl b] u good show ?thesis
    by (auto simp: donations_good_def put_donor_ids)
qed

lemma registering_good:
  assumes "donations_good t0 t db g" "fresh_donor u" "mr_id u \<notin> mr_id ` set (ds_donors db)"
  shows "donations_good t0 t (db\<lparr>ds_donors := ds_donors db @ [u]\<rparr>) g"
proof -
  have "filter (\<lambda>d. dn_user d = Some (mr_id u)) (ds_donations db) = []" "filter (\<lambda>p. fst p = mr_id u) g = []"
    using assms by (auto simp: donations_good_def filter_empty_conv)
  then have "bought db g (mr_id u) = 0" by (simp add: bought_def)
  then have "donor_good t0 t (bought db g (mr_id u)) u" using assms(2) by (simp add: fresh_donor_def donor_good_def)
  moreover have "bought (db\<lparr>ds_donors := ds_donors db @ [u]\<rparr>) g = bought db g" by (simp add: fun_eq_iff bought_def)
  ultimately show ?thesis using assms by (auto simp: donations_good_def)
qed

lemma donation_step_good:
  "donation_step same setting (t, db, g) (t', db', g') \<Longrightarrow> donations_good t0 t db g \<Longrightarrow> donations_good t0 t' db' g'"
proof (induction "(t, db, g)" "(t', db', g')" rule: donation_step.induct)
  case wait then show ?case by (auto simp: donations_good_def intro: donor_good_later)
next
  case webhook then show ?case by (auto dest!: webhook_recorded intro: recording_good)
qed (auto intro: linking_good granting_good registering_good)

lemma donation_run_good:
  "(donation_step same setting)\<^sup>*\<^sup>* (t0, no_donations, []) (t, db, g) \<Longrightarrow> donations_good t0 t db g"
proof (induction "(t, db, g)" arbitrary: t db g rule: rtranclp_induct)
  case base then show ?case by (simp add: donations_good_def no_donations_def)
next
  case (step s) then show ?case by (cases s) (auto intro: donation_step_good)
qed


definition sample_donor :: donor where
  "sample_donor = \<lparr>mr_id = 7, mr_is_admin = False, mr_is_gmt = False, mr_is_qat = False, mr_is_bng = False, mr_titles = [],
     mr_donor_end = None, mr_has_supported = False, mr_equipped_aura = None, mr_name_colour = None,
     dr_username = ''mash'', dr_kofi_name = None, dr_is_supporter = False, dr_total_months = 0, dr_support_level = 0\<rparr>"

definition sample_kofi :: kofi_payload where
  "sample_kofi = \<lparr>kf_token = ''s3cret'', kf_message_id = ''m1'', kf_type = ''Donation'', kf_public = True, kf_from = Some ''M'',
     kf_message = Some ''for @mash!'', kf_amount = ''10.00'', kf_currency = ''USD'', kf_email = None, kf_subscription = False,
     kf_first_subscription = False, kf_transaction = ''x1'', kf_tier = None\<rparr>"

definition sample_paid :: donor where
  "sample_paid = sample_donor\<lparr>dr_is_supporter := True, mr_has_supported := True, dr_total_months := 2,
     mr_donor_end := Some (100 + MONTH_SECONDS * 2), dr_support_level := 1\<rparr>"

definition sample_registered :: donations_db where
  "sample_registered = \<lparr>ds_donors = [sample_donor], ds_donations = []\<rparr>"

definition sample_delivered :: donations_db where
  "sample_delivered = \<lparr>ds_donors = [sample_paid], ds_donations = [new_donation 100 sample_kofi 1000 (Some 7) []]\<rparr>"

lemma ten_dollars: "parse_amount_to_cents ''10.00'' = Inr 1000"
proof -
  have "sign_of (str_lower (str_strip ''10.00'')) = (False, ''10.00'')" "str_split CHR ''e'' ''10.00'' = [''10.00'']"
    "str_split CHR ''.'' ''10.00'' = [''10'', ''00'']" "digit_run ''10''" "digit_run ''00''" "run_val ''1000'' = 1000"
    "length (filter is_digit ''00'') = 2" by code_simp+
  then have "parse_float ''10.00'' = Inr (Finite 10)" by (simp add: parse_float_def mantissa_def)
  then show ?thesis by (simp add: parse_amount_to_cents_def)
qed

lemma sample_delivery:
  "kofi_webhook (=) (Some ''s3cret'') 100 (Payload sample_kofi) sample_registered = Inr (Recorded True 2, sample_delivered)"
proof -
  have m: "match_user_for_kofi (=) [sample_donor] (Some ''for @mash!'') (Some ''M'') = Some sample_donor"
    "str_strip ''s3cret'' = ''s3cret''" "compare_digest ''s3cret'' ''s3cret'' = Inr True" by code_simp+
  have k: "kofi_months sample_kofi 1000 = 2" by code_simp
  show ?thesis
    using m k ten_dollars
    by (simp add: kofi_webhook_def record_donation_def sample_registered_def is_duplicate_def sample_kofi_def[THEN arg_cong, of kf_token]
        sample_kofi_def[THEN arg_cong, of kf_amount] sample_kofi_def[THEN arg_cong, of kf_message] sample_kofi_def[THEN arg_cong, of kf_from])
      (simp add: apply_supporter_grant_def put_donor_def sample_delivered_def sample_paid_def sample_donor_def MONTH_SECONDS_def MAX_MOMENT_def)
qed

lemma sample_donation_run:
  "(donation_step (=) (Some ''s3cret''))\<^sup>*\<^sup>* (5, no_donations, []) (100, sample_delivered, [])"
proof -
  have "donation_step (=) (Some ''s3cret'') (5, no_donations, []) (100, no_donations, [])" by (rule donation_step.wait) simp
  moreover have "donation_step (=) (Some ''s3cret'') (100, no_donations, []) (100, sample_registered, [])"
    using donation_step.register[of sample_donor no_donations "(=)" "Some ''s3cret''" 100 "[]"]
    by (simp add: no_donations_def sample_registered_def fresh_donor_def sample_donor_def)
  moreover have "donation_step (=) (Some ''s3cret'') (100, sample_registered, []) (100, sample_delivered, [])"
    by (rule donation_step.webhook[OF sample_delivery])
  ultimately show ?thesis by (meson converse_rtranclp_into_rtranclp rtranclp.rtrancl_refl)
qed


section \<open>Deliveries\<close>

lemma duplicate_link: "is_duplicate (ds_donations (link_donation i k db)) pr x = is_duplicate (ds_donations db) pr x"
proof -
  have "is_duplicate (map (\<lambda>d. if dn_id d = i then d\<lparr>dn_user := Some k\<rparr> else d) rows) pr x = is_duplicate rows pr x" for rows
    by (induction rows) (auto simp: is_duplicate_def)
  then show ?thesis by (simp add: link_donation_def)
qed

lemma duplicate_stays:
  "donation_step same setting (t, db, g) (t', db', g') \<Longrightarrow> is_duplicate (ds_donations db) pr x \<Longrightarrow> is_duplicate (ds_donations db') pr x"
proof (induction "(t, db, g)" "(t', db', g')" rule: donation_step.induct)
  case (webhook form a)
  then show ?case
    by (auto simp: record_donation_def Let_def is_duplicate_def py_bind_Inr_iff dest!: webhook_recorded split: if_splits option.splits)
next
  case (link admin i name uid)
  then show ?case by (auto elim!: match_accepted simp: duplicate_link)
next
  case (grant admin i m)
  then show ?case by (auto simp: grant_supporter_def py_bind_Inr_iff split: if_splits option.splits)
qed auto

lemma duplicate_stays_run:
  "(donation_step same setting)\<^sup>*\<^sup>* (t, db, g) (t', db', g') \<Longrightarrow> is_duplicate (ds_donations db) pr x \<Longrightarrow> is_duplicate (ds_donations db') pr x"
proof (induction "(t', db', g')" arbitrary: t' db' g' rule: rtranclp_induct)
  case (step s) then show ?case by (cases s) (auto intro: duplicate_stays)
qed simp

lemma recorded_is_duplicate:
  "record_donation same t p c db = Inr (a, db') \<Longrightarrow> is_duplicate (ds_donations db') ''kofi'' (kf_transaction p)"
  by (auto simp: record_donation_def Let_def is_duplicate_def py_bind_Inr_iff new_donation_def split: if_splits option.splits)

text \<open>
  C18: A delivery that was accepted is answered as a duplicate and changes nothing when the provider sends
  the transaction again, with whatever other content, however much later and whatever happened in between.
\<close>

theorem redelivery_changes_nothing:
  assumes "kofi_webhook same setting t (Payload p) db = Inr (a, db')"
    and "(donation_step same setting)\<^sup>*\<^sup>* (t, db', g) (t2, db2, g2)"
    and "kf_transaction q = kf_transaction p" "kofi_webhook same setting t2 (Payload q) db2 = Inr (b, db3)"
  shows "b = Duplicate \<and> db3 = db2"
proof -
  have "is_duplicate (ds_donations db') ''kofi'' (kf_transaction p)"
    using webhook_recorded[OF assms(1)] recorded_is_duplicate by fastforce
  from duplicate_stays_run[OF assms(2) this] webhook_recorded[OF assms(4)] assms(3)
  show ?thesis by (auto simp: record_donation_def)
qed

lemma redelivery_changes_nothing_witness:
  "kofi_webhook (=) (Some ''s3cret'') 900 (Payload sample_kofi) sample_delivered = Inr (Duplicate, sample_delivered)"
proof -
  have t: "str_strip ''s3cret'' = ''s3cret''" "compare_digest ''s3cret'' ''s3cret'' = Inr True" by code_simp+
  obtain b db3 where d: "kofi_webhook (=) (Some ''s3cret'') 900 (Payload sample_kofi) sample_delivered = Inr (b, db3)"
    using t ten_dollars by (simp add: kofi_webhook_def sample_kofi_def record_donation_def is_duplicate_def sample_delivered_def new_donation_def)
  have "(donation_step (=) (Some ''s3cret''))\<^sup>*\<^sup>* (100, sample_delivered, []) (900, sample_delivered, [])"
    by (rule r_into_rtranclp) (simp add: donation_step.wait)
  from redelivery_changes_nothing[OF sample_delivery this refl d] d show ?thesis by simp
qed

lemma grant_effect:
  "apply_supporter_grant t m u = Inr u' \<Longrightarrow> 0 < m \<Longrightarrow>
   \<exists>e. mr_donor_end u' = Some e \<and> e = max t (case mr_donor_end u of None \<Rightarrow> 0 | Some e0 \<Rightarrow> e0) + MONTH_SECONDS * nat m \<and>
     mr_has_supported u' \<and> mr_id u' = mr_id u"
  by (auto simp: apply_supporter_grant_def Let_def max_def split: if_splits option.splits)

lemma supporter_badge:
  assumes "mr_donor_end u = Some e" "mr_has_supported u" "now < e"
  shows "{''supporter'', ''donator''} \<subseteq> set (group_keys now (member.truncate u))"
proof -
  have "map_of TORII_GROUPS ''supporter'' \<noteq> None" "map_of TORII_GROUPS ''donator'' \<noteq> None" by code_simp+
  moreover have "set (group_keys now (member.truncate u)) = {k \<in> user_group_keys now (member.truncate u). map_of TORII_GROUPS k \<noteq> None}"
    using fold_add_group[of "[]" "offered_keys now (member.truncate u)"] by (simp add: group_keys_def set_offered_keys)
  ultimately show ?thesis using assms by (auto simp: user_group_keys_def is_currently_supporting_def member.defs)
qed

text \<open>A delivery that pays months and is matched: the user it names gets those months on top of the time
  still running and shows both donor badges until then, and every other user is unchanged.
\<close>

theorem matched_delivery_pays:
  assumes "kofi_webhook same setting t (Payload p) db = Inr (Recorded True m, db')" "0 < m"
  shows "\<exists>u u' e. match_user_for_kofi same (ds_donors db) (kf_message p) (kf_from p) = Some u \<and> mr_id u' = mr_id u \<and>
    ds_donors db' = map (\<lambda>v. if mr_id v = mr_id u then u' else v) (ds_donors db) \<and>
    mr_donor_end u' = Some e \<and> e = max t (case mr_donor_end u of None \<Rightarrow> 0 | Some e0 \<Rightarrow> e0) + MONTH_SECONDS * nat m \<and>
    (\<forall>now. now < e \<longrightarrow> {''supporter'', ''donator''} \<subseteq> set (group_keys now (member.truncate u')))"
proof -
  obtain c where "record_donation same t p c db = Inr (Recorded True m, db')" using webhook_recorded[OF assms(1)] by blast
  then obtain u u' where u: "match_user_for_kofi same (ds_donors db) (kf_message p) (kf_from p) = Some u"
      "apply_supporter_grant t m u = Inr u'" "ds_donors db' = map (\<lambda>v. if mr_id v = mr_id u' then u' else v) (ds_donors db)"
    using assms(2) by (auto simp: record_donation_def Let_def py_bind_Inr_iff put_donor_def split: if_splits option.splits)
  obtain e where e: "mr_donor_end u' = Some e" "e = max t (case mr_donor_end u of None \<Rightarrow> 0 | Some e0 \<Rightarrow> e0) + MONTH_SECONDS * nat m"
      "mr_has_supported u'" "mr_id u' = mr_id u"
    using grant_effect[OF u(2) assms(2)] by blast
  have "\<forall>now. now < e \<longrightarrow> {''supporter'', ''donator''} \<subseteq> set (group_keys now (member.truncate u'))"
    using supporter_badge[OF e(1,3)] by blast
  with u e show ?thesis by (intro exI[of _ u] exI[of _ u'] exI[of _ e]) simp
qed

lemma matched_delivery_pays_witness:
  "\<exists>u' e. ds_donors sample_delivered = [u'] \<and> mr_donor_end u' = Some e \<and> e = 100 + MONTH_SECONDS * 2 \<and>
     (\<forall>now. now < e \<longrightarrow> {''supporter'', ''donator''} \<subseteq> set (group_keys now (member.truncate u')))"
proof -
  have "match_user_for_kofi (=) [sample_donor] (Some ''for @mash!'') (Some ''M'') = Some sample_donor" by code_simp
  with matched_delivery_pays[OF sample_delivery] show ?thesis
    by (fastforce simp: sample_registered_def sample_kofi_def sample_donor_def)
qed

text \<open>Less than the price of a month buys nothing and is not remembered: two gifts of three dollars leave a
  donor without badge and counter, one of six dollars gives a month.\<close>

lemma small_donations_buy_nothing:
  "months_for_amount 300 cur = 0 \<and> apply_supporter_grant t (months_for_amount 300 cur) u = Inr u \<and> months_for_amount 600 cur = 1"
  by (simp add: months_for_amount_def SUPPORTER_DOLLARS_PER_MONTH_def apply_supporter_grant_def)

lemma odd_amounts_raise: "parse_amount_to_cents ''nan'' = Inl ValueError" "parse_amount_to_cents ''Infinity'' = Inl OverflowError"
proof -
  have "sign_of (str_lower (str_strip ''nan'')) = (False, ''nan'')" "sign_of (str_lower (str_strip ''Infinity'')) = (False, ''infinity'')"
    by code_simp+
  then show "parse_amount_to_cents ''nan'' = Inl ValueError" "parse_amount_to_cents ''Infinity'' = Inl OverflowError"
    by (simp_all add: parse_amount_to_cents_def parse_float_def)
qed

text \<open>The months of an amount: the most whole months whose price the amount covers.\<close>

lemma months_for_amount_spec:
  "months_for_amount c cur = n \<longleftrightarrow> (if c \<le> 0 then n = 0 else 500 * n \<le> c \<and> c < 500 * (n + 1))"
  by (auto simp: months_for_amount_def SUPPORTER_DOLLARS_PER_MONTH_def)

end
