(* ===== verification/BannedMaps.thy ===== *)
theory BannedMaps
  imports Processing
begin

text \<open>
  Banned maps (\<^verbatim>\<open>src/app/tasks/recalculate_banned_beatmap.py\<close>): the hourly job that takes the pp of newly banned
  maps away and gives that of maps no longer banned back, and the pass that takes automatic bans back.
  Fetching a map, its status and the pp calculation are arguments; a failing database query is not modelled.
  The set of maps seen by the last run lives in Redis, as a list here.
\<close>

section \<open>State and environment\<close>

record banned_beatmap =
  bd_beatmap :: int
  bd_source :: string

record ban_db =
  bn_scores :: "score_row list"
  bn_best :: "best_score list"
  bn_stats :: "user_statistics list"
  bn_bans :: "banned_beatmap list"
  bn_last :: "int list option"

text \<open>\<open>be_fetch\<close> is indexed by the attempts left. \<open>be_calc\<close> is \<^verbatim>\<open>calculate_pp\<close> for a score, the map file and whether
  the map is in the table of bans; its second result tells that it adds the map to the table.\<close>

record 'raw ban_env =
  be_config :: config
  be_validate :: validator
  be_ranked :: ranked_mods
  be_status :: "int \<Rightarrow> beatmap_status option"
  be_fetch :: "score_row \<Rightarrow> nat \<Rightarrow> py_error + 'raw option"
  be_calc :: "score_row \<Rightarrow> 'raw \<Rightarrow> bool \<Rightarrow> py_error + (real \<times> bool)"

type_synonym player_mode = "int \<times> game_mode"

section \<open>Newly banned maps\<close>

definition ban_map :: "int \<Rightarrow> ban_db \<times> player_mode list \<Rightarrow> ban_db \<times> player_mode list" where
  "ban_map b = (\<lambda>(db, affected).
     let scores = filter (\<lambda>s. sc_beatmap s = b \<and> 0 < sc_pp s) (bn_scores db) in
     (db\<lparr>bn_best := filter (\<lambda>r. bs_beatmap r \<noteq> b) (bn_best db),
         bn_scores := map (\<lambda>s. if sc_beatmap s = b \<and> 0 < sc_pp s then s\<lparr>sc_pp := 0\<rparr> else s) (bn_scores db)\<rparr>,
      affected @ map (\<lambda>s. (sc_user s, sc_mode s)) scores))"

section \<open>Maps no longer banned\<close>

text \<open>At most three attempts; an answer that is no file counts as an answer.\<close>

fun fetch_raw :: "nat \<Rightarrow> (nat \<Rightarrow> py_error + 'raw option) \<Rightarrow> 'raw option" where
  "fetch_raw 0 f = None"
| "fetch_raw (Suc n) f = (case f n of Inr r \<Rightarrow> r | Inl _ \<Rightarrow> fetch_raw n f)"

definition is_banned :: "ban_db \<Rightarrow> int \<Rightarrow> bool" where
  "is_banned db b \<longleftrightarrow> b \<in> bd_beatmap ` set (bn_bans db)"

text \<open>The pp a score gets back, if any, and whether the calculation bans the map again. The mod check is
  outside the guarded part.\<close>

definition restored_pp :: "'raw ban_env \<Rightarrow> bool \<Rightarrow> score_row \<Rightarrow> py_error + (real option \<times> bool)" where
  "restored_pp env already s =
     (case fetch_raw 3 (be_fetch env s) of
        None \<Rightarrow> Inr (None, False)
      | Some raw \<Rightarrow>
          let ranked = (case be_status env (sc_beatmap s) of Some st \<Rightarrow> has_pp st | None \<Rightarrow> False) \<or> enable_all_beatmap_pp (be_config env)
          in if \<not> ranked then Inr (None, False)
             else py_bind (mods_can_get_pp (be_config env) (be_validate env) (be_ranked env) (mode_int (sc_mode s)) (sc_mods s)) (\<lambda>can.
               if \<not> can then Inr (None, False)
               else case be_calc env s raw already of
                 Inl _ \<Rightarrow> Inr (None, False)
               | Inr (pp, ban) \<Rightarrow> Inr (if pp = 0 then None else Some pp, ban)))"

type_synonym best_so_far = "((int \<times> int) \<times> best_score) list"

definition note_ban :: "int \<Rightarrow> bool \<Rightarrow> ban_db \<Rightarrow> ban_db" where
  "note_ban b ban db = (if ban then db\<lparr>bn_bans := bn_bans db @ [\<lparr>bd_beatmap = b, bd_source = ''auto_policy''\<rparr>]\<rparr> else db)"

definition restored_row :: "score_row \<Rightarrow> real \<Rightarrow> best_score" where
  "restored_row s pp =
     \<lparr>bs_user = sc_user s, bs_score = sc_id s, bs_beatmap = sc_beatmap s, bs_mode = sc_mode s, bs_pp = pp, bs_acc = sc_accuracy s\<rparr>"

definition set_pp :: "score_row \<Rightarrow> real \<Rightarrow> ban_db \<Rightarrow> ban_db" where
  "set_pp s pp db = db\<lparr>bn_scores := map (\<lambda>t. if sc_id t = sc_id s then t\<lparr>sc_pp := pp\<rparr> else t) (bn_scores db)\<rparr>"

definition restore_score ::
  "'raw ban_env \<Rightarrow> score_row \<Rightarrow> ban_db \<times> best_so_far \<times> player_mode list \<Rightarrow> py_error + (ban_db \<times> best_so_far \<times> player_mode list)" where
  "restore_score env s = (\<lambda>(db, prev, affected).
     py_bind (restored_pp env (is_banned db (sc_beatmap s)) s) (\<lambda>(result, ban).
       let db = note_ban (sc_beatmap s) ban db; key = (sc_beatmap s, sc_user s) in
       Inr (case result of
              None \<Rightarrow> (db, prev, affected)
            | Some pp \<Rightarrow>
                if (case map_of prev key of None \<Rightarrow> True | Some r \<Rightarrow> bs_pp r < pp)
                then (set_pp s pp db, dict_set prev key (restored_row s pp), affected @ [(sc_user s, sc_mode s)])
                else (db, prev, affected))))"

fun each :: "('a \<Rightarrow> 's \<Rightarrow> py_error + 's) \<Rightarrow> 'a list \<Rightarrow> 's \<Rightarrow> py_error + 's" where
  "each f [] st = Inr st"
| "each f (x # xs) st = py_bind (f x st) (each f xs)"

text \<open>The score of a row is the key of the table: adding a second row for it raises.\<close>

definition unban_map :: "'raw ban_env \<Rightarrow> int \<Rightarrow> ban_db \<times> player_mode list \<Rightarrow> py_error + (ban_db \<times> player_mode list)" where
  "unban_map env b = (\<lambda>(db, affected).
     py_bind (each (restore_score env) (filter (\<lambda>s. sc_beatmap s = b \<and> sc_passed s) (bn_scores db)) (db, [], affected))
       (\<lambda>(db, prev, affected).
         let best = bn_best db @ map snd prev in
         if distinct (map bs_score best) then Inr (db\<lparr>bn_best := best\<rparr>, affected) else Inl IntegrityError))"

section \<open>The job\<close>

definition refresh_player :: "player_mode \<Rightarrow> ban_db \<Rightarrow> ban_db" where
  "refresh_player = (\<lambda>(user, mode) db.
     db\<lparr>bn_stats := update_first (\<lambda>st. us_user st = user \<and> us_mode st = mode)
         (\<lambda>st. let (pp, acc) = calculate_user_pp (bn_best db) user mode in st\<lparr>us_pp := pp, hit_accuracy := acc\<rparr>) (bn_stats db)\<rparr>)"

definition current_bans :: "ban_db \<Rightarrow> int list" where
  "current_bans db = uniq_first (map bd_beatmap (bn_bans db))"

text \<open>Without a list in Redis the bans count as seen.\<close>

definition last_bans :: "ban_db \<Rightarrow> int list" where
  "last_bans db = (case bn_last db of Some l \<Rightarrow> uniq_first l | None \<Rightarrow> current_bans db)"

definition newly_banned :: "ban_db \<Rightarrow> int list" where
  "newly_banned db = filter (\<lambda>b. b \<notin> set (last_bans db)) (current_bans db)"

definition unbanned :: "ban_db \<Rightarrow> int list" where
  "unbanned db = filter (\<lambda>b. b \<notin> set (current_bans db)) (last_bans db)"

definition recalculate_banned_beatmap :: "'raw ban_env \<Rightarrow> ban_db \<Rightarrow> py_error + ban_db" where
  "recalculate_banned_beatmap env db =
     py_bind (each (unban_map env) (unbanned db) (fold ban_map (newly_banned db) (db, []))) (\<lambda>(db', affected).
       Inr ((fold refresh_player (uniq_first affected) db')
         \<lparr>bn_last := Some (filter (\<lambda>b. b \<in> set (current_bans db)) (last_bans db) @ newly_banned db)\<rparr>))"

section \<open>Taking automatic bans back\<close>

text \<open>A ban stays whenever the map cannot be fetched or tested. The arguments answer for a row of the
  table and for a file.\<close>

definition ban_lifted :: "(banned_beatmap \<Rightarrow> py_error + 'raw option) \<Rightarrow> ('raw \<Rightarrow> py_error + bool) \<Rightarrow> banned_beatmap \<Rightarrow> bool" where
  "ban_lifted fetch test d =
     (case fetch d of
        Inr (Some raw) \<Rightarrow> (case test raw of Inr verdict \<Rightarrow> \<not> verdict | Inl _ \<Rightarrow> False)
      | _ \<Rightarrow> False)"

record reverify_report =
  rv_removed :: "int list"
  rv_kept :: "int list"
  rv_manual :: "int list"

definition reverify_banned_beatmaps ::
  "(banned_beatmap \<Rightarrow> py_error + 'raw option) \<Rightarrow> ('raw \<Rightarrow> py_error + bool) \<Rightarrow> ban_db \<Rightarrow> reverify_report \<times> ban_db" where
  "reverify_banned_beatmaps fetch test db =
     (let auto = filter (\<lambda>d. bd_source d = ''auto_policy'') (bn_bans db);
          removed = map bd_beatmap (filter (ban_lifted fetch test) auto);
          kept = map bd_beatmap (filter (\<lambda>d. \<not> ban_lifted fetch test d) auto);
          manual = map bd_beatmap (filter (\<lambda>d. bd_source d \<noteq> ''auto_policy'') (bn_bans db));
          db1 = db\<lparr>bn_bans := filter (\<lambda>d. \<not> (bd_source d = ''auto_policy'' \<and> bd_beatmap d \<in> set removed)) (bn_bans db)\<rparr>
      in (\<lparr>rv_removed = removed, rv_kept = kept, rv_manual = manual\<rparr>,
          if removed = [] then db1 else db1\<lparr>bn_last := Some (uniq_first kept)\<rparr>))"

section \<open>Maps the job leaves alone\<close>

lemma each_inv: "each f xs st = Inr st' \<Longrightarrow> P st \<Longrightarrow> (\<And>x s s'. x \<in> set xs \<Longrightarrow> P s \<Longrightarrow> f x s = Inr s' \<Longrightarrow> P s') \<Longrightarrow> P st'"
  by (induction xs arbitrary: st) (auto simp: py_bind_Inr_iff)

text \<open>Scores and rows of a map.\<close>

definition rows_on_map :: "int \<Rightarrow> ban_db \<Rightarrow> score_row list \<times> best_score list" where
  "rows_on_map b db = (filter (\<lambda>s. sc_beatmap s = b) (bn_scores db), filter (\<lambda>r. bs_beatmap r = b) (bn_best db))"

lemma on_map_cong: "bn_scores db' = bn_scores db \<Longrightarrow> bn_best db' = bn_best db \<Longrightarrow> rows_on_map b db' = rows_on_map b db"
  by (simp add: rows_on_map_def)

lemma ban_map_other: "b \<noteq> c \<Longrightarrow> rows_on_map b (fst (ban_map c st)) = rows_on_map b (fst st)"
proof -
  have "filter (\<lambda>s. sc_beatmap s = b) (map (\<lambda>s. if sc_beatmap s = c \<and> 0 < sc_pp s then s\<lparr>sc_pp := 0\<rparr> else s) ss) =
      filter (\<lambda>s. sc_beatmap s = b) ss" if "b \<noteq> c" for ss :: "score_row list"
    using that by (induction ss) auto
  moreover have "filter (\<lambda>r. bs_beatmap r = b) (filter (\<lambda>r. bs_beatmap r \<noteq> c) rs) = filter (\<lambda>r. bs_beatmap r = b) rs" if "b \<noteq> c" for rs
    using that by (induction rs) auto
  moreover assume "b \<noteq> c"
  ultimately show ?thesis by (simp add: ban_map_def rows_on_map_def split_beta Let_def)
qed

lemma ban_map_ids: "map sc_id (bn_scores (fst (ban_map c st))) = map sc_id (bn_scores (fst st))"
  by (simp add: ban_map_def split_beta Let_def)

lemma note_ban_simps [simp]:
  "bn_scores (note_ban b f db) = bn_scores db" "bn_best (note_ban b f db) = bn_best db" "bn_stats (note_ban b f db) = bn_stats db"
  by (simp_all add: note_ban_def)

lemma set_pp_simps [simp]:
  "bn_best (set_pp s p db) = bn_best db" "bn_stats (set_pp s p db) = bn_stats db"
  "map sc_id (bn_scores (set_pp s p db)) = map sc_id (bn_scores db)"
  by (simp_all add: set_pp_def)

lemma restored_pp_Some:
  "restored_pp env g s = Inr (Some pp, f) \<Longrightarrow> pp \<noteq> 0 \<and> (\<exists>raw. be_calc env s raw g = Inr (pp, f))"
  by (auto simp: restored_pp_def py_bind_Inr_iff Let_def split: option.splits if_splits sum.splits)

text \<open>What one restored score does: nothing but a ban, or its pp and its row.\<close>

lemma restore_score_cases:
  assumes "restore_score env s (db, prev, aff) = Inr st"
  obtains (skip) f where "st = (note_ban (sc_beatmap s) f db, prev, aff)"
    | (take) f pp raw g where "st = (set_pp s pp (note_ban (sc_beatmap s) f db), dict_set prev (sc_beatmap s, sc_user s) (restored_row s pp),
          aff @ [(sc_user s, sc_mode s)])" "pp \<noteq> 0" "be_calc env s raw g = Inr (pp, f)"
proof -
  obtain r f where r: "restored_pp env (is_banned db (sc_beatmap s)) s = Inr (r, f)"
    using assms by (auto simp: restore_score_def py_bind_Inr_iff)
  show thesis
  proof (cases r)
    case None
    with assms r have "st = (note_ban (sc_beatmap s) f db, prev, aff)" by (simp add: restore_score_def Let_def)
    from that(1)[OF this] show thesis .
  next
    case (Some pp)
    from restored_pp_Some[OF r[unfolded Some]] obtain raw where c: "pp \<noteq> 0"
      "be_calc env s raw (is_banned db (sc_beatmap s)) = Inr (pp, f)" by blast
    show thesis
    proof (cases "case map_of prev (sc_beatmap s, sc_user s) of None \<Rightarrow> True | Some r \<Rightarrow> bs_pp r < pp")
      case True
      with assms r Some have "st = (set_pp s pp (note_ban (sc_beatmap s) f db), dict_set prev (sc_beatmap s, sc_user s) (restored_row s pp),
          aff @ [(sc_user s, sc_mode s)])" by (simp add: restore_score_def Let_def)
      from that(2)[OF this c] show thesis .
    next
      case False
      with assms r Some have "st = (note_ban (sc_beatmap s) f db, prev, aff)" by (simp add: restore_score_def Let_def)
      from that(1)[OF this] show thesis .
    qed
  qed
qed

lemma dict_set_values: "x \<in> snd ` set (dict_set d k v) \<Longrightarrow> x = v \<or> x \<in> snd ` set d"
  by (induction d k v rule: dict_set.induct) (auto split: if_splits)

text \<open>The identity of the scores stays through the whole job.\<close>

definition ident :: "ban_db \<Rightarrow> (int \<times> int \<times> int \<times> game_mode) list" where
  "ident db = map (\<lambda>s. (sc_id s, sc_user s, sc_beatmap s, sc_mode s)) (bn_scores db)"

lemma ident_simps [simp]:
  "ident (fst (ban_map b st)) = ident (fst st)" "ident (set_pp s p db) = ident db" "ident (note_ban b f db) = ident db"
  "ident (db\<lparr>bn_best := r\<rparr>) = ident db"
  by (simp_all add: ident_def ban_map_def split_beta Let_def set_pp_def)

lemma same_score:
  assumes "distinct (map sc_id (bn_scores db0))" "ident db = ident db0" "s \<in> set (bn_scores db0)" "t \<in> set (bn_scores db)" "sc_id t = sc_id s"
  shows "sc_user t = sc_user s \<and> sc_beatmap t = sc_beatmap s \<and> sc_mode t = sc_mode s"
proof -
  have "(sc_id t, sc_user t, sc_beatmap t, sc_mode t) \<in> set (ident db)" using assms(4) by (auto simp: ident_def)
  then have "(sc_id t, sc_user t, sc_beatmap t, sc_mode t) \<in> set (ident db0)" by (simp add: assms(2))
  then obtain s0 where "s0 \<in> set (bn_scores db0)" "(sc_id t, sc_user t, sc_beatmap t, sc_mode t) = (sc_id s0, sc_user s0, sc_beatmap s0, sc_mode s0)"
    by (auto simp: ident_def)
  moreover have "inj_on sc_id (set (bn_scores db0))" using assms(1) by (simp add: distinct_map)
  ultimately have "s0 = s" using assms(3,5) by (metis inj_onD prod.inject)
  with \<open>(sc_id t, sc_user t, sc_beatmap t, sc_mode t) = (sc_id s0, sc_user s0, sc_beatmap s0, sc_mode s0)\<close> show ?thesis by simp
qed

lemma set_pp_other:
  assumes "distinct (map sc_id (bn_scores db0))" "ident db = ident db0" "s \<in> set (bn_scores db0)" "sc_beatmap s \<noteq> b"
  shows "rows_on_map b (set_pp s p db) = rows_on_map b db"
proof -
  have "filter (\<lambda>t. sc_beatmap t = b) (map (\<lambda>t. if sc_id t = sc_id s then t\<lparr>sc_pp := p\<rparr> else t) ts) = filter (\<lambda>t. sc_beatmap t = b) ts"
    if "\<forall>t \<in> set ts. sc_id t = sc_id s \<longrightarrow> sc_beatmap t \<noteq> b" for ts :: "score_row list"
    using that by (induction ts) simp_all
  moreover have "\<forall>t \<in> set (bn_scores db). sc_id t = sc_id s \<longrightarrow> sc_beatmap t \<noteq> b"
    using assms(4) by (intro ballI impI) (simp add: same_score[OF assms(1,2,3)])
  ultimately show ?thesis by (simp add: rows_on_map_def set_pp_def)
qed

lemma unban_map_other:
  assumes ids: "distinct (map sc_id (bn_scores db))" and u: "unban_map env c (db, aff) = Inr st" and "b \<noteq> c"
  shows "rows_on_map b (fst st) = rows_on_map b db \<and> ident (fst st) = ident db"
proof -
  let ?ss = "filter (\<lambda>s. sc_beatmap s = c \<and> sc_passed s) (bn_scores db)"
  let ?P = "\<lambda>(d, prev, a). ident d = ident db \<and> rows_on_map b d = rows_on_map b db \<and> (\<forall>r \<in> snd ` set prev. bs_beatmap r = c)"
  obtain d prev a where e: "each (restore_score env) ?ss (db, [], aff) = Inr (d, prev, a)" and st: "st = (d\<lparr>bn_best := bn_best d @ map snd prev\<rparr>, a)"
    using u by (auto simp: unban_map_def py_bind_Inr_iff Let_def split: if_splits)
  have "?P (d, prev, a)"
  proof (rule each_inv[OF e])
    fix s t t' assume "s \<in> set ?ss" "?P t" and r: "restore_score env s t = Inr t'"
    obtain d1 prev1 a1 where t: "t = (d1, prev1, a1)" by (cases t)
    have s: "s \<in> set (bn_scores db)" "sc_beatmap s = c" using \<open>s \<in> set ?ss\<close> by auto
    have P: "ident d1 = ident db" "rows_on_map b d1 = rows_on_map b db" "\<forall>r \<in> snd ` set prev1. bs_beatmap r = c" using \<open>?P t\<close> by (auto simp: t)
    from r[unfolded t] show "?P t'"
    proof (cases rule: restore_score_cases)
      case (skip f) with P show ?thesis by (auto simp: rows_on_map_def)
    next
      case (take f pp raw g)
      have "ident (note_ban (sc_beatmap s) f d1) = ident db" using P(1) by simp
      from set_pp_other[OF ids this s(1), of b pp] s(2) assms(3)
      have "rows_on_map b (set_pp s pp (note_ban (sc_beatmap s) f d1)) = rows_on_map b db" using P(2) by (simp add: rows_on_map_def)
      moreover have "\<forall>r \<in> snd ` set (dict_set prev1 (sc_beatmap s, sc_user s) (restored_row s pp)). bs_beatmap r = c"
        using dict_set_values P(3) s(2) by (fastforce simp: restored_row_def)
      ultimately show ?thesis using P take by simp
    qed
  qed simp
  then have "\<forall>r \<in> set (map snd prev). bs_beatmap r = c" "ident d = ident db" "rows_on_map b d = rows_on_map b db" by auto
  moreover from this(1) assms(3) have "filter (\<lambda>r. bs_beatmap r = b) (map snd prev) = []" by (auto simp: filter_empty_conv)
  ultimately show ?thesis by (simp add: st rows_on_map_def)
qed

lemma refresh_frame: "bn_scores (fold refresh_player ps db) = bn_scores db" "bn_best (fold refresh_player ps db) = bn_best db"
  "bn_bans (fold refresh_player ps db) = bn_bans db"
  by (induction ps arbitrary: db) (auto simp: refresh_player_def)

lemma fold_ban_other: "b \<notin> set cs \<Longrightarrow> rows_on_map b (fst (fold ban_map cs st)) = rows_on_map b (fst st)"
  by (induction cs arbitrary: st) (auto simp: ban_map_other)

lemma fold_ban_ident: "ident (fst (fold ban_map cs st)) = ident (fst st)"
  by (induction cs arbitrary: st) auto

lemma ids_of_ident: "ident db = ident db' \<Longrightarrow> map sc_id (bn_scores db) = map sc_id (bn_scores db')"
proof -
  assume "ident db = ident db'"
  then have "map fst (ident db) = map fst (ident db')" by simp
  then show ?thesis by (simp add: ident_def comp_def)
qed

lemma each_unban_other:
  assumes "each (unban_map env) cs st = Inr st'" "distinct (map sc_id (bn_scores (fst st)))" "b \<notin> set cs"
  shows "rows_on_map b (fst st') = rows_on_map b (fst st) \<and> ident (fst st') = ident (fst st)"
proof (rule each_inv[OF assms(1), where P = "\<lambda>s. rows_on_map b (fst s) = rows_on_map b (fst st) \<and> ident (fst s) = ident (fst st)"])
  fix c s s' assume c: "c \<in> set cs" and P: "rows_on_map b (fst s) = rows_on_map b (fst st) \<and> ident (fst s) = ident (fst st)" and u: "unban_map env c s = Inr s'"
  have "distinct (map sc_id (bn_scores (fst s)))" using ids_of_ident P assms(2) by metis
  with unban_map_other[of "fst s" env c "snd s" s' b] u c P assms(3)
  show "rows_on_map b (fst s') = rows_on_map b (fst st) \<and> ident (fst s') = ident (fst st)" by auto
qed simp

lemma job_parts:
  assumes "recalculate_banned_beatmap env db = Inr db'"
  obtains d a where "each (unban_map env) (unbanned db) (fold ban_map (newly_banned db) (db, [])) = Inr (d, a)"
    "db' = (fold refresh_player (uniq_first a) d)\<lparr>bn_last := Some (filter (\<lambda>b. b \<in> set (current_bans db)) (last_bans db) @ newly_banned db)\<rparr>"
  using assms by (auto simp: recalculate_banned_beatmap_def py_bind_Inr_iff)

lemma job_other_map:
  assumes "recalculate_banned_beatmap env db = Inr db'" "distinct (map sc_id (bn_scores db))"
    and "b \<notin> set (unbanned db)"
  shows "rows_on_map b db' = rows_on_map b (fst (fold ban_map (newly_banned db) (db, [])))"
proof -
  let ?st = "fold ban_map (newly_banned db) (db, [])"
  obtain d a where e: "each (unban_map env) (unbanned db) ?st = Inr (d, a)"
    and db': "db' = (fold refresh_player (uniq_first a) d)\<lparr>bn_last := Some (filter (\<lambda>b. b \<in> set (current_bans db)) (last_bans db) @ newly_banned db)\<rparr>"
    using job_parts[OF assms(1)] by blast
  have "distinct (map sc_id (bn_scores (fst ?st)))" using assms(2) ids_of_ident[OF fold_ban_ident[of "newly_banned db" "(db, [])"]] by simp
  from each_unban_other[OF e this assms(3)] show ?thesis by (simp add: db' rows_on_map_def refresh_frame)
qed

lemma ban_map_empties:
  "snd (rows_on_map b (fst (ban_map b st))) = []" "list_all (\<lambda>s. sc_pp s \<le> 0) (fst (rows_on_map b (fst (ban_map b st))))"
proof -
  show "snd (rows_on_map b (fst (ban_map b st))) = []" by (simp add: rows_on_map_def ban_map_def split_beta Let_def filter_empty_conv)
  have "list_all (\<lambda>s. sc_pp s \<le> 0) (filter (\<lambda>s. sc_beatmap s = b) (map (\<lambda>s. if sc_beatmap s = b \<and> 0 < sc_pp s then s\<lparr>sc_pp := 0\<rparr> else s) ss))" for ss :: "score_row list"
    by (induction ss) (simp_all add: not_less)
  then show "list_all (\<lambda>s. sc_pp s \<le> 0) (fst (rows_on_map b (fst (ban_map b st))))" by (simp add: rows_on_map_def ban_map_def split_beta Let_def)
qed

lemma banned_map_empty:
  "b \<in> set cs \<Longrightarrow> snd (rows_on_map b (fst (fold ban_map cs st))) = [] \<and> list_all (\<lambda>s. sc_pp s \<le> 0) (fst (rows_on_map b (fst (fold ban_map cs st))))"
proof (induction cs arbitrary: st)
  case (Cons c cs)
  show ?case
  proof (cases "b \<in> set cs")
    case True with Cons show ?thesis by simp
  next
    case False
    with Cons.prems have "c = b" by simp
    with False ban_map_empties(1)[of b st] ban_map_empties(2)[of b st] show ?thesis by (simp add: fold_ban_other)
  qed
qed simp

text \<open>A run of the hourly job settles the bans it finds: it remembers exactly them, a newly banned map is left
  without rows in the pp table and without scores of positive pp, and a map whose ban is neither new nor
  gone keeps its scores and rows as they were.
\<close>

theorem ban_job_settles:
  assumes "recalculate_banned_beatmap env db = Inr db'" "distinct (map sc_id (bn_scores db))"
  shows "set (last_bans db') = bd_beatmap ` set (bn_bans db) \<and>
    (b \<in> set (newly_banned db) \<longrightarrow> (\<forall>r \<in> set (bn_best db'). bs_beatmap r \<noteq> b) \<and> (\<forall>s \<in> set (bn_scores db'). sc_beatmap s = b \<longrightarrow> sc_pp s \<le> 0)) \<and>
    (b \<notin> set (newly_banned db) \<and> b \<notin> set (unbanned db) \<longrightarrow> rows_on_map b db' = rows_on_map b db)"
proof (intro conjI impI)
  obtain d a where db': "db' = (fold refresh_player (uniq_first a) d)\<lparr>bn_last := Some (filter (\<lambda>b. b \<in> set (current_bans db)) (last_bans db) @ newly_banned db)\<rparr>"
    using job_parts[OF assms(1)] by blast
  have "last_bans db' = uniq_first (filter (\<lambda>b. b \<in> set (current_bans db)) (last_bans db) @ newly_banned db)" by (simp add: db' last_bans_def)
  then show "set (last_bans db') = bd_beatmap ` set (bn_bans db)" by (auto simp: newly_banned_def current_bans_def)
next
  assume b: "b \<in> set (newly_banned db)"
  then have "b \<notin> set (unbanned db)" by (simp add: newly_banned_def unbanned_def)
  note o = job_other_map[OF assms this] banned_map_empty[OF b, of "(db, [])"]
  have e: "snd (rows_on_map b db') = []" "list_all (\<lambda>s. sc_pp s \<le> 0) (fst (rows_on_map b db'))" using o by simp_all
  from e(1) show "\<forall>r \<in> set (bn_best db'). bs_beatmap r \<noteq> b" by (simp add: rows_on_map_def filter_empty_conv)
  from e(2) show "\<forall>s \<in> set (bn_scores db'). sc_beatmap s = b \<longrightarrow> sc_pp s \<le> 0" by (simp add: rows_on_map_def list_all_iff)
next
  assume "b \<notin> set (newly_banned db) \<and> b \<notin> set (unbanned db)"
  with job_other_map[OF assms, of b] fold_ban_other[of b "newly_banned db" "(db, [])"] show "rows_on_map b db' = rows_on_map b db" by simp
qed

lemma job_last:
  "recalculate_banned_beatmap env db = Inr db' \<Longrightarrow> set (last_bans db') = bd_beatmap ` set (bn_bans db)"
proof -
  assume "recalculate_banned_beatmap env db = Inr db'"
  then obtain d a where db': "db' = (fold refresh_player (uniq_first a) d)\<lparr>bn_last := Some (filter (\<lambda>b. b \<in> set (current_bans db)) (last_bans db) @ newly_banned db)\<rparr>"
    using job_parts by blast
  have "last_bans db' = uniq_first (filter (\<lambda>b. b \<in> set (current_bans db)) (last_bans db) @ newly_banned db)" by (simp add: db' last_bans_def)
  then show ?thesis by (auto simp: newly_banned_def current_bans_def)
qed

text \<open>A map whose automatic ban the verification pass lifts does not get its pp back: the pass also takes the
  map out of the list of seen bans, so the next run of the job changes none of its scores and rows, and
  afterwards no list says it was ever banned.
\<close>

theorem lifted_ban_is_never_restored:
  assumes "reverify_banned_beatmaps fetch test db = (report, db1)" "b \<in> set (rv_removed report)"
    and "b \<notin> set (rv_kept report)" "b \<notin> set (rv_manual report)"
    and "recalculate_banned_beatmap env db1 = Inr db2" "distinct (map sc_id (bn_scores db))"
  shows "rows_on_map b db2 = rows_on_map b db \<and> b \<notin> set (last_bans db2)"
proof -
  have bans: "b \<notin> bd_beatmap ` set (bn_bans db1)" and last: "b \<notin> set (last_bans db1)" and same: "bn_scores db1 = bn_scores db" "bn_best db1 = bn_best db"
    using assms(1-4) by (auto simp: reverify_banned_beatmaps_def Let_def last_bans_def split: if_splits)
  then have "b \<notin> set (newly_banned db1)" "b \<notin> set (unbanned db1)" by (simp_all add: newly_banned_def unbanned_def current_bans_def)
  with job_other_map[OF assms(5), of b] fold_ban_other[of b "newly_banned db1" "(db1, [])"] assms(6) same
  have "rows_on_map b db2 = rows_on_map b db1" by simp
  with same job_last[OF assms(5)] bans show ?thesis by (simp add: rows_on_map_def)
qed

section \<open>The pp of the players stays current\<close>

text \<open>A score with pp, by its identity; a row of the pp table belongs to one.\<close>

definition play_ident :: "score_row \<Rightarrow> int \<times> int \<times> int \<times> game_mode" where
  "play_ident s = (sc_id s, sc_user s, sc_beatmap s, sc_mode s)"

definition paid_ids :: "score_row list \<Rightarrow> (int \<times> int \<times> int \<times> game_mode) list" where
  "paid_ids ss = map play_ident (filter (\<lambda>s. 0 < sc_pp s) ss)"

definition paid :: "ban_db \<Rightarrow> best_score \<Rightarrow> bool" where
  "paid db r \<longleftrightarrow> (bs_score r, bs_user r, bs_beatmap r, bs_mode r) \<in> set (paid_ids (bn_scores db))"

definition stat_key :: "user_statistics \<Rightarrow> player_mode" where
  "stat_key st = (us_user st, us_mode st)"

definition pp_current :: "best_score list \<Rightarrow> user_statistics \<Rightarrow> bool" where
  "pp_current best st \<longleftrightarrow> (us_pp st, hit_accuracy st) = calculate_user_pp best (us_user st) (us_mode st)"

definition pp_settled :: "ban_db \<Rightarrow> bool" where
  "pp_settled db \<longleftrightarrow> distinct (map sc_id (bn_scores db)) \<and> distinct (map stat_key (bn_stats db)) \<and>
     (\<forall>r \<in> set (bn_best db). paid db r) \<and> list_all (pp_current (bn_best db)) (bn_stats db)"

text \<open>What the loops keep: rows belong to scores with pp, and only affected players have other rows than at the start.\<close>

definition only_affected :: "ban_db \<Rightarrow> ban_db \<times> player_mode list \<Rightarrow> bool" where
  "only_affected db0 = (\<lambda>(db, aff). ident db = ident db0 \<and> bn_stats db = bn_stats db0 \<and> (\<forall>r \<in> set (bn_best db). paid db r) \<and>
     (\<forall>u m. (u, m) \<notin> set aff \<longrightarrow> user_rows (bn_best db) u m = user_rows (bn_best db0) u m))"

lemma paid_ids_banned:
  "paid_ids (map (\<lambda>s. if sc_beatmap s = b \<and> 0 < sc_pp s then s\<lparr>sc_pp := 0\<rparr> else s) ss) = filter (\<lambda>(_, _, c, _). c \<noteq> b) (paid_ids ss)"
  by (induction ss) (simp_all add: paid_ids_def play_ident_def)

lemma paid_is_affected:
  "(i, u, b, m) \<in> set (paid_ids ss) \<Longrightarrow> (u, m) \<in> set (map (\<lambda>s. (sc_user s, sc_mode s)) (filter (\<lambda>s. sc_beatmap s = b \<and> 0 < sc_pp s) ss))"
proof (induction ss)
  case (Cons s ss)
  then show ?case by (cases "0 < sc_pp s") (auto simp: paid_ids_def play_ident_def simp del: set_map)
qed (simp add: paid_ids_def)

lemma ban_map_affected: "only_affected db0 st \<Longrightarrow> only_affected db0 (ban_map b st)"
proof -
  assume st: "only_affected db0 st"
  obtain db aff where s: "st = (db, aff)" by (cases st)
  have p: "paid (fst (ban_map b st)) r \<longleftrightarrow> paid db r \<and> bs_beatmap r \<noteq> b" for r
    by (simp add: s ban_map_def Let_def paid_def paid_ids_banned)
  have rows: "user_rows (filter (\<lambda>r. bs_beatmap r \<noteq> b) (bn_best db)) u m = user_rows (bn_best db) u m"
    if "(u, m) \<notin> set (map (\<lambda>s. (sc_user s, sc_mode s)) (filter (\<lambda>s. sc_beatmap s = b \<and> 0 < sc_pp s) (bn_scores db)))" for u m
  proof -
    have "bs_beatmap r \<noteq> b" if "r \<in> set (bn_best db)" "bs_user r = u" "bs_mode r = m" for r
      using st that paid_is_affected[of "bs_score r" u b m "bn_scores db"] \<open>(u, m) \<notin> _\<close> by (auto simp: only_affected_def s paid_def)
    then show ?thesis by (auto simp: user_rows_def intro: filter_cong)
  qed
  have i: "ident (fst (ban_map b st)) = ident db" by (simp add: s)
  show ?thesis
    using st rows p i by (auto simp: only_affected_def s ban_map_def Let_def simp del: set_map)
qed

lemma paid_ids_set_pp:
  "0 < p \<Longrightarrow> set (paid_ids ss) \<subseteq> set (paid_ids (map (\<lambda>t. if sc_id t = i then t\<lparr>sc_pp := p\<rparr> else t) ss))"
  by (induction ss) (simp_all add: paid_ids_def play_ident_def subset_insertI2)

lemma paid_ids_new:
  "0 < p \<Longrightarrow> (i, u, b, m) \<in> set (map play_ident ss) \<Longrightarrow> (i, u, b, m) \<in> set (paid_ids (map (\<lambda>t. if sc_id t = i then t\<lparr>sc_pp := p\<rparr> else t) ss))"
proof (induction ss)
  case (Cons t ss)
  show ?case
  proof (cases "(i, u, b, m) = play_ident t")
    case True
    then have "sc_id t = i" by (simp add: play_ident_def)
    with True Cons.prems(1) show ?thesis by (simp add: paid_ids_def play_ident_def)
  next
    case False
    with Cons have "(i, u, b, m) \<in> set (paid_ids (map (\<lambda>t. if sc_id t = i then t\<lparr>sc_pp := p\<rparr> else t) ss))" by simp
    then show ?thesis by (simp add: paid_ids_def)
  qed
qed simp

lemma paid_set_pp: "0 < p \<Longrightarrow> paid db r \<Longrightarrow> paid (set_pp s p (note_ban b f db)) r"
  using paid_ids_set_pp[of p "bn_scores db" "sc_id s"] by (auto simp: paid_def set_pp_def)

lemma paid_note [simp]: "paid (note_ban b f db) r = paid db r"
  by (simp add: paid_def)

lemma restored_row_paid:
  assumes "0 < p" "ident db = ident db0" "s \<in> set (bn_scores db0)"
  shows "paid (set_pp s p (note_ban b f db)) (restored_row s p)"
proof -
  have "play_ident s \<in> set (map play_ident (bn_scores db))" using assms(2,3) by (simp add: ident_def play_ident_def[abs_def])
  then show ?thesis using assms(1) by (simp add: paid_def set_pp_def restored_row_def play_ident_def[of s] paid_ids_new)
qed

lemma unban_map_affected:
  assumes nonneg: "\<forall>s raw g p f. be_calc env s raw g = Inr (p, f) \<longrightarrow> 0 \<le> p"
    and J: "only_affected db0 (db, aff)" and u: "unban_map env c (db, aff) = Inr st"
  shows "only_affected db0 st"
proof -
  let ?ss = "filter (\<lambda>s. sc_beatmap s = c \<and> sc_passed s) (bn_scores db)"
  let ?P = "\<lambda>(d, prev, a). ident d = ident db \<and> bn_stats d = bn_stats db \<and> bn_best d = bn_best db \<and> (\<forall>r \<in> set (bn_best d). paid d r) \<and>
     (\<forall>r \<in> snd ` set prev. paid d r \<and> (bs_user r, bs_mode r) \<in> set a) \<and> set aff \<subseteq> set a"
  obtain d prev a where e: "each (restore_score env) ?ss (db, [], aff) = Inr (d, prev, a)" and st: "st = (d\<lparr>bn_best := bn_best d @ map snd prev\<rparr>, a)"
    using u by (auto simp: unban_map_def py_bind_Inr_iff Let_def split: if_splits)
  have P: "?P (d, prev, a)"
  proof (rule each_inv[OF e])
    fix s t t' assume "s \<in> set ?ss" "?P t" and r: "restore_score env s t = Inr t'"
    obtain d1 prev1 a1 where t: "t = (d1, prev1, a1)" by (cases t)
    have s: "s \<in> set (bn_scores db)" using \<open>s \<in> set ?ss\<close> by simp
    have P: "ident d1 = ident db" "bn_stats d1 = bn_stats db" "bn_best d1 = bn_best db" "\<forall>r \<in> set (bn_best d1). paid d1 r"
      "\<forall>r \<in> snd ` set prev1. paid d1 r \<and> (bs_user r, bs_mode r) \<in> set a1" "set aff \<subseteq> set a1" using \<open>?P t\<close> by (auto simp: t)
    from r[unfolded t] show "?P t'"
    proof (cases rule: restore_score_cases)
      case (skip f) with P show ?thesis by simp
    next
      case (take f pp raw g)
      have pp: "0 < pp" using take(2,3) nonneg by (metis order_le_imp_less_or_eq)
      let ?d = "set_pp s pp (note_ban (sc_beatmap s) f d1)"
      have "\<forall>r \<in> snd ` set (dict_set prev1 (sc_beatmap s, sc_user s) (restored_row s pp)).
          paid ?d r \<and> (bs_user r, bs_mode r) \<in> set (a1 @ [(sc_user s, sc_mode s)])"
      proof
        fix x assume "x \<in> snd ` set (dict_set prev1 (sc_beatmap s, sc_user s) (restored_row s pp))"
        from dict_set_values[OF this] show "paid ?d x \<and> (bs_user x, bs_mode x) \<in> set (a1 @ [(sc_user s, sc_mode s)])"
          using restored_row_paid[OF pp P(1) s, of "sc_beatmap s" f] P(5) paid_set_pp[OF pp] by (auto simp: restored_row_def)
      qed
      moreover have "\<forall>r \<in> set (bn_best ?d). paid ?d r" using P(4) paid_set_pp[OF pp] by simp
      ultimately show ?thesis using P by (simp add: take(1) subset_insertI2)
    qed
  qed (use J in \<open>simp add: only_affected_def\<close>)
  have "filter (\<lambda>r. bs_user r = u \<and> bs_mode r = m) (map snd prev) = []" if "(u, m) \<notin> set a" for u m
    using P that by (auto simp: filter_empty_conv)
  then have rows: "user_rows (bn_best d @ map snd prev) u m = user_rows (bn_best db) u m" if "(u, m) \<notin> set a" for u m
    using P that by (simp add: user_rows_def)
  have p: "paid (d\<lparr>bn_best := rs\<rparr>) = paid d" for rs by (simp add: fun_eq_iff paid_def)
  have "\<forall>r \<in> set (bn_best d @ map snd prev). paid d r" using P by auto
  moreover have "user_rows (bn_best d @ map snd prev) u m = user_rows (bn_best db0) u m" if "(u, m) \<notin> set a" for u m
  proof -
    have "(u, m) \<notin> set aff" using P that by blast
    with rows[OF that] J show ?thesis by (simp add: only_affected_def)
  qed
  ultimately show ?thesis
    using P J by (simp add: only_affected_def st p ident_def)
qed

lemma fold_ban_affected: "only_affected db0 st \<Longrightarrow> only_affected db0 (fold ban_map bs st)"
  by (induction bs arbitrary: st) (simp_all add: ban_map_affected)

lemma refresh_stats:
  "bn_stats (refresh_player p db) = update_first (\<lambda>st. stat_key st = p)
     (\<lambda>st. st\<lparr>us_pp := fst (calculate_user_pp (bn_best db) (fst p) (snd p)), hit_accuracy := snd (calculate_user_pp (bn_best db) (fst p) (snd p))\<rparr>) (bn_stats db)"
  by (cases p) (simp add: refresh_player_def stat_key_def split_beta)

lemma update_first_keyed:
  "distinct (map k xs) \<Longrightarrow> update_first (\<lambda>x. k x = p) f xs = map (\<lambda>x. if k x = p then f x else x) xs"
proof (induction xs)
  case (Cons x xs)
  show ?case
  proof (cases "k x = p")
    case True
    with Cons.prems have "p \<notin> k ` set xs" by simp
    then have "map (\<lambda>x. if k x = p then f x else x) xs = xs" by (intro map_idI) auto
    with True show ?thesis by simp
  qed (use Cons in simp)
qed simp

text \<open>Refreshing the affected players makes every row current whose player was affected or was current before.\<close>

lemma refreshed_current:
  assumes "distinct (map stat_key (bn_stats db))" "list_all (\<lambda>st. stat_key st \<in> set ps \<or> pp_current (bn_best db) st) (bn_stats db)"
  shows "list_all (pp_current (bn_best db)) (bn_stats (fold refresh_player ps db)) \<and>
    map stat_key (bn_stats (fold refresh_player ps db)) = map stat_key (bn_stats db)"
  using assms
proof (induction ps arbitrary: db)
  case (Cons p ps)
  let ?f = "\<lambda>st. if stat_key st = p then st\<lparr>us_pp := fst (calculate_user_pp (bn_best db) (fst p) (snd p)),
      hit_accuracy := snd (calculate_user_pp (bn_best db) (fst p) (snd p))\<rparr> else st"
  let ?db = "refresh_player p db"
  have s: "bn_stats ?db = map ?f (bn_stats db)" by (simp add: refresh_stats update_first_keyed[OF Cons.prems(1)])
  have b: "bn_best ?db = bn_best db" by (simp add: refresh_player_def split_beta)
  have k: "stat_key (?f st) = stat_key st" for st by (simp add: stat_key_def)
  have ks: "map stat_key (bn_stats ?db) = map stat_key (bn_stats db)" by (simp add: s comp_def k)
  have keep: "stat_key (?f st) \<in> set ps \<or> pp_current (bn_best db) (?f st)" if "stat_key st \<in> set (p # ps) \<or> pp_current (bn_best db) st" for st
    using that by (auto simp: pp_current_def stat_key_def)
  have "list_all (\<lambda>st. stat_key st \<in> set ps \<or> pp_current (bn_best ?db) st) (bn_stats ?db)"
    unfolding s b list.pred_map comp_def by (rule list.pred_mono_strong[OF Cons.prems(2)]) (rule keep)
  from Cons.IH[OF _ this] Cons.prems(1) show ?case by (simp add: b ks)
qed (simp add: list.pred_mono_strong)

lemma user_pp_of_rows:
  "user_rows best u m = user_rows best' u m \<Longrightarrow> calculate_user_pp best u m = calculate_user_pp best' u m"
  by (simp add: calculate_user_pp_def get_user_best_pp_def user_rows_def)

text \<open>
  C32: If before a run of the hourly job every row of the pp table belongs to a score with pp and every
  player's pp and accuracy are those of the table, this is so after the run: bans and lifted bans reach the
  totals of all players they touch. (Scores and statistics have their keys, and no pp is negative.)
\<close>

theorem ban_job_keeps_pp_settled:
  assumes "\<forall>s raw g p f. be_calc env s raw g = Inr (p, f) \<longrightarrow> 0 \<le> p"
    and "pp_settled db" "recalculate_banned_beatmap env db = Inr db'"
  shows "pp_settled db'"
proof -
  have start: "only_affected db (db, [])" using assms(2) by (simp add: only_affected_def pp_settled_def)
  obtain d a where e: "each (unban_map env) (unbanned db) (fold ban_map (newly_banned db) (db, [])) = Inr (d, a)"
    and db': "db' = (fold refresh_player (uniq_first a) d)\<lparr>bn_last := Some (filter (\<lambda>b. b \<in> set (current_bans db)) (last_bans db) @ newly_banned db)\<rparr>"
    using job_parts[OF assms(3)] by blast
  have J: "only_affected db (d, a)"
  proof (rule each_inv[OF e, where P = "only_affected db"])
    show "only_affected db (fold ban_map (newly_banned db) (db, []))" by (rule fold_ban_affected[OF start])
  next
    fix c s s' assume "only_affected db s" "unban_map env c s = Inr s'"
    then show "only_affected db s'" by (cases s) (use unban_map_affected[OF assms(1)] in blast)
  qed
  have k: "map stat_key (bn_stats d) = map stat_key (bn_stats db)" "bn_stats d = bn_stats db" using J by (simp_all add: only_affected_def)
  have "stat_key st \<in> set (uniq_first a) \<or> pp_current (bn_best d) st" if "pp_current (bn_best db) st" for st
    using J that user_pp_of_rows[of "bn_best d" "us_user st" "us_mode st" "bn_best db"]
    by (cases "stat_key st \<in> set a") (simp_all add: only_affected_def pp_current_def stat_key_def)
  then have "list_all (\<lambda>st. stat_key st \<in> set (uniq_first a) \<or> pp_current (bn_best d) st) (bn_stats d)"
    using assms(2) unfolding k(2) pp_settled_def by (metis (mono_tags, lifting) list.pred_mono_strong)
  from refreshed_current[OF _ this] assms(2) k have r: "list_all (pp_current (bn_best d)) (bn_stats db')" "distinct (map stat_key (bn_stats db'))"
    by (simp_all add: pp_settled_def db')
  have same: "bn_best db' = bn_best d" "bn_scores db' = bn_scores d" by (simp_all add: db' refresh_frame)
  have ids: "distinct (map sc_id (bn_scores d))" using J assms(2) ids_of_ident[of d db] by (simp add: only_affected_def pp_settled_def)
  have "paid db' = paid d" by (simp add: fun_eq_iff paid_def same)
  with r same ids J show ?thesis by (simp add: pp_settled_def only_affected_def)
qed

section \<open>Concrete runs\<close>

text \<open>One score of 120 pp on the map 42 and its row; the calculator answers 120 again unless the map is banned.\<close>

definition sample_ban_env :: "unit ban_env" where
  "sample_ban_env = \<lparr>be_config = std_config, be_validate = (\<lambda>_ _. True), be_ranked = [], be_status = (\<lambda>_. Some RANKED),
     be_fetch = (\<lambda>_ _. Inr (Some ())), be_calc = (\<lambda>_ _ b. Inr (if b then 0 else 120, False))\<rparr>"

definition sample_paid_score :: score_row where
  "sample_paid_score = sample_score\<lparr>sc_pp := 120\<rparr>"

definition settled_stats :: "best_score list \<Rightarrow> user_statistics" where
  "settled_stats best = sample_stats\<lparr>us_pp := fst (calculate_user_pp best 7 OSU), hit_accuracy := snd (calculate_user_pp best 7 OSU)\<rparr>"

definition sample_ban_db :: "banned_beatmap list \<Rightarrow> int list option \<Rightarrow> ban_db" where
  "sample_ban_db bans seen =
     \<lparr>bn_scores = [sample_paid_score], bn_best = [restored_row sample_score 120],
      bn_stats = [settled_stats [restored_row sample_score 120]], bn_bans = bans, bn_last = seen\<rparr>"

definition auto_ban :: banned_beatmap where
  "auto_ban = \<lparr>bd_beatmap = 42, bd_source = ''auto_policy''\<rparr>"

lemma sample_fields [simp]:
  "sc_id sample_score = 1" "sc_user sample_score = 7" "sc_beatmap sample_score = 42" "sc_mode sample_score = OSU" "sc_passed sample_score"
  "sc_mods sample_score = []" "sc_pp sample_score = 0" "sc_accuracy sample_score = 49 / 50" "us_user sample_stats = 7" "us_mode sample_stats = OSU"
  by (simp_all add: sample_score_def sample_stats_def)

lemma sample_restored:
  "sc_mods s = [] \<Longrightarrow> restored_pp sample_ban_env b s = Inr (if b then None else Some 120, False)"
  by (simp add: restored_pp_def sample_ban_env_def numeral_eq_Suc has_pp_def mods_can_get_pp_def)

lemma sample_ban_run:
  "recalculate_banned_beatmap sample_ban_env (sample_ban_db [auto_ban] (Some [])) =
   Inr \<lparr>bn_scores = [sample_score], bn_best = [], bn_stats = [settled_stats []], bn_bans = [auto_ban], bn_last = Some [42]\<rparr>"
proof -
  have "sample_paid_score\<lparr>sc_pp := 0\<rparr> = sample_score" by (simp add: sample_paid_score_def sample_score_def)
  then show ?thesis
    by (simp add: recalculate_banned_beatmap_def sample_ban_db_def newly_banned_def unbanned_def current_bans_def last_bans_def auto_ban_def
        ban_map_def refresh_player_def split_beta settled_stats_def restored_row_def sample_paid_score_def)
qed

lemma sample_settled: "pp_settled (sample_ban_db bans seen)"
  by (simp add: pp_settled_def sample_ban_db_def paid_def paid_ids_def play_ident_def restored_row_def pp_current_def settled_stats_def
      sample_paid_score_def)

lemma ban_job_keeps_pp_settled_witness:
  "pp_settled \<lparr>bn_scores = [sample_score], bn_best = [], bn_stats = [settled_stats []], bn_bans = [auto_ban], bn_last = Some [42]\<rparr>"
proof -
  have "\<forall>s raw g p f. be_calc sample_ban_env s raw g = Inr (p, f) \<longrightarrow> 0 \<le> p" by (simp add: sample_ban_env_def)
  from ban_job_keeps_pp_settled[OF this sample_settled sample_ban_run] show ?thesis .
qed

lemma lifted_ban_is_never_restored_witness:
  "\<exists>db2. recalculate_banned_beatmap sample_ban_env
       \<lparr>bn_scores = [sample_score], bn_best = [], bn_stats = [settled_stats []], bn_bans = [], bn_last = Some []\<rparr> = Inr db2 \<and>
     rows_on_map 42 db2 = ([sample_score], []) \<and> 42 \<notin> set (last_bans db2)"
proof -
  let ?db = "\<lparr>bn_scores = [sample_score], bn_best = [], bn_stats = [settled_stats []], bn_bans = [auto_ban], bn_last = Some [42]\<rparr>"
  let ?db1 = "\<lparr>bn_scores = [sample_score], bn_best = [], bn_stats = [settled_stats []], bn_bans = [], bn_last = Some []\<rparr>"
  have r: "reverify_banned_beatmaps (\<lambda>_. Inr (Some ())) (\<lambda>_. Inr False) ?db = (\<lparr>rv_removed = [42], rv_kept = [], rv_manual = []\<rparr>, ?db1)"
    by (simp add: reverify_banned_beatmaps_def ban_lifted_def auto_ban_def)
  obtain db2 where j: "recalculate_banned_beatmap sample_ban_env ?db1 = Inr db2"
    by (simp add: recalculate_banned_beatmap_def newly_banned_def unbanned_def current_bans_def last_bans_def)
  from lifted_ban_is_never_restored[OF r, of 42, OF _ _ _ j] j show ?thesis by (simp add: rows_on_map_def)
qed

text \<open>After a cold start of Redis the bans of that moment count as seen although their rows are still there. When
  such a ban is lifted, the restored row collides with the one that was never deleted: the job fails, and
  fails again every hour, because it fails before it remembers anything.\<close>

lemma cold_start_blocks_the_job:
  "\<exists>db1. recalculate_banned_beatmap sample_ban_env (sample_ban_db [auto_ban] None) = Inr db1 \<and> bn_best db1 = [restored_row sample_score 120] \<and>
     recalculate_banned_beatmap sample_ban_env (db1\<lparr>bn_bans := []\<rparr>) = Inl IntegrityError"
proof -
  have j: "recalculate_banned_beatmap sample_ban_env (sample_ban_db [auto_ban] None) = Inr (sample_ban_db [auto_ban] (Some [42]))"
    by (simp add: recalculate_banned_beatmap_def sample_ban_db_def newly_banned_def unbanned_def current_bans_def last_bans_def auto_ban_def)
  have "recalculate_banned_beatmap sample_ban_env ((sample_ban_db [auto_ban] (Some [42]))\<lparr>bn_bans := []\<rparr>) = Inl IntegrityError"
    by (simp add: recalculate_banned_beatmap_def sample_ban_db_def newly_banned_def unbanned_def current_bans_def last_bans_def unban_map_def
        restore_score_def sample_restored sample_paid_score_def is_banned_def restored_row_def)
  with j show ?thesis by (simp add: sample_ban_db_def)
qed

text \<open>Lifting a ban gives pp that a submission is refused, and one row to a player who has scores in two modes.\<close>

lemma lifted_ban_pays_low_accuracy_relax:
  "restored_pp sample_ban_env False (sample_score\<lparr>sc_mode := OSURX, sc_accuracy := 1 / 2\<rparr>) = Inr (Some 120, False) \<and>
   (\<exists>r. process_score_pp std_config (\<lambda>_ _. True) [] (120, True) (sample_score\<lparr>sc_mode := OSURX, sc_accuracy := 1 / 2\<rparr>) [] = Inr r \<and>
      skip_reason r = Some RX_acc_too_low)"
  by (simp add: sample_restored process_score_pp_def fl_gate_def can_get_pp_def mods_can_get_pp_def RELAX_AP_MODES_def pp_unchanged_def
      sample_score_def)

lemma lifted_ban_forgets_a_mode:
  "\<exists>db2 aff. unban_map sample_ban_env 42
       (\<lparr>bn_scores = [sample_score, sample_score\<lparr>sc_id := 2, sc_mode := OSURX\<rparr>], bn_best = [], bn_stats = [], bn_bans = [], bn_last = Some [42]\<rparr>, []) =
     Inr (db2, aff) \<and> map bs_mode (bn_best db2) = [OSU]"
  by (simp add: unban_map_def restore_score_def sample_restored is_banned_def restored_row_def note_ban_def set_pp_def)

end
