(* ===== verification/Spec2Isabelle.thy ===== *)
theory Spec2Isabelle
  imports Prelude GameModes Mods Multiplier Points PlayerPP Leaderboard PlayerTotals Achievements RecalcJobs Playlists Pins Teams Relations SessionGate Passwords OAuthApps Donations BannedMaps
begin

text \<open>
  A verification development for the torii-server backend, a Python fork of g0v0-server: the server
  behind an osu! client, with its score submission, leaderboards, pp, points and accounts.

  \<^bold>\<open>The program and how its parts interact.\<close>
  A client signs in (\<^verbatim>\<open>src/app/router/auth.py\<close>, \<^verbatim>\<open>src/app/auth.py\<close>), asks for a score token, plays, and
  submits the score for the token (\<^verbatim>\<open>src/app/router/v2/score.py\<close>). The submission builds a score row, and a
  background job updates the player's statistics, the table of best totals behind the leaderboards, the
  table of best pp behind the player's pp, the medals and the points
  (\<^verbatim>\<open>src/app/database/score.py\<close>, \<^verbatim>\<open>src/app/tasks/\<close>, \<^verbatim>\<open>src/app/service/points_service.py\<close>). Points are spent in the
  cosmetics store. Rooms and the daily challenge reuse the submission with their own tables. The
  recalculation tool (\<^verbatim>\<open>src/tools/recalculate.py\<close>) rebuilds the tables from the scores. Teams, friends,
  donations and third-party applications are services of their own over the users.

  \<^bold>\<open>Conventions\<close> (theory Prelude has the details).
  A handler is a function from the tables it reads, the time and its inputs to the changed tables, or to
  the exception it ends with: the \<open>Inl\<close> of a sum, where an HTTP answer with an error status is
  \<open>HTTPException\<close>. A request that raises leaves the database as it was, because nothing was committed. A table is
  the list of its rows in insertion order. A \<^verbatim>\<open>float\<close> is a real number: rounding to binary64 is not
  modelled, so nothing is said about the last digits of a pp. Integers are unbounded, as in Python;
  the widths of database columns are not modelled. Strings are ASCII where case or digits matter. A moment
  is a number of seconds since 1970. Messages of exceptions may be shortened; their status is the code's.

  What is not code of the repository is an argument: the pp and difficulty calculators, the validator of
  submitted mods where it is used by the pipeline, bcrypt, pyotp and generated random strings, what the
  JSON and schema decoders made of a body, the collation of the database, pictures and mail delivery.
  Properties that need a law of such an argument state it as a hypothesis.

  \<^bold>\<open>The theories, in the order of the plan.\<close>
  Foundations:
  \<^item> \<^bold>\<open>Prelude\<close>: exceptions, rounding, ASCII strings, decimal numbers, ordered dictionaries; the generic lemmas.
  \<^item> \<^bold>\<open>Calendar\<close>, \<^bold>\<open>Weeks\<close>: days, civil dates, ISO weeks (\<^verbatim>\<open>src/app/utils.py\<close>).
  \<^item> \<^bold>\<open>Tables\<close>: the rows several components share. \<^bold>\<open>Redis\<close>: keys with a time to live.
  \<^item> \<^bold>\<open>KeepBest\<close>: the locale \<open>keep_best\<close>, the contract of a table with one row per key that a better row
    replaces. It has four instances, each on the model's own functions: the pp table (PlayerPP), the table of best
    totals (Leaderboard), the table recalculation builds (Recalculate) and the rows of playlists
    (PlaylistScores). Each gets that the row of a key is a maximum of what was submitted.

  Scores:
  \<^item> \<^bold>\<open>GameModes\<close>: modes, ranks, hit results, the submission and its validator (\<^verbatim>\<open>src/app/models/score.py\<close>).
  \<^item> \<^bold>\<open>Mods\<close>: legacy bit fields, the table of mods that may earn pp and its file (\<^verbatim>\<open>src/app/models/mods.py\<close>).
  \<^item> \<^bold>\<open>Multiplier\<close>: the score multiplier of mods (\<^verbatim>\<open>src/app/calculators/score_multiplier.py\<close>).
  \<^item> \<^bold>\<open>BeatmapModels\<close>: rank status and search parameters. \<^bold>\<open>Calculator\<close>: display scores, levels, weights and the
    rules after the calculator (\<^verbatim>\<open>src/app/calculator.py\<close>).
  \<^item> \<^bold>\<open>PlayerPP\<close>: the pp of a score and the weighted sum of a player. \<^bold>\<open>Leaderboard\<close>: the table of best totals, the paged
    query as a loop, positions.
  \<^item> \<^bold>\<open>Submission\<close>: \<^verbatim>\<open>submit_score\<close>, \<^verbatim>\<open>process_score\<close>, \<^verbatim>\<open>process_user\<close> and the background pass as functions on one
    state. \<^bold>\<open>Processing\<close>: its step relation \<open>game_step\<close>, frames, and the correspondence of tokens and scores.
    \<^bold>\<open>PlayerTotals\<close>: grade counters and ranked score against the best rows, in every reachable state.
  \<^item> \<^bold>\<open>Achievements\<close>: every medal condition, the medal tables, \<^verbatim>\<open>process_achievements\<close>.
  \<^item> \<^bold>\<open>Recalculate\<close>, \<^bold>\<open>RecalcJobs\<close>: targets, rebuilt tables and statistics, the retry loop, the three jobs; they
    are compared with what live submission leaves. \<^bold>\<open>BannedMaps\<close>: the job that takes pp away and gives it back.

  Points, rooms and cosmetics:
  \<^item> \<^bold>\<open>Points\<close>: the ledger and every award. The locale \<open>ledger_operation\<close> is the contract of an operation that
    changes balances by appending ledger lines only, \<open>keyed_operation\<close> extends it by paying a key at most
    once; each award is an instance.
  \<^item> \<^bold>\<open>Store\<close>: codes, gifts, purchases. \<^bold>\<open>Cosmetics\<close>: groups, auras and name colours.
  \<^item> \<^bold>\<open>DailyChallenge\<close>: streaks and placements. \<^bold>\<open>PlaylistScores\<close>, \<^bold>\<open>Playlists\<close>: rooms. \<^bold>\<open>Pins\<close>: pinned scores.

  Users:
  \<^item> \<^bold>\<open>Sessions\<close>: tokens, grants, second factors; \<^bold>\<open>SessionGate\<close> proves what any sequence of requests keeps.
    \<^bold>\<open>Passwords\<close>: names, resets and changes. \<^bold>\<open>OAuthApps\<close>: applications and authorization codes.
  \<^item> \<^bold>\<open>Teams\<close>: teams and join requests. \<^bold>\<open>Relations\<close>: friends and blocks. \<^bold>\<open>Donations\<close>: the webhook and supporter time.

  \<^bold>\<open>What the lemmas show.\<close>
  Each stateful component has a relation of its accepted requests in any order (\<open>points_step\<close>, \<open>store_step\<close>,
  \<open>game_step\<close>, \<open>daily_step\<close>, \<open>team_step\<close>, \<open>relation_step\<close>, \<open>sign_in_run\<close>, \<open>apps_run\<close>, \<open>donation_step\<close>), an
  invariant, a lemma that each operation keeps it, and the consequences for every reachable state. Requests
  run one after the other: two handlers interleaved inside one database transaction are not modelled.
  Other groups compare the code with a reference: the paged leaderboard with one sorted pass, tables after
  recalculation with the live ones, streaks with runs of days, the relation table with a map, the pin order with
  a list. Some lemmas record where the code does something else than its comments say.

  \<^bold>\<open>Termination and bounds.\<close>
  No definition uses fuel. Loops over data are structural; the page loop of the leaderboard and the level loop
  terminate by measures (rows not yet read, levels left). The retry loop of recalculation has no bound in the code and is a
  \<open>partial_function (option)\<close>, with a proof of when it returns and of when it does not. Bounds proved over
  inputs (points per day, redemptions of a code, attempts at a reset code, tokens per client) are those of the code's constants.

  \<^bold>\<open>Not modelled, and why.\<close>
  Registration (limits around one insertion by outside services), the administrators' forms and reports other
  than those of donations, the assembly of answers from user and map records, rankings and other caches of
  answers, clients of other map servers, chat and notifications, the interfaces of the separate spectator
  server, heuristics that write alerts for moderators, alternative pp figures computed by outside
  calculators, mail, pictures and text markup, settings and start-up. They are input and output, or keep no
  state whose correctness is decided in this code. The components that are modelled in part name what is missing in their own theory.
\<close>

end
